(* ===== verification/Prelude.thy ===== *)
theory Prelude
  imports Main "HOL-Library.AList" "HOL-Library.Multiset"
begin

text \<open>
  What every component of the development shares.

  \<^item> \<open>outcome\<close>: what a Rust call ends with. \<open>Ok\<close> and \<open>Err\<close> are the two values of
    \<^verbatim>\<open>anyhow::Result\<close> (an error is its message, as \<^verbatim>\<open>to_string\<close> prints it), \<open>Panic\<close> is an
    \<^verbatim>\<open>unwrap\<close>, index or arithmetic that aborts the thread.
  \<^item> \<open>action\<close>: a call that may change a state, as a function from the state to its outcome
    and the new state. A failing call keeps the changes it made before it failed.
    \<open>bindA\<close> is the \<^verbatim>\<open>?\<close> operator.
  \<^item> \<open>triple\<close>: what a call guarantees from a precondition: it does not panic, its value
    and state satisfy the first postcondition, and the state left by an error the second.
  \<^item> tables: a \<^verbatim>\<open>HashMap\<close>, \<^verbatim>\<open>BTreeMap\<close> or JSON object is an association list with
    distinct keys (\<open>HOL-Library.AList\<close>); the order of the list is the map's iteration
    order, which a \<^verbatim>\<open>HashMap\<close> leaves unspecified.
  \<^item> strings: a Rust \<^verbatim>\<open>str\<close> is the list of its UTF-8 bytes, so \<open>length\<close> is \<^verbatim>\<open>len()\<close>.
  \<^item> \<open>machine\<close>: the contract of a state whose operations keep an invariant.
\<close>

named_theorems wp \<open>rules that compute what an action guarantees\<close>
named_theorems table \<open>lookups in, keys of and lengths of updated tables\<close>

section \<open>Outcomes and actions\<close>

type_synonym error = string

datatype 'a outcome = Ok 'a | Err error | Panic

primrec bindO :: "'a outcome \<Rightarrow> ('a \<Rightarrow> 'b outcome) \<Rightarrow> 'b outcome" where
  "bindO (Ok a) f = f a"
| "bindO (Err e) f = Err e"
| "bindO Panic f = Panic"

definition ensure :: "bool \<Rightarrow> error \<Rightarrow> unit outcome" where
  "ensure b e = (if b then Ok () else Err e)"

primrec context_of :: "'a option \<Rightarrow> error \<Rightarrow> 'a outcome" where
  "context_of None e = Err e"
| "context_of (Some a) e = Ok a"

primrec is_ok :: "'a outcome \<Rightarrow> bool" where
  "is_ok (Ok a) = True"
| "is_ok (Err e) = False"
| "is_ok Panic = False"

text \<open>\<^verbatim>\<open>iter().map(f).collect::<Result<Vec<_>>>()\<close>: the first failure ends it.\<close>

fun mapO :: "('a \<Rightarrow> 'b outcome) \<Rightarrow> 'a list \<Rightarrow> 'b list outcome" where
  "mapO f [] = Ok []"
| "mapO f (x # xs) = bindO (f x) (\<lambda>y. bindO (mapO f xs) (\<lambda>ys. Ok (y # ys)))"

type_synonym ('s, 'a) action = "'s \<Rightarrow> 'a outcome \<times> 's"

definition retA :: "'a \<Rightarrow> ('s, 'a) action" where
  "retA a s = (Ok a, s)"

definition errA :: "error \<Rightarrow> ('s, 'a) action" where
  "errA e s = (Err e, s)"

definition panicA :: "('s, 'a) action" where
  "panicA s = (Panic, s)"

definition liftA :: "'a outcome \<Rightarrow> ('s, 'a) action" where
  "liftA r s = (r, s)"

definition getA :: "('s \<Rightarrow> 'a) \<Rightarrow> ('s, 'a) action" where
  "getA f s = (Ok (f s), s)"

definition modA :: "('s \<Rightarrow> 's) \<Rightarrow> ('s, unit) action" where
  "modA f s = (Ok (), f s)"

definition bindA :: "('s, 'a) action \<Rightarrow> ('a \<Rightarrow> ('s, 'b) action) \<Rightarrow> ('s, 'b) action" where
  "bindA m f s = (case m s of
      (Ok a, t) \<Rightarrow> f a t
    | (Err e, t) \<Rightarrow> (Err e, t)
    | (Panic, t) \<Rightarrow> (Panic, t))"

text \<open>\<open>tryA m\<close> observes the result of \<open>m\<close> (\<^verbatim>\<open>match\<close>, \<^verbatim>\<open>let _ =\<close>, \<^verbatim>\<open>if let Err\<close>) instead of
  passing an error on; a panic still ends the caller.\<close>

definition tryA :: "('s, 'a) action \<Rightarrow> ('s, error + 'a) action" where
  "tryA m s = (case m s of
      (Ok a, t) \<Rightarrow> (Ok (Inr a), t)
    | (Err e, t) \<Rightarrow> (Ok (Inl e), t)
    | (Panic, t) \<Rightarrow> (Panic, t))"

fun forA :: "'a list \<Rightarrow> ('a \<Rightarrow> ('s, unit) action) \<Rightarrow> ('s, unit) action" where
  "forA [] f = retA ()"
| "forA (x # xs) f = bindA (f x) (\<lambda>_. forA xs f)"

lemmas action_defs =
  retA_def errA_def panicA_def liftA_def getA_def modA_def bindA_def tryA_def

lemma bindO_cong [fundef_cong]:
  "m = m' \<Longrightarrow> (\<And>a. m' = Ok a \<Longrightarrow> f a = f' a) \<Longrightarrow> bindO m f = bindO m' f'"
  by (cases m') auto

lemma mapO_cong [fundef_cong]:
  "xs = ys \<Longrightarrow> (\<And>x. x \<in> set ys \<Longrightarrow> f x = g x) \<Longrightarrow> mapO f xs = mapO g ys"
  by (induction xs arbitrary: ys) auto

lemma bindO_eq_Ok: "bindO m f = Ok b \<longleftrightarrow> (\<exists>a. m = Ok a \<and> f a = Ok b)"
  by (cases m) auto

lemma ensure_Ok [simp]: "ensure b e = Ok u \<longleftrightarrow> b"
  by (auto simp: ensure_def)

lemma ensure_simps [simp]: "ensure True e = Ok ()" "ensure False e = Err e"
  by (simp_all add: ensure_def)

lemma ensure_Panic [simp]: "ensure b e \<noteq> Panic"
  by (auto simp: ensure_def)

lemma context_of_Ok [simp]: "context_of x e = Ok a \<longleftrightarrow> x = Some a"
  by (cases x) auto

lemma context_of_Err [simp]: "context_of x e = Err f \<longleftrightarrow> x = None \<and> f = e"
  by (cases x) auto

lemma ensure_Err [simp]: "ensure b e = Err f \<longleftrightarrow> \<not> b \<and> f = e"
  by (auto simp: ensure_def)

lemma context_of_Panic [simp]: "context_of x e \<noteq> Panic"
  by (cases x) auto

lemma bindO_Panic: "bindO m f = Panic \<longleftrightarrow> m = Panic \<or> (\<exists>a. m = Ok a \<and> f a = Panic)"
  by (cases m) auto

lemma is_ok_iff: "is_ok r \<longleftrightarrow> (\<exists>a. r = Ok a)"
  by (cases r) auto

lemma mapO_Ok: "mapO f xs = Ok ys \<longleftrightarrow> list_all2 (\<lambda>x y. f x = Ok y) xs ys"
proof (induction xs arbitrary: ys)
  case Nil
  then show ?case by auto
next
  case (Cons x xs)
  show ?case
    by (cases ys) (auto simp: bindO_eq_Ok Cons.IH)
qed

lemma mapO_Panic: "mapO f xs = Panic \<Longrightarrow> \<exists>x \<in> set xs. f x = Panic"
  by (induction xs) (auto simp: bindO_Panic)

lemma mapO_map_Ok: "(\<And>x. x \<in> set xs \<Longrightarrow> f x = Ok (g x)) \<Longrightarrow> mapO f xs = Ok (map g xs)"
  by (induction xs) auto

section \<open>What an action guarantees\<close>

definition triple ::
  "('s \<Rightarrow> bool) \<Rightarrow> ('s, 'a) action \<Rightarrow> ('a \<Rightarrow> 's \<Rightarrow> bool) \<Rightarrow> ('s \<Rightarrow> bool) \<Rightarrow> bool" where
  "triple P m Q E \<longleftrightarrow> (\<forall>s. P s \<longrightarrow> (case m s of
      (Ok a, t) \<Rightarrow> Q a t
    | (Err e, t) \<Rightarrow> E t
    | (Panic, t) \<Rightarrow> False))"

lemma tripleI:
  assumes "\<And>s a t. P s \<Longrightarrow> m s = (Ok a, t) \<Longrightarrow> Q a t"
    and "\<And>s e t. P s \<Longrightarrow> m s = (Err e, t) \<Longrightarrow> E t"
    and "\<And>s t. P s \<Longrightarrow> m s = (Panic, t) \<Longrightarrow> False"
  shows "triple P m Q E"
  unfolding triple_def
proof (intro allI impI)
  fix s assume P: "P s"
  show "case m s of (Ok a, t) \<Rightarrow> Q a t | (Err e, t) \<Rightarrow> E t | (Panic, t) \<Rightarrow> False"
    using assms P by (cases "m s") (auto split: outcome.split)
qed

lemma triple_Ok: "triple P m Q E \<Longrightarrow> P s \<Longrightarrow> m s = (Ok a, t) \<Longrightarrow> Q a t"
  by (fastforce simp: triple_def)

lemma triple_Err: "triple P m Q E \<Longrightarrow> P s \<Longrightarrow> m s = (Err e, t) \<Longrightarrow> E t"
  by (fastforce simp: triple_def)

lemma triple_no_panic: "triple P m Q E \<Longrightarrow> P s \<Longrightarrow> fst (m s) \<noteq> Panic"
  by (cases "m s") (fastforce simp: triple_def)

lemma triple_pre: "triple P' m Q E \<Longrightarrow> (\<And>s. P s \<Longrightarrow> P' s) \<Longrightarrow> triple P m Q E"
  by (auto simp: triple_def)

lemma triple_post:
  "triple P m Q' E' \<Longrightarrow> (\<And>a s. Q' a s \<Longrightarrow> Q a s) \<Longrightarrow> (\<And>s. E' s \<Longrightarrow> E s) \<Longrightarrow> triple P m Q E"
  unfolding triple_def by (force split: outcome.splits prod.splits)

lemma triple_bind [wp]:
  "triple P m R E \<Longrightarrow> (\<And>a. triple (R a) (f a) Q E) \<Longrightarrow> triple P (bindA m f) Q E"
  unfolding triple_def bindA_def by (force split: outcome.splits prod.splits)

lemma triple_ret [wp]: "triple (Q a) (retA a) Q E"
  by (simp add: triple_def retA_def)

lemma triple_err [wp]: "triple E (errA e) Q E"
  by (simp add: triple_def errA_def)

lemma triple_get [wp]: "triple (\<lambda>s. Q (f s) s) (getA f) Q E"
  by (simp add: triple_def getA_def)

lemma triple_mod [wp]: "triple (\<lambda>s. Q () (f s)) (modA f) Q E"
  by (simp add: triple_def modA_def)

lemma triple_lift [wp]:
  "triple (\<lambda>s. r \<noteq> Panic \<and> (\<forall>a. r = Ok a \<longrightarrow> Q a s) \<and> ((\<exists>e. r = Err e) \<longrightarrow> E s)) (liftA r) Q E"
  by (cases r) (auto simp: triple_def liftA_def)

lemma triple_try [wp]:
  "triple P m (\<lambda>a. Q (Inr a)) (\<lambda>s. \<forall>e. Q (Inl e) s) \<Longrightarrow> triple P (tryA m) Q E"
  unfolding triple_def tryA_def by (force split: outcome.splits prod.splits)

lemma triple_for [wp]:
  assumes "\<And>x. x \<in> set xs \<Longrightarrow> triple I (f x) (\<lambda>_. I) E"
  shows "triple I (forA xs f) (\<lambda>_. I) E"
  using assms
proof (induction xs)
  case Nil
  show ?case by (simp add: triple_def retA_def)
next
  case (Cons x xs)
  have "triple I (f x) (\<lambda>_. I) E" by (simp add: Cons.prems)
  moreover have "triple I (forA xs f) (\<lambda>_. I) E" using Cons by simp
  ultimately show ?case by (auto intro: triple_bind)
qed

lemma triple_if [wp]:
  "(b \<Longrightarrow> triple P m Q E) \<Longrightarrow> (\<not> b \<Longrightarrow> triple P n Q E) \<Longrightarrow> triple P (if b then m else n) Q E"
  by simp

lemma triple_conj:
  assumes "triple P m Q E" "triple P' m Q' E'"
  shows "triple (\<lambda>s. P s \<and> P' s) m (\<lambda>a s. Q a s \<and> Q' a s) (\<lambda>s. E s \<and> E' s)"
  using assms unfolding triple_def by (force split: outcome.splits prod.splits)

lemma bindA_simps [simp]:
  "bindA (retA a) f = f a"
  "bindA (errA e) f = errA e"
  "bindA (liftA (Ok a)) f = f a"
  "bindA (liftA (Err e)) f = errA e"
  by (auto simp: action_defs)

lemma bindA_Ok: "bindA m f s = (Ok b, u) \<longleftrightarrow> (\<exists>a t. m s = (Ok a, t) \<and> f a t = (Ok b, u))"
  by (auto simp: bindA_def split: outcome.splits prod.splits)

section \<open>Tables\<close>

text \<open>\<open>keys t\<close> lists a table's keys, \<open>amap f k t\<close> rewrites the value at one key in place
  (\<^verbatim>\<open>get_mut\<close>), \<open>retain p t\<close> is \<^verbatim>\<open>HashMap::retain\<close>.\<close>

abbreviation keys :: "('k \<times> 'v) list \<Rightarrow> 'k list" where
  "keys t \<equiv> map fst t"

abbreviation vals :: "('k \<times> 'v) list \<Rightarrow> 'v list" where
  "vals t \<equiv> map snd t"

abbreviation retain :: "('k \<Rightarrow> 'v \<Rightarrow> bool) \<Rightarrow> ('k \<times> 'v) list \<Rightarrow> ('k \<times> 'v) list" where
  "retain p t \<equiv> filter (\<lambda>(k, v). p k v) t"

definition has :: "('k \<times> 'v) list \<Rightarrow> 'k \<Rightarrow> bool" where
  "has t k \<longleftrightarrow> map_of t k \<noteq> None"

lemma has_keys [simp]: "has t k \<longleftrightarrow> k \<in> set (keys t)"
  by (auto simp: has_def map_of_eq_None_iff)

lemma map_of_update [table, simp]:
  "map_of (AList.update k v t) k' = (if k' = k then Some v else map_of t k')"
  by (simp add: AList.update_conv')

lemma map_of_remove [table, simp]:
  "map_of (AList.delete k t) k' = (if k' = k then None else map_of t k')"
  by (simp add: AList.delete_conv')

lemma keys_update [table, simp]: "set (keys (AList.update k v t)) = insert k (set (keys t))"
  by (simp add: AList.dom_update)

lemma keys_remove [table, simp]: "set (keys (AList.delete k t)) = set (keys t) - {k}"
  by (auto simp: AList.delete_keys)

lemma fst_update [table, simp]: "fst ` set (AList.update k v t) = insert k (fst ` set t)"
  by (simp add: AList.dom_update)

lemma fst_remove [table, simp]: "fst ` set (AList.delete k t) = fst ` set t - {k}"
  using keys_remove [of k t] by simp

lemma distinct_keys_update [table, simp]:
  "distinct (keys t) \<Longrightarrow> distinct (keys (AList.update k v t))"
  by (rule AList.distinct_update)

lemma distinct_keys_remove [table, simp]:
  "distinct (keys t) \<Longrightarrow> distinct (keys (AList.delete k t))"
  by (rule AList.distinct_delete)

lemma distinct_keys_filter [table, simp]:
  "distinct (keys t) \<Longrightarrow> distinct (keys (filter p t))"
  by (induction t) auto

lemma update_fresh: "k \<notin> set (keys t) \<Longrightarrow> AList.update k v t = t @ [(k, v)]"
  by (induction t) auto

lemma remove_filter: "AList.delete k t = filter (\<lambda>(k', v). k' \<noteq> k) t"
  by (auto simp: AList.delete_eq intro: filter_cong)

lemma length_update [table]:
  "length (AList.update k v t) = (if k \<in> set (keys t) then length t else Suc (length t))"
  by (induction t) auto

lemma set_update_subset: "set (AList.update k v t) \<subseteq> insert (k, v) (set t)"
  by (induction t) auto

lemma set_remove_subset: "set (AList.delete k t) \<subseteq> set t"
  by (auto simp: remove_filter)

lemma in_set_update:
  "distinct (keys t) \<Longrightarrow>
   (x \<in> set (AList.update k v t)) = (x = (k, v) \<or> x \<in> set t \<and> fst x \<noteq> k)"
  by (induction t) auto

lemma in_set_remove [simp]: "x \<in> set (AList.delete k t) \<longleftrightarrow> x \<in> set t \<and> fst x \<noteq> k"
  by (auto simp: remove_filter)

lemma update_update [table, simp]: "AList.update k v (AList.update k w t) = AList.update k v t"
  by (induction t) auto

lemma remove_update [table, simp]: "AList.delete k (AList.update k v t) = AList.delete k t"
  by (induction t) (auto simp: AList.delete_eq)

lemma map_of_in_set: "map_of t k = Some v \<Longrightarrow> (k, v) \<in> set t"
  by (rule map_of_SomeD)

lemma map_of_filter_keys:
  "distinct (keys t) \<Longrightarrow> map_of (filter p t) k =
     (case map_of t k of None \<Rightarrow> None | Some v \<Rightarrow> if p (k, v) then Some v else None)"
proof (induction t)
  case Nil
  show ?case by simp
next
  case (Cons x t)
  then show ?case
    by (cases x) (auto split: option.splits simp: map_of_eq_None_iff dest: map_of_SomeD)
qed

text \<open>Sums over a table, for byte counts and resource accounting.\<close>

lemma mset_map_update_fresh:
  "k \<notin> set (keys t) \<Longrightarrow> mset (map f (AList.update k v t)) = add_mset (f (k, v)) (mset (map f t))"
  by (simp add: update_fresh)

lemma mset_map_remove:
  assumes "distinct (keys t)" "map_of t k = Some v"
  shows "mset (map f t) = add_mset (f (k, v)) (mset (map f (AList.delete k t)))"
  using assms
proof (induction t)
  case Nil
  then show ?case by simp
next
  case (Cons x t)
  show ?case
  proof (cases "fst x = k")
    case True
    with Cons.prems have "x = (k, v)" "k \<notin> set (keys t)" by (cases x, auto)+
    then show ?thesis by (simp add: image_iff)
  next
    case False
    with Cons show ?thesis by (cases x) auto
  qed
qed

lemma mset_map_update:
  assumes "distinct (keys t)" "map_of t k = Some w"
  shows "add_mset (f (k, w)) (mset (map f (AList.update k v t))) = add_mset (f (k, v)) (mset (map f t))"
  using assms
proof (induction t)
  case Nil
  then show ?case by simp
next
  case (Cons x t)
  show ?case
  proof (cases "fst x = k")
    case True
    with Cons.prems show ?thesis by (cases x) auto
  next
    case False
    with Cons show ?thesis by (cases x) (auto simp: add_mset_commute)
  qed
qed

lemma sum_list_filter_le:
  fixes f :: "'a \<Rightarrow> nat"
  shows "sum_list (map f (filter p xs)) \<le> sum_list (map f xs)"
  by (induction xs) auto

section \<open>Machine arithmetic\<close>

text \<open>\<^verbatim>\<open>usize\<close> and \<^verbatim>\<open>u64\<close> are 64 bits wide on the supported targets.
  \<open>sat_add\<close> is \<^verbatim>\<open>saturating_add\<close>; \<^verbatim>\<open>saturating_sub\<close> is subtraction on \<open>nat\<close>.\<close>

definition USIZE_MAX :: nat where
  "USIZE_MAX = 18446744073709551615"

definition sat_add :: "nat \<Rightarrow> nat \<Rightarrow> nat" where
  "sat_add a b = min USIZE_MAX (a + b)"

definition sat_mul :: "nat \<Rightarrow> nat \<Rightarrow> nat" where
  "sat_mul a b = min USIZE_MAX (a * b)"

lemma sat_add_le: "sat_add a b \<le> USIZE_MAX"
  by (simp add: sat_add_def)

lemma sat_add_ge: "a \<le> USIZE_MAX \<Longrightarrow> a \<le> sat_add a b" "b \<le> USIZE_MAX \<Longrightarrow> b \<le> sat_add a b"
  by (auto simp: sat_add_def)

lemma sat_add_mono: "a \<le> a' \<Longrightarrow> b \<le> b' \<Longrightarrow> sat_add a b \<le> sat_add a' b'"
  by (auto simp: sat_add_def)

section \<open>Operations that keep an invariant\<close>

text \<open>
  A component whose state is reached by operations only (behind its \<^verbatim>\<open>Mutex\<close>, or owned by
  the worker thread): every operation of an admissible run keeps \<open>inv\<close>.
\<close>

locale machine =
  fixes inv :: "'s \<Rightarrow> bool"
    and step :: "'e \<Rightarrow> 's \<Rightarrow> 's"
    and allowed :: "'e \<Rightarrow> 's \<Rightarrow> bool"
  assumes step_inv: "inv s \<Longrightarrow> allowed e s \<Longrightarrow> inv (step e s)"
begin

primrec run :: "'e list \<Rightarrow> 's \<Rightarrow> 's" where
  "run [] s = s"
| "run (e # es) s = run es (step e s)"

primrec admissible :: "'e list \<Rightarrow> 's \<Rightarrow> bool" where
  "admissible [] s = True"
| "admissible (e # es) s = (allowed e s \<and> admissible es (step e s))"

lemma run_inv: "inv s \<Longrightarrow> admissible es s \<Longrightarrow> inv (run es s)"
  by (induction es arbitrary: s) (auto simp: step_inv)

lemma run_append: "run (es @ fs) s = run fs (run es s)"
  by (induction es arbitrary: s) auto

lemma run_fold: "run es s = fold step es s"
  by (induction es arbitrary: s) auto

end

end
