(* ===== verification/Text_Lib.thy ===== *)
theory Text_Lib
  imports Prelude "HOL-Library.Sublist"
begin

text \<open>
  The operations on \<^verbatim>\<open>str\<close> that the program uses, over UTF-8 byte lists: splitting,
  trimming, ASCII case, decimal formatting and character boundaries. They model the Rust
  standard library, not code of the repository.
\<close>

section \<open>Splitting and joining\<close>

fun split_char :: "char \<Rightarrow> string \<Rightarrow> string list" where
  "split_char c [] = [[]]"
| "split_char c (x # s) =
     (if x = c then [] # split_char c s
      else (case split_char c s of [] \<Rightarrow> [[x]] | p # ps \<Rightarrow> (x # p) # ps))"

fun join :: "string \<Rightarrow> string list \<Rightarrow> string" where
  "join sep [] = []"
| "join sep [p] = p"
| "join sep (p # q # ps) = p @ sep @ join sep (q # ps)"

definition rsplit_next :: "char \<Rightarrow> string \<Rightarrow> string" where
  "rsplit_next c s = last (split_char c s)"

fun split_once :: "string \<Rightarrow> string \<Rightarrow> (string \<times> string) option" where
  "split_once pat s =
     (if prefix pat s then Some ([], drop (length pat) s)
      else (case s of [] \<Rightarrow> None
            | c # r \<Rightarrow> map_option (\<lambda>(a, b). (c # a, b)) (split_once pat r)))"

declare split_once.simps [simp del]

definition strip_prefix :: "string \<Rightarrow> string \<Rightarrow> string option" where
  "strip_prefix p s = (if prefix p s then Some (drop (length p) s) else None)"

definition strip_suffix :: "string \<Rightarrow> string \<Rightarrow> string option" where
  "strip_suffix p s = (if suffix p s then Some (take (length s - length p) s) else None)"

lemma split_char_nonempty [simp]: "split_char c s \<noteq> []"
  by (induction s) (auto split: list.splits)

lemma split_char_no_sep: "p \<in> set (split_char c s) \<Longrightarrow> c \<notin> set p"
proof (induction s arbitrary: p)
  case Nil
  then show ?case by simp
next
  case (Cons x s)
  then show ?case by (cases "split_char c s") (auto split: if_splits)
qed

lemma split_char_single: "c \<notin> set s \<Longrightarrow> split_char c s = [s]"
  by (induction s) auto

lemma split_char_append: "split_char c (p @ c # s) = butlast (split_char c p) @ last (split_char c p) # split_char c s"
proof (induction p)
  case Nil
  show ?case by simp
next
  case (Cons x p)
  then show ?case by (cases "split_char c p") (auto split: list.splits)
qed

lemma split_char_join:
  "ps \<noteq> [] \<Longrightarrow> (\<forall>p \<in> set ps. c \<notin> set p) \<Longrightarrow> split_char c (join [c] ps) = ps"
proof (induction "[c]" ps rule: join.induct)
  case (3 p q ps)
  then show ?case by (simp add: split_char_append split_char_single)
qed (auto simp: split_char_single)

lemma join_split_char: "join [c] (split_char c s) = s"
proof (induction s)
  case Nil
  show ?case by simp
next
  case (Cons x s)
  obtain p ps where "split_char c s = p # ps" by (cases "split_char c s") auto
  with Cons show ?case by (cases ps) auto
qed

lemma split_once_append:
  "split_once pat s = Some (a, b) \<Longrightarrow> s = a @ pat @ b"
proof (induction pat s arbitrary: a b rule: split_once.induct)
  case (1 pat s)
  show ?case
  proof (cases "prefix pat s")
    case True
    with "1.prems" show ?thesis by (auto simp: split_once.simps [of pat s] prefix_def)
  next
    case False
    with "1.prems" obtain c r where s: "s = c # r"
      by (cases s) (auto simp: split_once.simps [of pat "[]"])
    with False "1.prems" obtain a' where "split_once pat r = Some (a', b)" "a = c # a'"
      by (auto simp: split_once.simps [of pat "c # r"])
    with "1.IH" [OF False s] s show ?thesis by simp
  qed
qed

section \<open>Characters\<close>

definition code_of :: "char \<Rightarrow> nat" where
  "code_of c = of_char c"

lemma code_of_lt: "code_of c < 256"
  by (simp add: code_of_def)

lemma code_of_char_of [simp]: "n < 256 \<Longrightarrow> code_of (char_of n) = n"
  by (simp add: code_of_def)

definition is_digit :: "char \<Rightarrow> bool" where
  "is_digit c \<longleftrightarrow> 48 \<le> code_of c \<and> code_of c \<le> 57"

definition is_alnum :: "char \<Rightarrow> bool" where
  "is_alnum c \<longleftrightarrow> is_digit c \<or> 65 \<le> code_of c \<and> code_of c \<le> 90 \<or> 97 \<le> code_of c \<and> code_of c \<le> 122"

text \<open>\<^verbatim>\<open>|b| b.is_ascii_alphanumeric() || b == b'_'\<close>\<close>

definition ident_char :: "char \<Rightarrow> bool" where
  "ident_char c \<longleftrightarrow> is_alnum c \<or> code_of c = 95"

definition ident :: "string \<Rightarrow> bool" where
  "ident s \<longleftrightarrow> s \<noteq> [] \<and> list_all ident_char s"

lemma ident_no_slash: "list_all ident_char s \<Longrightarrow> CHR ''/'' \<notin> set s"
  by (induction s) (auto simp: ident_char_def is_alnum_def is_digit_def code_of_def)

definition lower :: "char \<Rightarrow> char" where
  "lower c = (if 65 \<le> code_of c \<and> code_of c \<le> 90 then char_of (code_of c + 32) else c)"

definition eq_ignore_case :: "string \<Rightarrow> string \<Rightarrow> bool" where
  "eq_ignore_case a b \<longleftrightarrow> map lower a = map lower b"

lemma eq_ignore_case_refl [simp]: "eq_ignore_case a a"
  by (simp add: eq_ignore_case_def)

lemma eq_ignore_case_sym: "eq_ignore_case a b \<longleftrightarrow> eq_ignore_case b a"
  by (auto simp: eq_ignore_case_def)

section \<open>Trimming\<close>

text \<open>\<^verbatim>\<open>str::trim\<close> removes the characters of Unicode's White_Space property; these are
  their UTF-8 encodings.\<close>

definition ws_encodings :: "nat list list" where
  "ws_encodings =
     [[9], [10], [11], [12], [13], [32], [194, 133], [194, 160], [225, 154, 128],
      [226, 128, 128], [226, 128, 129], [226, 128, 130], [226, 128, 131], [226, 128, 132],
      [226, 128, 133], [226, 128, 134], [226, 128, 135], [226, 128, 136], [226, 128, 137],
      [226, 128, 138], [226, 128, 168], [226, 128, 169], [226, 128, 175], [226, 129, 159],
      [227, 128, 128]]"

function strip_codes :: "nat list list \<Rightarrow> nat list \<Rightarrow> nat list" where
  "strip_codes ws s =
     (case find (\<lambda>w. w \<noteq> [] \<and> prefix w s) ws of
        None \<Rightarrow> s
      | Some w \<Rightarrow> strip_codes ws (drop (length w) s))"
  by pat_completeness auto
termination
proof (relation "measure (\<lambda>(ws, s). length s)")
  fix ws s w
  assume "find (\<lambda>w. w \<noteq> [] \<and> prefix w s) ws = Some w"
  then have "w \<noteq> []" "prefix w s" by (auto simp: find_Some_iff)
  then show "((ws, drop (length w) s), (ws, s)) \<in> measure (\<lambda>(ws, s). length s)"
    by (auto simp: prefix_def)
qed simp

declare strip_codes.simps [simp del]

definition trim :: "string \<Rightarrow> string" where
  "trim s = (let a = strip_codes ws_encodings (map code_of s);
                 b = strip_codes (map rev ws_encodings) (rev a)
             in map char_of (rev b))"

section \<open>Decimal numbers\<close>

definition digit :: "nat \<Rightarrow> char" where
  "digit d = ''0123456789'' ! d"

fun dec :: "nat \<Rightarrow> string" where
  "dec n = (if n < 10 then [digit n] else dec (n div 10) @ [digit (n mod 10)])"

declare dec.simps [simp del]

definition undec :: "string \<Rightarrow> nat" where
  "undec s = foldl (\<lambda>a c. 10 * a + (code_of c - 48)) 0 s"

lemma code_of_digit [simp]: "d < 10 \<Longrightarrow> code_of (digit d) = 48 + d"
  by (auto simp: digit_def code_of_def numeral_eq_Suc less_Suc_eq)

lemma undec_dec: "undec (dec n) = n"
proof (induction n rule: dec.induct)
  case (1 n)
  show ?case
  proof (cases "n < 10")
    case True
    then show ?thesis by (simp add: dec.simps [of n] undec_def)
  next
    case False
    with 1 have "undec (dec (n div 10)) = n div 10" by simp
    with False show ?thesis by (simp add: dec.simps [of n] undec_def)
  qed
qed

lemma dec_inj [simp]: "dec m = dec n \<longleftrightarrow> m = n"
  by (metis undec_dec)

lemma dec_digits: "c \<in> set (dec n) \<Longrightarrow> is_digit c"
proof (induction n rule: dec.induct)
  case (1 n)
  then show ?case
    by (cases "n < 10") (auto simp: dec.simps [of n] is_digit_def)
qed

lemma dec_nonempty [simp]: "dec n \<noteq> []"
  by (subst dec.simps) simp

definition dec_int :: "int \<Rightarrow> string" where
  "dec_int i = (if i < 0 then CHR ''-'' # dec (nat (- i)) else dec (nat i))"

section \<open>Character boundaries\<close>

definition continuation :: "char \<Rightarrow> bool" where
  "continuation c \<longleftrightarrow> 128 \<le> code_of c \<and> code_of c < 192"

text \<open>\<^verbatim>\<open>str::is_char_boundary\<close>\<close>

definition boundary :: "string \<Rightarrow> nat \<Rightarrow> bool" where
  "boundary s i \<longleftrightarrow> i = 0 \<or> i = length s \<or> i < length s \<and> \<not> continuation (s ! i)"

text \<open>The shape of UTF-8: no run of continuation bytes is longer than three and none
  starts the text. Every valid \<^verbatim>\<open>str\<close> has it.\<close>

fun utf8_tail :: "nat \<Rightarrow> string \<Rightarrow> bool" where
  "utf8_tail n [] = True"
| "utf8_tail n (c # s) =
     (if continuation c then (case n of 0 \<Rightarrow> False | Suc m \<Rightarrow> utf8_tail m s)
      else utf8_tail 3 s)"

definition utf8 :: "string \<Rightarrow> bool" where
  "utf8 s = utf8_tail 0 s"

text \<open>The loop \<^verbatim>\<open>while !s.is_char_boundary(end) { end -= 1 }\<close>.\<close>

fun boundary_before :: "string \<Rightarrow> nat \<Rightarrow> nat" where
  "boundary_before s 0 = 0"
| "boundary_before s (Suc i) = (if boundary s (Suc i) then Suc i else boundary_before s i)"

lemma boundary_0 [simp]: "boundary s 0"
  by (simp add: boundary_def)

lemma boundary_before_le: "boundary_before s i \<le> i"
  by (induction i) (auto intro: le_SucI)

lemma boundary_before_boundary: "boundary s (boundary_before s i)"
  by (induction i) auto

lemma boundary_before_ge: "boundary s j \<Longrightarrow> j \<le> i \<Longrightarrow> j \<le> boundary_before s i"
proof (induction i)
  case (Suc i)
  then show ?case by (cases "j = Suc i") auto
qed simp

lemma utf8_tail_run:
  "utf8_tail n s \<Longrightarrow> (\<forall>i < m. continuation (s ! i)) \<Longrightarrow> m \<le> length s \<Longrightarrow> n \<le> 3 \<Longrightarrow> m \<le> n"
proof (induction n s arbitrary: m rule: utf8_tail.induct)
  case (1 n)
  then show ?case by simp
next
  case (2 n c s)
  show ?case
  proof (cases m)
    case 0
    then show ?thesis by simp
  next
    case (Suc k)
    have c: "continuation c" using "2.prems"(2) Suc by (metis nth_Cons_0 zero_less_Suc)
    then obtain n' where n: "n = Suc n'" "utf8_tail n' s"
      using "2.prems"(1) by (auto split: nat.splits)
    have "\<forall>i < k. continuation (s ! i)"
    proof (intro allI impI)
      fix i assume "i < k"
      then have "Suc i < m" using Suc by simp
      then have "continuation ((c # s) ! Suc i)" using "2.prems"(2) by blast
      then show "continuation (s ! i)" by simp
    qed
    then have "k \<le> n'" using "2.IH"(1) [OF c n(1)] "2.prems"(3,4) n Suc by simp
    then show ?thesis using Suc n by simp
  qed
qed

lemma utf8_tail_drop: "utf8_tail n s \<Longrightarrow> n \<le> 3 \<Longrightarrow> \<exists>k \<le> 3. utf8_tail k (drop i s)"
proof (induction i arbitrary: n s)
  case 0
  then show ?case by auto
next
  case (Suc i)
  show ?case
  proof (cases s)
    case Nil
    then show ?thesis by auto
  next
    case (Cons c r)
    then have "\<exists>k \<le> 3. utf8_tail k r"
    proof (cases "continuation c")
      case True
      with Suc.prems Cons obtain m where "n = Suc m" "utf8_tail m r" by (cases n) auto
      with Suc.prems show ?thesis by (intro exI [of _ m]) auto
    next
      case False
      with Suc.prems Cons show ?thesis by auto
    qed
    with Suc.IH Cons show ?thesis by auto
  qed
qed

lemma utf8_drop_boundary:
  "utf8 s \<Longrightarrow> boundary s i \<Longrightarrow> i \<le> length s \<Longrightarrow> utf8 (drop i s)"
proof -
  assume u: "utf8 s" and b: "boundary s i" and i: "i \<le> length s"
  show ?thesis
  proof (cases "i = 0 \<or> i = length s")
    case True
    with u show ?thesis by (auto simp: utf8_def)
  next
    case False
    with i have lt: "i < length s" by simp
    with b False have nc: "\<not> continuation (s ! i)" by (simp add: boundary_def)
    from u obtain k where "utf8_tail k (drop i s)" unfolding utf8_def
      using utf8_tail_drop [of 0 s i] by auto
    with nc lt show ?thesis by (simp add: utf8_def Cons_nth_drop_Suc [symmetric])
  qed
qed

end
