(* ===== verification/Values.thy ===== *)
theory Values
  imports Text_Lib "HOL-Library.Word"
begin

text \<open>
  The values the program computes with: JSON (\<^verbatim>\<open>serde_json::Value\<close>, with the
  \<^verbatim>\<open>preserve_order\<close> feature the build selects), CBOR (\<^verbatim>\<open>ciborium::Value\<close>), binary64 and
  binary32 floats as their bits, \<^verbatim>\<open>Duration\<close>s and \<^verbatim>\<open>Instant\<close>s as nanoseconds. These are the
  library types the source uses, not code of the repository.
\<close>

section \<open>Floating point\<close>

type_synonym f64 = "64 word"
type_synonym f32 = "32 word"
type_synonym byte = "8 word"

definition f64_sign :: "f64 \<Rightarrow> bool" where
  "f64_sign w = (2 ^ 63 \<le> unat w)"

definition f64_exp :: "f64 \<Rightarrow> nat" where
  "f64_exp w = (unat w div 2 ^ 52) mod 2048"

definition f64_mant :: "f64 \<Rightarrow> nat" where
  "f64_mant w = unat w mod 2 ^ 52"

definition f64_finite :: "f64 \<Rightarrow> bool" where
  "f64_finite w \<longleftrightarrow> f64_exp w \<noteq> 2047"

definition f64_nan :: "f64 \<Rightarrow> bool" where
  "f64_nan w \<longleftrightarrow> f64_exp w = 2047 \<and> f64_mant w \<noteq> 0"

definition f64_zero :: "f64 \<Rightarrow> bool" where
  "f64_zero w \<longleftrightarrow> f64_exp w = 0 \<and> f64_mant w = 0"

text \<open>\<^verbatim>\<open>x < 0.0\<close>, false for NaN and for both zeros.\<close>

definition f64_negative :: "f64 \<Rightarrow> bool" where
  "f64_negative w \<longleftrightarrow> f64_sign w \<and> \<not> f64_zero w \<and> \<not> f64_nan w"

fun bitlen :: "nat \<Rightarrow> nat" where
  "bitlen n = (if n = 0 then 0 else Suc (bitlen (n div 2)))"

declare bitlen.simps [simp del]

definition round_half_even :: "nat \<Rightarrow> nat \<Rightarrow> nat" where
  "round_half_even a b =
     (let q = a div b; r = a mod b
      in if 2 * r < b \<or> 2 * r = b \<and> even q then q else Suc q)"

text \<open>\<^verbatim>\<open>n as f64\<close> for an unsigned integer: round to nearest, ties to even. A carry out of the
  significand moves to the exponent by itself, since the fields are added.\<close>

definition f64_bits_of_nat :: "nat \<Rightarrow> nat" where
  "f64_bits_of_nat n =
     (if n = 0 then 0
      else let L = bitlen n;
               m = (if L \<le> 53 then n * 2 ^ (53 - L) else round_half_even n (2 ^ (L - 53)))
           in (L - 1 + 1023) * 2 ^ 52 + (m - 2 ^ 52))"

definition f64_of_nat :: "nat \<Rightarrow> f64" where
  "f64_of_nat n = word_of_nat (f64_bits_of_nat n)"

definition f64_of_int :: "int \<Rightarrow> f64" where
  "f64_of_int i =
     (if i < 0 then word_of_nat (2 ^ 63 + f64_bits_of_nat (nat (- i))) else f64_of_nat (nat i))"

text \<open>\<^verbatim>\<open>x as f64\<close> for a binary32: exact. A subnormal becomes a normal number.\<close>

definition f64_of_f32 :: "f32 \<Rightarrow> f64" where
  "f64_of_f32 w =
     (let n = unat w; s = (n div 2 ^ 31) * 2 ^ 63; e = (n div 2 ^ 23) mod 256; m = n mod 2 ^ 23
      in word_of_nat
           (if e = 255 then s + 2047 * 2 ^ 52 + m * 2 ^ 29
            else if e = 0 then
              (if m = 0 then s
               else s + (bitlen m + 873) * 2 ^ 52 + (m * 2 ^ (53 - bitlen m) - 2 ^ 52))
            else s + (e + 896) * 2 ^ 52 + m * 2 ^ 29))"

section \<open>JSON\<close>

text \<open>\<^verbatim>\<open>serde_json::Number\<close>: a nonnegative integer, a negative one, or a finite float.\<close>

datatype number = PosInt nat | NegInt int | Float f64

datatype json =
    JNull
  | JBool bool
  | JNum number
  | JStr string
  | JArr "json list"
  | JObj "(string \<times> json) list"

text \<open>\<^verbatim>\<open>v.get(key)\<close>, \<^verbatim>\<open>v[key]\<close> and \<^verbatim>\<open>v[i]\<close>.\<close>

definition jget :: "json \<Rightarrow> string \<Rightarrow> json option" where
  "jget v k = (case v of JObj fs \<Rightarrow> map_of fs k | _ \<Rightarrow> None)"

definition jix :: "json \<Rightarrow> string \<Rightarrow> json" where
  "jix v k = (case jget v k of None \<Rightarrow> JNull | Some x \<Rightarrow> x)"

definition jat :: "json \<Rightarrow> nat \<Rightarrow> json" where
  "jat v i = (case v of JArr xs \<Rightarrow> if i < length xs then xs ! i else JNull | _ \<Rightarrow> JNull)"

text \<open>\<^verbatim>\<open>v[key] = x\<close>: a null becomes an object, any other non-object panics.\<close>

fun jset :: "json \<Rightarrow> string \<Rightarrow> json \<Rightarrow> json outcome" where
  "jset (JObj fs) k x = Ok (JObj (AList.update k x fs))"
| "jset JNull k x = Ok (JObj [(k, x)])"
| "jset v k x = Panic"

fun as_str :: "json \<Rightarrow> string option" where
  "as_str (JStr s) = Some s"
| "as_str v = None"

fun as_bool :: "json \<Rightarrow> bool option" where
  "as_bool (JBool b) = Some b"
| "as_bool v = None"

fun as_array :: "json \<Rightarrow> json list option" where
  "as_array (JArr xs) = Some xs"
| "as_array v = None"

fun as_object :: "json \<Rightarrow> (string \<times> json) list option" where
  "as_object (JObj fs) = Some fs"
| "as_object v = None"

definition is_object :: "json \<Rightarrow> bool" where
  "is_object v \<longleftrightarrow> as_object v \<noteq> None"

fun as_u64 :: "json \<Rightarrow> nat option" where
  "as_u64 (JNum (PosInt n)) = Some n"
| "as_u64 v = None"

fun as_i64 :: "json \<Rightarrow> int option" where
  "as_i64 (JNum (PosInt n)) = (if n < 2 ^ 63 then Some (int n) else None)"
| "as_i64 (JNum (NegInt i)) = Some i"
| "as_i64 v = None"

fun as_f64 :: "json \<Rightarrow> f64 option" where
  "as_f64 (JNum (PosInt n)) = Some (f64_of_nat n)"
| "as_f64 (JNum (NegInt i)) = Some (f64_of_int i)"
| "as_f64 (JNum (Float w)) = Some w"
| "as_f64 v = None"

text \<open>\<^verbatim>\<open>json!(n)\<close> for integers and floats; a float that is not finite becomes null.\<close>

definition jnat :: "nat \<Rightarrow> json" where
  "jnat n = JNum (PosInt n)"

definition jint :: "int \<Rightarrow> json" where
  "jint i = JNum (if i < 0 then NegInt i else PosInt (nat i))"

definition jfloat :: "f64 \<Rightarrow> json" where
  "jfloat w = (if f64_finite w then JNum (Float w) else JNull)"

text \<open>The values that exist at run time: integers in range, floats finite, object keys
  distinct.\<close>

fun number_wf :: "number \<Rightarrow> bool" where
  "number_wf (PosInt n) \<longleftrightarrow> n < 2 ^ 64"
| "number_wf (NegInt i) \<longleftrightarrow> - (2 ^ 63) \<le> i \<and> i < 0"
| "number_wf (Float w) \<longleftrightarrow> f64_finite w"

primrec json_wf :: "json \<Rightarrow> bool" where
  "json_wf JNull \<longleftrightarrow> True"
| "json_wf (JBool b) \<longleftrightarrow> True"
| "json_wf (JNum n) \<longleftrightarrow> number_wf n"
| "json_wf (JStr s) \<longleftrightarrow> True"
| "json_wf (JArr xs) \<longleftrightarrow> list_all id (map json_wf xs)"
| "json_wf (JObj fs) \<longleftrightarrow> distinct (keys fs) \<and> list_all snd (map (map_prod id json_wf) fs)"

lemma json_wf_JArr [simp]: "json_wf (JArr xs) \<longleftrightarrow> (\<forall>x \<in> set xs. json_wf x)"
  by (simp add: list_all_iff)

lemma json_wf_JObj [simp]:
  "json_wf (JObj fs) \<longleftrightarrow> distinct (keys fs) \<and> (\<forall>(k, v) \<in> set fs. json_wf v)"
  by (auto simp: list_all_iff)

declare json_wf.simps(5,6) [simp del]

lemma jget_JObj [simp]: "jget (JObj fs) k = map_of fs k"
  by (simp add: jget_def)

lemma jget_JNull [simp]: "jget JNull k = None"
  by (simp add: jget_def)

lemma jix_JObj [simp]: "jix (JObj fs) k = (case map_of fs k of None \<Rightarrow> JNull | Some x \<Rightarrow> x)"
  by (simp add: jix_def)

lemma jix_jget: "jget v k = Some x \<Longrightarrow> jix v k = x"
  by (simp add: jix_def)

lemma as_str_Some [simp]: "as_str v = Some s \<longleftrightarrow> v = JStr s"
  by (cases v rule: as_str.cases) auto

lemma as_bool_Some [simp]: "as_bool v = Some b \<longleftrightarrow> v = JBool b"
  by (cases v rule: as_bool.cases) auto

lemma as_array_Some [simp]: "as_array v = Some xs \<longleftrightarrow> v = JArr xs"
  by (cases v rule: as_array.cases) auto

lemma as_object_Some [simp]: "as_object v = Some fs \<longleftrightarrow> v = JObj fs"
  by (cases v rule: as_object.cases) auto

lemma is_object_iff: "is_object v \<longleftrightarrow> (\<exists>fs. v = JObj fs)"
  by (auto simp: is_object_def)

lemma as_u64_Some [simp]: "as_u64 v = Some n \<longleftrightarrow> v = JNum (PosInt n)"
  by (cases v rule: as_u64.cases) auto

lemma as_u64_jnat [simp]: "as_u64 (jnat n) = Some n"
  by (simp add: jnat_def)

section \<open>CBOR\<close>

datatype cbor =
    CNull
  | CBool bool
  | CInt int
  | CFloat f64
  | CText string
  | CBytes "byte list"
  | CArr "cbor list"
  | CMap "(cbor \<times> cbor) list"
  | CTag nat cbor

section \<open>Time\<close>

text \<open>A \<^verbatim>\<open>Duration\<close> is a number of nanoseconds (its seconds fit in 64 bits); an
  \<^verbatim>\<open>Instant\<close> is a number of nanoseconds since the monotonic clock's origin, whose seconds
  are a signed 64-bit count. Adding past that range panics.\<close>

definition NANOS :: nat where
  "NANOS = 1000000000"

definition secs :: "nat \<Rightarrow> nat" where
  "secs n = n * NANOS"

definition millis :: "nat \<Rightarrow> nat" where
  "millis n = n * 1000000"

definition instant_ok :: "nat \<Rightarrow> bool" where
  "instant_ok t \<longleftrightarrow> t div NANOS < 2 ^ 63"

definition instant_add :: "nat \<Rightarrow> nat \<Rightarrow> nat outcome" where
  "instant_add t d = (if instant_ok (t + d) then Ok (t + d) else Panic)"

definition duration_negative :: error where
  "duration_negative = ''cannot convert float seconds to Duration: value is negative''"

definition duration_overflow :: error where
  "duration_overflow = ''cannot convert float seconds to Duration: value is either too big or NaN''"

text \<open>\<^verbatim>\<open>Duration::try_from_secs_f64\<close>: nearest nanosecond, ties to even; below 2^-31 s it is
  zero, from 2^64 s on (infinities and NaN included) an error.\<close>

definition try_from_secs_f64 :: "f64 \<Rightarrow> nat outcome" where
  "try_from_secs_f64 w =
     (if f64_negative w then Err duration_negative
      else let e = f64_exp w; m = 2 ^ 52 + f64_mant w
           in if e < 992 then Ok 0
              else if e < 1023 + 52 then Ok (round_half_even (m * NANOS) (2 ^ (1023 + 52 - e)))
              else if e < 1023 + 64 then Ok (m * 2 ^ (e - (1023 + 52)) * NANOS)
              else Err duration_overflow)"

definition try_from_int_error :: error where
  "try_from_int_error = ''out of range integral type conversion attempted''"

text \<open>\<^verbatim>\<open>since now t\<close> is \<^verbatim>\<open>t.elapsed()\<close>, which saturates at zero.\<close>

definition since :: "nat \<Rightarrow> nat \<Rightarrow> nat" where
  "since now t = now - t"

lemma try_from_secs_no_panic [simp]: "try_from_secs_f64 w \<noteq> Panic"
  by (auto simp: try_from_secs_f64_def Let_def)

lemma instant_add_Ok: "instant_add t d = Ok u \<longleftrightarrow> instant_ok (t + d) \<and> u = t + d"
  by (auto simp: instant_add_def)

lemma instant_ok_mono: "instant_ok t \<Longrightarrow> u \<le> t \<Longrightarrow> instant_ok u"
  unfolding instant_ok_def by (meson div_le_mono le_less_trans)

end
