(* ===== verification/Backend.thy ===== *)
theory Backend
  imports Values
begin

text \<open>
  \<^verbatim>\<open>src/backend.rs\<close>: QoS values and their JSON form, interface type names, the events a
  backend reports, and the \<^verbatim>\<open>Backend\<close> trait. The trait is a record of actions over the
  backend's own state, \<open>backend_contract\<close> is what its clients rely on; the theory of the
  native implementation interprets it.
\<close>

section \<open>Quality of service\<close>

record qos =
  q_history :: nat
  q_depth :: nat
  q_reliability :: nat
  q_durability :: nat
  q_deadline :: "nat \<times> nat"
  q_lifespan :: "nat \<times> nat"

definition qos_default :: qos where
  "qos_default = \<lparr>q_history = 0, q_depth = 0, q_reliability = 0, q_durability = 0,
     q_deadline = (0, 0), q_lifespan = (0, 0)\<rparr>"

definition qos_publisher :: qos where
  "qos_publisher = qos_default\<lparr>q_history := 1, q_depth := 100, q_reliability := 1, q_durability := 1\<rparr>"

definition qos_subscriber :: qos where
  "qos_subscriber = qos_default\<lparr>q_history := 1, q_depth := 10, q_reliability := 2, q_durability := 2\<rparr>"

definition qos_service :: qos where
  "qos_service = qos_default\<lparr>q_history := 1, q_depth := 10, q_reliability := 1, q_durability := 2\<rparr>"

definition policy :: "json \<Rightarrow> (string \<times> nat) list \<Rightarrow> nat outcome" where
  "policy value names =
     bindO (context_of (as_str value) ''QoS policy must be a string'') (\<lambda>name.
     context_of (map_option snd (find (\<lambda>(s, _). eq_ignore_case s name) names))
       (''invalid QoS policy: '' @ name))"

definition duration_error :: error where
  "duration_error = ''duration requires nonnegative secs and nsecs''"

text \<open>\<^verbatim>\<open>secs.checked_add(nanos / 1_000_000_000)\<close> is the 64-bit bound. The guard on a float
  is \<^verbatim>\<open>is_finite() && >= 0.0 && < u64::MAX as f64\<close>, the last being 2^64.\<close>

definition duration :: "json \<Rightarrow> (nat \<times> nat) outcome" where
  "duration v =
     (if (case as_str v of None \<Rightarrow> False | Some s \<Rightarrow> eq_ignore_case s ''infinite'')
      then Ok (9223372036, 854775807)
      else case as_f64 v of
        Some s \<Rightarrow>
          bindO (ensure (f64_finite s \<and> \<not> f64_negative s \<and> f64_exp s < 1023 + 64) ''invalid duration'') (\<lambda>_.
          bindO (try_from_secs_f64 s) (\<lambda>d. Ok (d div NANOS, d mod NANOS)))
      | None \<Rightarrow>
          bindO (context_of (as_u64 (jix v ''secs'')) duration_error) (\<lambda>s.
          bindO (context_of (as_u64 (jix v ''nsecs'')) duration_error) (\<lambda>n.
          bindO (ensure (s + n div NANOS < 2 ^ 64) ''duration overflow'') (\<lambda>_.
          Ok (s + n div NANOS, n mod NANOS)))))"

definition qos_field :: "qos \<Rightarrow> string \<times> json \<Rightarrow> qos outcome" where
  "qos_field q kv = (case kv of (key, value) \<Rightarrow>
     if key = ''history'' then
       bindO (policy value [(''keep_last'', 1), (''keep_all'', 2)]) (\<lambda>n. Ok (q\<lparr>q_history := n\<rparr>))
     else if key = ''reliability'' then
       bindO (policy value [(''reliable'', 1), (''best_effort'', 2), (''best_available'', 4)])
         (\<lambda>n. Ok (q\<lparr>q_reliability := n\<rparr>))
     else if key = ''durability'' then
       bindO (policy value [(''transient_local'', 1), (''volatile'', 2), (''best_available'', 4)])
         (\<lambda>n. Ok (q\<lparr>q_durability := n\<rparr>))
     else if key = ''depth'' then
       bindO (context_of (as_u64 value) ''depth must be a nonnegative integer'')
         (\<lambda>n. Ok (q\<lparr>q_depth := n\<rparr>))
     else if key = ''deadline'' \<and>
         (case as_str value of None \<Rightarrow> False | Some s \<Rightarrow> eq_ignore_case s ''best_available'') then
       Ok (q\<lparr>q_deadline := (9223372036, 854775806)\<rparr>)
     else if key = ''deadline'' then bindO (duration value) (\<lambda>d. Ok (q\<lparr>q_deadline := d\<rparr>))
     else if key = ''lifespan'' then bindO (duration value) (\<lambda>d. Ok (q\<lparr>q_lifespan := d\<rparr>))
     else Err (''unknown QoS field: '' @ key))"

fun qos_fields :: "qos \<Rightarrow> (string \<times> json) list \<Rightarrow> qos outcome" where
  "qos_fields q [] = Ok q"
| "qos_fields q (kv # fs) = bindO (qos_field q kv) (\<lambda>q'. qos_fields q' fs)"

definition qos_parse :: "json \<Rightarrow> qos outcome" where
  "qos_parse value =
     bindO (context_of (as_object value) ''qos must be an object'') (\<lambda>fs. qos_fields qos_default fs)"

text \<open>What a parsed profile can hold: the policy numbers the native layer translates, and
  durations in normal form.\<close>

definition time_ok :: "nat \<times> nat \<Rightarrow> bool" where
  "time_ok t \<longleftrightarrow> fst t < 2 ^ 64 \<and> snd t < NANOS"

definition qos_ok :: "qos \<Rightarrow> bool" where
  "qos_ok q \<longleftrightarrow> q_history q \<in> {0, 1, 2} \<and> q_reliability q \<in> {0, 1, 2, 4} \<and>
     q_durability q \<in> {0, 1, 2, 4} \<and> time_ok (q_deadline q) \<and> time_ok (q_lifespan q)"

lemma policy_Ok: "policy v names = Ok n \<Longrightarrow> n \<in> snd ` set names"
  by (auto simp: policy_def bindO_eq_Ok find_Some_iff image_iff) (metis nth_mem snd_conv)

lemma policy_no_panic [simp]: "policy v names \<noteq> Panic"
  by (auto simp: policy_def bindO_Panic)

lemma round_half_even_le: "0 < b \<Longrightarrow> a \<le> c * b \<Longrightarrow> round_half_even a b \<le> c"
  unfolding round_half_even_def Let_def
proof (cases "2 * (a mod b) < b \<or> 2 * (a mod b) = b \<and> even (a div b)")
  case True
  assume "0 < b" "a \<le> c * b"
  then have "a div b \<le> c" by (metis div_le_mono nonzero_mult_div_cancel_right not_gr_zero)
  with True show "(if 2 * (a mod b) < b \<or> 2 * (a mod b) = b \<and> even (a div b) then a div b else Suc (a div b)) \<le> c"
    by simp
next
  case False
  assume b: "0 < b" and a: "a \<le> c * b"
  from False have "a mod b \<noteq> 0" using b by auto
  then have "a div b * b < a" by (metis div_mult_mod_eq less_add_same_cancel1 neq0_conv)
  then have "a div b * b < c * b" using a by (rule less_le_trans)
  then have "a div b < c" using b by simp
  with False show "(if 2 * (a mod b) < b \<or> 2 * (a mod b) = b \<and> even (a div b) then a div b else Suc (a div b)) \<le> c"
    by simp
qed

lemma f64_mant_lt: "f64_mant w < 2 ^ 52"
  by (simp add: f64_mant_def)

lemma secs_bound: "d < 2 ^ 64 * NANOS \<Longrightarrow> d div NANOS < 2 ^ 64"
  by (simp add: less_mult_imp_div_less)

text \<open>A float of less than 2^64 seconds never rounds up to 2^64 seconds.\<close>

lemma try_from_secs_bound:
  assumes "try_from_secs_f64 w = Ok d"
  shows "d < 2 ^ 64 * NANOS"
proof -
  let ?e = "f64_exp w" and ?m = "2 ^ 52 + f64_mant w"
  have m: "?m < 2 ^ 53" using f64_mant_lt [of w] by simp
  consider "d = 0" | "?e < 1075" "992 \<le> ?e" "d = round_half_even (?m * NANOS) (2 ^ (1075 - ?e))"
    | "1075 \<le> ?e" "?e < 1087" "d = ?m * 2 ^ (?e - 1075) * NANOS"
    using assms by (auto simp: try_from_secs_f64_def Let_def split: if_splits)
  then show ?thesis
  proof cases
    case 1
    then show ?thesis by (simp add: NANOS_def)
  next
    case 2
    have "?m * NANOS \<le> (2 ^ 53 * NANOS) * 1" using m by simp
    also have "\<dots> \<le> (2 ^ 53 * NANOS) * 2 ^ (1075 - ?e)"
      by (rule mult_le_mono2) simp
    finally have "d \<le> 2 ^ 53 * NANOS" using 2 by (simp add: round_half_even_le)
    also have "\<dots> < 2 ^ 64 * NANOS" by (simp add: NANOS_def)
    finally show ?thesis .
  next
    case 3
    have "2 ^ (?e - 1075) \<le> (2::nat) ^ 11" using 3 by (intro power_increasing) auto
    with m have "?m * 2 ^ (?e - 1075) < 2 ^ 53 * 2 ^ 11"
      by (intro mult_less_le_imp_less) auto
    with 3 show ?thesis by (simp add: NANOS_def mult.commute)
  qed
qed

lemma duration_ok: "duration v = Ok t \<Longrightarrow> time_ok t"
  by (auto simp: duration_def time_ok_def bindO_eq_Ok NANOS_def split: if_splits option.splits
      dest!: try_from_secs_bound secs_bound [unfolded NANOS_def])

lemma duration_no_panic [simp]: "duration v \<noteq> Panic"
  by (auto simp: duration_def bindO_Panic split: option.splits)

lemma qos_ok_upd:
  "qos_ok q \<Longrightarrow> n \<in> {0, 1, 2} \<Longrightarrow> qos_ok (q\<lparr>q_history := n\<rparr>)"
  "qos_ok q \<Longrightarrow> n \<in> {0, 1, 2, 4} \<Longrightarrow> qos_ok (q\<lparr>q_reliability := n\<rparr>)"
  "qos_ok q \<Longrightarrow> n \<in> {0, 1, 2, 4} \<Longrightarrow> qos_ok (q\<lparr>q_durability := n\<rparr>)"
  "qos_ok q \<Longrightarrow> qos_ok (q\<lparr>q_depth := n\<rparr>)"
  "qos_ok q \<Longrightarrow> time_ok t \<Longrightarrow> qos_ok (q\<lparr>q_deadline := t\<rparr>)"
  "qos_ok q \<Longrightarrow> time_ok t \<Longrightarrow> qos_ok (q\<lparr>q_lifespan := t\<rparr>)"
  by (simp_all add: qos_ok_def)

lemma time_ok_best_available: "time_ok (9223372036, 854775806)"
  by (simp add: time_ok_def NANOS_def)

lemma policy_bind_ok:
  assumes "bindO (policy v names) (\<lambda>n. Ok (f n)) = Ok q'"
    and "\<forall>n \<in> snd ` set names. qos_ok (f n)"
  shows "qos_ok q'"
proof -
  from assms(1) obtain n where "policy v names = Ok n" "q' = f n" by (auto simp: bindO_eq_Ok)
  with assms(2) show ?thesis by (auto dest: policy_Ok)
qed

lemma qos_field_ok:
  assumes q: "qos_ok q" and r: "qos_field q kv = Ok q'"
  shows "qos_ok q'"
proof -
  obtain key v where kv: "kv = (key, v)" by (cases kv)
  note hist = qos_ok_upd(1) [OF q] and reli = qos_ok_upd(2) [OF q] and dura = qos_ok_upd(3) [OF q]
  show ?thesis
    using r [unfolded qos_field_def kv prod.case]
    apply (split if_split_asm)
     apply (erule policy_bind_ok, simp add: hist)
    apply (split if_split_asm)
     apply (erule policy_bind_ok, simp add: reli)
    apply (split if_split_asm)
     apply (erule policy_bind_ok, simp add: dura)
    apply (split if_split_asm)
     apply (drule bindO_eq_Ok [THEN iffD1], clarify, simp add: qos_ok_upd(4) [OF q])
    apply (split if_split_asm)
     apply (drule outcome.inject(1) [THEN iffD1], erule subst, rule qos_ok_upd(5) [OF q time_ok_best_available])
    apply (split if_split_asm)
     apply (drule bindO_eq_Ok [THEN iffD1], clarify, frule duration_ok, simp add: qos_ok_upd(5) [OF q])
    apply (split if_split_asm)
     apply (drule bindO_eq_Ok [THEN iffD1], clarify, frule duration_ok, simp add: qos_ok_upd(6) [OF q])
    apply simp
    done
qed

lemma qos_field_no_panic: "qos_field q kv \<noteq> Panic"
  by (cases kv)
    (simp only: qos_field_def prod.case bindO_Panic policy_no_panic duration_no_panic
      context_of_Panic outcome.distinct if_split_eq2 simp_thms split: if_split)

lemma qos_fields_ok: "qos_ok q \<Longrightarrow> qos_fields q fs = Ok q' \<Longrightarrow> qos_ok q'"
  by (induction fs arbitrary: q) (auto simp: bindO_eq_Ok dest: qos_field_ok)

lemma qos_fields_no_panic: "qos_fields q fs \<noteq> Panic"
  by (induction fs arbitrary: q) (auto simp: bindO_Panic qos_field_no_panic)

lemma qos_parse_no_panic [simp]: "qos_parse v \<noteq> Panic"
  by (auto simp: qos_parse_def bindO_Panic qos_fields_no_panic)

section \<open>Interface type names\<close>

definition type_name :: "string \<Rightarrow> string \<Rightarrow> string outcome" where
  "type_name name category =
     bindO (case split_char CHR ''/'' name of
         [package, typ] \<Rightarrow> Ok [package, category, typ]
       | [package, kind, typ] \<Rightarrow>
           if kind = category then Ok [package, kind, typ]
           else Err (''invalid '' @ category @ '' type: '' @ name)
       | _ \<Rightarrow> Err (''invalid '' @ category @ '' type: '' @ name)) (\<lambda>parts.
     bindO (ensure (list_all ident parts) ''invalid interface type'') (\<lambda>_.
     Ok (join ''/'' (if category = ''srv'' \<and> hd parts = ''rosapi''
                     then ''rosapi_msgs'' # tl parts else parts))))"

lemma type_name_no_panic [simp]: "type_name n c \<noteq> Panic"
  by (auto simp: type_name_def bindO_Panic split: list.splits if_splits)

lemma ident_rosapi_msgs: "ident ''rosapi_msgs''"
  by (simp add: ident_def ident_char_def is_alnum_def is_digit_def code_of_def)

text \<open>What a normalised name looks like.\<close>

definition interface_type :: "string \<Rightarrow> string \<Rightarrow> bool" where
  "interface_type c t \<longleftrightarrow> (\<exists>p n. ident p \<and> ident n \<and> ident c \<and>
     t = p @ ''/'' @ c @ ''/'' @ n \<and> \<not> (c = ''srv'' \<and> p = ''rosapi''))"

lemma type_name_cases:
  assumes "type_name s c = Ok t"
  obtains p n where "ident p" "ident n" "ident c"
    "split_char CHR ''/'' s = [p, n] \<or> split_char CHR ''/'' s = [p, c, n]"
    "t = join ''/'' [if c = ''srv'' \<and> p = ''rosapi'' then ''rosapi_msgs'' else p, c, n]"
  using assms
  by (force simp: type_name_def bindO_eq_Ok split: list.splits if_splits)

lemma type_name_interface:
  assumes "type_name s c = Ok t"
  shows "interface_type c t"
  using assms
proof (rule type_name_cases)
  fix p n
  let ?p = "if c = ''srv'' \<and> p = ''rosapi'' then ''rosapi_msgs'' else p"
  assume i: "ident p" "ident n" "ident c" and t: "t = join ''/'' [?p, c, n]"
  from i have "ident ?p" by (simp only: ident_rosapi_msgs split: if_split) simp
  moreover have "\<not> (c = ''srv'' \<and> ?p = ''rosapi'')" by simp
  moreover have "t = ?p @ ''/'' @ c @ ''/'' @ n" using t by simp
  ultimately show ?thesis using i unfolding interface_type_def by blast
qed

lemma type_name_fixed: "interface_type c t \<Longrightarrow> type_name t c = Ok t"
proof -
  assume "interface_type c t"
  then obtain p n where i: "ident p" "ident n" "ident c"
    and t: "t = join [CHR ''/''] [p, c, n]" and nr: "\<not> (c = ''srv'' \<and> p = ''rosapi'')"
    by (auto simp: interface_type_def)
  have "split_char CHR ''/'' t = [p, c, n]"
    unfolding t by (rule split_char_join) (use i in \<open>auto simp: ident_def dest: ident_no_slash\<close>)
  moreover have "ensure (list_all ident [p, c, n]) ''invalid interface type'' = Ok ()"
    using i by (simp add: ensure_def)
  ultimately show ?thesis using nr t by (simp add: type_name_def)
qed

section \<open>The backend trait\<close>

record ros_message =
  m_json :: json
  m_cbor :: cbor
  m_raw :: "byte list"
  m_stamp :: "int \<times> nat"

datatype event =
    EvMessage nat ros_message
  | EvRequest nat nat json
  | EvResponse nat int json

record 'b backend_ops =
  be_publisher :: "string \<Rightarrow> string \<Rightarrow> qos \<Rightarrow> ('b, nat) action"
  be_subscription :: "string \<Rightarrow> string \<Rightarrow> qos \<Rightarrow> ('b, nat) action"
  be_client :: "string \<Rightarrow> string \<Rightarrow> ('b, nat) action"
  be_service :: "string \<Rightarrow> string \<Rightarrow> ('b, nat) action"
  be_publish :: "nat \<Rightarrow> json \<Rightarrow> ('b, unit) action"
  be_request :: "nat \<Rightarrow> json \<Rightarrow> ('b, int) action"
  be_validate_response :: "nat \<Rightarrow> json \<Rightarrow> ('b, unit) action"
  be_respond :: "nat \<Rightarrow> nat \<Rightarrow> json \<Rightarrow> ('b, unit) action"
  be_discard_request :: "nat \<Rightarrow> nat \<Rightarrow> ('b, unit) action"
  be_destroy :: "nat \<Rightarrow> ('b, unit) action"
  be_poll :: "('b, event list) action"
  be_topics :: "('b, (string \<times> string list) list) action"
  be_services :: "('b, (string \<times> string list) list) action"
  be_publisher_qos :: "string \<Rightarrow> ('b, qos list) action"
  be_now :: "'b \<Rightarrow> int \<times> nat"

text \<open>
  The contract. \<open>live b\<close> are the entities handed to the caller and not yet destroyed. A
  successful creation hands out an entity that was not live, a failed one hands out nothing;
  \<^verbatim>\<open>destroy\<close> of a live entity succeeds and takes back exactly this one; no other operation changes
  what is live. No operation panics.
\<close>

definition creates :: "('b \<Rightarrow> bool) \<Rightarrow> ('b \<Rightarrow> nat set) \<Rightarrow> ('b, nat) action \<Rightarrow> bool" where
  "creates valid live m \<longleftrightarrow> (\<forall>L. triple (\<lambda>b. valid b \<and> live b = L) m
     (\<lambda>e b. valid b \<and> e \<notin> L \<and> live b = insert e L) (\<lambda>b. valid b \<and> live b = L))"

definition keeps :: "('b \<Rightarrow> bool) \<Rightarrow> ('b \<Rightarrow> nat set) \<Rightarrow> ('b, 'a) action \<Rightarrow> bool" where
  "keeps valid live m \<longleftrightarrow> (\<forall>L. triple (\<lambda>b. valid b \<and> live b = L) m
     (\<lambda>_ b. valid b \<and> live b = L) (\<lambda>b. valid b \<and> live b = L))"

definition destroys :: "('b \<Rightarrow> bool) \<Rightarrow> ('b \<Rightarrow> nat set) \<Rightarrow> nat \<Rightarrow> ('b, unit) action \<Rightarrow> bool" where
  "destroys valid live e m \<longleftrightarrow> (\<forall>L. e \<in> L \<longrightarrow> triple (\<lambda>b. valid b \<and> live b = L) m
     (\<lambda>_ b. valid b \<and> live b = L - {e}) (\<lambda>b. False))"

text \<open>The trait methods that return no \<^verbatim>\<open>Result\<close> (\<^verbatim>\<open>discard_request\<close>) cannot fail.\<close>

definition infallible :: "('b \<Rightarrow> bool) \<Rightarrow> ('b, 'a) action \<Rightarrow> bool" where
  "infallible valid m \<longleftrightarrow> triple valid m (\<lambda>_ _. True) (\<lambda>_. False)"

text \<open>The answer to a request is a message, so an object.\<close>

fun event_ok :: "event \<Rightarrow> bool" where
  "event_ok (EvResponse e n v) = is_object v"
| "event_ok ev = True"

locale backend_contract =
  fixes B :: "'b backend_ops" and valid :: "'b \<Rightarrow> bool" and live :: "'b \<Rightarrow> nat set"
  assumes finite_live: "valid b \<Longrightarrow> finite (live b)"
    and publisher: "creates valid live (be_publisher B n t q)"
    and subscription: "creates valid live (be_subscription B n t q)"
    and client: "creates valid live (be_client B n t)"
    and service: "creates valid live (be_service B n t)"
    and publish: "keeps valid live (be_publish B e v)"
    and request: "keeps valid live (be_request B e v)"
    and validate_response: "keeps valid live (be_validate_response B e v)"
    and respond: "keeps valid live (be_respond B e r v)"
    and discard_request: "keeps valid live (be_discard_request B e r)"
    and discard_total: "infallible valid (be_discard_request B e r)"
    and destroy: "destroys valid live e (be_destroy B e)"
    and poll: "keeps valid live (be_poll B)"
    and poll_events: "triple valid (be_poll B) (\<lambda>evs _. list_all event_ok evs) (\<lambda>_. True)"
    and topics: "keeps valid live (be_topics B)"
    and services: "keeps valid live (be_services B)"
    and publisher_qos: "keeps valid live (be_publisher_qos B n)"

end
