(* ===== verification/Wire.thy ===== *)
theory Wire
  imports Values
begin

text \<open>
  \<^verbatim>\<open>src/wire.rs\<close>: the conversion between JSON and CBOR values, the encoding of an outgoing
  message (plain, PNG, CBOR, fragmented) and the \<^verbatim>\<open>Decoder\<close> that reassembles fragments.
  The text and binary formats of the libraries are the record \<open>codec\<close>.
\<close>

section \<open>Libraries\<close>

record codec =
  json_print :: "json \<Rightarrow> string"
  json_parse :: "string \<Rightarrow> json outcome"
  cbor_write :: "cbor \<Rightarrow> byte list outcome"
  cbor_read :: "byte list \<Rightarrow> cbor outcome"
  base64 :: "byte list \<Rightarrow> string"
  png_encode :: "nat \<Rightarrow> nat \<Rightarrow> string \<Rightarrow> byte list outcome"

text \<open>A WebSocket message: \<open>Other\<close> stands for ping, pong and close frames.\<close>

datatype message = Text string | Binary "byte list" | Other

section \<open>Options\<close>

datatype compression = CompNone | CompPng | CompCbor | CompRaw

definition compression_parse :: "string \<Rightarrow> compression outcome" where
  "compression_parse s =
     (if s = ''none'' then Ok CompNone
      else if s = ''png'' then Ok CompPng
      else if s = ''cbor'' then Ok CompCbor
      else if s = ''cbor-raw'' then Ok CompRaw
      else Err (''unsupported compression '' @ s))"

record options =
  opt_compression :: compression
  opt_fragment :: "nat option"
  opt_throttle :: nat
  opt_queue :: nat

definition options_default :: options where
  "options_default =
     \<lparr>opt_compression = CompNone, opt_fragment = None, opt_throttle = 0, opt_queue = 0\<rparr>"

definition integer_option :: "json \<Rightarrow> string \<Rightarrow> nat outcome" where
  "integer_option v key =
     (case jget v key of
        None \<Rightarrow> Ok 0
      | Some x \<Rightarrow> context_of (as_u64 x) (key @ '' must be a nonnegative integer''))"

definition options_parse :: "json \<Rightarrow> options outcome" where
  "options_parse v =
     bindO (integer_option v ''fragment_size'') (\<lambda>fragment.
     bindO (case jget v ''compression'' of
              None \<Rightarrow> Ok ''none''
            | Some x \<Rightarrow> context_of (as_str x) ''compression must be a string'') (\<lambda>name.
     bindO (compression_parse name) (\<lambda>compression.
     bindO (integer_option v ''throttle_rate'') (\<lambda>throttle.
     bindO (integer_option v ''queue_length'') (\<lambda>queue.
     Ok \<lparr>opt_compression = compression,
        opt_fragment = (if fragment > 0 then Some fragment else None),
        opt_throttle = millis throttle, opt_queue = queue\<rparr>)))))"

section \<open>JSON and CBOR values\<close>

definition cbor_number :: "number \<Rightarrow> cbor" where
  "cbor_number n =
     (case as_i64 (JNum n) of
        Some i \<Rightarrow> CInt i
      | None \<Rightarrow> (case as_u64 (JNum n) of
          Some u \<Rightarrow> CInt (int u)
        | None \<Rightarrow> CFloat (the (as_f64 (JNum n)))))"

lemma size_entry [termination_simp]:
  "(k, v) \<in> set fs \<Longrightarrow> size v < Suc (size_list (size_prod f size) fs)"
  by (induction fs) auto

lemma size_entry_fst [termination_simp]:
  "(k, v) \<in> set fs \<Longrightarrow> size k < Suc (size_list (size_prod size size) fs)"
  by (induction fs) auto

fun cbor_value :: "json \<Rightarrow> cbor" where
  "cbor_value JNull = CNull"
| "cbor_value (JBool b) = CBool b"
| "cbor_value (JStr s) = CText s"
| "cbor_value (JNum n) = cbor_number n"
| "cbor_value (JArr xs) = CArr (map cbor_value xs)"
| "cbor_value (JObj fs) = CMap (map (\<lambda>(k, v). (CText k, cbor_value v)) fs)"

text \<open>Little-endian elements of a typed array.\<close>

fun le_nat :: "byte list \<Rightarrow> nat" where
  "le_nat [] = 0"
| "le_nat (b # bs) = unat b + 256 * le_nat bs"

definition le_int :: "byte list \<Rightarrow> int" where
  "le_int bs =
     (let n = le_nat bs; w = 8 * length bs
      in if n < 2 ^ (w - 1) then int n else int n - 2 ^ w)"

definition le_f32 :: "byte list \<Rightarrow> json" where
  "le_f32 bs =
     (let w = word_of_nat (le_nat bs) :: f32
      in if (unat w div 2 ^ 23) mod 256 = 255 then JNull else JNum (Float (f64_of_f32 w)))"

definition le_f64 :: "byte list \<Rightarrow> json" where
  "le_f64 bs = jfloat (word_of_nat (le_nat bs))"

fun chunks_exact :: "nat \<Rightarrow> 'a list \<Rightarrow> 'a list list" where
  "chunks_exact n xs =
     (if n = 0 \<or> length xs < n then [] else take n xs # chunks_exact n (drop n xs))"

declare chunks_exact.simps [simp del]

definition unpack :: "nat \<Rightarrow> (byte list \<Rightarrow> json) \<Rightarrow> byte list \<Rightarrow> json outcome" where
  "unpack width element bytes =
     bindO (ensure (length bytes mod width = 0) ''invalid typed array length'') (\<lambda>_.
     Ok (JArr (map element (chunks_exact width bytes))))"

definition typed_array :: "codec \<Rightarrow> nat \<Rightarrow> cbor \<Rightarrow> json outcome" where
  "typed_array K tag v = (case v of
     CBytes bytes \<Rightarrow>
       if tag = 64 then Ok (JStr (base64 K bytes))
       else if tag = 69 then unpack 2 (\<lambda>b. jnat (le_nat b)) bytes
       else if tag = 70 then unpack 4 (\<lambda>b. jnat (le_nat b)) bytes
       else if tag = 71 then unpack 8 (\<lambda>b. jnat (le_nat b)) bytes
       else if tag = 72 then unpack 1 (\<lambda>b. jint (le_int b)) bytes
       else if tag = 77 then unpack 2 (\<lambda>b. jint (le_int b)) bytes
       else if tag = 78 then unpack 4 (\<lambda>b. jint (le_int b)) bytes
       else if tag = 79 then unpack 8 (\<lambda>b. jint (le_int b)) bytes
       else if tag = 85 then unpack 4 le_f32 bytes
       else if tag = 86 then unpack 8 le_f64 bytes
       else Err (''unsupported CBOR tag '' @ dec tag)
   | _ \<Rightarrow> Err ''typed array must contain bytes'')"

text \<open>Collecting into a JSON object: a repeated key keeps its first place and its last
  value.\<close>

definition object_of :: "(string \<times> json) list \<Rightarrow> (string \<times> json) list" where
  "object_of kvs = foldl (\<lambda>m (k, v). AList.update k v m) [] kvs"

definition cbor_int :: "int \<Rightarrow> json outcome" where
  "cbor_int n =
     (if n < 0 then (if - (2 ^ 63) \<le> n then Ok (jint n) else Err try_from_int_error)
      else if n < 2 ^ 64 then Ok (jnat (nat n)) else Err try_from_int_error)"

fun json_value :: "codec \<Rightarrow> cbor \<Rightarrow> json outcome" where
  "json_value K CNull = Ok JNull"
| "json_value K (CBool b) = Ok (JBool b)"
| "json_value K (CText s) = Ok (JStr s)"
| "json_value K (CFloat w) = Ok (jfloat w)"
| "json_value K (CInt n) = cbor_int n"
| "json_value K (CBytes bs) = Ok (JStr (base64 K bs))"
| "json_value K (CArr xs) = bindO (mapO (json_value K) xs) (\<lambda>vs. Ok (JArr vs))"
| "json_value K (CMap kvs) =
     bindO (mapO (\<lambda>(k, v). case k of
         CText s \<Rightarrow> bindO (json_value K v) (\<lambda>j. Ok (s, j))
       | _ \<Rightarrow> Err ''CBOR object keys must be strings'') kvs) (\<lambda>fs. Ok (JObj (object_of fs)))"
| "json_value K (CTag t v) = typed_array K t v"

section \<open>Encoding\<close>

text \<open>\<^verbatim>\<open>(n as f64 / 3.0).sqrt().floor()\<close>, the integer square root of the quotient. The float
  computation gives it exactly for texts below 2^50 bytes.\<close>

fun isqrt :: "nat \<Rightarrow> nat" where
  "isqrt n =
     (if n = 0 then 0
      else let r = 2 * isqrt (n div 4) in if (r + 1) * (r + 1) \<le> n then r + 1 else r)"

declare isqrt.simps [simp del]

definition png_width :: "nat \<Rightarrow> nat" where
  "png_width n = max 1 (isqrt (n div 3))"

definition div_ceil :: "nat \<Rightarrow> nat \<Rightarrow> nat" where
  "div_ceil a b = (a + b - 1) div b"

definition resize :: "'a list \<Rightarrow> nat \<Rightarrow> 'a \<Rightarrow> 'a list" where
  "resize xs n x = take n xs @ replicate (n - length xs) x"

definition png_pixels :: "string \<Rightarrow> nat \<times> nat \<times> string" where
  "png_pixels text =
     (let width = png_width (length text); height = div_ceil (length text) (3 * width)
      in (width, height, resize text (width * height * 3) (CHR 0x0A)))"

definition png_text :: "codec \<Rightarrow> string \<Rightarrow> string outcome" where
  "png_text K text =
     (case png_pixels text of (width, height, rgb) \<Rightarrow>
        bindO (png_encode K (width mod 2 ^ 32) (height mod 2 ^ 32) rgb) (\<lambda>bytes.
        Ok (json_print K (JObj [(''op'', JStr ''png''), (''data'', JStr (base64 K bytes))]))))"

text \<open>The loop over \<^verbatim>\<open>start\<close>; every pass ends after where it started or fails.\<close>

function fragment_chunks :: "string \<Rightarrow> nat \<Rightarrow> nat \<Rightarrow> string list outcome" where
  "fragment_chunks text limit start =
     (if start < length text then
        let stop = boundary_before text (min (start + limit) (length text))
        in if stop > start
           then bindO (fragment_chunks text limit stop) (\<lambda>cs.
                Ok (take (stop - start) (drop start text) # cs))
           else Err ''fragment_size is too small for UTF-8 character''
      else Ok [])"
  by pat_completeness auto
termination
  by (relation "measure (\<lambda>(text, limit, start). length text - start)") auto

declare fragment_chunks.simps [simp del]

definition fragment_value :: "string \<Rightarrow> nat \<Rightarrow> nat \<Rightarrow> string \<Rightarrow> json" where
  "fragment_value fid ntotal num chunk =
     JObj [(''op'', JStr ''fragment''), (''id'', JStr fid), (''data'', JStr chunk),
           (''num'', jnat num), (''total'', jnat ntotal)]"

definition fragment_messages :: "codec \<Rightarrow> string \<Rightarrow> string list \<Rightarrow> message list" where
  "fragment_messages K fid chunks =
     map (\<lambda>(i, c). Text (json_print K (fragment_value fid (length chunks) i c)))
       (enumerate 0 chunks)"

definition encode ::
  "codec \<Rightarrow> json \<Rightarrow> cbor option \<Rightarrow> options \<Rightarrow> string \<Rightarrow> message list outcome" where
  "encode K v binary_value options fragment_id =
     (if opt_compression options = CompCbor \<or> opt_compression options = CompRaw then
        bindO (cbor_write K (case binary_value of Some b \<Rightarrow> b | None \<Rightarrow> cbor_value v))
          (\<lambda>bytes. Ok [Binary bytes])
      else
        bindO (if opt_compression options = CompPng then png_text K (json_print K v)
               else Ok (json_print K v)) (\<lambda>text.
        case opt_fragment options of
          Some limit \<Rightarrow>
            if length text > limit
            then bindO (fragment_chunks text limit 0) (\<lambda>cs. Ok (fragment_messages K fragment_id cs))
            else Ok [Text text]
        | None \<Rightarrow> Ok [Text text]))"

section \<open>Decoding\<close>

record assembly =
  parts :: "string option list"
  a_bytes :: nat
  created :: nat

record decoder =
  fragments :: "(string \<times> assembly) list"
  d_timeout :: nat

definition with_timeout :: "nat \<Rightarrow> decoder" where
  "with_timeout timeout = \<lparr>fragments = [], d_timeout = timeout\<rparr>"

definition decoder_default :: decoder where
  "decoder_default = with_timeout (secs 30)"

definition expire :: "nat \<Rightarrow> decoder \<Rightarrow> decoder" where
  "expire now d = d\<lparr>fragments := retain (\<lambda>_ a. since now (created a) < d_timeout d) (fragments d)\<rparr>"

text \<open>The value of one message; \<^verbatim>\<open>None\<close> for a control frame.\<close>

definition read_message :: "codec \<Rightarrow> message \<Rightarrow> nat \<Rightarrow> json option outcome" where
  "read_message K m limit = (case m of
     Text text \<Rightarrow>
       bindO (ensure (length text \<le> limit) ''message too large'') (\<lambda>_.
       bindO (json_parse K text) (\<lambda>v. Ok (Some v)))
   | Binary bytes \<Rightarrow>
       bindO (ensure (length bytes \<le> limit) ''message too large'') (\<lambda>_.
       bindO (cbor_read K bytes) (\<lambda>c. bindO (json_value K c) (\<lambda>v. Ok (Some v))))
   | Other \<Rightarrow> Ok None)"

definition fragment_header :: "json \<Rightarrow> (string \<times> nat \<times> nat \<times> string) outcome" where
  "fragment_header v =
     bindO (context_of (as_str (jix v ''id'')) ''fragment id is required'') (\<lambda>fid.
     bindO (context_of (as_u64 (jix v ''total'')) ''fragment total is required'') (\<lambda>ntotal.
     bindO (context_of (as_u64 (jix v ''num'')) ''fragment num is required'') (\<lambda>num.
     bindO (context_of (as_str (jix v ''data'')) ''fragment data is required'') (\<lambda>data.
     bindO (ensure (ntotal > 0 \<and> ntotal \<le> 65536 \<and> num < ntotal) ''invalid fragment indices'') (\<lambda>_.
     Ok (fid, ntotal, num, data))))))"

text \<open>\<^verbatim>\<open>if a.parts[num].is_none() { ... }\<close>\<close>

definition add_part :: "nat \<Rightarrow> string \<Rightarrow> assembly \<Rightarrow> assembly" where
  "add_part num data a =
     (if parts a ! num = None
      then a\<lparr>a_bytes := a_bytes a + length data, parts := (parts a)[num := Some data]\<rparr> else a)"

definition assembled :: "codec \<Rightarrow> string option list \<Rightarrow> json option outcome" where
  "assembled K ps =
     bindO (json_parse K (concat (List.map_filter id ps))) (\<lambda>v.
     bindO (ensure (is_object v \<and> jix v ''op'' \<noteq> JStr ''fragment'') ''invalid assembled operation'') (\<lambda>_.
     Ok (Some v)))"

definition assemble ::
  "codec \<Rightarrow> nat \<Rightarrow> nat \<Rightarrow> string \<times> nat \<times> nat \<times> string \<Rightarrow> (decoder, json option) action" where
  "assemble K now limit h d = (case h of (fid, ntotal, num, data) \<Rightarrow>
     if \<not> (length (fragments d) < 16 \<or> has (fragments d) fid)
     then (Err ''too many fragment assemblies'', d)
     else
       let a0 = (case map_of (fragments d) fid of
                   Some a \<Rightarrow> a
                 | None \<Rightarrow> \<lparr>parts = replicate ntotal None, a_bytes = 0, created = now\<rparr>);
           d0 = d\<lparr>fragments := AList.update fid a0 (fragments d)\<rparr>
       in if length (parts a0) \<noteq> ntotal then (Err ''fragment total changed'', d0)
          else if \<not> num < length (parts a0) then (Panic, d0)
          else
            let a = add_part num data a0;
                d1 = d0\<lparr>fragments := AList.update fid a (fragments d0)\<rparr>;
                gone = d0\<lparr>fragments := AList.delete fid (fragments d0)\<rparr>
            in if a_bytes a > limit then (Err ''assembled message too large'', gone)
               else if list_all (\<lambda>p. p \<noteq> None) (parts a) then (assembled K (parts a), gone)
               else (Ok None, d1))"

definition decode ::
  "codec \<Rightarrow> nat \<Rightarrow> message \<Rightarrow> nat \<Rightarrow> (decoder, json option) action" where
  "decode K now m limit =
     bindA (modA (expire now)) (\<lambda>_.
     bindA (liftA (read_message K m limit)) (\<lambda>r.
     case r of
       None \<Rightarrow> retA None
     | Some v \<Rightarrow>
         bindA (liftA (ensure (is_object v) ''message must be an object'')) (\<lambda>_.
         if jix v ''op'' \<noteq> JStr ''fragment'' then retA (Some v)
         else bindA (liftA (fragment_header v)) (assemble K now limit))))"

section \<open>Round trip of values\<close>

lemma object_of_append: "distinct (keys (acc @ fs)) \<Longrightarrow>
   foldl (\<lambda>m (k, v). AList.update k v m) acc fs = acc @ fs"
proof (induction fs arbitrary: acc)
  case Nil
  show ?case by simp
next
  case (Cons f fs)
  obtain k v where f: "f = (k, v)" by (cases f)
  with Cons.prems have "k \<notin> set (keys acc)" by auto
  with Cons.IH [of "acc @ [(k, v)]"] Cons.prems f show ?case
    by (simp add: update_fresh)
qed

lemma object_of_distinct: "distinct (keys fs) \<Longrightarrow> object_of fs = fs"
  unfolding object_of_def using object_of_append [of "[]" fs] by simp

lemma cbor_number_value: "number_wf n \<Longrightarrow> json_value K (cbor_number n) = Ok (JNum n)"
  by (cases n) (auto simp: cbor_number_def cbor_int_def jint_def jnat_def jfloat_def)

lemma json_cbor_value: "json_wf v \<Longrightarrow> json_value K (cbor_value v) = Ok v"
proof (induction v rule: cbor_value.induct)
  case (4 n)
  then show ?case by (simp add: cbor_number_value)
next
  case (5 xs)
  then have "mapO (json_value K) (map cbor_value xs) = Ok xs"
    by (auto simp: mapO_Ok list_all2_conv_all_nth)
  then show ?case by simp
next
  case (6 fs)
  let ?f = "\<lambda>(k, v). case k of CText s \<Rightarrow> bindO (json_value K v) (\<lambda>j. Ok (s, j))
       | _ \<Rightarrow> Err ''CBOR object keys must be strings''"
  have "json_value K (cbor_value (snd kv)) = Ok (snd kv)" if "kv \<in> set fs" for kv
    using 6 that by (cases kv) fastforce
  then have "mapO ?f (map (\<lambda>(k, v). (CText k, cbor_value v)) fs) = Ok fs"
    unfolding mapO_Ok list_all2_conv_all_nth by (auto split: prod.split) (metis bindO.simps(1) nth_mem snd_conv)
  with 6 show ?case by (simp add: object_of_distinct)
qed auto

section \<open>PNG\<close>

lemma isqrt_bounds: "isqrt n * isqrt n \<le> n \<and> n < (isqrt n + 1) * (isqrt n + 1)"
proof (induction n rule: isqrt.induct)
  case (1 n)
  show ?case
  proof (cases "n = 0")
    case True
    then show ?thesis by (simp add: isqrt.simps)
  next
    case False
    let ?s = "isqrt (n div 4)"
    have IH: "?s * ?s \<le> n div 4" "n div 4 < (?s + 1) * (?s + 1)" using 1 False by auto
    have lo: "(2 * ?s) * (2 * ?s) \<le> n" using IH(1) by (simp add: algebra_simps)
    have "n < 4 * ((?s + 1) * (?s + 1))" using IH(2) by linarith
    then have hi: "n < (2 * ?s + 2) * (2 * ?s + 2)" by (simp add: algebra_simps)
    have eq: "isqrt n = (if (2 * ?s + 1) * (2 * ?s + 1) \<le> n then 2 * ?s + 1 else 2 * ?s)"
      by (subst isqrt.simps) (simp add: False Let_def)
    show ?thesis
    proof (cases "(2 * ?s + 1) * (2 * ?s + 1) \<le> n")
      case True
      then have "isqrt n = 2 * ?s + 1" using eq by simp
      with True hi show ?thesis by simp
    next
      case F: False
      then have "isqrt n = 2 * ?s" using eq by simp
      with F lo show ?thesis by simp
    qed
  qed
qed

lemma div_ceil_bounds: "0 < b \<Longrightarrow> a \<le> div_ceil a b * b \<and> div_ceil a b * b < a + b"
proof -
  assume b: "0 < b"
  have "(a + b - 1) div b * b \<le> a + b - 1" by (rule div_times_less_eq_dividend)
  moreover have "a + b - 1 < ((a + b - 1) div b + 1) * b"
    using b by (simp add: dividend_less_div_times)
  moreover have "a + b - 1 < a + b" using b by simp
  ultimately show ?thesis unfolding div_ceil_def add_mult_distrib by linarith
qed

lemma png_width_pos [simp]: "0 < png_width n"
  by (simp add: png_width_def)

section \<open>Fragments\<close>

lemma fragment_chunks_step:
  assumes "fragment_chunks str limit start = Ok cs" "start < length str"
  defines "stop \<equiv> boundary_before str (min (start + limit) (length str))"
  obtains ds where "fragment_chunks str limit stop = Ok ds" "start < stop" "stop \<le> length str"
    "stop \<le> start + limit" "cs = take (stop - start) (drop start str) # ds"
proof -
  have "stop \<le> length str" "stop \<le> start + limit"
    using boundary_before_le [of str "min (start + limit) (length str)"] by (auto simp: stop_def)
  with assms show ?thesis
    by (auto intro: that simp: stop_def fragment_chunks.simps [of str limit start] Let_def bindO_eq_Ok split: if_splits)
qed

lemma fragment_chunks_concat:
  "fragment_chunks str limit start = Ok cs \<Longrightarrow> concat cs = drop start str"
proof (induction str limit start arbitrary: cs rule: fragment_chunks.induct)
  case (1 str limit start)
  show ?case
  proof (cases "start < length str")
    case True
    let ?stop = "boundary_before str (min (start + limit) (length str))"
    from fragment_chunks_step [OF "1.prems" True] obtain ds where d: "fragment_chunks str limit ?stop = Ok ds"
      "start < ?stop" "cs = take (?stop - start) (drop start str) # ds" .
    have "concat ds = drop ?stop str" by (rule "1.IH" [OF True refl d(2) d(1)])
    moreover have "drop ?stop str = drop (?stop - start) (drop start str)" using d(2) by simp
    ultimately show ?thesis using d(3) by (metis append_take_drop_id concat.simps(2))
  next
    case False
    with "1.prems" show ?thesis by (simp add: fragment_chunks.simps [of str limit start])
  qed
qed

lemma fragment_chunks_size:
  "fragment_chunks str limit start = Ok cs \<Longrightarrow> \<forall>c \<in> set cs. c \<noteq> [] \<and> length c \<le> limit"
proof (induction str limit start arbitrary: cs rule: fragment_chunks.induct)
  case (1 str limit start)
  show ?case
  proof (cases "start < length str")
    case True
    let ?stop = "boundary_before str (min (start + limit) (length str))"
    from fragment_chunks_step [OF "1.prems" True] obtain ds where d: "fragment_chunks str limit ?stop = Ok ds"
      "start < ?stop" "?stop \<le> length str" "?stop \<le> start + limit"
      "cs = take (?stop - start) (drop start str) # ds" .
    have "\<forall>c \<in> set ds. c \<noteq> [] \<and> length c \<le> limit" by (rule "1.IH" [OF True refl d(2) d(1)])
    with d show ?thesis by auto
  next
    case False
    with "1.prems" show ?thesis by (simp add: fragment_chunks.simps [of str limit start])
  qed
qed

text \<open>In UTF-8 one of any four consecutive positions is a boundary.\<close>

lemma boundary_near:
  assumes "utf8 str" "boundary str start" "start < length str" "start + 4 \<le> i" "i \<le> length str"
  shows "start < boundary_before str i"
proof -
  have u: "utf8 (drop start str)" using assms by (intro utf8_drop_boundary) auto
  have "\<exists>j. start < j \<and> j \<le> start + 4 \<and> boundary str j"
  proof (rule ccontr)
    assume no: "\<not> ?thesis"
    have c: "continuation (str ! (start + k))" if "0 < k" "k \<le> 4" "start + k < length str" for k
      using no that by (auto simp: boundary_def)
    have "start + 4 < length str"
    proof (rule ccontr)
      assume "\<not> start + 4 < length str"
      then have "boundary str (length str)" "length str \<le> start + 4" by (auto simp: boundary_def)
      with no assms(3) show False by auto
    qed
    then have "continuation (str ! (start + Suc k))" if "k < 4" for k
      using that by (intro c) auto
    then have run: "\<forall>k < 4. continuation (drop (Suc start) str ! k)"
      using assms(3) by simp
    have "utf8_tail 3 (drop (Suc start) str)"
      using u assms(3) by (auto simp: utf8_def Cons_nth_drop_Suc [symmetric] split: if_splits)
    moreover have "4 \<le> length (drop (Suc start) str)" using \<open>start + 4 < length str\<close> by simp
    ultimately show False using utf8_tail_run [OF _ run] by fastforce
  qed
  then obtain j where "start < j" "j \<le> i" "boundary str j" using assms(4) by auto
  then show ?thesis using boundary_before_ge [of str j i] by simp
qed

lemma fragment_chunks_total:
  assumes "utf8 str" "4 \<le> limit" "boundary str start"
  shows "is_ok (fragment_chunks str limit start)"
  using assms
proof (induction str limit start rule: fragment_chunks.induct)
  case (1 str limit start)
  show ?case
  proof (cases "start < length str")
    case True
    let ?i = "min (start + limit) (length str)"
    let ?stop = "boundary_before str ?i"
    have stop: "start < ?stop"
    proof (cases "start + 4 \<le> length str")
      case True
      with 1 \<open>start < length str\<close> show ?thesis by (intro boundary_near) auto
    next
      case False
      with "1.prems"(2) have "?i = length str" by simp
      moreover have "boundary str (length str)" by (simp add: boundary_def)
      ultimately show ?thesis using True boundary_before_ge [of str "length str" ?i] by simp
    qed
    have "is_ok (fragment_chunks str limit ?stop)"
      by (rule "1.IH" [OF True refl stop "1.prems"(1,2)]) (rule boundary_before_boundary)
    with stop True show ?thesis
      by (auto simp: fragment_chunks.simps [of str limit start] Let_def is_ok_iff)
  next
    case False
    then show ?thesis by (simp add: fragment_chunks.simps)
  qed
qed

section \<open>The decoder's bounds\<close>

definition part_bytes :: "string option list \<Rightarrow> nat" where
  "part_bytes ps = sum_list (map (\<lambda>p. case p of None \<Rightarrow> 0 | Some s \<Rightarrow> length s) ps)"

definition assembly_ok :: "nat \<Rightarrow> assembly \<Rightarrow> bool" where
  "assembly_ok limit a \<longleftrightarrow> length (parts a) \<le> 65536 \<and> a_bytes a = part_bytes (parts a) \<and>
     a_bytes a \<le> limit \<and> None \<in> set (parts a)"

definition decoder_ok :: "nat \<Rightarrow> decoder \<Rightarrow> bool" where
  "decoder_ok limit d \<longleftrightarrow> distinct (keys (fragments d)) \<and> length (fragments d) \<le> 16 \<and>
     (\<forall>(k, a) \<in> set (fragments d). assembly_ok limit a)"

lemma decoder_ok_assembly: "decoder_ok limit d \<Longrightarrow> map_of (fragments d) k = Some a \<Longrightarrow> assembly_ok limit a"
  by (auto simp: decoder_ok_def dest: map_of_SomeD)

lemma decoder_ok_init [simp]: "decoder_ok limit (with_timeout t)"
  by (simp add: decoder_ok_def with_timeout_def)

lemma decoder_ok_filter:
  "decoder_ok limit d \<Longrightarrow> decoder_ok limit (d\<lparr>fragments := filter p (fragments d)\<rparr>)"
  by (auto simp: decoder_ok_def intro: le_trans [OF length_filter_le])

lemma decoder_ok_expire [simp]: "decoder_ok limit d \<Longrightarrow> decoder_ok limit (expire now d)"
  unfolding expire_def by (rule decoder_ok_filter)

lemma decoder_ok_remove:
  "decoder_ok limit d \<Longrightarrow> decoder_ok limit (d\<lparr>fragments := AList.delete k (fragments d)\<rparr>)"
  unfolding remove_filter by (rule decoder_ok_filter)

lemma decoder_ok_update:
  assumes "decoder_ok limit d" "assembly_ok limit a"
    and "length (fragments d) < 16 \<or> k \<in> set (keys (fragments d))"
  shows "decoder_ok limit (d\<lparr>fragments := AList.update k a (fragments d)\<rparr>)"
  using assms by (auto simp: decoder_ok_def length_update in_set_update simp del: list.set_map)

lemma part_bytes_update:
  "num < length ps \<Longrightarrow> ps ! num = None \<Longrightarrow> part_bytes (ps[num := Some s]) = part_bytes ps + length s"
proof (induction ps arbitrary: num)
  case (Cons p ps)
  then show ?case by (cases num) (auto simp: part_bytes_def)
qed simp

lemma part_bytes_None [simp]: "part_bytes (replicate n None) = 0"
  by (induction n) (auto simp: part_bytes_def)

lemma add_part_bytes:
  "num < length (parts a) \<Longrightarrow> a_bytes a = part_bytes (parts a) \<Longrightarrow>
   a_bytes (add_part num s a) = part_bytes (parts (add_part num s a))"
  by (simp add: add_part_def part_bytes_update)

lemma add_part_length [simp]: "length (parts (add_part num s a)) = length (parts a)"
  by (simp add: add_part_def)

lemma fragment_header_Ok:
  "fragment_header v = Ok (fid, ntotal, num, data) \<Longrightarrow> 0 < ntotal \<and> ntotal \<le> 65536 \<and> num < ntotal"
  by (auto simp: fragment_header_def bindO_eq_Ok)

lemma fragment_header_no_panic [simp]: "fragment_header v \<noteq> Panic"
  by (auto simp: fragment_header_def bindO_Panic)

text \<open>The assembly a fragment goes into.\<close>

definition target :: "decoder \<Rightarrow> nat \<Rightarrow> string \<Rightarrow> nat \<Rightarrow> assembly" where
  "target d now fid ntotal = (case map_of (fragments d) fid of
     Some a \<Rightarrow> a | None \<Rightarrow> \<lparr>parts = replicate ntotal None, a_bytes = 0, created = now\<rparr>)"

lemma assemble_eq:
  "assemble K now limit (fid, ntotal, num, data) d =
    (let t = target d now fid ntotal; a = add_part num data t;
         put = (\<lambda>a. d\<lparr>fragments := AList.update fid a (fragments d)\<rparr>);
         gone = d\<lparr>fragments := AList.delete fid (fragments d)\<rparr>
     in if \<not> (length (fragments d) < 16 \<or> has (fragments d) fid) then (Err ''too many fragment assemblies'', d)
        else if length (parts t) \<noteq> ntotal then (Err ''fragment total changed'', put t)
        else if \<not> num < ntotal then (Panic, put t)
        else if a_bytes a > limit then (Err ''assembled message too large'', gone)
        else if None \<notin> set (parts a) then (assembled K (parts a), gone)
        else (Ok None, put a))"
  unfolding assemble_def target_def Let_def
  by (auto simp: list_all_iff split: option.splits)

lemma target_ok:
  assumes "decoder_ok limit d" "0 < ntotal" "ntotal \<le> 65536"
  shows "assembly_ok limit (target d now fid ntotal)"
proof (cases "map_of (fragments d) fid")
  case None
  with assms show ?thesis by (simp add: target_def assembly_ok_def)
next
  case (Some a)
  with decoder_ok_assembly [OF assms(1)] show ?thesis by (simp add: target_def)
qed

lemma assemble_ok:
  assumes d: "decoder_ok limit d" and n: "0 < ntotal" "ntotal \<le> 65536"
  shows "decoder_ok limit (snd (assemble K now limit (fid, ntotal, num, data) d))"
proof -
  let ?t = "target d now fid ntotal" and ?a = "add_part num data (target d now fid ntotal)"
  have t: "assembly_ok limit ?t" by (rule target_ok [OF assms])
  have a: "assembly_ok limit ?a"
    if "length (parts ?t) = ntotal" "num < ntotal" "\<not> limit < a_bytes ?a" "None \<in> set (parts ?a)"
    using t that add_part_bytes [of num ?t data] by (simp add: assembly_ok_def)
  show ?thesis
  proof (cases "length (fragments d) < 16 \<or> has (fragments d) fid")
    case True
    then have "decoder_ok limit (d\<lparr>fragments := AList.update fid x (fragments d)\<rparr>)"
      if "assembly_ok limit x" for x
      using d that by (intro decoder_ok_update) auto
    with True t a decoder_ok_remove [OF d] show ?thesis
      by (simp add: assemble_eq Let_def del: has_keys)
  next
    case False
    then show ?thesis using d by (simp add: assemble_eq Let_def del: has_keys)
  qed
qed

lemma assembled_no_panic:
  "(\<And>s. json_parse K s \<noteq> Panic) \<Longrightarrow> assembled K ps \<noteq> Panic"
  by (auto simp: assembled_def bindO_Panic)

lemma assemble_no_panic:
  assumes "num < ntotal" "\<And>s. json_parse K s \<noteq> Panic"
  shows "fst (assemble K now limit (fid, ntotal, num, data) d) \<noteq> Panic"
  using assms by (simp add: assemble_eq Let_def assembled_no_panic del: has_keys)

text \<open>The library readers report failures, they do not panic.\<close>

definition readers_total :: "codec \<Rightarrow> bool" where
  "readers_total K \<longleftrightarrow> (\<forall>s. json_parse K s \<noteq> Panic) \<and> (\<forall>b. cbor_read K b \<noteq> Panic)"

lemma json_value_no_panic [simp]: "json_value K c \<noteq> Panic"
proof (induction K c rule: json_value.induct)
  case (7 K xs)
  then show ?case by (auto simp: bindO_Panic dest!: mapO_Panic)
next
  case (8 K kvs)
  then show ?case
    by (auto simp: bindO_Panic dest!: mapO_Panic split: cbor.splits) 
next
  case (9 K t v)
  show ?case by (auto simp: typed_array_def unpack_def bindO_Panic split: cbor.split)
qed (auto simp: cbor_int_def)

lemma read_message_no_panic: "readers_total K \<Longrightarrow> read_message K m limit \<noteq> Panic"
  by (auto simp: read_message_def readers_total_def bindO_Panic split: message.split)

lemma decode_ok: "decoder_ok limit d \<Longrightarrow> decoder_ok limit (snd (decode K now m limit d))"
proof -
  assume "decoder_ok limit d"
  then have e: "decoder_ok limit (expire now d)" by simp
  have "decoder_ok limit (snd (assemble K now limit h (expire now d)))"
    if "fragment_header v = Ok h" for v h
  proof (cases h)
    case (fields fid ntotal num data)
    with that fragment_header_Ok [of v fid ntotal num data] e show ?thesis by (simp add: assemble_ok)
  qed
  with e show ?thesis
    by (auto simp: decode_def action_defs split: outcome.splits option.splits)
qed

lemma decode_no_panic:
  assumes "readers_total K"
  shows "fst (decode K now m limit d) \<noteq> Panic"
proof -
  have "fst (assemble K now limit h d') \<noteq> Panic" if "fragment_header v = Ok h" for v h d'
  proof (cases h)
    case (fields fid ntotal num data)
    with that fragment_header_Ok [of v fid ntotal num data] assms
      assemble_no_panic [of num ntotal K now limit fid data d'] show ?thesis
      by (simp add: readers_total_def)
  qed
  with read_message_no_panic [OF assms] show ?thesis
    by (auto simp: decode_def action_defs split: outcome.splits option.splits)
qed

section \<open>Fragments and their reassembly\<close>

fun feed :: "codec \<Rightarrow> nat \<Rightarrow> (nat \<times> message) list \<Rightarrow> decoder \<Rightarrow> json option outcome list" where
  "feed K limit [] d = []"
| "feed K limit ((t, m) # ms) d =
     (let r = decode K t m limit d in fst r # feed K limit ms (snd r))"

text \<open>What the decoder holds of a message whose parts \<open>S\<close> have arrived.\<close>

definition holding :: "string list \<Rightarrow> nat set \<Rightarrow> string option list" where
  "holding cs S = map (\<lambda>i. if i \<in> S then Some (cs ! i) else None) [0..<length cs]"

definition receiving :: "string \<Rightarrow> string list \<Rightarrow> nat \<Rightarrow> nat set \<Rightarrow> decoder \<Rightarrow> bool" where
  "receiving fid cs t0 S d \<longleftrightarrow>
     (if S = {} then map_of (fragments d) fid = None \<and> length (fragments d) < 16
      else \<exists>a. map_of (fragments d) fid = Some a \<and> parts a = holding cs S \<and> created a = t0)"

lemma length_holding [simp]: "length (holding cs S) = length cs"
  by (simp add: holding_def)

lemma holding_empty: "holding cs {} = replicate (length cs) None"
  by (simp add: holding_def map_replicate_const)

lemma holding_nth: "i < length cs \<Longrightarrow> holding cs S ! i = (if i \<in> S then Some (cs ! i) else None)"
  by (simp add: holding_def)

lemma holding_insert: "i < length cs \<Longrightarrow> (holding cs S)[i := Some (cs ! i)] = holding cs (insert i S)"
  by (rule nth_equalityI) (auto simp: holding_nth nth_list_update)

lemma holding_complete: "None \<notin> set (holding cs S) \<longleftrightarrow> {..<length cs} \<subseteq> S"
  by (auto simp: holding_def)

lemma holding_all: "{..<length cs} \<subseteq> S \<Longrightarrow> holding cs S = map Some cs"
  by (rule nth_equalityI) (auto simp: holding_nth)

lemma map_filter_Some [simp]: "List.map_filter id (map Some cs) = cs"
  by (induction cs) auto

lemma part_bytes_holding: "part_bytes (holding cs S) \<le> length (concat cs)"
proof -
  have "part_bytes (holding cs S) \<le> sum_list (map (\<lambda>i. length (cs ! i)) [0..<length cs])"
    unfolding part_bytes_def holding_def map_map by (rule sum_list_mono) auto
  also have "map (\<lambda>i. length (cs ! i)) [0..<length cs] = map length cs"
    by (rule nth_equalityI) auto
  also have "sum_list (map length cs) = length (concat cs)" by (simp add: length_concat)
  finally show ?thesis .
qed

lemma fragment_header_value:
  "0 < n \<Longrightarrow> n \<le> 65536 \<Longrightarrow> i < n \<Longrightarrow> fragment_header (fragment_value fid n i c) = Ok (fid, n, i, c)"
  by (simp add: fragment_header_def fragment_value_def jnat_def)

lemma decode_fragment:
  assumes "json_parse K (json_print K (fragment_value fid n i c)) = Ok (fragment_value fid n i c)"
    and "length (json_print K (fragment_value fid n i c)) \<le> limit"
    and "0 < n" "n \<le> 65536" "i < n"
  shows "decode K now (Text (json_print K (fragment_value fid n i c))) limit d =
    assemble K now limit (fid, n, i, c) (expire now d)"
proof -
  have "is_object (fragment_value fid n i c)" "jix (fragment_value fid n i c) ''op'' = JStr ''fragment''"
    by (simp_all add: fragment_value_def is_object_def)
  with assms show ?thesis
    by (simp add: decode_def read_message_def fragment_header_value bindA_def [of "modA _"] modA_def
        ensure_simps)
qed

lemma receiving_expire:
  assumes "receiving fid cs t0 S d" "now - t0 < d_timeout d" "distinct (keys (fragments d))"
  shows "receiving fid cs t0 S (expire now d)"
proof (cases "S = {}")
  case True
  with assms show ?thesis
    using le_less_trans [OF length_filter_le]
    by (auto simp: receiving_def expire_def map_of_filter_keys)
next
  case False
  with assms show ?thesis by (auto simp: receiving_def expire_def map_of_filter_keys since_def)
qed

text \<open>One more part.\<close>

lemma assemble_part:
  assumes d: "decoder_ok limit d" "receiving fid cs t0 S d"
    and i: "i < length cs" "i \<notin> S" "length cs \<le> 65536" and t: "S = {} \<longrightarrow> now = t0"
    and size: "length (concat cs) \<le> limit"
  shows "if {..<length cs} \<subseteq> insert i S
    then fst (assemble K now limit (fid, length cs, i, cs ! i) d) = assembled K (map Some cs)
    else \<exists>d'. assemble K now limit (fid, length cs, i, cs ! i) d = (Ok None, d') \<and>
      decoder_ok limit d' \<and> receiving fid cs t0 (insert i S) d' \<and> d_timeout d' = d_timeout d"
proof -
  let ?t = "target d now fid (length cs)"
  let ?a = "add_part i (cs ! i) ?t"
  let ?d = "d\<lparr>fragments := AList.update fid ?a (fragments d)\<rparr>"
  have tp: "parts ?t = holding cs S" "created ?t = t0"
    using d(2) t by (auto simp: receiving_def target_def holding_empty split: if_splits)
  have tb: "a_bytes ?t = part_bytes (parts ?t)"
    using target_ok [OF d(1), of "length cs" now fid] i by (cases cs) (auto simp: assembly_ok_def)
  have ap: "parts ?a = holding cs (insert i S)" "created ?a = t0"
    using tp i by (simp_all add: add_part_def holding_nth holding_insert)
  have ab: "a_bytes ?a \<le> limit"
    using add_part_bytes [of i ?t "cs ! i"] tb tp i ap part_bytes_holding [of cs "insert i S"] size by simp
  have room: "length (fragments d) < 16 \<or> has (fragments d) fid"
    using d(2) by (auto simp: receiving_def has_def simp del: has_keys split: if_splits)
  have n: "length (parts ?t) = length cs" using tp by simp
  have r: "assemble K now limit (fid, length cs, i, cs ! i) d =
    (if {..<length cs} \<subseteq> insert i S
     then (assembled K (parts ?a), d\<lparr>fragments := AList.delete fid (fragments d)\<rparr>) else (Ok None, ?d))"
    using room n i(1) ab ap(1) holding_complete [of cs "insert i S"]
    by (simp add: assemble_eq Let_def del: has_keys)
  show ?thesis
  proof (cases "{..<length cs} \<subseteq> insert i S")
    case True
    with r ap(1) show ?thesis by (simp add: holding_all)
  next
    case False
    then have "None \<in> set (holding cs (insert i S))"
      by (rule contrapos_np) (simp only: holding_complete)
    moreover have "a_bytes ?a = part_bytes (parts ?a)"
      by (rule add_part_bytes) (use tb tp i in simp_all)
    ultimately have "assembly_ok limit ?a"
      unfolding assembly_ok_def ap(1) length_holding using ab i(3) by blast
    moreover have "length (fragments d) < 16 \<or> fid \<in> set (keys (fragments d))" using room by simp
    ultimately have "decoder_ok limit ?d" by (rule decoder_ok_update [OF d(1)])
    moreover have "receiving fid cs t0 (insert i S) ?d" using ap by (simp add: receiving_def)
    ultimately show ?thesis using False r by simp
  qed
qed

lemma expire_timeout [simp]: "d_timeout (expire now d) = d_timeout d"
  by (simp add: expire_def)

text \<open>A message's parts in any order: the last one delivers it, the others deliver nothing.\<close>

lemma feed_parts:
  assumes "decoder_ok limit d" "receiving fid cs t0 S d"
    and "distinct (map snd tis)" "set (map snd tis) \<inter> S = {}" "set (map snd tis) \<union> S = {..<length cs}"
    and "tis \<noteq> []" "S = {} \<longrightarrow> fst (hd tis) = t0" "\<forall>(t, i) \<in> set tis. t - t0 < d_timeout d"
    and "length cs \<le> 65536" "length (concat cs) \<le> limit"
    and "\<forall>i < length cs. json_parse K (json_print K (fragment_value fid (length cs) i (cs ! i))) =
        Ok (fragment_value fid (length cs) i (cs ! i)) \<and>
      length (json_print K (fragment_value fid (length cs) i (cs ! i))) \<le> limit"
  shows "feed K limit (map (\<lambda>(t, i). (t, Text (json_print K (fragment_value fid (length cs) i (cs ! i))))) tis) d =
    replicate (length tis - 1) (Ok None) @ [assembled K (map Some cs)]"
  using assms
proof (induction tis arbitrary: d S)
  case Nil
  then show ?case by simp
next
  case (Cons ti tis)
  obtain t i where ti: "ti = (t, i)" by (cases ti)
  have i: "i < length cs" "i \<notin> S" using Cons.prems(4,5) ti by auto
  let ?e = "expire t d"
  have e: "decoder_ok limit ?e" using Cons.prems(1) by simp
  have "receiving fid cs t0 S ?e"
    using receiving_expire [OF Cons.prems(2)] Cons.prems(1,8) ti by (auto simp: decoder_ok_def)
  note part = assemble_part [OF e this i Cons.prems(9) _ Cons.prems(10), of t K]
  have dec: "decode K t (Text (json_print K (fragment_value fid (length cs) i (cs ! i)))) limit d =
      assemble K t limit (fid, length cs, i, cs ! i) ?e"
    using Cons.prems(9,11) i by (intro decode_fragment) auto
  show ?case
  proof (cases "tis = []")
    case True
    then have "{..<length cs} \<subseteq> insert i S" using Cons.prems(5) ti by auto
    with part Cons.prems(7) ti True dec show ?thesis by simp
  next
    case False
    then obtain t' i' where "(t', i') \<in> set tis" by (cases tis) auto
    with Cons.prems(3,4,5) ti have "i' \<in> {..<length cs}" "i' \<notin> insert i S" by force+
    then have "\<not> {..<length cs} \<subseteq> insert i S" by blast
    with part Cons.prems(7) ti obtain d' where d': "assemble K t limit (fid, length cs, i, cs ! i) ?e = (Ok None, d')"
      "decoder_ok limit d'" "receiving fid cs t0 (insert i S) d'" "d_timeout d' = d_timeout d" by auto
    have "feed K limit (map (\<lambda>(t, i). (t, Text (json_print K (fragment_value fid (length cs) i (cs ! i))))) tis) d' =
      replicate (length tis - 1) (Ok None) @ [assembled K (map Some cs)]"
      by (rule Cons.IH [OF d'(2,3)]) (use Cons.prems False ti d'(4) i in auto)
    with dec d'(1) ti False show ?thesis by (cases tis) auto
  qed
qed

section \<open>The decoder as a machine\<close>

definition decoder_step :: "codec \<Rightarrow> nat \<Rightarrow> nat \<times> message \<Rightarrow> decoder \<Rightarrow> decoder" where
  "decoder_step K limit tm d = snd (decode K (fst tm) (snd tm) limit d)"

interpretation decoding: machine "decoder_ok limit" "decoder_step K limit" "\<lambda>_ _. True"
  for K limit
  by unfold_locales (simp add: decoder_step_def decode_ok)

definition reads_back :: "codec \<Rightarrow> json \<Rightarrow> bool" where
  "reads_back K v \<longleftrightarrow> json_parse K (json_print K v) = Ok v"

definition message_size :: "message \<Rightarrow> nat" where
  "message_size m = (case m of Text s \<Rightarrow> length s | Binary b \<Rightarrow> length b | Other \<Rightarrow> 0)"

text \<open>A small reader and printer for the witness: it knows one value and its two fragments.\<close>

definition sample_value :: json where
  "sample_value = JObj [(''op'', JStr ''x'')]"

definition sample_codec :: codec where
  "sample_codec =
     \<lparr>json_print = (\<lambda>v. if v = sample_value then ''abcdefg''
        else if v = fragment_value ''f'' 2 0 ''abcd'' then ''0''
        else if v = fragment_value ''f'' 2 1 ''efg'' then ''1'' else []),
      json_parse = (\<lambda>s. if s = ''abcdefg'' then Ok sample_value
        else if s = ''0'' then Ok (fragment_value ''f'' 2 0 ''abcd'')
        else if s = ''1'' then Ok (fragment_value ''f'' 2 1 ''efg'') else Err []),
      cbor_write = (\<lambda>_. Ok []), cbor_read = (\<lambda>_. Err []),
      base64 = (\<lambda>_. []), png_encode = (\<lambda>_ _ _. Ok [])\<rparr>"

section \<open>Properties\<close>

text \<open>
  C26. A JSON value sent as CBOR and read back is unchanged.
\<close>

theorem cbor_roundtrip: "json_wf v \<Longrightarrow> json_value K (cbor_value v) = Ok v"
  by (rule json_cbor_value)

theorem cbor_roundtrip_witness:
  "json_value sample_codec (cbor_value (JObj [(''a'', JArr [JNum (NegInt (- 5)), JBool True, JNull])])) =
     Ok (JObj [(''a'', JArr [JNum (NegInt (- 5)), JBool True, JNull])])"
  by (rule cbor_roundtrip) simp

text \<open>
  C24. Fragmenting a UTF-8 text always succeeds when a fragment may hold four bytes: the
  chunks are nonempty, none is longer than the limit, and together they are the text.
\<close>

theorem fragments_partition:
  assumes "utf8 s" "4 \<le> limit"
  shows "\<exists>cs. fragment_chunks s limit 0 = Ok cs \<and> concat cs = s \<and>
    (\<forall>c \<in> set cs. c \<noteq> [] \<and> length c \<le> limit)"
proof -
  obtain cs where cs: "fragment_chunks s limit 0 = Ok cs"
    using fragment_chunks_total [OF assms, of 0] by (auto simp: is_ok_iff)
  from fragment_chunks_concat [OF cs] fragment_chunks_size [OF cs] cs show ?thesis by auto
qed

theorem fragments_partition_witness:
  "\<exists>cs. fragment_chunks [CHR ''a'', CHR 0xF0, CHR 0x9F, CHR 0x98, CHR 0x80, CHR ''b''] 4 0 = Ok cs \<and>
     concat cs = [CHR ''a'', CHR 0xF0, CHR 0x9F, CHR 0x98, CHR 0x80, CHR ''b''] \<and>
     (\<forall>c \<in> set cs. c \<noteq> [] \<and> length c \<le> 4)"
  by (rule fragments_partition) (simp_all add: utf8_def continuation_def code_of_def numeral_3_eq_3)

text \<open>
  C25. The pixels of a PNG message are exactly width times height, they start with the text,
  and the newlines that pad it fill less than one row, so the text is never cut.
\<close>

theorem png_keeps_text:
  "\<exists>width height k. png_pixels s = (width, height, s @ replicate k (CHR 0x0A)) \<and>
     length s + k = width * height * 3 \<and> 0 < width \<and> k < 3 * width \<and>
     (width = 1 \<or> 3 * (width * width) \<le> length s)"
proof -
  let ?w = "png_width (length s)"
  let ?h = "div_ceil (length s) (3 * ?w)"
  let ?n = "?w * ?h * 3"
  have n: "length s \<le> ?n" "?n < length s + 3 * ?w"
    using div_ceil_bounds [of "3 * ?w" "length s"] by (auto simp: algebra_simps)
  have "?w = 1 \<or> 3 * (?w * ?w) \<le> length s"
  proof (cases "?w = 1")
    case False
    then have "?w = isqrt (length s div 3)" by (auto simp: png_width_def)
    then have "?w * ?w \<le> length s div 3" using isqrt_bounds by simp
    then show ?thesis by linarith
  qed simp
  moreover have "png_pixels s = (?w, ?h, s @ replicate (?n - length s) (CHR 0x0A))"
    using n(1) by (simp add: png_pixels_def resize_def Let_def)
  ultimately show ?thesis
    using n by (intro exI [of _ ?w] exI [of _ ?h] exI [of _ "?n - length s"]) auto
qed

text \<open>
  C23. Whatever messages arrive, a decoder holds at most 16 unfinished assemblies, each of at
  most 65536 parts with an exact byte count within the limit, and it never panics.
\<close>

theorem decoder_bounded:
  assumes "readers_total K"
  shows "decoder_ok limit (fold (decoder_step K limit) ms (with_timeout t)) \<and>
    fst (decode K now m limit (fold (decoder_step K limit) ms (with_timeout t))) \<noteq> Panic"
proof -
  have "decoding.admissible K limit ms d" for d by (induction ms arbitrary: d) auto
  then show ?thesis
    using decoding.run_inv [of limit "with_timeout t" K ms] decode_no_panic [OF assms]
    by (simp add: decoding.run_fold)
qed

theorem decoder_bounded_witness:
  "\<exists>K. decoder_ok 9 (fold (decoder_step K 9) [(0, Text ''abc''), (1, Binary [1])] (with_timeout 5)) \<and>
     fst (decode K 2 Other 9 (fold (decoder_step K 9) [(0, Text ''abc''), (1, Binary [1])] (with_timeout 5))) \<noteq> Panic"
  by (rule exI [of _ "\<lparr>json_print = (\<lambda>_. []), json_parse = (\<lambda>_. Ok JNull), cbor_write = (\<lambda>_. Ok []),
        cbor_read = (\<lambda>_. Err []), base64 = (\<lambda>_. []), png_encode = (\<lambda>_ _ _. Ok [])\<rparr>"], rule decoder_bounded)
    (simp add: readers_total_def)

text \<open>
  C14. Sending and receiving in fragments: the messages a text message was encoded to,
  received in any order within the timeout, deliver nothing until the last, which delivers
  the value that was sent. Relied on: the JSON reader reads back what was printed.
\<close>

theorem fragment_reassembly:
  assumes enc: "encode K v b opts fid = Ok msgs" "opt_compression opts = CompNone"
    and reads: "reads_back K v"
      "\<forall>cs. \<forall>i < length cs. fragment_chunks (json_print K v) (the (opt_fragment opts)) 0 = Ok cs \<longrightarrow>
         reads_back K (fragment_value fid (length cs) i (cs ! i))"
    and v: "is_object v" "jix v ''op'' \<noteq> JStr ''fragment''"
    and size: "length (json_print K v) \<le> limit" "\<forall>m \<in> set msgs. message_size m \<le> limit"
      "length msgs \<le> 65536"
    and d: "decoder_ok limit d" "map_of (fragments d) fid = None" "length (fragments d) < 16"
    and order: "distinct (map snd order)" "set (map snd order) = {..<length msgs}"
      "\<forall>(t, i) \<in> set order. t - fst (hd order) < d_timeout d"
  shows "feed K limit (map (\<lambda>(t, i). (t, msgs ! i)) order) d =
    replicate (length msgs - 1) (Ok None) @ [Ok (Some v)]"
proof -
  let ?s = "json_print K v"
  have len: "length order = length msgs"
    using order(1,2) distinct_card [OF order(1)] by simp
  show ?thesis
  proof (cases "\<exists>limit. opt_fragment opts = Some limit \<and> limit < length ?s")
    case False
    then have m: "msgs = [Text ?s]" using enc by (auto simp: encode_def split: option.splits)
    obtain t i where "order = [(t, i)]" using len m by (cases order) auto
    moreover have "i = 0" using order(2) m \<open>order = _\<close> by auto
    moreover have "fst (decode K t (Text ?s) limit d) = Ok (Some v)"
      using reads(1) size(1) v
      by (simp add: decode_def read_message_def reads_back_def bindA_def [of "modA _"] modA_def retA_def)
    ultimately show ?thesis using m by simp
  next
    case True
    then obtain n cs where n: "opt_fragment opts = Some n" "n < length ?s"
      and cs: "fragment_chunks ?s n 0 = Ok cs" and m: "msgs = fragment_messages K fid cs"
      using enc by (auto simp: encode_def bindO_eq_Ok)
    have lm: "length msgs = length cs" using m by (simp add: fragment_messages_def)
    have nth: "msgs ! i = Text (json_print K (fragment_value fid (length cs) i (cs ! i)))"
      if "i < length cs" for i
      using that by (simp add: m fragment_messages_def nth_enumerate_eq)
    have conc: "concat cs = ?s" using fragment_chunks_concat [OF cs] by simp
    then have "cs \<noteq> []" using n(2) by auto
    have ms: "map (\<lambda>(t, i). (t, msgs ! i)) order =
      map (\<lambda>(t, i). (t, Text (json_print K (fragment_value fid (length cs) i (cs ! i))))) order"
    proof (rule map_cong [OF refl])
      fix ti assume "ti \<in> set order"
      then have "snd ti \<in> {..<length cs}" using order(2) lm by (metis image_eqI set_map)
      then show "(case ti of (t, i) \<Rightarrow> (t, msgs ! i)) =
        (case ti of (t, i) \<Rightarrow> (t, Text (json_print K (fragment_value fid (length cs) i (cs ! i)))))"
        using nth by (cases ti) simp
    qed
    have "message_size (msgs ! i) \<le> limit" if "i < length cs" for i
      using size(2) that lm by simp
    then have sz: "length (json_print K (fragment_value fid (length cs) i (cs ! i))) \<le> limit"
      if "i < length cs" for i using nth that by (force simp: message_size_def)
    have rb: "json_parse K (json_print K (fragment_value fid (length cs) i (cs ! i))) =
        Ok (fragment_value fid (length cs) i (cs ! i))" if "i < length cs" for i
      using reads(2) cs n(1) that by (auto simp: reads_back_def)
    have "order \<noteq> []" using len lm \<open>cs \<noteq> []\<close> by auto
    have "receiving fid cs (fst (hd order)) {} d" using d by (simp add: receiving_def)
    from feed_parts [OF d(1) this order(1) _ _ _ _ order(3) _ _, of K] have
      "feed K limit (map (\<lambda>(t, i). (t, msgs ! i)) order) d =
        replicate (length order - 1) (Ok None) @ [assembled K (map Some cs)]"
      unfolding ms using order(2) lm size conc sz rb \<open>order \<noteq> []\<close> by auto
    moreover have "assembled K (map Some cs) = Ok (Some v)"
      using reads(1) v conc by (simp add: assembled_def reads_back_def)
    ultimately show ?thesis using len by simp
  qed
qed

theorem fragment_reassembly_witness:
  "feed sample_codec 100 [(7, Text ''1''), (9, Text ''0'')] (with_timeout 5) = [Ok None, Ok (Some sample_value)]"
proof -
  let ?opts = "options_default\<lparr>opt_fragment := Some 4\<rparr>"
  have c: "fragment_chunks ''abcdefg'' 4 0 = Ok [''abcd'', ''efg'']" by code_simp
  have p: "json_print sample_codec sample_value = ''abcdefg''" by (simp add: sample_codec_def)
  have f: "json_print sample_codec (fragment_value ''f'' 2 0 ''abcd'') = ''0''"
    "json_print sample_codec (fragment_value ''f'' 2 1 ''efg'') = ''1''"
    by (simp_all add: sample_codec_def sample_value_def fragment_value_def jnat_def)
  have e: "encode sample_codec sample_value None ?opts ''f'' = Ok [Text ''0'', Text ''1'']"
    using c p f by (simp add: encode_def options_default_def fragment_messages_def numeral_2_eq_2)
  have r: "reads_back sample_codec (fragment_value ''f'' 2 0 ''abcd'')"
    "reads_back sample_codec (fragment_value ''f'' 2 1 ''efg'')" "reads_back sample_codec sample_value"
    using f p by (simp_all add: reads_back_def) (simp_all add: sample_codec_def)
  have "feed sample_codec 100 (map (\<lambda>(t, i). (t, [Text ''0'', Text ''1''] ! i)) [(7, 1), (9, 0)]) (with_timeout 5) =
    replicate (length [Text ''0'', Text ''1''] - 1) (Ok None) @ [Ok (Some sample_value)]"
  proof (rule fragment_reassembly [OF e _ r(3)])
    show "\<forall>cs. \<forall>i < length cs. fragment_chunks (json_print sample_codec sample_value) (the (opt_fragment ?opts)) 0 = Ok cs \<longrightarrow>
        reads_back sample_codec (fragment_value ''f'' (length cs) i (cs ! i))"
      using c p r by (auto simp: less_Suc_eq numeral_2_eq_2)
  qed (auto simp: options_default_def sample_value_def is_object_def p [unfolded sample_value_def]
      message_size_def with_timeout_def decoder_ok_def)
  then show ?thesis by simp
qed

end
