(* ===== verification/Message.thy ===== *)
theory Message
  imports Backend Wire
begin

text \<open>
  \<^verbatim>\<open>src/ros/message.rs\<close>: the translation between JSON or CBOR and the memory of a ROS message,
  driven by the type description that the generated code of its package provides. Memory is a
  tree of typed slots in the order of the fields, instead of bytes at offsets; the generated
  init, resize and accessor functions are the default slots of the description.
\<close>

section \<open>Unicode\<close>

text \<open>\<^verbatim>\<open>String::from_utf8\<close> as the decoding into code points: no overlong form, no surrogate,
  nothing above U+10FFFF.\<close>

definition cont :: "nat \<Rightarrow> bool" where
  "cont c \<longleftrightarrow> 128 \<le> c \<and> c < 192"

fun utf8_points :: "nat list \<Rightarrow> nat list option" where
  "utf8_points [] = Some []"
| "utf8_points (b # bs) =
     (if b < 128 then map_option ((#) b) (utf8_points bs)
      else if 194 \<le> b \<and> b < 224 then
        (case bs of c # cs \<Rightarrow>
           if cont c then map_option ((#) ((b - 192) * 64 + (c - 128))) (utf8_points cs) else None
         | _ \<Rightarrow> None)
      else if 224 \<le> b \<and> b < 240 then
        (case bs of c # d # ds \<Rightarrow>
           if cont c \<and> cont d \<and> (b = 224 \<longrightarrow> 160 \<le> c) \<and> (b = 237 \<longrightarrow> c < 160)
           then map_option ((#) ((b - 224) * 4096 + (c - 128) * 64 + (d - 128))) (utf8_points ds) else None
         | _ \<Rightarrow> None)
      else if 240 \<le> b \<and> b < 245 then
        (case bs of c # d # e # es \<Rightarrow>
           if cont c \<and> cont d \<and> cont e \<and> (b = 240 \<longrightarrow> 144 \<le> c) \<and> (b = 244 \<longrightarrow> c < 144)
           then map_option ((#) ((b - 240) * 262144 + (c - 128) * 4096 + (d - 128) * 64 + (e - 128))) (utf8_points es)
           else None
         | _ \<Rightarrow> None)
      else None)"

definition utf8_point :: "nat \<Rightarrow> nat list" where
  "utf8_point p =
     (if p < 128 then [p]
      else if p < 2048 then [192 + p div 64, 128 + p mod 64]
      else if p < 65536 then [224 + p div 4096, 128 + p div 64 mod 64, 128 + p mod 64]
      else [240 + p div 262144, 128 + p div 4096 mod 64, 128 + p div 64 mod 64, 128 + p mod 64])"

definition utf16_point :: "nat \<Rightarrow> nat list" where
  "utf16_point p = (if p < 65536 then [p] else [55296 + (p - 65536) div 1024, 56320 + (p - 65536) mod 1024])"

fun utf16_points :: "nat list \<Rightarrow> nat list option" where
  "utf16_points [] = Some []"
| "utf16_points (u # us) =
     (if u < 55296 \<or> 57344 \<le> u then map_option ((#) u) (utf16_points us)
      else if u < 56320 then
        (case us of v # vs \<Rightarrow>
           if 56320 \<le> v \<and> v < 57344
           then map_option ((#) (65536 + (u - 55296) * 1024 + (v - 56320))) (utf16_points vs) else None
         | _ \<Rightarrow> None)
      else None)"

definition from_utf8 :: "string \<Rightarrow> nat list option" where
  "from_utf8 s = utf8_points (map code_of s)"

definition encode_utf16 :: "string \<Rightarrow> nat list" where
  "encode_utf16 s = (case from_utf8 s of None \<Rightarrow> [] | Some ps \<Rightarrow> concat (map utf16_point ps))"

definition from_utf16 :: "nat list \<Rightarrow> string option" where
  "from_utf16 us = map_option (\<lambda>ps. map char_of (concat (map utf8_point ps))) (utf16_points us)"

section \<open>Binary32\<close>

text \<open>\<^verbatim>\<open>n.abs() <= f32::MAX as f64\<close>: finite floats are ordered like their bits, and NaN and
  the infinities have larger bits.\<close>

definition fits_f32 :: "f64 \<Rightarrow> bool" where
  "fits_f32 w \<longleftrightarrow> unat w mod 2 ^ 63 \<le> 0x47EFFFFFE0000000"

text \<open>\<^verbatim>\<open>n as f32\<close> of a number in range: round to nearest, ties to even.\<close>

definition f32_of_f64 :: "f64 \<Rightarrow> f32" where
  "f32_of_f64 w =
     (let e = f64_exp w; m = 2 ^ 52 + f64_mant w
      in word_of_nat ((if f64_sign w then 2 ^ 31 else 0) +
           (if e \<ge> 897 then (e - 897) * 2 ^ 23 + round_half_even m (2 ^ 29)
            else if e = 0 then 0 else round_half_even m (2 ^ (926 - e)))))"

section \<open>Type descriptions\<close>

datatype slot =
    SF32 f32
  | SF64 f64
  | SInt int
  | SBool bool
  | SStr string
  | SWstr "nat list"
  | SObj "slot list"
  | SArr "slot list"

datatype member = Member (f_name: string) (f_type: nat) (f_bound: nat) (f_nested: "members option")
    (f_array: bool) (f_size: nat) (f_upper: bool) (f_default: slot)
  and members = Members (m_namespace: string) (m_name: string) (m_fields: "member list") (m_init: "slot list")

record typesupport =
  ts_load :: "string \<Rightarrow> members outcome"
  ts_base64 :: "byte list \<Rightarrow> string"
  ts_unbase64 :: "string \<Rightarrow> byte list outcome"

text \<open>\<^verbatim>\<open>s.replace("__", "/")\<close>\<close>

fun replace_underscores :: "string \<Rightarrow> string" where
  "replace_underscores (c # d # s) =
     (if c = CHR ''_'' \<and> d = CHR ''_'' then CHR ''/'' # replace_underscores s
      else c # replace_underscores (d # s))"
| "replace_underscores s = s"

definition message_name :: "members \<Rightarrow> string" where
  "message_name m = replace_underscores (m_namespace m) @ ''/'' @ m_name m"

definition valid_type_name :: "string \<Rightarrow> bool" where
  "valid_type_name n \<longleftrightarrow> (let p = split_char CHR ''/'' n in length p = 3 \<and> list_all ident p)"

definition load_message :: "typesupport \<Rightarrow> string \<Rightarrow> members outcome" where
  "load_message T n =
     bindO (ensure (valid_type_name n) (''invalid message type '' @ n)) (\<lambda>_. ts_load T n)"

text \<open>An error with \<^verbatim>\<open>with_context\<close> shows the context.\<close>

definition in_context :: "string \<Rightarrow> 'a outcome \<Rightarrow> 'a outcome" where
  "in_context c r = (case r of Err e \<Rightarrow> Err c | r \<Rightarrow> r)"

lemma in_context_cong [fundef_cong]: "c = c' \<Longrightarrow> r = r' \<Longrightarrow> in_context c r = in_context c' r'"
  by simp

section \<open>Writing\<close>

definition stamp_json :: "int \<times> nat \<Rightarrow> json" where
  "stamp_json now = JObj [(''sec'', jint (fst now)), (''nanosec'', jnat (snd now))]"

text \<open>\<^verbatim>\<open>Map::remove\<close> moves the last entry into the hole.\<close>

definition swap_remove :: "string \<Rightarrow> (string \<times> 'a) list \<Rightarrow> (string \<times> 'a) list" where
  "swap_remove k t =
     (if k \<in> set (keys t)
      then if fst (last t) = k then butlast t
           else map (\<lambda>p. if fst p = k then last t else p) (butlast t)
      else t)"

definition rename_field :: "string \<Rightarrow> string \<Rightarrow> (string \<times> json) list \<Rightarrow> (string \<times> json) list" where
  "rename_field alias field t =
     (case map_of t alias of
        None \<Rightarrow> t
      | Some v \<Rightarrow> let t1 = swap_remove alias t in if field \<in> set (keys t1) then t1 else t1 @ [(field, v)])"

definition TIME :: string where
  "TIME = ''builtin_interfaces/msg/Time''"

text \<open>The object that fills a message: named or positional fields, \<^verbatim>\<open>"now"\<close>, ROS 1 stamps.\<close>

definition fill_object :: "members \<Rightarrow> json \<Rightarrow> int \<times> nat \<Rightarrow> (string \<times> json) list outcome" where
  "fill_object m v now =
     bindO (if message_name m = TIME \<and> as_str v = Some ''now'' then Ok (stamp_json now)
            else case as_array v of
                Some xs \<Rightarrow>
                  bindO (ensure (length xs \<le> length (m_fields m)) (''too many positional arguments for '' @ message_name m)) (\<lambda>_.
                  Ok (JObj (foldl (\<lambda>t (k, x). AList.update k x t) [] (zip (map f_name (m_fields m)) xs))))
              | None \<Rightarrow> Ok v) (\<lambda>v.
     case as_object v of
       None \<Rightarrow> Err (message_name m @ '' requires an object'')
     | Some t \<Rightarrow>
         let obj = (if message_name m = TIME then rename_field ''nsecs'' ''nanosec'' (rename_field ''secs'' ''sec'' t) else t)
         in (case find (\<lambda>k. k \<notin> set (map f_name (m_fields m))) (keys obj) of
               Some k \<Rightarrow> Err (message_name m @ '' has no field '' @ k)
             | None \<Rightarrow> Ok obj))"

text \<open>The stamp of the root's header is filled in when it is missing.\<close>

definition is_header :: "member \<Rightarrow> bool" where
  "is_header f \<longleftrightarrow> f_name f = ''header'' \<and> \<not> f_array f \<and> f_type f = 18 \<and>
     (case f_nested f of None \<Rightarrow> False | Some m \<Rightarrow> message_name m = ''std_msgs/msg/Header'')"

definition field_value ::
  "member \<Rightarrow> (string \<times> json) list \<Rightarrow> int \<times> nat \<Rightarrow> bool \<Rightarrow> json option outcome" where
  "field_value f obj now root =
     (let v = map_of obj (f_name f)
      in if root \<and> is_header f then
           (case (case v of None \<Rightarrow> JObj [] | Some h \<Rightarrow> h) of
              JObj h \<Rightarrow> Ok (Some (JObj (if has h ''stamp'' then h else h @ [(''stamp'', stamp_json now)])))
            | _ \<Rightarrow> Err ''header requires an object'')
         else Ok v)"

definition integer_slot :: "'a option \<Rightarrow> ('a \<Rightarrow> bool) \<Rightarrow> ('a \<Rightarrow> int) \<Rightarrow> slot outcome" where
  "integer_slot v ok f =
     bindO (context_of v ''expected integer in range'') (\<lambda>n.
     if ok n then Ok (SInt (f n)) else Err try_from_int_error)"

definition unsigned_slot :: "nat \<Rightarrow> json \<Rightarrow> slot outcome" where
  "unsigned_slot w v = integer_slot (as_u64 v) (\<lambda>n. n < 2 ^ w) int"

definition signed_slot :: "nat \<Rightarrow> json \<Rightarrow> slot outcome" where
  "signed_slot w v = integer_slot (as_i64 v) (\<lambda>i. - (2 ^ (w - 1)) \<le> i \<and> i < 2 ^ (w - 1)) id"

text \<open>A value that is not a message.\<close>

definition write_basic :: "member \<Rightarrow> json \<Rightarrow> slot outcome" where
  "write_basic f v =
     (let t = f_type f; bound = (\<lambda>n. f_bound f = 0 \<or> n \<le> f_bound f)
      in if t = 1 then
           bindO (context_of (as_f64 v) ''expected number'') (\<lambda>n.
           bindO (ensure (fits_f32 n) ''float32 overflow'') (\<lambda>_. Ok (SF32 (f32_of_f64 n))))
         else if t = 2 then bindO (context_of (as_f64 v) ''expected number'') (\<lambda>n. Ok (SF64 n))
         else if t = 4 \<or> t = 7 \<or> t = 8 then unsigned_slot 8 v
         else if t = 5 \<or> t = 10 then unsigned_slot 16 v
         else if t = 6 then bindO (context_of (as_bool v) ''expected bool'') (\<lambda>b. Ok (SBool b))
         else if t = 9 then signed_slot 8 v
         else if t = 11 then signed_slot 16 v
         else if t = 12 then unsigned_slot 32 v
         else if t = 13 then signed_slot 32 v
         else if t = 14 then unsigned_slot 64 v
         else if t = 15 then signed_slot 64 v
         else if t = 16 then
           bindO (context_of (as_str v) ''expected string'') (\<lambda>s.
           bindO (ensure (bound (length s)) ''string exceeds bound'') (\<lambda>_. Ok (SStr s)))
         else if t = 17 then
           bindO (context_of (as_str v) ''expected string'') (\<lambda>s.
           bindO (ensure (bound (length (encode_utf16 s))) ''string exceeds bound'') (\<lambda>_.
           Ok (SWstr (encode_utf16 s))))
         else Err (''unsupported ROS field type '' @ dec t))"

text \<open>The values of an array field, and the slots they are written to.\<close>

definition array_values :: "typesupport \<Rightarrow> member \<Rightarrow> json \<Rightarrow> json list outcome" where
  "array_values T f v =
     (case v of
        JStr s \<Rightarrow>
          if f_type f = 4 \<or> f_type f = 8
          then bindO (ts_unbase64 T s) (\<lambda>bs. Ok (map (\<lambda>b. jnat (unat b)) bs))
          else Err ''expected an array''
      | _ \<Rightarrow> context_of (as_array v) ''expected an array'')"

definition array_slots :: "member \<Rightarrow> slot list \<Rightarrow> nat \<Rightarrow> slot list outcome" where
  "array_slots f old n =
     (if f_size f > 0 \<and> \<not> f_upper f then
        bindO (ensure (n = f_size f) (''expected array length '' @ dec (f_size f))) (\<lambda>_. Ok old)
      else
        bindO (ensure (f_size f = 0 \<or> n \<le> f_size f) ''array exceeds bound'') (\<lambda>_.
        Ok (replicate n (f_default f))))"

definition array_of :: "slot \<Rightarrow> slot list outcome" where
  "array_of s = (case s of SArr ss \<Rightarrow> Ok ss | _ \<Rightarrow> Panic)"

lemma size_fields [termination_simp]: "size_list size (m_fields m) < size m"
  by (cases m) simp

lemma size_nested [termination_simp]: "f_nested f = Some m \<Longrightarrow> size m < size f"
  by (cases f) simp

text \<open>Reading memory at the wrong type is undefined; it is a panic of the model, which
  well-typed messages never reach.\<close>

function (sequential)
  write_object :: "typesupport \<Rightarrow> members \<Rightarrow> slot list \<Rightarrow> json \<Rightarrow> int \<times> nat \<Rightarrow> bool \<Rightarrow> slot list outcome"
  and write_fields :: "typesupport \<Rightarrow> string \<Rightarrow> member list \<Rightarrow> slot list \<Rightarrow> (string \<times> json) list \<Rightarrow> int \<times> nat \<Rightarrow> bool \<Rightarrow> slot list outcome"
  and write_field :: "typesupport \<Rightarrow> member \<Rightarrow> slot \<Rightarrow> json \<Rightarrow> int \<times> nat \<Rightarrow> slot outcome"
  and write_elements :: "typesupport \<Rightarrow> member \<Rightarrow> slot list \<Rightarrow> json list \<Rightarrow> int \<times> nat \<Rightarrow> slot list outcome"
  and write_scalar :: "typesupport \<Rightarrow> member \<Rightarrow> slot \<Rightarrow> json \<Rightarrow> int \<times> nat \<Rightarrow> slot outcome"
where
  "write_object T m data v now root =
     bindO (fill_object m v now) (\<lambda>obj. write_fields T (message_name m) (m_fields m) data obj now root)"
| "write_fields T n (f # fs) (s # ss) obj now root =
     bindO (field_value f obj now root) (\<lambda>v.
     bindO (case v of
              None \<Rightarrow> Ok s
            | Some v \<Rightarrow> in_context (''field '' @ n @ ''.'' @ f_name f) (write_field T f s v now)) (\<lambda>s'.
     bindO (write_fields T n fs ss obj now root) (\<lambda>ss'. Ok (s' # ss'))))"
| "write_fields T n [] [] obj now root = Ok []"
| "write_fields T n fs ss obj now root = Panic"
| "write_field T f s v now =
     (if f_array f then
        bindO (array_values T f v) (\<lambda>vs.
        bindO (array_of s) (\<lambda>old.
        bindO (array_slots f old (length vs)) (\<lambda>ss.
        bindO (write_elements T f ss vs now) (\<lambda>ss'. Ok (SArr ss')))))
      else write_scalar T f s v now)"
| "write_elements T f (s # ss) (v # vs) now =
     bindO (write_scalar T f s v now) (\<lambda>s'.
     bindO (write_elements T f ss vs now) (\<lambda>ss'. Ok (s' # ss')))"
| "write_elements T f [] [] now = Ok []"
| "write_elements T f ss vs now = Panic"
| "write_scalar T f s v now =
     (if f_type f = 18 then
        (case (f_nested f, s) of
           (Some m, SObj data) \<Rightarrow> bindO (write_object T m data v now False) (\<lambda>d. Ok (SObj d))
         | _ \<Rightarrow> Panic)
      else write_basic f v)"
  by pat_completeness auto

termination
  by (relation "measures
    [\<lambda>x. case x of Inl (Inl (T, m, _)) \<Rightarrow> size m | Inl (Inr (T, n, fs, _)) \<Rightarrow> size_list size fs
       | Inr (Inl (T, f, _)) \<Rightarrow> size f | Inr (Inr (Inl (T, f, _))) \<Rightarrow> size f
       | Inr (Inr (Inr (T, f, _))) \<Rightarrow> size f,
     \<lambda>x. case x of Inr (Inl _) \<Rightarrow> 2 | Inr (Inr (Inl _)) \<Rightarrow> 1 | _ \<Rightarrow> 0,
     \<lambda>x. case x of Inr (Inr (Inl (T, f, ss, _))) \<Rightarrow> length ss | _ \<Rightarrow> 0]")
    (auto simp: size_fields size_nested)

section \<open>Reading\<close>

definition le_bytes :: "nat \<Rightarrow> nat \<Rightarrow> byte list" where
  "le_bytes k n = map (\<lambda>i. word_of_nat (n div 256 ^ i)) [0..<k]"

definition int_bytes :: "nat \<Rightarrow> int \<Rightarrow> byte list" where
  "int_bytes k i = le_bytes k (nat (i mod 2 ^ (8 * k)))"

text \<open>The bytes that an element adds to a typed array; some types have none.\<close>

definition element_bytes :: "nat \<Rightarrow> slot \<Rightarrow> byte list" where
  "element_bytes t s =
     (case s of
        SF32 w \<Rightarrow> if t = 1 then le_bytes 4 (unat w) else []
      | SF64 w \<Rightarrow> if t = 2 then le_bytes 8 (unat w) else []
      | SInt i \<Rightarrow>
          if t = 4 \<or> t = 7 \<or> t = 8 \<or> t = 9 then int_bytes 1 i
          else if t = 10 \<or> t = 11 then int_bytes 2 i
          else if t = 12 \<or> t = 13 then int_bytes 4 i
          else if t = 14 \<or> t = 15 then int_bytes 8 i
          else []
      | _ \<Rightarrow> [])"

definition array_tag :: "nat \<Rightarrow> nat option" where
  "array_tag t =
     (if t = 1 then Some 85 else if t = 2 then Some 86 else if t = 7 \<or> t = 9 then Some 72
      else if t = 10 then Some 69 else if t = 11 then Some 77 else if t = 12 then Some 70
      else if t = 13 then Some 78 else if t = 14 then Some 71 else if t = 15 then Some 79
      else None)"

definition utf8_error :: error where
  "utf8_error = ''invalid utf-8 sequence''"

definition utf16_error :: error where
  "utf16_error = ''invalid utf-16: lone surrogate found''"

definition read_basic :: "member \<Rightarrow> slot \<Rightarrow> (json \<times> cbor) outcome" where
  "read_basic f s =
     (let t = f_type f
      in if t = 1 then (case s of SF32 w \<Rightarrow> Ok (jfloat (f64_of_f32 w), CFloat (f64_of_f32 w)) | _ \<Rightarrow> Panic)
         else if t = 2 then (case s of SF64 w \<Rightarrow> Ok (jfloat w, CFloat w) | _ \<Rightarrow> Panic)
         else if t \<in> {4, 5, 7, 8, 9, 10, 11, 12, 13, 14, 15} then
           (case s of SInt i \<Rightarrow> Ok (jint i, cbor_value (jint i)) | _ \<Rightarrow> Panic)
         else if t = 6 then (case s of SBool b \<Rightarrow> Ok (JBool b, cbor_value (JBool b)) | _ \<Rightarrow> Panic)
         else if t = 16 then
           (case s of
              SStr x \<Rightarrow> if from_utf8 x = None then Err utf8_error else Ok (JStr x, cbor_value (JStr x))
            | _ \<Rightarrow> Panic)
         else if t = 17 then
           (case s of
              SWstr us \<Rightarrow>
                (case from_utf16 us of
                   None \<Rightarrow> Err utf16_error | Some x \<Rightarrow> Ok (JStr x, cbor_value (JStr x)))
            | _ \<Rightarrow> Panic)
         else Err (''unsupported ROS field type '' @ dec t))"

text \<open>The two forms of an array: binary, tagged with its element type, or a list.\<close>

definition array_forms :: "typesupport \<Rightarrow> member \<Rightarrow> slot list \<Rightarrow> (json \<times> cbor) list \<Rightarrow> json \<times> cbor" where
  "array_forms T f ss es =
     (let bytes = concat (map (element_bytes (f_type f)) ss); binary = (f_type f = 4 \<or> f_type f = 8)
      in (if binary then JStr (ts_base64 T bytes) else JArr (map fst es),
          if binary then CBytes bytes
          else if f_size f = 0 \<or> f_upper f then
            (case array_tag (f_type f) of
               Some tag \<Rightarrow> CTag tag (CBytes bytes) | None \<Rightarrow> CArr (map snd es))
          else CArr (map snd es)))"

function (sequential)
  read_object :: "typesupport \<Rightarrow> members \<Rightarrow> slot list \<Rightarrow> (json \<times> cbor) outcome"
  and read_fields :: "typesupport \<Rightarrow> member list \<Rightarrow> slot list \<Rightarrow> (string \<times> json \<times> cbor) list outcome"
  and read_field :: "typesupport \<Rightarrow> member \<Rightarrow> slot \<Rightarrow> (json \<times> cbor) outcome"
  and read_elements :: "typesupport \<Rightarrow> member \<Rightarrow> slot list \<Rightarrow> (json \<times> cbor) list outcome"
  and read_scalar :: "typesupport \<Rightarrow> member \<Rightarrow> slot \<Rightarrow> (json \<times> cbor) outcome"
where
  "read_object T m data =
     bindO (read_fields T (m_fields m) data) (\<lambda>es.
     Ok (JObj (foldl (\<lambda>t (k, j, c). AList.update k j t) [] es), CMap (map (\<lambda>(k, j, c). (CText k, c)) es)))"
| "read_fields T (f # fs) (s # ss) =
     bindO (read_field T f s) (\<lambda>jc. bindO (read_fields T fs ss) (\<lambda>es. Ok ((f_name f, jc) # es)))"
| "read_fields T [] [] = Ok []"
| "read_fields T fs ss = Panic"
| "read_field T f s =
     (if f_array f then
        bindO (array_of s) (\<lambda>ss. bindO (read_elements T f ss) (\<lambda>es. Ok (array_forms T f ss es)))
      else read_scalar T f s)"
| "read_elements T f [] = Ok []"
| "read_elements T f (s # ss) =
     bindO (read_scalar T f s) (\<lambda>jc. bindO (read_elements T f ss) (\<lambda>es. Ok (jc # es)))"
| "read_scalar T f s =
     (if f_type f = 18 then
        (case (f_nested f, s) of (Some m, SObj data) \<Rightarrow> read_object T m data | _ \<Rightarrow> Panic)
      else read_basic f s)"
  by pat_completeness auto

termination
  by (relation "measures
    [\<lambda>x. case x of Inl (Inl (T, m, _)) \<Rightarrow> size m | Inl (Inr (T, fs, _)) \<Rightarrow> size_list size fs
       | Inr (Inl (T, f, _)) \<Rightarrow> size f | Inr (Inr (Inl (T, f, _))) \<Rightarrow> size f
       | Inr (Inr (Inr (T, f, _))) \<Rightarrow> size f,
     \<lambda>x. case x of Inr (Inl _) \<Rightarrow> 2 | Inr (Inr (Inl _)) \<Rightarrow> 1 | _ \<Rightarrow> 0,
     \<lambda>x. case x of Inr (Inr (Inl (T, f, ss))) \<Rightarrow> length ss | _ \<Rightarrow> 0]")
    (auto simp: size_fields size_nested)

text \<open>A message: its type and memory; \<^verbatim>\<open>MessageType::message\<close>, \<^verbatim>\<open>fill\<close> and \<^verbatim>\<open>values\<close>.\<close>

definition new_message :: "members \<Rightarrow> slot list" where
  "new_message m = m_init m"

definition fill :: "typesupport \<Rightarrow> members \<Rightarrow> json \<Rightarrow> int \<times> nat \<Rightarrow> slot list outcome" where
  "fill T m v now = write_object T m (new_message m) v now True"

definition values_of :: "typesupport \<Rightarrow> members \<Rightarrow> slot list \<Rightarrow> (json \<times> cbor) outcome" where
  "values_of T m data = read_object T m data"

section \<open>Well-typed messages\<close>

definition basic_ok :: "member \<Rightarrow> slot \<Rightarrow> bool" where
  "basic_ok f s =
     (let t = f_type f; bound = (\<lambda>n. f_bound f = 0 \<or> n \<le> f_bound f)
      in case s of
           SF32 w \<Rightarrow> t = 1
         | SF64 w \<Rightarrow> t = 2
         | SInt i \<Rightarrow>
             (t = 4 \<or> t = 7 \<or> t = 8) \<and> 0 \<le> i \<and> i < 2 ^ 8 \<or> (t = 5 \<or> t = 10) \<and> 0 \<le> i \<and> i < 2 ^ 16 \<or>
             t = 12 \<and> 0 \<le> i \<and> i < 2 ^ 32 \<or> t = 14 \<and> 0 \<le> i \<and> i < 2 ^ 64 \<or>
             t = 9 \<and> - (2 ^ 7) \<le> i \<and> i < 2 ^ 7 \<or> t = 11 \<and> - (2 ^ 15) \<le> i \<and> i < 2 ^ 15 \<or>
             t = 13 \<and> - (2 ^ 31) \<le> i \<and> i < 2 ^ 31 \<or> t = 15 \<and> - (2 ^ 63) \<le> i \<and> i < 2 ^ 63
         | SBool b \<Rightarrow> t = 6
         | SStr x \<Rightarrow> t = 16 \<and> bound (length x)
         | SWstr us \<Rightarrow> t = 17 \<and> bound (length us)
         | _ \<Rightarrow> False)"

definition length_ok :: "member \<Rightarrow> nat \<Rightarrow> bool" where
  "length_ok f n \<longleftrightarrow> (if f_size f > 0 \<and> \<not> f_upper f then n = f_size f else f_size f = 0 \<or> n \<le> f_size f)"

function (sequential)
  typed_object :: "members \<Rightarrow> slot list \<Rightarrow> bool"
  and typed_fields :: "member list \<Rightarrow> slot list \<Rightarrow> bool"
  and typed_field :: "member \<Rightarrow> slot \<Rightarrow> bool"
  and typed_scalar :: "member \<Rightarrow> slot \<Rightarrow> bool"
where
  "typed_object m data \<longleftrightarrow> typed_fields (m_fields m) data"
| "typed_fields (f # fs) (s # ss) \<longleftrightarrow> typed_field f s \<and> typed_fields fs ss"
| "typed_fields [] [] \<longleftrightarrow> True"
| "typed_fields fs ss \<longleftrightarrow> False"
| "typed_field f s \<longleftrightarrow>
     (if f_array f then (case s of SArr ss \<Rightarrow> length_ok f (length ss) \<and> list_all (typed_scalar f) ss | _ \<Rightarrow> False)
      else typed_scalar f s)"
| "typed_scalar f s \<longleftrightarrow>
     (if f_type f = 18 then (case (f_nested f, s) of (Some m, SObj data) \<Rightarrow> typed_object m data | _ \<Rightarrow> False)
      else basic_ok f s)"
  by pat_completeness auto

termination
  by (relation "measures
    [\<lambda>x. case x of Inl (Inl (m, _)) \<Rightarrow> size m | Inl (Inr (fs, _)) \<Rightarrow> size_list size fs
       | Inr (Inl (f, _)) \<Rightarrow> size f | Inr (Inr (f, _)) \<Rightarrow> size f,
     \<lambda>x. case x of Inr (Inl _) \<Rightarrow> 1 | _ \<Rightarrow> 0]")
    (auto simp: size_fields size_nested)

text \<open>A description that generated code provides: nested descriptions where the type says so,
  initial and default values of the right type.\<close>

primrec member_wf :: "member \<Rightarrow> bool" and members_wf :: "members \<Rightarrow> bool" where
  "member_wf (Member n t b nest arr sz upper d) \<longleftrightarrow>
     (t = 18 \<longrightarrow> (case map_option members_wf nest of None \<Rightarrow> False | Some w \<Rightarrow> w)) \<and>
     (arr \<longrightarrow> typed_scalar (Member n t b nest arr sz upper d) d)"
| "members_wf (Members ns n fs ini) \<longleftrightarrow>
     list_all id (map member_wf fs) \<and> typed_object (Members ns n fs ini) ini"

lemma typed_default:
  "typed_scalar (Member n t b nest arr sz upper d) s \<Longrightarrow> typed_scalar (Member n t b nest arr sz upper d') s"
  by (auto simp: basic_ok_def Let_def split: if_splits)

lemma members_wf_fields: "members_wf m \<Longrightarrow> f \<in> set (m_fields m) \<Longrightarrow> member_wf f"
  by (cases m) (auto simp: list_all_iff)

lemma members_wf_init: "members_wf m \<Longrightarrow> typed_object m (m_init m)"
  by (cases m) simp

lemma member_wf_nested: "member_wf f \<Longrightarrow> f_type f = 18 \<Longrightarrow> \<exists>m. f_nested f = Some m \<and> members_wf m"
  by (cases f) (auto split: option.splits)

lemma member_wf_default: "member_wf f \<Longrightarrow> f_array f \<Longrightarrow> typed_scalar f (f_default f)"
  by (cases f) (simp del: typed_scalar.simps)

text \<open>No panic, and a result that satisfies \<open>P\<close>.\<close>

definition yields :: "('a \<Rightarrow> bool) \<Rightarrow> 'a outcome \<Rightarrow> bool" where
  "yields P r \<longleftrightarrow> (case r of Ok x \<Rightarrow> P x | Err _ \<Rightarrow> True | Panic \<Rightarrow> False)"

lemma yields_simps [simp]: "yields P (Ok x) = P x" "yields P (Err e)" "\<not> yields P Panic"
  by (simp_all add: yields_def)

lemma yields_bind [simp]: "yields P (bindO m f) \<longleftrightarrow> yields (\<lambda>x. yields P (f x)) m"
  by (cases m) auto

lemma yields_context_of [simp]: "yields P (context_of x e) \<longleftrightarrow> (\<forall>a. x = Some a \<longrightarrow> P a)"
  by (cases x) auto

lemma yields_ensure [simp]: "yields P (ensure b e) \<longleftrightarrow> (b \<longrightarrow> P ())"
  by (simp add: ensure_def)

lemma yields_in_context [simp]: "yields P (in_context c r) \<longleftrightarrow> yields P r"
  by (cases r) (auto simp: in_context_def)

lemma in_context_simps [simp]: "in_context c (Ok x) = Ok x" "in_context c r = Panic \<longleftrightarrow> r = Panic"
  by (cases r; simp add: in_context_def)+

lemma yields_mono: "yields P r \<Longrightarrow> (\<And>x. r = Ok x \<Longrightarrow> P x \<Longrightarrow> Q x) \<Longrightarrow> yields Q r"
  by (cases r) auto

lemma yields_lift: "r \<noteq> Panic \<Longrightarrow> (\<And>x. r = Ok x \<Longrightarrow> P x) \<Longrightarrow> yields P r"
  by (cases r) auto

lemma yields_Ok: "yields P r \<Longrightarrow> r = Ok x \<Longrightarrow> P x"
  by simp

lemma yields_no_panic: "yields P r \<Longrightarrow> r \<noteq> Panic"
  by auto

lemma write_basic_typed: "f_type f \<noteq> 18 \<Longrightarrow> yields (basic_ok f) (write_basic f v)"
  by (auto simp: write_basic_def basic_ok_def Let_def unsigned_slot_def signed_slot_def integer_slot_def)

lemma fill_object_no_panic: "fill_object m v now \<noteq> Panic"
  by (auto simp: fill_object_def bindO_Panic Let_def split: option.splits json.splits)

lemma field_value_no_panic: "field_value f obj now root \<noteq> Panic"
  by (auto simp: field_value_def Let_def split: option.splits json.splits)

lemma array_values_no_panic: "\<forall>s. ts_unbase64 T s \<noteq> Panic \<Longrightarrow> array_values T f v \<noteq> Panic"
  by (auto simp: array_values_def bindO_Panic split: json.splits)

lemma array_slots_ok:
  "member_wf f \<Longrightarrow> f_array f \<Longrightarrow> length_ok f (length old) \<Longrightarrow> list_all (typed_scalar f) old \<Longrightarrow>
   yields (\<lambda>ss. length ss = n \<and> length_ok f n \<and> list_all (typed_scalar f) ss) (array_slots f old n)"
  by (auto simp: array_slots_def length_ok_def list_all_iff member_wf_default simp del: typed_scalar.simps)

lemma no_panic_cases: "r \<noteq> Panic \<Longrightarrow> (\<And>x. r = Ok x \<Longrightarrow> yields P (f x)) \<Longrightarrow> yields P (bindO r f)"
  by (cases r) auto

lemma typed_message:
  "typed_scalar f s \<Longrightarrow> f_type f = 18 \<Longrightarrow> \<exists>m data. f_nested f = Some m \<and> s = SObj data \<and> typed_object m data"
  by (auto split: option.splits slot.splits)

text \<open>Writing keeps the type of the memory.\<close>

lemma write_typed:
  "\<forall>s. ts_unbase64 T s \<noteq> Panic \<Longrightarrow> members_wf m \<Longrightarrow> typed_object m data \<Longrightarrow>
     yields (typed_object m) (write_object T m data v now root)"
  "\<forall>s. ts_unbase64 T s \<noteq> Panic \<Longrightarrow> list_all member_wf fs \<Longrightarrow> typed_fields fs ss \<Longrightarrow>
     yields (typed_fields fs) (write_fields T n fs ss obj now root)"
  "\<forall>s. ts_unbase64 T s \<noteq> Panic \<Longrightarrow> member_wf f \<Longrightarrow> typed_field f s \<Longrightarrow>
     yields (typed_field f) (write_field T f s v now)"
  "\<forall>s. ts_unbase64 T s \<noteq> Panic \<Longrightarrow> member_wf f \<Longrightarrow> list_all (typed_scalar f) ss \<Longrightarrow> length ss = length vs \<Longrightarrow>
     yields (\<lambda>ss'. list_all (typed_scalar f) ss' \<and> length ss' = length ss) (write_elements T f ss vs now)"
  "\<forall>s. ts_unbase64 T s \<noteq> Panic \<Longrightarrow> member_wf f \<Longrightarrow> typed_scalar f s \<Longrightarrow>
     yields (typed_scalar f) (write_scalar T f s v now)"
proof (induction T m data v now root and T n fs ss obj now root and T f s v now and T f ss vs now and T f s v now
    rule: write_object_write_fields_write_field_write_elements_write_scalar.induct)
  case (1 T m data v now root)
  show ?case
    unfolding write_object.simps
    by (rule no_panic_cases [OF fill_object_no_panic])
      (use 1 members_wf_fields [OF 1(3)] in \<open>auto simp: list_all_iff intro: yields_mono\<close>)
next
  case (2 T n f fs s ss obj now root)
  show ?case
    unfolding write_fields.simps
    by (rule no_panic_cases [OF field_value_no_panic])
      (use 2 in \<open>auto simp del: typed_field.simps write_field.simps split: option.splits intro!: yields_mono [OF 2(2)] yields_mono [OF 2(1)]\<close>)
next
  case (5 T f s v now)
  show ?case
  proof (cases "f_array f")
    case True
    then obtain old where old: "s = SArr old" "length_ok f (length old)" "list_all (typed_scalar f) old"
      using 5(5) by (auto simp del: typed_scalar.simps split: slot.splits)
    show ?thesis
      unfolding write_field.simps if_P [OF True]
      apply (rule no_panic_cases [OF array_values_no_panic [OF 5(3)]])
      subgoal for vs
        using array_slots_ok [OF 5(4) True old(2,3), of "length vs"] old True 5(1) [OF True, of vs old] 5(3,4)
        by (auto simp: array_of_def simp del: typed_scalar.simps elim!: yields_mono)
      done
  next
    case False
    then show ?thesis using 5(2) 5(3-) by (simp del: typed_scalar.simps write_scalar.simps)
  qed
next
  case (6 T f s ss v vs now)
  then show ?case
    by (auto simp del: typed_scalar.simps write_scalar.simps elim!: yields_mono)
next
  case (9 T f s v now)
  show ?case
  proof (cases "f_type f = 18")
    case True
    then obtain m data where m: "f_nested f = Some m" "members_wf m" "s = SObj data" "typed_object m data"
      using member_wf_nested [OF 9(3) True] typed_message [OF 9(4) True] by fastforce
    show ?thesis
      using 9(1) [OF True _ m(1) m(3)] m 9(2) True by (auto elim!: yields_mono)
  next
    case False
    then show ?thesis using write_basic_typed [OF False, of v] by (auto elim!: yields_mono)
  qed
qed (auto simp del: typed_scalar.simps write_scalar.simps)

text \<open>Reading well-typed memory finds every field at its type, and a message is a JSON object and
  a CBOR map.\<close>

lemma read_basic_typed: "basic_ok f s \<Longrightarrow> read_basic f s \<noteq> Panic"
  by (auto simp: basic_ok_def read_basic_def Let_def split: slot.splits option.splits if_splits)

lemma keys_collected: "set (keys (foldl (\<lambda>t (k, j, c). AList.update k j t) t es)) = set (keys t) \<union> fst ` set es"
proof (induction es arbitrary: t)
  case (Cons e es)
  obtain k j c where "e = (k, j, c)" by (cases e)
  then show ?case using Cons [of "AList.update k j t"] by (simp add: keys_update del: set_map)
qed simp

lemma read_typed:
  "typed_object m data \<Longrightarrow>
     yields (\<lambda>(j, c). \<exists>t es. j = JObj t \<and> c = CMap es \<and> set (keys t) = f_name ` set (m_fields m)) (read_object T m data)"
  "typed_fields fs ss \<Longrightarrow> yields (\<lambda>es. map fst es = map f_name fs) (read_fields T fs ss)"
  "typed_field f s \<Longrightarrow> read_field T f s \<noteq> Panic"
  "list_all (typed_scalar f) ss \<Longrightarrow> yields (\<lambda>es. length es = length ss) (read_elements T f ss)"
  "typed_scalar f s \<Longrightarrow> read_scalar T f s \<noteq> Panic"
proof (induction T m data and T fs ss and T f s and T f ss and T f s
    rule: read_object_read_fields_read_field_read_elements_read_scalar.induct)
  case (1 T m data)
  then have "yields (\<lambda>es. map fst es = map f_name (m_fields m)) (read_fields T (m_fields m) data)"
    by simp
  then show ?case
    unfolding read_object.simps yields_bind
  proof (rule yields_mono)
    fix es :: "(string \<times> json \<times> cbor) list" assume "map fst es = map f_name (m_fields m)"
    then have "fst ` set es = f_name ` set (m_fields m)" by (metis set_map)
    then show "yields (\<lambda>(j, c). \<exists>t es. j = JObj t \<and> c = CMap es \<and> set (keys t) = f_name ` set (m_fields m))
        (Ok (JObj (foldl (\<lambda>t (k, j, c). AList.update k j t) [] es), CMap (map (\<lambda>(k, j, c). (CText k, c)) es)))"
      by (auto simp: keys_collected simp del: set_map)
  qed
next
  case (2 T f fs s ss)
  then show ?case
    by (auto simp del: typed_field.simps read_field.simps intro!: yields_lift [of "read_field T f s"] yields_lift [of "read_scalar T f s"])
next
  case (5 T f s)
  show ?case
  proof (cases "f_array f")
    case True
    then obtain ss where ss: "s = SArr ss" "list_all (typed_scalar f) ss"
      using 5(3) by (auto simp del: typed_scalar.simps split: slot.splits)
    then show ?thesis
      using 5(1) [OF True, of ss] True by (auto simp: array_of_def bindO_Panic simp del: typed_scalar.simps)
  next
    case False
    then show ?thesis using 5(2,3) by (simp del: typed_scalar.simps read_scalar.simps)
  qed
next
  case (7 T f s ss)
  then show ?case
    by (auto simp del: typed_scalar.simps read_scalar.simps intro!: yields_lift [of "read_field T f s"] yields_lift [of "read_scalar T f s"])
next
  case (8 T f s)
  show ?case
  proof (cases "f_type f = 18")
    case True
    obtain m data where m: "f_nested f = Some m" "s = SObj data" "typed_object m data"
      using typed_message [OF 8(2) True] by blast
    then show ?thesis
      using 8(1) [OF True _ m(1,2)] True by (auto simp del: read_object.simps)
  next
    case False
    then show ?thesis using 8(2) read_basic_typed by simp
  qed
qed (auto simp del: typed_scalar.simps read_scalar.simps)

end
