(* ===== verification/Native.thy ===== *)
theory Native
  imports Message
begin

text \<open>
\<^verbatim>\<open>src/ros/mod.rs\<close> and \<^verbatim>\<open>src/ros/wait.rs\<close>: the backend over RCL and RMW, without polling. The native
  library is a record of calls over its own state; the definitions are the Rust code around it:
  the table of handles, the requests that wait for an answer, the wait set and the drop order.
  \<^verbatim>\<open>as_ptr()\<close>, \<^verbatim>\<open>Box\<close> and the zero-initialised C structures have no counterpart.
\<close>

section \<open>The native layer\<close>

text \<open>A call of RCL or RMW: the new native state, a return code, the text of the last error and
  what it writes to its out parameters. \<^verbatim>\<open>check\<close> turns a return code into an error.\<close>

type_synonym ('w, 'a) native = "'w \<Rightarrow> (int \<times> string \<times> 'a) \<times> 'w"

definition check :: "int \<Rightarrow> string \<Rightarrow> unit outcome" where
  "check ret text = ensure (ret = 0) (''ROS error '' @ dec_int ret @ '': '' @ text)"

text \<open>\<^verbatim>\<open>CString::new(s)?\<close>\<close>

definition c_string :: "string \<Rightarrow> unit outcome" where
  "c_string s = ensure (CHR 0x00 \<notin> set s) ''nul byte found in provided data''"

definition SUBSCRIPTION_TAKE_FAILED :: int where "SUBSCRIPTION_TAKE_FAILED = 401"
definition CLIENT_TAKE_FAILED :: int where "CLIENT_TAKE_FAILED = 501"
definition SERVICE_TAKE_FAILED :: int where "SERVICE_TAKE_FAILED = 601"
definition RCL_TIMEOUT :: int where "RCL_TIMEOUT = 2"

record 'w rcl =
  rcl_init_options_init :: "('w, unit) native"
  rcl_init :: "string list \<Rightarrow> ('w, unit) native"
  rcl_init_options_fini :: "('w, unit) native"
  rcl_node_init :: "string \<Rightarrow> string \<Rightarrow> ('w, unit) native"
  rcl_shutdown :: "('w, unit) native"
  rcl_context_fini :: "('w, unit) native"
  rcl_node_fini :: "('w, unit) native"
  rcl_publisher_init :: "string \<Rightarrow> members \<Rightarrow> qos \<Rightarrow> ('w, nat) native"
  rcl_subscription_init :: "string \<Rightarrow> members \<Rightarrow> qos \<Rightarrow> ('w, nat) native"
  rcl_client_init :: "string \<Rightarrow> string \<Rightarrow> ('w, nat) native"
  rcl_service_init :: "string \<Rightarrow> string \<Rightarrow> ('w, nat) native"
  rcl_publisher_fini :: "nat \<Rightarrow> ('w, unit) native"
  rcl_subscription_fini :: "nat \<Rightarrow> ('w, unit) native"
  rcl_client_fini :: "nat \<Rightarrow> ('w, unit) native"
  rcl_service_fini :: "nat \<Rightarrow> ('w, unit) native"
  rcl_publish :: "nat \<Rightarrow> slot list \<Rightarrow> ('w, unit) native"
  rcl_send_request :: "nat \<Rightarrow> slot list \<Rightarrow> ('w, int) native"
  rcl_send_response :: "nat \<Rightarrow> nat \<Rightarrow> slot list \<Rightarrow> ('w, unit) native"
  rcl_take :: "nat \<Rightarrow> members \<Rightarrow> ('w, slot list) native"
  rcl_take_response :: "nat \<Rightarrow> members \<Rightarrow> ('w, int \<times> slot list) native"
  rcl_take_request :: "nat \<Rightarrow> members \<Rightarrow> ('w, nat \<times> slot list) native"
  rcutils_array_init :: "('w, unit) native"
  rmw_serialize :: "members \<Rightarrow> slot list \<Rightarrow> ('w, byte list) native"
  rcutils_array_fini :: "('w, unit) native"
  rcl_topic_names_and_types :: "('w, (string \<times> string list) list) native"
  rcl_service_names_and_types :: "('w, (string \<times> string list) list) native"
  rcl_names_and_types_fini :: "('w, unit) native"
  rcl_publishers_info :: "string \<Rightarrow> ('w, qos list) native"
  rmw_endpoint_info_fini :: "('w, unit) native"
  rcl_guard_init :: "('w, unit) native"
  rcl_guard_fini :: "('w, unit) native"
  rcl_guard_trigger :: "('w, unit) native"
  rcl_wait_set_init :: "('w, unit) native"
  rcl_wait_set_fini :: "('w, unit) native"
  rcl_wait_set_resize :: "nat \<Rightarrow> nat \<Rightarrow> nat \<Rightarrow> ('w, unit) native"
  rcl_wait_set_clear :: "('w, unit) native"
  rcl_wait_set_add_guard :: "('w, unit) native"
  rcl_wait_set_add_subscription :: "nat \<Rightarrow> ('w, nat) native"
  rcl_wait_set_add_client :: "nat \<Rightarrow> ('w, nat) native"
  rcl_wait_set_add_service :: "nat \<Rightarrow> ('w, nat) native"
  rcl_wait :: "int \<Rightarrow> ('w, nat list \<times> nat list \<times> nat list) native"
  system_time :: "'w \<Rightarrow> int \<times> nat"

text \<open>What the backend calls outside the repository.\<close>

record 'w world =
  w_rcl :: "'w rcl"
  w_types :: typesupport
  w_humble :: bool

section \<open>State\<close>

datatype handle =
    HPublisher nat members
  | HSubscription nat members
  | HClient nat members members
  | HService nat members members

text \<open>\<^verbatim>\<open>Wait\<close>: whether the guard condition can be triggered, the sizes of the wait set and the
  entities found ready.\<close>

record wait_state =
  wake :: bool
  dimensions :: "nat \<times> nat \<times> nat"
  ready_set :: "nat list"

record 'w ros =
  native :: 'w
  waiter :: "wait_state option"
  handles :: "(nat \<times> handle) list"
  ros_next :: nat
  requests :: "((nat \<times> nat) \<times> nat) list"
  next_request :: nat
  simulated :: "(int \<times> nat) option"
  clock_subscription :: "nat option"

text \<open>A native call whose result is checked, ignored, or may mean that there is nothing to take.\<close>

definition checked :: "('w, 'a) native \<Rightarrow> ('w ros, 'a) action" where
  "checked m r = (case m (native r) of ((ret, text, x), w) \<Rightarrow>
     (bindO (check ret text) (\<lambda>_. Ok x), r\<lparr>native := w\<rparr>))"

definition ignored :: "('w, 'a) native \<Rightarrow> ('w ros, unit) action" where
  "ignored m r = (case m (native r) of (_, w) \<Rightarrow> (Ok (), r\<lparr>native := w\<rparr>))"

definition taken :: "int \<Rightarrow> ('w, 'a) native \<Rightarrow> ('w ros, 'a option) action" where
  "taken none m r = (case m (native r) of ((ret, text, x), w) \<Rightarrow>
     (if ret = none then Ok None else bindO (check ret text) (\<lambda>_. Ok (Some x)), r\<lparr>native := w\<rparr>))"

definition ros_now :: "'w world \<Rightarrow> 'w ros \<Rightarrow> int \<times> nat" where
  "ros_now W r = (case simulated r of Some t \<Rightarrow> t | None \<Rightarrow> system_time (w_rcl W) (native r))"

definition ros_insert :: "handle \<Rightarrow> ('w ros, nat) action" where
  "ros_insert h r =
     (let n = ros_next r + 1 in (Ok n, r\<lparr>ros_next := n, handles := AList.update n h (handles r)\<rparr>))"

text \<open>\<^verbatim>\<open>BTreeMap::insert\<close>: keys in the order of their bytes.\<close>

fun str_less :: "string \<Rightarrow> string \<Rightarrow> bool" where
  "str_less s [] = False"
| "str_less [] (d # t) = True"
| "str_less (c # s) (d # t) = (code_of c < code_of d \<or> c = d \<and> str_less s t)"

fun btree_insert :: "string \<Rightarrow> 'v \<Rightarrow> (string \<times> 'v) list \<Rightarrow> (string \<times> 'v) list" where
  "btree_insert k v [] = [(k, v)]"
| "btree_insert k v ((k', v') # t) =
     (if k = k' then (k, v) # t
      else if str_less k k' then (k, v) # (k', v') # t
      else (k', v') # btree_insert k v t)"

definition btree :: "(string \<times> 'v) list \<Rightarrow> (string \<times> 'v) list" where
  "btree ps = foldl (\<lambda>t (k, v). btree_insert k v t) [] ps"

definition ros_graph :: "'w world \<Rightarrow> bool \<Rightarrow> ('w ros, (string \<times> string list) list) action" where
  "ros_graph W services =
     bindA (checked (if services then rcl_service_names_and_types (w_rcl W)
                     else rcl_topic_names_and_types (w_rcl W))) (\<lambda>names.
     bindA (checked (rcl_names_and_types_fini (w_rcl W))) (\<lambda>_. retA (btree names)))"

text \<open>\<^verbatim>\<open>qos\<close>: the profile handed to RMW. The build for Humble has no \<^verbatim>\<open>best_available\<close>; a
  number outside the table selects the system default, 0.\<close>

definition native_qos :: "bool \<Rightarrow> qos \<Rightarrow> qos" where
  "native_qos humble q = q\<lparr>
     q_history := (if q_history q = 1 \<or> q_history q = 2 then q_history q else 0),
     q_reliability := (if q_reliability q = 1 \<or> q_reliability q = 2 \<or> \<not> humble \<and> q_reliability q = 4
                       then q_reliability q else 0),
     q_durability := (if q_durability q = 1 \<or> q_durability q = 2 \<or> \<not> humble \<and> q_durability q = 4
                      then q_durability q else 0)\<rparr>"

section \<open>Entities\<close>

text \<open>\<^verbatim>\<open>ServiceType::load\<close>: the request, then the response. The type support of the service
  itself is in the native layer.\<close>

definition load_service :: "'w world \<Rightarrow> string \<Rightarrow> (members \<times> members) outcome" where
  "load_service W n =
     bindO (load_message (w_types W) (n @ ''_Request'')) (\<lambda>request.
     bindO (load_message (w_types W) (n @ ''_Response'')) (\<lambda>resp. Ok (request, resp)))"

definition ros_publisher :: "'w world \<Rightarrow> string \<Rightarrow> string \<Rightarrow> qos \<Rightarrow> ('w ros, nat) action" where
  "ros_publisher W n t q =
     bindA (liftA (load_message (w_types W) t)) (\<lambda>ty.
     bindA (liftA (c_string n)) (\<lambda>_.
     bindA (checked (rcl_publisher_init (w_rcl W) n ty (native_qos (w_humble W) q))) (\<lambda>h.
     ros_insert (HPublisher h ty))))"

definition ros_subscription :: "'w world \<Rightarrow> string \<Rightarrow> string \<Rightarrow> qos \<Rightarrow> ('w ros, nat) action" where
  "ros_subscription W n t q =
     bindA (liftA (load_message (w_types W) t)) (\<lambda>ty.
     bindA (liftA (c_string n)) (\<lambda>_.
     bindA (checked (rcl_subscription_init (w_rcl W) n ty (native_qos (w_humble W) q))) (\<lambda>h.
     ros_insert (HSubscription h ty))))"

definition ros_client :: "'w world \<Rightarrow> string \<Rightarrow> string \<Rightarrow> ('w ros, nat) action" where
  "ros_client W n t =
     bindA (liftA (load_service W t)) (\<lambda>(request, resp).
     bindA (liftA (c_string n)) (\<lambda>_.
     bindA (checked (rcl_client_init (w_rcl W) n t)) (\<lambda>h.
     ros_insert (HClient h request resp))))"

definition ros_service :: "'w world \<Rightarrow> string \<Rightarrow> string \<Rightarrow> ('w ros, nat) action" where
  "ros_service W n t =
     bindA (liftA (load_service W t)) (\<lambda>(request, resp).
     bindA (liftA (c_string n)) (\<lambda>_.
     bindA (checked (rcl_service_init (w_rcl W) n t)) (\<lambda>h.
     ros_insert (HService h request resp))))"

definition ros_publish :: "'w world \<Rightarrow> nat \<Rightarrow> json \<Rightarrow> ('w ros, unit) action" where
  "ros_publish W i v =
     bindA (getA (\<lambda>r. map_of (handles r) i)) (\<lambda>found. case found of
       Some (HPublisher h ty) \<Rightarrow>
         bindA (getA (ros_now W)) (\<lambda>now.
         bindA (liftA (fill (w_types W) ty v now)) (\<lambda>msg. checked (rcl_publish (w_rcl W) h msg)))
     | _ \<Rightarrow> errA ''publisher no longer exists'')"

definition ros_request :: "'w world \<Rightarrow> nat \<Rightarrow> json \<Rightarrow> ('w ros, int) action" where
  "ros_request W i v =
     bindA (getA (\<lambda>r. map_of (handles r) i)) (\<lambda>found. case found of
       Some (HClient h request resp) \<Rightarrow>
         bindA (getA (ros_now W)) (\<lambda>now.
         bindA (liftA (fill (w_types W) request v now)) (\<lambda>msg. checked (rcl_send_request (w_rcl W) h msg)))
     | _ \<Rightarrow> errA ''service client no longer exists'')"

definition ros_validate_response :: "'w world \<Rightarrow> nat \<Rightarrow> json \<Rightarrow> ('w ros, unit) action" where
  "ros_validate_response W i v =
     bindA (getA (\<lambda>r. map_of (handles r) i)) (\<lambda>found. case found of
       Some (HService h request resp) \<Rightarrow>
         bindA (getA (ros_now W)) (\<lambda>now.
         bindA (liftA (fill (w_types W) resp v now)) (\<lambda>_. retA ()))
     | _ \<Rightarrow> errA ''service no longer exists'')"

definition ros_respond :: "'w world \<Rightarrow> nat \<Rightarrow> nat \<Rightarrow> json \<Rightarrow> ('w ros, unit) action" where
  "ros_respond W i request v =
     bindA (getA (\<lambda>r. map_of (handles r) i)) (\<lambda>found. case found of
       Some (HService h req resp) \<Rightarrow>
         bindA (getA (ros_now W)) (\<lambda>now.
         bindA (liftA (fill (w_types W) resp v now)) (\<lambda>msg.
         bindA (getA (\<lambda>r. map_of (requests r) (i, request))) (\<lambda>header.
         bindA (liftA (context_of header ''unknown request'')) (\<lambda>header.
         bindA (checked (rcl_send_response (w_rcl W) h header msg)) (\<lambda>_.
         modA (\<lambda>r. r\<lparr>requests := AList.delete (i, request) (requests r)\<rparr>))))))
     | _ \<Rightarrow> errA ''service no longer exists'')"

definition ros_discard_request :: "nat \<Rightarrow> nat \<Rightarrow> ('w ros, unit) action" where
  "ros_discard_request i request = modA (\<lambda>r. r\<lparr>requests := AList.delete (i, request) (requests r)\<rparr>)"

text \<open>A failed native destruction is only logged.\<close>

definition fini :: "'w world \<Rightarrow> handle \<Rightarrow> ('w, unit) native" where
  "fini W h = (case h of
     HPublisher n _ \<Rightarrow> rcl_publisher_fini (w_rcl W) n
   | HSubscription n _ \<Rightarrow> rcl_subscription_fini (w_rcl W) n
   | HClient n _ _ \<Rightarrow> rcl_client_fini (w_rcl W) n
   | HService n _ _ \<Rightarrow> rcl_service_fini (w_rcl W) n)"

definition ros_destroy :: "'w world \<Rightarrow> nat \<Rightarrow> ('w ros, unit) action" where
  "ros_destroy W i =
     bindA (modA (\<lambda>r. r\<lparr>requests := retain (\<lambda>(e, _) _. e \<noteq> i) (requests r)\<rparr>)) (\<lambda>_.
     bindA (getA (\<lambda>r. map_of (handles r) i)) (\<lambda>found. case found of
       None \<Rightarrow> retA ()
     | Some h \<Rightarrow>
         bindA (modA (\<lambda>r. r\<lparr>handles := AList.delete i (handles r)\<rparr>)) (\<lambda>_. ignored (fini W h))))"

definition ros_publisher_qos :: "'w world \<Rightarrow> string \<Rightarrow> ('w ros, qos list) action" where
  "ros_publisher_qos W topic =
     bindA (liftA (c_string topic)) (\<lambda>_.
     bindA (checked (rcl_publishers_info (w_rcl W) topic)) (\<lambda>qs.
     bindA (checked (rmw_endpoint_info_fini (w_rcl W))) (\<lambda>_. retA qs)))"

section \<open>Waiting\<close>

definition wait_new :: "'w world \<Rightarrow> ('w ros, wait_state) action" where
  "wait_new W =
     bindA (checked (rcl_guard_init (w_rcl W))) (\<lambda>_.
     bindA (tryA (checked (rcl_wait_set_init (w_rcl W)))) (\<lambda>ini. case ini of
       Inl e \<Rightarrow> bindA (ignored (rcl_guard_fini (w_rcl W))) (\<lambda>_. errA e)
     | Inr _ \<Rightarrow> retA \<lparr>wake = True, dimensions = (0, 0, 0), ready_set = []\<rparr>))"

text \<open>Dropping \<^verbatim>\<open>Wait\<close> first takes the guard away from \<^verbatim>\<open>Wake::trigger\<close>.\<close>

definition wait_drop :: "'w world \<Rightarrow> ('w ros, unit) action" where
  "wait_drop W =
     bindA (modA (\<lambda>r. r\<lparr>waiter := None\<rparr>)) (\<lambda>_.
     bindA (ignored (rcl_wait_set_fini (w_rcl W))) (\<lambda>_. ignored (rcl_guard_fini (w_rcl W))))"

definition wake_trigger :: "'w world \<Rightarrow> ('w ros, unit) action" where
  "wake_trigger W =
     bindA (getA waiter) (\<lambda>w. case w of
       Some x \<Rightarrow> if wake x then ignored (rcl_guard_trigger (w_rcl W)) else retA ()
     | None \<Rightarrow> retA ())"

fun count_dimensions :: "(nat \<times> handle) list \<Rightarrow> nat \<times> nat \<times> nat" where
  "count_dimensions [] = (0, 0, 0)"
| "count_dimensions ((i, h) # hs) =
     (case count_dimensions hs of (s, c, v) \<Rightarrow>
       (case h of
          HSubscription _ _ \<Rightarrow> (Suc s, c, v) | HClient _ _ _ \<Rightarrow> (s, Suc c, v)
        | HService _ _ _ \<Rightarrow> (s, c, Suc v) | HPublisher _ _ \<Rightarrow> (s, c, v)))"

definition modW :: "(wait_state \<Rightarrow> wait_state) \<Rightarrow> ('w ros, unit) action" where
  "modW f = modA (\<lambda>r. r\<lparr>waiter := map_option f (waiter r)\<rparr>)"

definition add_handle :: "'w world \<Rightarrow> handle \<Rightarrow> ('w ros, (nat \<times> nat) option) action" where
  "add_handle W h = (case h of
     HSubscription n _ \<Rightarrow> bindA (checked (rcl_wait_set_add_subscription (w_rcl W) n)) (\<lambda>k. retA (Some (0, k)))
   | HClient n _ _ \<Rightarrow> bindA (checked (rcl_wait_set_add_client (w_rcl W) n)) (\<lambda>k. retA (Some (1, k)))
   | HService n _ _ \<Rightarrow> bindA (checked (rcl_wait_set_add_service (w_rcl W) n)) (\<lambda>k. retA (Some (2, k)))
   | HPublisher _ _ \<Rightarrow> retA None)"

fun add_handles :: "'w world \<Rightarrow> (nat \<times> handle) list \<Rightarrow> ('w ros, (nat \<times> nat \<times> nat) list) action" where
  "add_handles W [] = retA []"
| "add_handles W ((i, h) # hs) =
     bindA (add_handle W h) (\<lambda>added. bindA (add_handles W hs) (\<lambda>more.
     retA (case added of None \<Rightarrow> more | Some (kind, k) \<Rightarrow> (i, kind, k) # more)))"

definition is_ready :: "nat list \<times> nat list \<times> nat list \<Rightarrow> nat \<times> nat \<times> nat \<Rightarrow> bool" where
  "is_ready found x = (case found of (subs, clients, services) \<Rightarrow> case x of (i, kind, k) \<Rightarrow>
     k \<in> set (if kind = 0 then subs else if kind = 1 then clients else services))"

definition ros_wait :: "'w world \<Rightarrow> nat \<Rightarrow> ('w ros, unit) action" where
  "ros_wait W dur =
     bindA (getA waiter) (\<lambda>w. case w of
       None \<Rightarrow> panicA
     | Some w \<Rightarrow>
         bindA (getA handles) (\<lambda>hs.
         bindA (if count_dimensions hs = dimensions w then retA () else
             case count_dimensions hs of (s, c, v) \<Rightarrow>
               bindA (checked (rcl_wait_set_resize (w_rcl W) s c v)) (\<lambda>_.
               modW (\<lambda>w. w\<lparr>dimensions := (s, c, v)\<rparr>))) (\<lambda>_.
         bindA (checked (rcl_wait_set_clear (w_rcl W))) (\<lambda>_.
         bindA (checked (rcl_wait_set_add_guard (w_rcl W))) (\<lambda>_.
         bindA (add_handles W hs) (\<lambda>indices.
         bindA (modW (\<lambda>w. w\<lparr>ready_set := []\<rparr>)) (\<lambda>_.
         bindA (taken RCL_TIMEOUT (rcl_wait (w_rcl W) (int (min dur (2 ^ 63 - 1))))) (\<lambda>found. case found of
           None \<Rightarrow> retA ()
         | Some found \<Rightarrow>
             modW (\<lambda>w. w\<lparr>ready_set := map fst (filter (is_ready found) indices)\<rparr>)))))))))"

section \<open>Life\<close>

definition ros_drop :: "'w world \<Rightarrow> ('w ros, unit) action" where
  "ros_drop W =
     bindA (getA waiter) (\<lambda>w.
     bindA (if w = None then retA () else wait_drop W) (\<lambda>_.
     bindA (getA (\<lambda>r. keys (handles r))) (\<lambda>ids.
     bindA (forA ids (ros_destroy W)) (\<lambda>_.
     bindA (ignored (rcl_node_fini (w_rcl W))) (\<lambda>_.
     bindA (ignored (rcl_shutdown (w_rcl W))) (\<lambda>_. ignored (rcl_context_fini (w_rcl W))))))))"

definition ros_initial :: "'w \<Rightarrow> bool \<Rightarrow> 'w ros" where
  "ros_initial w sim = \<lparr>native = w, waiter = None, handles = [], ros_next = 0, requests = [],
     next_request = 0, simulated = (if sim then Some (0, 0) else None), clock_subscription = None\<rparr>"

text \<open>An error after the value exists drops it.\<close>

definition or_drop :: "'w world \<Rightarrow> ('w ros, 'a) action \<Rightarrow> ('w ros, 'a) action" where
  "or_drop W m =
     bindA (tryA m) (\<lambda>res. case res of
       Inr x \<Rightarrow> retA x
     | Inl e \<Rightarrow> bindA (ros_drop W) (\<lambda>_. errA e))"

definition ros_open :: "'w world \<Rightarrow> string \<Rightarrow> string \<Rightarrow> bool \<Rightarrow> string list \<Rightarrow> ('w ros, unit) action" where
  "ros_open W name namespace sim args =
     bindA (liftA (c_string name)) (\<lambda>_.
     bindA (liftA (c_string namespace)) (\<lambda>_.
     bindA (liftA (mapO c_string (''rosbridge_server_rs'' # args))) (\<lambda>_.
     bindA (checked (rcl_init_options_init (w_rcl W))) (\<lambda>_.
     bindA (tryA (checked (rcl_init (w_rcl W) (''rosbridge_server_rs'' # args)))) (\<lambda>res.
     bindA (checked (rcl_init_options_fini (w_rcl W))) (\<lambda>_.
     bindA (case res of Inl e \<Rightarrow> errA e | Inr _ \<Rightarrow> retA ()) (\<lambda>_.
     bindA (tryA (checked (rcl_node_init (w_rcl W) name namespace))) (\<lambda>res.
     bindA (case res of
         Inl e \<Rightarrow>
           bindA (ignored (rcl_shutdown (w_rcl W))) (\<lambda>_.
           bindA (ignored (rcl_context_fini (w_rcl W))) (\<lambda>_. errA e))
       | Inr _ \<Rightarrow> retA ()) (\<lambda>_.
     or_drop W
       (bindA (wait_new W) (\<lambda>w.
        bindA (modA (\<lambda>r. r\<lparr>waiter := Some w\<rparr>)) (\<lambda>_.
        if sim then
          bindA (ros_subscription W ''/clock'' ''rosgraph_msgs/msg/Clock'' qos_subscriber) (\<lambda>e.
          modA (\<lambda>r. r\<lparr>clock_subscription := Some e\<rparr>))
        else retA ()))))))))))))"

definition ros_new :: "'w world \<Rightarrow> string \<Rightarrow> string \<Rightarrow> bool \<Rightarrow> string list \<Rightarrow> 'w \<Rightarrow> 'w ros outcome \<times> 'w" where
  "ros_new W name namespace sim args w =
     (case ros_open W name namespace sim args (ros_initial w sim) of
        (Ok _, r) \<Rightarrow> (Ok r, native r) | (Err e, r) \<Rightarrow> (Err e, native r) | (Panic, r) \<Rightarrow> (Panic, native r))"

end
