(* ===== verification/Access.thy ===== *)
theory Access
  imports Values
begin

text \<open>
  \<^verbatim>\<open>src/access.rs\<close>: the glob allowlists given as ROS arguments and the checks that the
  bridge makes before an operation reaches ROS. The \<^verbatim>\<open>glob\<close> and \<^verbatim>\<open>toml\<close> crates are parameters:
  a pattern is represented by the string it was compiled from.
\<close>

section \<open>Libraries\<close>

text \<open>\<open>pattern_new p\<close> is the error of \<^verbatim>\<open>glob::Pattern::new(p)\<close>, if it is one.\<close>

record globs =
  pattern_new :: "string \<Rightarrow> error option"
  pattern_matches :: "string \<Rightarrow> string \<Rightarrow> bool"

datatype toml = TStr string | TArr "toml list" | TOther

type_synonym toml_reader = "string \<Rightarrow> (string \<times> toml) list option"

section \<open>Allowlists\<close>

record access =
  pub_topics :: "string list option"
  sub_topics :: "string list option"
  services :: "string list option"
  params :: "string list option"

definition access_default :: access where
  "access_default = \<lparr>pub_topics = None, sub_topics = None, services = None, params = None\<rparr>"

definition matches :: "globs \<Rightarrow> string list option \<Rightarrow> string \<Rightarrow> bool" where
  "matches G patterns name =
     (case patterns of None \<Rightarrow> True | Some ps \<Rightarrow> list_ex (\<lambda>p. pattern_matches G p name) ps)"

definition raw_parameter_service :: "string \<Rightarrow> bool" where
  "raw_parameter_service typ \<longleftrightarrow> typ \<in> set
     [''rcl_interfaces/srv/GetParameters'', ''rcl_interfaces/srv/GetParameterTypes'',
      ''rcl_interfaces/srv/SetParameters'', ''rcl_interfaces/srv/SetParametersAtomically'',
      ''rcl_interfaces/srv/ListParameters'', ''rcl_interfaces/srv/DescribeParameters'']"

definition rosapi_parameter_service :: "string \<Rightarrow> bool" where
  "rosapi_parameter_service typ \<longleftrightarrow> typ \<in> set
     [''rosapi_msgs/srv/GetParam'', ''rosapi_msgs/srv/SetParam'', ''rosapi_msgs/srv/HasParam'',
      ''rosapi_msgs/srv/DeleteParam'', ''rosapi_msgs/srv/GetParamNames'']"

section \<open>Reading the ROS arguments\<close>

text \<open>The value of the last \<^verbatim>\<open>-p key:=value\<close> whose key ends in the parameter's name after its
  last colon.\<close>

definition windows2 :: "'a list \<Rightarrow> ('a \<times> 'a) list" where
  "windows2 xs = zip xs (tl xs)"

definition settings :: "string \<Rightarrow> string list \<Rightarrow> string list" where
  "settings name args =
     map snd (filter (\<lambda>(key, _). rsplit_next CHR '':'' key = name)
       (List.map_filter (\<lambda>(_, b). split_once '':='' b)
         (filter (\<lambda>(a, _). a = ''-p'' \<or> a = ''--param'') (windows2 args))))"

definition last_setting :: "string \<Rightarrow> string list \<Rightarrow> string option" where
  "last_setting name args =
     (case settings name args of [] \<Rightarrow> None | v # vs \<Rightarrow> Some (last (v # vs)))"

fun toml_array :: "toml \<Rightarrow> toml list option" where
  "toml_array (TArr xs) = Some xs"
| "toml_array v = None"

fun toml_str :: "toml \<Rightarrow> string option" where
  "toml_str (TStr s) = Some s"
| "toml_str v = None"

definition toml_patterns :: "(string \<times> toml) list \<Rightarrow> string list outcome" where
  "toml_patterns table =
     (case map_of table ''patterns'' of
        None \<Rightarrow> Panic
      | Some v \<Rightarrow>
          bindO (context_of (toml_array v) ''expected an array of glob strings'')
            (mapO (\<lambda>v. context_of (toml_str v) ''expected a glob string'')))"

definition flow_patterns :: "string \<Rightarrow> string \<Rightarrow> string list outcome" where
  "flow_patterns name val =
     bindO (context_of (Option.bind (strip_prefix ''['' (trim val)) (strip_suffix '']''))
              (name @ '' must be an array of glob strings'')) (\<lambda>inner.
     bindO (ensure (CHR 0x27 \<notin> set inner \<and> CHR 0x22 \<notin> set inner)
              (''invalid quoted glob array for '' @ name)) (\<lambda>_.
     if trim inner = [] then Ok [] else Ok (map trim (split_char CHR '','' inner))))"

definition compile :: "globs \<Rightarrow> string \<Rightarrow> string outcome" where
  "compile G p = (case pattern_new G p of None \<Rightarrow> Ok p | Some e \<Rightarrow> Err e)"

definition parse_glob ::
  "globs \<Rightarrow> toml_reader \<Rightarrow> string list \<Rightarrow> string \<Rightarrow> string list option outcome" where
  "parse_glob G toml args name =
     (case last_setting name args of
        None \<Rightarrow> Ok None
      | Some val \<Rightarrow>
          bindO (case toml (''patterns = '' @ val) of
                   Some table \<Rightarrow> toml_patterns table
                 | None \<Rightarrow> flow_patterns name val) (\<lambda>patterns.
          bindO (mapO (compile G) patterns) (\<lambda>ps. Ok (Some ps))))"

definition merge :: "string list option \<Rightarrow> string list option \<Rightarrow> string list option" where
  "merge legacy specific =
     (case specific of
        None \<Rightarrow> legacy
      | Some ps \<Rightarrow> Some (ps @ (case legacy of None \<Rightarrow> [] | Some l \<Rightarrow> l)))"

definition from_ros_args :: "globs \<Rightarrow> toml_reader \<Rightarrow> string list \<Rightarrow> access outcome" where
  "from_ros_args G toml args =
     bindO (parse_glob G toml args ''topics_glob'') (\<lambda>legacy.
     bindO (parse_glob G toml args ''topics_pub_glob'') (\<lambda>pub.
     bindO (parse_glob G toml args ''topics_sub_glob'') (\<lambda>sub.
     bindO (parse_glob G toml args ''services_glob'') (\<lambda>srv.
     bindO (parse_glob G toml args ''params_glob'') (\<lambda>par.
     Ok \<lparr>pub_topics = merge legacy pub, sub_topics = merge legacy sub,
        services = srv, params = par\<rparr>)))))"

section \<open>Checks\<close>

definition topic_setting :: "bool \<Rightarrow> string" where
  "topic_setting publish = (if publish then ''topics_pub_glob'' else ''topics_sub_glob'')"

definition acc_topic :: "globs \<Rightarrow> access \<Rightarrow> string \<Rightarrow> bool \<Rightarrow> unit outcome" where
  "acc_topic G a name publish =
     ensure (matches G (if publish then pub_topics a else sub_topics a) name)
       (topic_setting publish @ '' denies '' @ name)"

definition acc_service :: "globs \<Rightarrow> access \<Rightarrow> string \<Rightarrow> unit outcome" where
  "acc_service G a name = ensure (matches G (services a) name) (''services_glob denies '' @ name)"

definition parameter_service :: "globs \<Rightarrow> access \<Rightarrow> string \<Rightarrow> json \<Rightarrow> unit outcome" where
  "parameter_service G a typ args =
     (if params a = None then Ok ()
      else
        bindO (ensure (\<not> raw_parameter_service typ)
          ''params_glob restricts raw parameter services; use /rosapi parameter services'') (\<lambda>_.
        if rosapi_parameter_service typ \<and> typ \<noteq> ''rosapi_msgs/srv/GetParamNames'' then
          bindO (context_of (as_str (jix args ''name'')) ''parameter name must be a string'') (\<lambda>full.
          bindO (context_of (split_once '':'' full) ''expected <node_name>:<param_name>'') (\<lambda>(_, name).
          ensure (matches G (params a) name) (''params_glob denies '' @ name)))
        else Ok ()))"

definition acc_advertise_service :: "access \<Rightarrow> string \<Rightarrow> unit outcome" where
  "acc_advertise_service a typ =
     ensure (params a = None \<or> \<not> raw_parameter_service typ \<and> \<not> rosapi_parameter_service typ)
       ''params_glob forbids client-advertised parameter services''"

definition acc_action :: "globs \<Rightarrow> access \<Rightarrow> string \<Rightarrow> bool \<Rightarrow> unit outcome" where
  "acc_action G a name advertise =
     bindO (mapO (\<lambda>suf. acc_service G a (name @ ''/_action/'' @ suf))
              [''send_goal'', ''get_result'', ''cancel_goal'']) (\<lambda>_.
     bindO (mapO (\<lambda>suf. acc_topic G a (name @ ''/_action/'' @ suf) advertise)
              [''feedback'', ''status'']) (\<lambda>_. Ok ()))"

section \<open>Lemmas\<close>

lemma matches_None [simp]: "matches G None name"
  by (simp add: matches_def)

lemma matches_Some: "matches G (Some ps) name \<longleftrightarrow> (\<exists>p \<in> set ps. pattern_matches G p name)"
  by (simp add: matches_def list_ex_iff)

lemma acc_topic_Ok [simp]:
  "acc_topic G a name publish = Ok u \<longleftrightarrow>
     matches G (if publish then pub_topics a else sub_topics a) name"
  by (simp add: acc_topic_def)

lemma acc_service_Ok [simp]: "acc_service G a name = Ok u \<longleftrightarrow> matches G (services a) name"
  by (simp add: acc_service_def)

lemma acc_no_panic [simp]:
  "acc_topic G a n b \<noteq> Panic" "acc_service G a n \<noteq> Panic" "acc_advertise_service a t \<noteq> Panic"
  "parameter_service G a t v \<noteq> Panic"
  by (auto simp: acc_topic_def acc_service_def acc_advertise_service_def parameter_service_def
      bindO_Panic split: if_splits)

lemma acc_action_no_panic [simp]: "acc_action G a n b \<noteq> Panic"
  by (auto simp: acc_action_def bindO_Panic simp del: mapO.simps dest: mapO_Panic)

lemma compile_no_panic [simp]: "compile G p \<noteq> Panic"
  by (simp add: compile_def split: option.split)

lemma compile_Ok: "compile G p = Ok q \<longleftrightarrow> q = p \<and> pattern_new G p = None"
  by (auto simp: compile_def split: option.split)

lemma last_setting_None: "last_setting name args = None \<longleftrightarrow> settings name args = []"
  by (simp add: last_setting_def split: list.split)

lemma parse_glob_None:
  "parse_glob G toml args name = Ok None \<longleftrightarrow> settings name args = []"
  by (auto simp: parse_glob_def bindO_eq_Ok last_setting_None [symmetric] split: option.splits)

lemma matches_merge:
  "matches G (merge legacy specific) name \<longleftrightarrow>
     (legacy = None \<and> specific = None) \<or>
     (\<exists>ps. (specific = Some ps \<or> legacy = Some ps) \<and> matches G (Some ps) name)"
  by (cases legacy; cases specific) (auto simp: merge_def matches_Some)

lemma flow_patterns_no_panic [simp]: "flow_patterns name v \<noteq> Panic"
  by (auto simp: flow_patterns_def bindO_Panic)

lemma toml_patterns_no_panic: "has t ''patterns'' \<Longrightarrow> toml_patterns t \<noteq> Panic"
  by (auto simp: toml_patterns_def has_def bindO_Panic dest!: mapO_Panic simp del: has_keys)

lemma settings_append_fresh:
  assumes "split_once '':='' b = Some (k, v)" "rsplit_next CHR '':'' k = name"
    "a = ''-p'' \<or> a = ''--param''"
  shows "last_setting name (args @ [a, b]) = Some v"
proof -
  have w: "\<exists>ws. windows2 (ys @ [y, z]) = ws @ [(y, z)]" for ys and y z :: string
  proof (induction ys)
    case Nil
    show ?case by (simp add: windows2_def)
  next
    case (Cons c ys)
    then obtain ws where "windows2 (ys @ [y, z]) = ws @ [(y, z)]" by blast
    then have "windows2 ((c # ys) @ [y, z]) = (c, hd (ys @ [y, z])) # ws @ [(y, z)]"
      by (cases ys) (auto simp: windows2_def)
    then show ?case by auto
  qed
  obtain ws where "windows2 (args @ [a, b]) = ws @ [(a, b)]" using w by blast
  then have "\<exists>vs. settings name (args @ [a, b]) = vs @ [v]"
    using assms(1,2,3) by (auto simp: settings_def List.map_filter_def)
  then obtain vs where "settings name (args @ [a, b]) = vs @ [v]" ..
  then show ?thesis by (cases vs) (simp_all add: last_setting_def)
qed

lemma split_once_char: "split_once [c] s = Some (a, b) \<longleftrightarrow> s = a @ c # b \<and> c \<notin> set a"
proof (induction s arbitrary: a)
  case Nil
  show ?case by (simp add: split_once.simps)
next
  case (Cons x s)
  then show ?case
    by (cases a) (auto simp: split_once.simps [of "[c]" "x # s"])
qed

section \<open>Properties\<close>

text \<open>
  C29. The topic allowlist that the ROS arguments configure: a topic may be published (or
  subscribed) when neither the shared nor the specific list was given, or when a pattern of
  a given one matches. An empty list denies every topic.
\<close>

theorem topic_allowlist:
  assumes "from_ros_args G toml args = Ok a"
  shows "acc_topic G a name publish = Ok () \<longleftrightarrow>
    settings ''topics_glob'' args = [] \<and> settings (topic_setting publish) args = [] \<or>
    (\<exists>key ps p. (key = topic_setting publish \<or> key = ''topics_glob'') \<and>
       parse_glob G toml args key = Ok (Some ps) \<and> p \<in> set ps \<and> pattern_matches G p name)"
proof -
  obtain legacy pub sub srv par where
    parse: "parse_glob G toml args ''topics_glob'' = Ok legacy"
      "parse_glob G toml args ''topics_pub_glob'' = Ok pub"
      "parse_glob G toml args ''topics_sub_glob'' = Ok sub"
    and a: "a = \<lparr>pub_topics = merge legacy pub, sub_topics = merge legacy sub,
        services = srv, params = par\<rparr>"
    using assms(1) unfolding from_ros_args_def bindO_eq_Ok by auto
  obtain specific where s: "parse_glob G toml args (topic_setting publish) = Ok specific"
    and sel: "(if publish then pub_topics a else sub_topics a) = merge legacy specific"
    using parse a unfolding topic_setting_def by (cases publish) auto
  show ?thesis
    unfolding acc_topic_Ok sel matches_merge parse_glob_None [symmetric, where G = G and toml = toml] matches_Some
    using parse(1) s by auto
qed

theorem topic_allowlist_witness:
  "\<exists>G toml args a. from_ros_args G toml args = Ok a \<and>
     acc_topic G a ''/a'' True = Ok () \<and> acc_topic G a ''/b'' True \<noteq> Ok ()"
proof -
  let ?G = "\<lparr>pattern_new = (\<lambda>_. None), pattern_matches = (=)\<rparr>"
  let ?toml = "\<lambda>s. if s = ''patterns = ['/a']'' then Some [(''patterns'', TArr [TStr ''/a''])] else None"
  let ?args = "[''x'', ''-p'', ''n:topics_pub_glob:=['/a']'']"
  let ?a = "\<lparr>pub_topics = Some [''/a''], sub_topics = None, services = None, params = None\<rparr>"
  have set: "settings ''topics_glob'' ?args = []" "settings ''topics_pub_glob'' ?args = [''['/a']'']"
    by code_simp+
  have r: "from_ros_args ?G ?toml ?args = Ok ?a"
    by code_simp
  have p: "parse_glob ?G ?toml ?args ''topics_pub_glob'' = Ok (Some [''/a''])"
    "parse_glob ?G ?toml ?args ''topics_glob'' = Ok None"
    by code_simp+
  have "acc_topic ?G ?a ''/a'' True = Ok ()" "acc_topic ?G ?a ''/b'' True \<noteq> Ok ()"
    unfolding topic_allowlist [OF r, where publish = True] topic_setting_def if_True set using p by auto
  with r show ?thesis by blast
qed

text \<open>
  C30. With a parameter allowlist, a client may call no raw parameter service, and a rosapi
  parameter service only for a \<^verbatim>\<open>node:parameter\<close> name whose part after the first colon the
  list matches.
\<close>

theorem parameter_service_restricted:
  assumes "params a = Some ps"
  shows "parameter_service G a typ args = Ok () \<longleftrightarrow>
    \<not> raw_parameter_service typ \<and>
    (\<not> rosapi_parameter_service typ \<or> typ = ''rosapi_msgs/srv/GetParamNames'' \<or>
     (\<exists>node param. jget args ''name'' = Some (JStr (node @ '':'' @ param)) \<and>
        CHR '':'' \<notin> set node \<and> (\<exists>p \<in> set ps. pattern_matches G p param)))"
proof -
  have name: "jix args ''name'' = JStr s \<longleftrightarrow> jget args ''name'' = Some (JStr s)" for s
    by (auto simp: jix_def split: option.splits)
  show ?thesis
    using assms
    by (auto simp: parameter_service_def bindO_eq_Ok split_once_char name matches_Some)
qed

theorem parameter_service_restricted_witness:
  "\<exists>G a. parameter_service G a ''rosapi_msgs/srv/GetParam''
       (JObj [(''name'', JStr ''/n:p:q'')]) = Ok () \<and>
     parameter_service G a ''rcl_interfaces/srv/GetParameters'' JNull \<noteq> Ok ()"
proof -
  let ?G = "\<lparr>pattern_new = (\<lambda>_. None), pattern_matches = (=)\<rparr>"
  let ?a = "access_default\<lparr>params := Some [''p:q'']\<rparr>"
  have p: "params ?a = Some [''p:q'']" by simp
  have "parameter_service ?G ?a ''rosapi_msgs/srv/GetParam''
       (JObj [(''name'', JStr ''/n:p:q'')]) = Ok ()"
    unfolding parameter_service_restricted [OF p]
    by (auto simp: raw_parameter_service_def intro!: exI [of _ "''/n''"] exI [of _ "''p:q''"])
  moreover have "parameter_service ?G ?a ''rcl_interfaces/srv/GetParameters'' JNull \<noteq> Ok ()"
    unfolding parameter_service_restricted [OF p] by (simp add: raw_parameter_service_def)
  ultimately show ?thesis by blast
qed

end
