(* ===== verification/Encoding.thy ===== *)
theory Encoding
  imports Wire
begin

text \<open>
  \<^verbatim>\<open>src/encoding.rs\<close>: the owned encoding job of an outgoing message, the estimate of the
  storage it retains, and the pool that bounds concurrent encodings. The sizes of the
  library types and the capacities of their buffers are the record \<open>storage\<close>.
\<close>

record storage =
  sz_request :: nat
  sz_value :: nat
  sz_cbor :: nat
  sz_cbor_pair :: nat
  sz_string :: nat
  cap_str :: "string \<Rightarrow> nat"
  cap_array :: "json list \<Rightarrow> nat"
  cap_bytes :: "byte list \<Rightarrow> nat"
  cap_cbor_array :: "cbor list \<Rightarrow> nat"
  cap_cbor_map :: "(cbor \<times> cbor) list \<Rightarrow> nat"

text \<open>A \<^verbatim>\<open>Pool\<close> is a semaphore: the number of its free permits.\<close>

definition pool_new :: "nat \<Rightarrow> nat outcome" where
  "pool_new workers = (if workers > 0 then Ok workers else Panic)"

definition pool_default :: nat where
  "pool_default = 2"

record request =
  r_value :: json
  r_binary :: "cbor option"
  r_options :: options
  r_fragment_id :: string

definition request_new :: "json \<Rightarrow> cbor option \<Rightarrow> options \<Rightarrow> string \<Rightarrow> request" where
  "request_new v binary opts fragment_id =
     (let packed = opt_compression opts = CompCbor \<or> opt_compression opts = CompRaw
      in \<lparr>r_value = (if packed \<and> binary \<noteq> None then JNull else v),
          r_binary = (if packed then binary else None),
          r_options = opts, r_fragment_id = fragment_id\<rparr>)"

definition request_encode :: "codec \<Rightarrow> request \<Rightarrow> message list outcome" where
  "request_encode K r = encode K (r_value r) (r_binary r) (r_options r) (r_fragment_id r)"

definition sat_sum :: "nat list \<Rightarrow> nat" where
  "sat_sum ns = foldl sat_add 0 ns"

fun json_storage :: "storage \<Rightarrow> json \<Rightarrow> nat" where
  "json_storage Z (JStr s) = sat_add (sz_value Z) (cap_str Z s)"
| "json_storage Z (JArr xs) = sat_add (sz_value Z)
     (sat_add (sat_mul (cap_array Z xs) (sz_value Z)) (sat_sum (map (json_storage Z) xs)))"
| "json_storage Z (JObj fs) = sat_add (sz_value Z)
     (sat_sum (map (\<lambda>(k, v). sat_add (sat_add (cap_str Z k) (sz_string Z + 4 * 8)) (json_storage Z v)) fs))"
| "json_storage Z v = sat_add (sz_value Z) 0"

fun cbor_storage :: "storage \<Rightarrow> cbor \<Rightarrow> nat" where
  "cbor_storage Z (CText s) = sat_add (sz_cbor Z) (cap_str Z s)"
| "cbor_storage Z (CBytes b) = sat_add (sz_cbor Z) (cap_bytes Z b)"
| "cbor_storage Z (CArr xs) = sat_add (sz_cbor Z)
     (sat_add (sat_mul (cap_cbor_array Z xs) (sz_cbor Z)) (sat_sum (map (cbor_storage Z) xs)))"
| "cbor_storage Z (CMap fs) = sat_add (sz_cbor Z)
     (sat_add (sat_mul (cap_cbor_map Z fs) (sz_cbor_pair Z))
       (sat_sum (map (\<lambda>(k, v). sat_add (cbor_storage Z k) (cbor_storage Z v)) fs)))"
| "cbor_storage Z (CTag t v) = sat_add (sz_cbor Z) (cbor_storage Z v)"
| "cbor_storage Z v = sat_add (sz_cbor Z) 0"

definition retained_bytes :: "storage \<Rightarrow> request \<Rightarrow> nat" where
  "retained_bytes Z r =
     sat_add (sat_add (sat_add (sz_request Z) (json_storage Z (r_value r)))
       (case r_binary r of None \<Rightarrow> 0 | Some b \<Rightarrow> cbor_storage Z b))
       (cap_str Z (r_fragment_id r))"

section \<open>Lemmas\<close>

text \<open>What a value holds: a node for each of its parts, and the bytes of its texts, keys and byte
  strings.\<close>

primrec json_held :: "storage \<Rightarrow> json \<Rightarrow> nat" where
  "json_held Z JNull = sz_value Z"
| "json_held Z (JBool b) = sz_value Z"
| "json_held Z (JNum n) = sz_value Z"
| "json_held Z (JStr s) = sz_value Z + length s"
| "json_held Z (JArr xs) = sz_value Z + sum_list (map (json_held Z) xs)"
| "json_held Z (JObj fs) = sz_value Z + sum_list (map (\<lambda>(k, n). length k + sz_string Z + n) (map (map_prod id (json_held Z)) fs))"

fun cbor_held :: "storage \<Rightarrow> cbor \<Rightarrow> nat" where
  "cbor_held Z (CText s) = sz_cbor Z + length s"
| "cbor_held Z (CBytes b) = sz_cbor Z + length b"
| "cbor_held Z (CArr xs) = sz_cbor Z + sum_list (map (cbor_held Z) xs)"
| "cbor_held Z (CMap fs) = sz_cbor Z + sum_list (map (\<lambda>(k, v). cbor_held Z k + cbor_held Z v) fs)"
| "cbor_held Z (CTag t v) = sz_cbor Z + cbor_held Z v"
| "cbor_held Z v = sz_cbor Z"

definition request_held :: "storage \<Rightarrow> request \<Rightarrow> nat" where
  "request_held Z r = sz_request Z + json_held Z (r_value r) +
     (case r_binary r of None \<Rightarrow> 0 | Some b \<Rightarrow> cbor_held Z b) + length (r_fragment_id r)"

lemma sat_sum_le: "sat_sum ns \<le> USIZE_MAX"
proof -
  have "foldl sat_add a ns \<le> USIZE_MAX" if "a \<le> USIZE_MAX" for a
    using that by (induction ns arbitrary: a) (auto simp: sat_add_le)
  then show ?thesis by (simp add: sat_sum_def)
qed

lemma sat_sum_eq: "sat_sum ns = min USIZE_MAX (sum_list ns)"
proof -
  have "foldl sat_add (min USIZE_MAX a) ns = min USIZE_MAX (a + sum_list ns)" for a
  proof (induction ns arbitrary: a)
    case (Cons n ns)
    have "sat_add (min USIZE_MAX a) n = min USIZE_MAX (a + n)" by (simp add: sat_add_def)
    with Cons [of "a + n"] show ?case by (simp add: add.assoc)
  qed simp
  from this [of 0] show ?thesis by (simp add: sat_sum_def)
qed

lemma min_add_le: "min (M::nat) a \<le> c \<Longrightarrow> min M (a + b) \<le> min M (c + b)"
  by auto

lemma sat_add_min: "min USIZE_MAX a \<le> c \<Longrightarrow> min USIZE_MAX b \<le> d \<Longrightarrow> min USIZE_MAX (a + b) \<le> sat_add c d"
  by (auto simp: sat_add_def min_def split: if_splits)

lemma sat_add_right: "min USIZE_MAX b \<le> d \<Longrightarrow> min USIZE_MAX b \<le> sat_add c d"
  using sat_add_min [of 0 c b d] by simp

lemma min_sum_list:
  "(\<And>x. x \<in> set xs \<Longrightarrow> min M (f x) \<le> g x) \<Longrightarrow> min M (sum_list (map f xs)) \<le> sum_list (map g xs)"
  for f :: "'a \<Rightarrow> nat"
proof (induction xs)
  case (Cons x xs)
  then have "min M (f x) \<le> g x" "min M (sum_list (map f xs)) \<le> sum_list (map g xs)" by auto
  then show ?case by (auto simp: min_def split: if_splits)
qed simp

text \<open>A buffer is at least as large as what is in it.\<close>

definition honest :: "storage \<Rightarrow> bool" where
  "honest Z \<longleftrightarrow> (\<forall>s. length s \<le> cap_str Z s) \<and> (\<forall>b. length b \<le> cap_bytes Z b)"

lemma sat_add_node: "min USIZE_MAX b \<le> d \<Longrightarrow> min USIZE_MAX (z + b) \<le> sat_add z d"
  by (rule sat_add_min) simp

lemma json_storage_held: "honest Z \<Longrightarrow> min USIZE_MAX (json_held Z v) \<le> json_storage Z v"
proof (induction Z v rule: json_storage.induct)
  case (1 Z s)
  then have "min USIZE_MAX (length s) \<le> cap_str Z s" by (simp add: honest_def min.coboundedI2)
  then show ?case by (simp add: sat_add_node)
next
  case (2 Z xs)
  then have "min USIZE_MAX (sum_list (map (json_held Z) xs)) \<le> sat_sum (map (json_storage Z) xs)"
    using min_sum_list [of xs USIZE_MAX "json_held Z" "json_storage Z"] by (simp add: sat_sum_eq)
  then show ?case by (simp add: sat_add_node sat_add_right)
next
  case (3 Z fs)
  let ?g = "\<lambda>(k, v). sat_add (sat_add (cap_str Z k) (sz_string Z + 4 * 8)) (json_storage Z v)"
  have "min USIZE_MAX (length (fst kv) + sz_string Z + json_held Z (snd kv)) \<le> ?g kv" if "kv \<in> set fs" for kv
  proof -
    obtain k v where kv: "kv = (k, v)" by (cases kv)
    have "min USIZE_MAX (length k + sz_string Z) \<le> sat_add (cap_str Z k) (sz_string Z + 4 * 8)"
      by (rule sat_add_min) (use 3(2) in \<open>simp_all add: honest_def min.coboundedI2\<close>)
    moreover have "min USIZE_MAX (json_held Z v) \<le> json_storage Z v" using 3 that kv by auto
    ultimately show ?thesis using kv by (simp add: sat_add_min)
  qed
  then have "min USIZE_MAX (sum_list (map (\<lambda>kv. length (fst kv) + sz_string Z + json_held Z (snd kv)) fs)) \<le> sum_list (map ?g fs)"
    by (rule min_sum_list)
  moreover have "json_held Z (JObj fs) = sz_value Z + sum_list (map (\<lambda>kv. length (fst kv) + sz_string Z + json_held Z (snd kv)) fs)"
    by (simp add: comp_def case_prod_unfold)
  ultimately show ?case by (simp add: sat_add_node sat_sum_eq del: json_held.simps)
qed (simp_all add: sat_add_def)

lemma cbor_storage_held: "honest Z \<Longrightarrow> min USIZE_MAX (cbor_held Z v) \<le> cbor_storage Z v"
proof (induction Z v rule: cbor_storage.induct)
  case (1 Z s)
  then have "min USIZE_MAX (length s) \<le> cap_str Z s" by (simp add: honest_def min.coboundedI2)
  then show ?case by (simp add: sat_add_node)
next
  case (2 Z b)
  then have "min USIZE_MAX (length b) \<le> cap_bytes Z b" by (simp add: honest_def min.coboundedI2)
  then show ?case by (simp add: sat_add_node)
next
  case (3 Z xs)
  then have "min USIZE_MAX (sum_list (map (cbor_held Z) xs)) \<le> sat_sum (map (cbor_storage Z) xs)"
    using min_sum_list [of xs USIZE_MAX "cbor_held Z" "cbor_storage Z"] by (simp add: sat_sum_eq)
  then show ?case by (simp add: sat_add_node sat_add_right)
next
  case (4 Z fs)
  let ?g = "\<lambda>(k, v). sat_add (cbor_storage Z k) (cbor_storage Z v)"
  have "min USIZE_MAX ((\<lambda>(k, v). cbor_held Z k + cbor_held Z v) kv) \<le> ?g kv" if "kv \<in> set fs" for kv
    using 4 that by (cases kv) (auto intro: sat_add_min)
  then have "min USIZE_MAX (sum_list (map (\<lambda>(k, v). cbor_held Z k + cbor_held Z v) fs)) \<le> sum_list (map ?g fs)"
    by (rule min_sum_list)
  then show ?case by (simp add: sat_add_node sat_add_right sat_sum_eq)
qed (simp_all add: sat_add_node, simp_all add: sat_add_def)

text \<open>An instance: buffers without spare capacity, sizes of a 64-bit target.\<close>

definition sample_storage :: storage where
  "sample_storage =
     \<lparr>sz_request = 200, sz_value = 32, sz_cbor = 32, sz_cbor_pair = 64, sz_string = 24,
      cap_str = length, cap_array = length, cap_bytes = length, cap_cbor_array = length,
      cap_cbor_map = length\<rparr>"

definition sample_request :: request where
  "sample_request = request_new (JStr ''abcd'') (Some (CArr [CText ''abcd''])) (options_default\<lparr>opt_compression := CompCbor\<rparr>) ''id''"

section \<open>Properties\<close>

text \<open>
  C27. Dropping the form of the message that the chosen compression does not use changes
  nothing of what is sent: an encoding job gives the messages that \<^verbatim>\<open>wire::encode\<close> gives for
  the values the job was made from.
\<close>

theorem request_encodes_source:
  "request_encode K (request_new v binary opts fid) = encode K v binary opts fid"
  by (cases binary) (auto simp: request_encode_def request_new_def encode_def Let_def)

text \<open>
  C28. The storage estimate of a job never exceeds the machine's range and, up to that range, counts
  at least everything the job holds: its record, every node of its JSON value and of its CBOR value,
  the bytes of all texts, keys and byte strings in them, and its fragment id.
\<close>

theorem retained_bytes_bounds:
  assumes "honest Z"
  shows "min USIZE_MAX (request_held Z r) \<le> retained_bytes Z r \<and> retained_bytes Z r \<le> USIZE_MAX"
proof
  have "min USIZE_MAX (case r_binary r of None \<Rightarrow> 0 | Some b \<Rightarrow> cbor_held Z b) \<le> (case r_binary r of None \<Rightarrow> 0 | Some b \<Rightarrow> cbor_storage Z b)"
    using cbor_storage_held [OF assms] by (simp split: option.split)
  moreover have "min USIZE_MAX (length (r_fragment_id r)) \<le> cap_str Z (r_fragment_id r)"
    using assms by (simp add: honest_def min.coboundedI2)
  ultimately show "min USIZE_MAX (request_held Z r) \<le> retained_bytes Z r"
    unfolding retained_bytes_def request_held_def
    by (intro sat_add_min sat_add_node json_storage_held [OF assms])
  show "retained_bytes Z r \<le> USIZE_MAX"
    unfolding retained_bytes_def by (rule sat_add_le)
qed

theorem retained_bytes_bounds_witness:
  "request_held sample_storage sample_request = 200 + 32 + (32 + (32 + 4)) + 2 \<and>
   min USIZE_MAX (request_held sample_storage sample_request) \<le> retained_bytes sample_storage sample_request"
  using retained_bytes_bounds [of sample_storage sample_request]
  by (simp add: honest_def sample_storage_def sample_request_def request_new_def options_default_def request_held_def)

end
