(* ===== verification/Outgoing.thy ===== *)
theory Outgoing
  imports Encoding
begin

text \<open>
  \<^verbatim>\<open>src/outgoing.rs\<close>: the bounded send queue of one connection, shared by the bridge (its
  \<^verbatim>\<open>Output\<close>) and the WebSocket task (its \<^verbatim>\<open>Receiver\<close>). Every operation runs under the queue's
  mutex, so it is a function on the queue's state. Log lines are left out; the fields they
  read and the time of the last one are kept.
\<close>

section \<open>State\<close>

definition DEFAULT_BYTE_LIMIT :: nat where
  "DEFAULT_BYTE_LIMIT = 64 * 1024 * 1024"

definition CONTROL_CAPACITY :: nat where
  "CONTROL_CAPACITY = 16"

datatype payload = Frames "message list" | Encode request

definition frames_size :: "message list \<Rightarrow> nat" where
  "frames_size ms = sum_list (map message_size ms)"

fun payload_bytes :: "storage \<Rightarrow> payload \<Rightarrow> nat" where
  "payload_bytes Z (Frames frames) = frames_size frames"
| "payload_bytes Z (Encode request) = retained_bytes Z request"

fun payload_encode :: "codec \<Rightarrow> payload \<Rightarrow> message list outcome" where
  "payload_encode K (Frames frames) = Ok frames"
| "payload_encode K (Encode request) = request_encode K request"

record batch =
  b_connection :: nat
  b_enqueued :: nat
  b_topic :: "string option"
  b_payload :: payload
  b_bytes :: nat

record queue =
  o_topics :: "batch list"
  o_control :: "batch list"
  topic_bytes :: nat
  control_bytes :: nat
  capacity :: nat
  byte_limit :: nat
  sender_closed :: bool
  receiver_closed :: bool
  close_reason :: "string option"
  dropped :: nat
  last_warning :: "nat option"

datatype send_error = Closed | ControlFull

datatype try_recv_error = Empty | Disconnected

definition channel_with_limits :: "nat \<Rightarrow> nat \<Rightarrow> queue outcome" where
  "channel_with_limits cap limit =
     (if cap > 0 \<and> limit > 0 then
        Ok \<lparr>o_topics = [], o_control = [], topic_bytes = 0, control_bytes = 0, capacity = cap,
          byte_limit = limit, sender_closed = False, receiver_closed = False,
          close_reason = None, dropped = 0, last_warning = None\<rparr>
      else Panic)"

definition channel :: "nat \<Rightarrow> queue outcome" where
  "channel cap = channel_with_limits cap DEFAULT_BYTE_LIMIT"

section \<open>Sending\<close>

definition of_topic :: "string \<Rightarrow> batch \<Rightarrow> bool" where
  "of_topic topic b \<longleftrightarrow> b_topic b = Some topic"

text \<open>The oldest batch of a topic, and the queue without it.\<close>

fun take_topic :: "string \<Rightarrow> batch list \<Rightarrow> (batch \<times> batch list) option" where
  "take_topic topic [] = None"
| "take_topic topic (b # bs) =
     (if of_topic topic b then Some (b, bs)
      else map_option (\<lambda>(old, rest). (old, b # rest)) (take_topic topic bs))"

lemma take_topic_length [termination_simp]:
  "take_topic topic bs = Some (old, rest) \<Longrightarrow> length rest < length bs"
  by (induction bs arbitrary: rest) (auto split: if_splits)

text \<open>The eviction loop: the queue, its bytes and the number of batches dropped.\<close>

function evict ::
  "string \<Rightarrow> nat \<Rightarrow> nat \<Rightarrow> nat \<Rightarrow> nat \<Rightarrow> batch list \<times> nat \<times> nat \<Rightarrow> batch list \<times> nat \<times> nat" where
  "evict topic topic_limit cap limit bytes (bs, used, n) =
     (if length (filter (of_topic topic) bs) \<ge> topic_limit \<or> length bs \<ge> cap \<or> bytes > limit - used
      then (case take_topic topic bs of
              None \<Rightarrow> (bs, used, n)
            | Some (old, rest) \<Rightarrow>
                evict topic topic_limit cap limit bytes (rest, used - b_bytes old, n + 1))
      else (bs, used, n))"
  by pat_completeness auto
termination
  by (relation "measure (\<lambda>(topic, topic_limit, cap, limit, bytes, bs, used, n). length bs)")
    (auto intro: take_topic_length)

declare evict.simps [simp del]

definition close_full :: "string \<Rightarrow> queue \<Rightarrow> queue" where
  "close_full reason s = s\<lparr>close_reason := Some reason, sender_closed := True, o_topics := [],
     o_control := [], topic_bytes := 0, control_bytes := 0\<rparr>"

definition warn_due :: "nat \<Rightarrow> queue \<Rightarrow> bool" where
  "warn_due now s = (case last_warning s of None \<Rightarrow> True | Some t \<Rightarrow> secs 1 \<le> since now t)"

definition count_dropped :: "nat \<Rightarrow> nat \<Rightarrow> queue \<Rightarrow> queue" where
  "count_dropped now n s =
     (if n > 0 then
        s\<lparr>dropped := dropped s + n,
          last_warning := (if warn_due now s then Some now else last_warning s)\<rparr>
      else s)"

definition enqueue_topic ::
  "nat \<Rightarrow> nat \<Rightarrow> string \<Rightarrow> nat \<Rightarrow> payload \<Rightarrow> nat \<Rightarrow> queue \<Rightarrow> queue" where
  "enqueue_topic now connection topic topic_limit payload bytes s =
     (let (bs, used, n) =
        (if bytes \<le> byte_limit s \<and> topic_limit > 0
         then evict topic topic_limit (capacity s) (byte_limit s) bytes (o_topics s, topic_bytes s, 0)
         else (o_topics s, topic_bytes s, 0))
      in if length bs \<ge> capacity s \<or> bytes > byte_limit s - used
         then count_dropped now (n + 1) (s\<lparr>o_topics := bs, topic_bytes := used\<rparr>)
         else count_dropped now n
           (s\<lparr>o_topics := bs @ [\<lparr>b_connection = connection, b_enqueued = now, b_topic = Some topic,
                b_payload = payload, b_bytes = bytes\<rparr>],
              topic_bytes := used + bytes\<rparr>))"

definition enqueue ::
  "storage \<Rightarrow> nat \<Rightarrow> nat \<Rightarrow> string option \<Rightarrow> nat \<Rightarrow> payload \<Rightarrow> queue \<Rightarrow> (send_error + unit) \<times> queue" where
  "enqueue Z now connection topic topic_limit payload s =
     (let bytes = payload_bytes Z payload
      in if receiver_closed s \<or> sender_closed s then (Inl Closed, s)
         else case topic of
           Some t \<Rightarrow> (Inr (), enqueue_topic now connection t topic_limit payload bytes s)
         | None \<Rightarrow>
             if length (o_control s) \<ge> CONTROL_CAPACITY \<or> bytes > byte_limit s - control_bytes s
             then (Inl ControlFull, close_full ''control send queue full'' s)
             else (Inr (), s\<lparr>control_bytes := control_bytes s + bytes,
                     o_control := o_control s @ [\<lparr>b_connection = connection, b_enqueued = now,
                       b_topic = None, b_payload = payload, b_bytes = bytes\<rparr>]\<rparr>))"

definition send_frames ::
  "storage \<Rightarrow> nat \<Rightarrow> nat \<Rightarrow> string option \<Rightarrow> nat \<Rightarrow> message list \<Rightarrow> queue \<Rightarrow> (send_error + unit) \<times> queue" where
  "send_frames Z now connection topic topic_limit frames =
     enqueue Z now connection topic topic_limit (Frames frames)"

definition send_request ::
  "storage \<Rightarrow> nat \<Rightarrow> nat \<Rightarrow> string option \<Rightarrow> nat \<Rightarrow> request \<Rightarrow> queue \<Rightarrow> (send_error + unit) \<times> queue" where
  "send_request Z now connection topic topic_limit request =
     enqueue Z now connection topic topic_limit (Encode request)"

definition is_closed :: "queue \<Rightarrow> bool" where
  "is_closed s \<longleftrightarrow> receiver_closed s \<or> sender_closed s"

definition drop_output :: "queue \<Rightarrow> queue" where
  "drop_output s = s\<lparr>sender_closed := True, o_topics := [], o_control := [], topic_bytes := 0,
     control_bytes := 0\<rparr>"

section \<open>Receiving\<close>

definition take_batch :: "queue \<Rightarrow> (try_recv_error + batch) \<times> queue" where
  "take_batch s =
     (case o_control s of
        b # bs \<Rightarrow> (Inr b, s\<lparr>o_control := bs, control_bytes := control_bytes s - b_bytes b\<rparr>)
      | [] \<Rightarrow> (case o_topics s of
          b # bs \<Rightarrow> (Inr b, s\<lparr>o_topics := bs, topic_bytes := topic_bytes s - b_bytes b\<rparr>)
        | [] \<Rightarrow> (Inl (if sender_closed s then Disconnected else Empty), s)))"

text \<open>A batch that encodes to too much, or not at all: a topic message is dropped, a control
  message closes the connection. So does an encoding that panics: \<^verbatim>\<open>recv\<close> runs it as a blocking task
  and treats the failed task as a control message.\<close>

definition reject :: "nat \<Rightarrow> bool \<Rightarrow> string \<Rightarrow> queue \<Rightarrow> queue" where
  "reject now topic reason s =
     (let s1 = (if topic then s\<lparr>dropped := dropped s + 1\<rparr> else s);
          s2 = (if \<not> topic \<or> warn_due now s1 then s1\<lparr>last_warning := Some now\<rparr> else s1)
      in if topic then s2 else close_full reason s2)"

definition finish ::
  "nat \<Rightarrow> bool \<Rightarrow> message list outcome \<Rightarrow> queue \<Rightarrow> message list option \<times> queue" where
  "finish now topic result s =
     (if sender_closed s \<or> receiver_closed s then (None, s)
      else case result of
        Ok frames \<Rightarrow>
          if frames_size frames \<le> byte_limit s then (Some frames, s)
          else (None, reject now topic ''encoded batch exceeds byte limit'' s)
      | Err _ \<Rightarrow> (None, reject now topic ''outbound encoding failed'' s)
      | Panic \<Rightarrow> (None, reject now False ''outbound encoding failed'' s))"

text \<open>The consumer: what \<^verbatim>\<open>recv\<close> does with the batches that are there, one after the other.\<close>

function try_recv ::
  "codec \<Rightarrow> nat \<Rightarrow> queue \<Rightarrow> (try_recv_error + message list) \<times> queue" where
  "try_recv K now s =
     (case take_batch s of
        (Inl e, s') \<Rightarrow> (Inl e, s')
      | (Inr b, s') \<Rightarrow>
          (case finish now (b_topic b \<noteq> None) (payload_encode K (b_payload b)) s' of
             (Some frames, s'') \<Rightarrow> (Inr frames, s'')
           | (None, s'') \<Rightarrow> try_recv K now s''))"
  by pat_completeness auto

definition backlog :: "queue \<Rightarrow> nat" where
  "backlog s = length (o_control s) + length (o_topics s)"

lemma take_batch_backlog: "take_batch s = (Inr b, t) \<Longrightarrow> backlog t < backlog s"
  by (auto simp: take_batch_def backlog_def split: list.splits)

lemma finish_backlog: "finish now topic r s = (x, t) \<Longrightarrow> backlog t \<le> backlog s"
  by (auto simp: finish_def reject_def close_full_def backlog_def Let_def split: if_splits outcome.splits)

lemma retry_backlog:
  "take_batch s = (Inr b, s') \<Longrightarrow> finish now topic r s' = (x, s'') \<Longrightarrow> backlog s'' < backlog s"
  using take_batch_backlog finish_backlog le_less_trans by blast

termination try_recv
  by (relation "measure (\<lambda>(K, now, s). backlog s)") (simp_all, metis retry_backlog)

declare try_recv.simps [simp del]

definition drop_receiver :: "queue \<Rightarrow> queue" where
  "drop_receiver s = s\<lparr>receiver_closed := True, o_topics := [], o_control := []\<rparr>"

section \<open>Eviction\<close>

definition total_bytes :: "batch list \<Rightarrow> nat" where
  "total_bytes bs = sum_list (map b_bytes bs)"

lemma total_bytes_simps [simp]:
  "total_bytes [] = 0" "total_bytes (b # bs) = b_bytes b + total_bytes bs"
  "total_bytes (bs @ cs) = total_bytes bs + total_bytes cs"
  by (simp_all add: total_bytes_def)

lemma take_topic_None: "take_topic topic bs = None \<longleftrightarrow> filter (of_topic topic) bs = []"
  by (induction bs) auto

lemma take_topic_Some:
  "take_topic topic bs = Some (old, rest) \<Longrightarrow>
   \<exists>p q. bs = p @ old # q \<and> rest = p @ q \<and> of_topic topic old \<and> filter (of_topic topic) p = []"
proof (induction bs arbitrary: rest)
  case (Cons b bs)
  show ?case
  proof (cases "of_topic topic b")
    case True
    with Cons.prems show ?thesis by (intro exI [of _ "[]"] exI [of _ rest]) auto
  next
    case False
    with Cons.prems obtain r where r: "take_topic topic bs = Some (old, r)" "rest = b # r" by auto
    from Cons.IH [OF r(1)] obtain p q where "bs = p @ old # q" "r = p @ q" "of_topic topic old"
      "filter (of_topic topic) p = []" by blast
    with False r(2) show ?thesis by (intro exI [of _ "b # p"] exI [of _ q]) auto
  qed
qed simp

text \<open>What eviction keeps: everything of other topics, the newest of this one.\<close>

definition kept :: "string \<Rightarrow> nat \<Rightarrow> batch list \<Rightarrow> batch list \<Rightarrow> bool" where
  "kept topic k bs cs \<longleftrightarrow>
     filter (\<lambda>b. \<not> of_topic topic b) cs = filter (\<lambda>b. \<not> of_topic topic b) bs \<and>
     filter (of_topic topic) cs = drop k (filter (of_topic topic) bs) \<and>
     length cs + k = length bs \<and> set cs \<subseteq> set bs \<and> total_bytes cs \<le> total_bytes bs"

lemma kept_refl [simp]: "kept topic 0 bs bs"
  by (simp add: kept_def)

lemma kept_take:
  assumes "take_topic topic bs = Some (old, rest)" "kept topic k rest cs"
  shows "kept topic (Suc k) bs cs"
proof -
  obtain p q where "bs = p @ old # q" "rest = p @ q" "of_topic topic old" "filter (of_topic topic) p = []"
    using take_topic_Some [OF assms(1)] by blast
  with assms(2) show ?thesis by (auto simp: kept_def)
qed

lemma evict_spec:
  "evict topic L cap limit bytes (bs, used, n) = (cs, used', n') \<Longrightarrow>
   \<exists>k. n' = n + k \<and> kept topic k bs cs \<and>
     (used = total_bytes bs \<longrightarrow> used' = total_bytes cs) \<and>
     (filter (of_topic topic) cs = [] \<or>
      length (filter (of_topic topic) cs) < L \<and> length cs < cap \<and> bytes \<le> limit - used')"
proof (induction "length bs" arbitrary: bs used n cs used' n' rule: less_induct)
  case less
  let ?full = "length (filter (of_topic topic) bs) \<ge> L \<or> length bs \<ge> cap \<or> bytes > limit - used"
  show ?case
  proof (cases "?full \<and> take_topic topic bs \<noteq> None")
    case True
    then obtain old rest where tk: "take_topic topic bs = Some (old, rest)" and full: ?full by auto
    obtain p q where pq: "bs = p @ old # q" "rest = p @ q" using take_topic_Some [OF tk] by blast
    have "evict topic L cap limit bytes (rest, used - b_bytes old, n + 1) = (cs, used', n')"
      using less.prems full tk by (simp add: evict.simps [of topic L cap limit bytes bs used n])
    from less.hyps [OF take_topic_length [OF tk] this] obtain k where "n' = n + 1 + k" "kept topic k rest cs"
      "used - b_bytes old = total_bytes rest \<longrightarrow> used' = total_bytes cs"
      "filter (of_topic topic) cs = [] \<or>
        length (filter (of_topic topic) cs) < L \<and> length cs < cap \<and> bytes \<le> limit - used'"
      by blast
    with kept_take [OF tk] pq show ?thesis by (intro exI [of _ "Suc k"]) auto
  next
    case False
    with less.prems have e: "cs = bs" "used' = used" "n' = n"
      by (auto simp: evict.simps [of topic L cap limit bytes bs used n] split: if_splits option.splits)
    from False take_topic_None [of topic bs] have
      "filter (of_topic topic) bs = [] \<or> \<not> ?full" by blast
    with e show ?thesis by (intro exI [of _ 0]) (auto simp: not_le not_less)
  qed
qed

section \<open>The invariant of a queue\<close>

definition queue_ok :: "queue \<Rightarrow> bool" where
  "queue_ok s \<longleftrightarrow> 0 < capacity s \<and> 0 < byte_limit s \<and>
     length (o_topics s) \<le> capacity s \<and> length (o_control s) \<le> CONTROL_CAPACITY \<and>
     (\<forall>b \<in> set (o_topics s). b_topic b \<noteq> None) \<and> (\<forall>b \<in> set (o_control s). b_topic b = None) \<and>
     total_bytes (o_topics s) \<le> byte_limit s \<and> total_bytes (o_control s) \<le> byte_limit s \<and>
     (\<not> receiver_closed s \<longrightarrow>
        topic_bytes s = total_bytes (o_topics s) \<and> control_bytes s = total_bytes (o_control s)) \<and>
     (is_closed s \<longrightarrow> o_topics s = [] \<and> o_control s = []) \<and>
     (close_reason s \<noteq> None \<longrightarrow> sender_closed s)"

datatype queue_event =
    Send nat nat "string option" nat payload
  | DropOutput
  | Take
  | Finish nat bool "message list outcome"
  | DropReceiver

fun queue_step :: "storage \<Rightarrow> queue_event \<Rightarrow> queue \<Rightarrow> queue" where
  "queue_step Z (Send now c topic limit p) s = snd (enqueue Z now c topic limit p s)"
| "queue_step Z DropOutput s = drop_output s"
| "queue_step Z Take s = snd (take_batch s)"
| "queue_step Z (Finish now topic r) s = snd (finish now topic r s)"
| "queue_step Z DropReceiver s = drop_receiver s"

lemma channel_ok: "channel_with_limits cap limit = Ok s \<Longrightarrow> queue_ok s"
  by (auto simp: channel_with_limits_def queue_ok_def is_closed_def CONTROL_CAPACITY_def split: if_splits)

lemma close_full_ok [simp]: "queue_ok s \<Longrightarrow> queue_ok (close_full r s)"
  by (simp add: close_full_def queue_ok_def is_closed_def)

lemma count_dropped_ok [simp]: "queue_ok (count_dropped now n s) = queue_ok s"
  by (simp add: count_dropped_def queue_ok_def is_closed_def)

lemma drop_ok: "queue_ok s \<Longrightarrow> queue_ok (drop_output s)" "queue_ok s \<Longrightarrow> queue_ok (drop_receiver s)"
  by (auto simp: drop_output_def drop_receiver_def queue_ok_def is_closed_def)

lemma take_batch_ok: "queue_ok s \<Longrightarrow> queue_ok (snd (take_batch s))"
  by (auto simp: take_batch_def queue_ok_def is_closed_def split: list.splits)

lemma reject_ok: "queue_ok s \<Longrightarrow> queue_ok (reject now topic r s)"
  by (auto simp: reject_def Let_def close_full_def queue_ok_def is_closed_def)

lemma finish_ok: "queue_ok s \<Longrightarrow> queue_ok (snd (finish now topic r s))"
  by (auto simp: finish_def reject_ok split: outcome.split)

text \<open>What a topic message does to an open queue.\<close>

lemma enqueue_topic_spec:
  assumes s: "queue_ok s" "\<not> is_closed s"
  obtains k bs where "kept topic k (o_topics s) bs"
    and "length bs < capacity s \<and> bytes \<le> byte_limit s - total_bytes bs \<and>
       (0 < L \<and> bytes \<le> byte_limit s \<longrightarrow> length (filter (of_topic topic) bs) < L) \<and>
       (enqueue_topic now c topic L p bytes s = count_dropped now k
         (s\<lparr>o_topics := bs @ [\<lparr>b_connection = c, b_enqueued = now, b_topic = Some topic,
              b_payload = p, b_bytes = bytes\<rparr>], topic_bytes := total_bytes bs + bytes\<rparr>)) \<or>
      (length bs \<ge> capacity s \<or> bytes > byte_limit s - total_bytes bs) \<and>
       (0 < L \<and> bytes \<le> byte_limit s \<longrightarrow> filter (of_topic topic) bs = []) \<and>
       enqueue_topic now c topic L p bytes s =
         count_dropped now (k + 1) (s\<lparr>o_topics := bs, topic_bytes := total_bytes bs\<rparr>)"
proof -
  have used: "topic_bytes s = total_bytes (o_topics s)"
    using s by (simp add: queue_ok_def is_closed_def)
  show ?thesis
  proof (cases "bytes \<le> byte_limit s \<and> 0 < L")
    case True
    obtain bs u n where e: "evict topic L (capacity s) (byte_limit s) bytes (o_topics s, topic_bytes s, 0) = (bs, u, n)"
      by (cases "evict topic L (capacity s) (byte_limit s) bytes (o_topics s, topic_bytes s, 0)")
    from evict_spec [OF e] used obtain k where k: "n = k" "kept topic k (o_topics s) bs" "u = total_bytes bs"
      "filter (of_topic topic) bs = [] \<or> length (filter (of_topic topic) bs) < L \<and>
        length bs < capacity s \<and> bytes \<le> byte_limit s - u" by auto
    have "enqueue_topic now c topic L p bytes s =
      (if length bs \<ge> capacity s \<or> bytes > byte_limit s - u
         then count_dropped now (k + 1) (s\<lparr>o_topics := bs, topic_bytes := u\<rparr>)
         else count_dropped now k
           (s\<lparr>o_topics := bs @ [\<lparr>b_connection = c, b_enqueued = now, b_topic = Some topic,
                b_payload = p, b_bytes = bytes\<rparr>], topic_bytes := u + bytes\<rparr>))"
      using True e k(1) by (simp add: enqueue_topic_def)
    with k True show ?thesis
      by (intro that [OF k(2)]) (auto simp: not_le not_less)
  next
    case False
    then show ?thesis
      by (intro that [OF kept_refl]) (auto simp: enqueue_topic_def used not_le not_less)
  qed
qed

lemma enqueue_topic_ok:
  assumes s: "queue_ok s" "\<not> is_closed s"
  shows "queue_ok (enqueue_topic now c topic L p bytes s)"
proof (rule enqueue_topic_spec [OF s, of topic bytes L now c p])
  fix k bs
  let ?b = "\<lparr>b_connection = c, b_enqueued = now, b_topic = Some topic, b_payload = p, b_bytes = bytes\<rparr>"
  assume k: "kept topic k (o_topics s) bs"
  then have sub: "length bs \<le> length (o_topics s)" "set bs \<subseteq> set (o_topics s)"
    "total_bytes bs \<le> total_bytes (o_topics s)" by (auto simp: kept_def)
  have put: "queue_ok (s\<lparr>o_topics := bs @ [?b], topic_bytes := total_bytes bs + bytes\<rparr>)"
    if "length bs < capacity s" "bytes \<le> byte_limit s - total_bytes bs"
    using s that sub by (auto simp: queue_ok_def is_closed_def)
  have skip: "queue_ok (s\<lparr>o_topics := bs, topic_bytes := total_bytes bs\<rparr>)"
    using s sub by (auto simp: queue_ok_def is_closed_def)
  assume "length bs < capacity s \<and> bytes \<le> byte_limit s - total_bytes bs \<and>
       (0 < L \<and> bytes \<le> byte_limit s \<longrightarrow> length (filter (of_topic topic) bs) < L) \<and>
       (enqueue_topic now c topic L p bytes s = count_dropped now k
         (s\<lparr>o_topics := bs @ [?b], topic_bytes := total_bytes bs + bytes\<rparr>)) \<or>
      (length bs \<ge> capacity s \<or> bytes > byte_limit s - total_bytes bs) \<and>
       (0 < L \<and> bytes \<le> byte_limit s \<longrightarrow> filter (of_topic topic) bs = []) \<and>
       enqueue_topic now c topic L p bytes s =
         count_dropped now (k + 1) (s\<lparr>o_topics := bs, topic_bytes := total_bytes bs\<rparr>)"
  then show ?thesis by (elim disjE conjE) (simp_all add: put skip)
qed

lemma enqueue_ok: "queue_ok s \<Longrightarrow> queue_ok (snd (enqueue Z now c topic L p s))"
proof (cases topic)
  case (Some t)
  assume "queue_ok s"
  with Some enqueue_topic_ok show ?thesis by (auto simp: enqueue_def Let_def is_closed_def)
next
  case None
  assume "queue_ok s"
  with None show ?thesis
    by (auto simp: enqueue_def Let_def) (auto simp: queue_ok_def is_closed_def)
qed

lemma queue_step_ok: "queue_ok s \<Longrightarrow> queue_ok (queue_step Z e s)"
  by (cases e) (simp_all add: enqueue_ok drop_ok take_batch_ok finish_ok)

interpretation outgoing: machine queue_ok "queue_step Z" "\<lambda>_ _. True" for Z
  by unfold_locales (rule queue_step_ok)

text \<open>An instance: one waiting batch of a topic, room for two.\<close>

definition sample_batch :: "string option \<Rightarrow> batch" where
  "sample_batch topic = \<lparr>b_connection = 1, b_enqueued = 0, b_topic = topic,
     b_payload = Frames [Text ''ab''], b_bytes = 2\<rparr>"

definition sample_queue :: queue where
  "sample_queue = \<lparr>o_topics = [sample_batch (Some ''/a'')], o_control = [sample_batch None],
     topic_bytes = 2, control_bytes = 2, capacity = 2, byte_limit = 9, sender_closed = False,
     receiver_closed = False, close_reason = None, dropped = 0, last_warning = None\<rparr>"

lemma sample_queue_ok: "queue_ok sample_queue" "\<not> is_closed sample_queue"
  by (simp_all add: sample_queue_def sample_batch_def queue_ok_def is_closed_def CONTROL_CAPACITY_def)

lemma sample_queue_closed: "queue_ok (drop_output sample_queue)" "is_closed (drop_output sample_queue)"
  using drop_ok(1) [OF sample_queue_ok(1)] by (simp_all add: drop_output_def is_closed_def)

section \<open>Properties\<close>

abbreviation own :: "string \<Rightarrow> batch list \<Rightarrow> batch list" where
  "own topic bs \<equiv> filter (of_topic topic) bs"

abbreviation others :: "string \<Rightarrow> batch list \<Rightarrow> batch list" where
  "others topic bs \<equiv> filter (\<lambda>b. \<not> of_topic topic b) bs"

text \<open>
  C19. However the bridge and the WebSocket task use a connection's queue, it stays within its
  bounds: at most \<open>capacity\<close> topic batches and 16 control batches, each side within the byte
  limit, byte counts exact while the receiver lives, and nothing queued once it is closed.
\<close>

theorem queue_bounded:
  assumes "channel_with_limits cap limit = Ok s"
  shows "queue_ok (fold (queue_step Z) es s)"
proof -
  have "outgoing.admissible Z es t" for t by (induction es arbitrary: t) auto
  then show ?thesis
    using outgoing.run_inv [OF channel_ok [OF assms], of Z es] by (simp add: outgoing.run_fold)
qed

theorem queue_bounded_witness:
  "\<exists>s. channel_with_limits 1 9 = Ok s \<and>
     queue_ok (fold (queue_step sample_storage) [Send 0 1 None 0 (Frames []), Take, DropReceiver] s)"
proof -
  obtain s where s: "channel_with_limits 1 9 = Ok s" by (simp add: channel_with_limits_def)
  from queue_bounded [OF this, of sample_storage] s show ?thesis by blast
qed

text \<open>
  C13. A message on a topic with a queue length evicts oldest-first and only from its own topic:
  the other topics' batches and the control batches are untouched, what is left of its own
  topic is its newest part, and the message is either queued behind it, within the topic's
  limit, or dropped with no batch of the topic left. The drop counter counts every loss.
\<close>

theorem topic_eviction:
  assumes s: "queue_ok s" "\<not> is_closed s" and L: "0 < L" "payload_bytes Z p \<le> byte_limit s"
  shows "\<exists>k t. enqueue Z now c (Some topic) L p s = (Inr (), t) \<and>
    others topic (o_topics t) = others topic (o_topics s) \<and> o_control t = o_control s \<and>
    (own topic (o_topics t) = drop k (own topic (o_topics s)) @
        [\<lparr>b_connection = c, b_enqueued = now, b_topic = Some topic, b_payload = p, b_bytes = payload_bytes Z p\<rparr>] \<and>
      length (own topic (o_topics t)) \<le> L \<and> dropped t = dropped s + k \<or>
     own topic (o_topics t) = [] \<and> k = length (own topic (o_topics s)) \<and> dropped t = dropped s + k + 1 \<and>
      (capacity s \<le> length (others topic (o_topics s)) \<or>
       byte_limit s < payload_bytes Z p + total_bytes (others topic (o_topics s))))"
proof (rule enqueue_topic_spec [OF s, of topic "payload_bytes Z p" L now c p])
  fix k bs
  let ?n = "payload_bytes Z p"
  let ?b = "\<lparr>b_connection = c, b_enqueued = now, b_topic = Some topic, b_payload = p, b_bytes = ?n\<rparr>"
  let ?t = "enqueue_topic now c topic L p ?n s"
  assume k: "kept topic k (o_topics s) bs"
  then have own: "own topic bs = drop k (own topic (o_topics s))" and others: "others topic bs = others topic (o_topics s)"
    and len: "length bs + k = length (o_topics s)" by (auto simp: kept_def)
  have enq: "enqueue Z now c (Some topic) L p s = (Inr (), ?t)"
    using s by (simp add: enqueue_def Let_def is_closed_def)
  assume "length bs < capacity s \<and> ?n \<le> byte_limit s - total_bytes bs \<and>
       (0 < L \<and> ?n \<le> byte_limit s \<longrightarrow> length (filter (of_topic topic) bs) < L) \<and>
       (?t = count_dropped now k (s\<lparr>o_topics := bs @ [?b], topic_bytes := total_bytes bs + ?n\<rparr>)) \<or>
      (length bs \<ge> capacity s \<or> ?n > byte_limit s - total_bytes bs) \<and>
       (0 < L \<and> ?n \<le> byte_limit s \<longrightarrow> filter (of_topic topic) bs = []) \<and>
       ?t = count_dropped now (k + 1) (s\<lparr>o_topics := bs, topic_bytes := total_bytes bs\<rparr>)"
  then show ?thesis
  proof (rule disjE, goal_cases)
    case 1
    then show ?thesis using enq own others L
      by (intro exI [of _ k] exI [of _ ?t]) (auto simp: count_dropped_def of_topic_def)
  next
    case 2
    then have no: "capacity s \<le> length bs \<or> byte_limit s - total_bytes bs < ?n"
      and e: "0 < L \<and> ?n \<le> byte_limit s \<longrightarrow> filter (of_topic topic) bs = []"
      and t: "?t = count_dropped now (k + 1) (s\<lparr>o_topics := bs, topic_bytes := total_bytes bs\<rparr>)" by auto
    from e L have none: "filter (of_topic topic) bs = []" by simp
    then have bs: "others topic bs = bs"
      by (auto simp: filter_empty_conv intro: filter_True)
    have "length (own topic (o_topics s)) + length (others topic (o_topics s)) = length (o_topics s)"
      by (rule sum_length_filter_compl)
    then have k': "k = length (own topic (o_topics s))" using len others bs by simp
    show ?thesis using enq none bs others no k' t
      by (intro exI [of _ k] exI [of _ ?t]) (auto simp: count_dropped_def)
  qed
qed

theorem topic_eviction_witness:
  "\<exists>k t. enqueue sample_storage 5 1 (Some ''/a'') 1 (Frames [Text ''c'']) sample_queue = (Inr (), t) \<and>
    others ''/a'' (o_topics t) = others ''/a'' (o_topics sample_queue) \<and>
    o_control t = o_control sample_queue \<and>
    (own ''/a'' (o_topics t) = drop k (own ''/a'' (o_topics sample_queue)) @
        [\<lparr>b_connection = 1, b_enqueued = 5, b_topic = Some ''/a'', b_payload = Frames [Text ''c''],
          b_bytes = payload_bytes sample_storage (Frames [Text ''c''])\<rparr>] \<and>
      length (own ''/a'' (o_topics t)) \<le> 1 \<and> dropped t = dropped sample_queue + k \<or>
     own ''/a'' (o_topics t) = [] \<and> k = length (own ''/a'' (o_topics sample_queue)) \<and>
      dropped t = dropped sample_queue + k + 1 \<and>
      (capacity sample_queue \<le> length (others ''/a'' (o_topics sample_queue)) \<or>
       byte_limit sample_queue < payload_bytes sample_storage (Frames [Text ''c'']) +
         total_bytes (others ''/a'' (o_topics sample_queue))))"
  by (rule topic_eviction [OF sample_queue_ok])
    (simp_all add: sample_queue_def frames_size_def message_size_def)

text \<open>
  C20. A control message is never dropped silently: it is queued behind the earlier ones, or the
  whole connection is closed with the reason, and everything queued is discarded.
\<close>

theorem control_never_dropped:
  assumes "queue_ok s" "\<not> is_closed s"
  shows "\<exists>t. enqueue Z now c None L p s = (Inr (), t) \<and> o_topics t = o_topics s \<and>
      map b_payload (o_control t) = map b_payload (o_control s) @ [p] \<and> length (o_control t) \<le> 16 \<or>
    enqueue Z now c None L p s = (Inl ControlFull, t) \<and> sender_closed t \<and>
      close_reason t = Some ''control send queue full'' \<and> o_topics t = [] \<and> o_control t = [] \<and>
      (16 \<le> length (o_control s) \<or> byte_limit s < payload_bytes Z p + total_bytes (o_control s))"
  using assms
  by (auto simp: enqueue_def Let_def is_closed_def close_full_def queue_ok_def CONTROL_CAPACITY_def)

theorem control_never_dropped_witness:
  "\<exists>t. enqueue sample_storage 5 1 None 0 (Frames [Text ''c'']) sample_queue = (Inr (), t) \<and>
      o_topics t = o_topics sample_queue \<and>
      map b_payload (o_control t) = map b_payload (o_control sample_queue) @ [Frames [Text ''c'']] \<and>
      length (o_control t) \<le> 16 \<or>
    enqueue sample_storage 5 1 None 0 (Frames [Text ''c'']) sample_queue = (Inl ControlFull, t) \<and>
      sender_closed t \<and> close_reason t = Some ''control send queue full'' \<and>
      o_topics t = [] \<and> o_control t = [] \<and>
      (16 \<le> length (o_control sample_queue) \<or>
       byte_limit sample_queue < payload_bytes sample_storage (Frames [Text ''c'']) + total_bytes (o_control sample_queue))"
  by (rule control_never_dropped [OF sample_queue_ok])

text \<open>
  C21. Once a queue is closed from either side, sending is refused without changing it, encoded
  batches in flight are discarded, and the receiver gets nothing more.
\<close>

theorem closed_is_final:
  assumes "queue_ok s" "is_closed s"
  shows "enqueue Z now c topic L p s = (Inl Closed, s) \<and> finish now b r s = (None, s) \<and>
    (\<exists>e. try_recv K now s = (Inl e, s)) \<and> is_closed (queue_step Z ev s)"
proof -
  have "o_topics s = []" "o_control s = []" using assms by (auto simp: queue_ok_def)
  moreover have "enqueue Z now c topic L p s = (Inl Closed, s)" for Z now c topic L p
    using assms by (simp add: enqueue_def is_closed_def)
  moreover have "finish now b r s = (None, s)" for now b r
    using assms by (auto simp: finish_def is_closed_def)
  ultimately show ?thesis using assms(2)
    by (cases ev) (auto simp: try_recv.simps [of K now s] take_batch_def is_closed_def
        drop_output_def drop_receiver_def)
qed

theorem closed_is_final_witness:
  "enqueue sample_storage 5 1 None 0 (Frames []) (drop_output sample_queue) = (Inl Closed, drop_output sample_queue) \<and>
   finish 5 True (Ok []) (drop_output sample_queue) = (None, drop_output sample_queue) \<and>
   (\<exists>e. try_recv sample_codec 5 (drop_output sample_queue) = (Inl e, drop_output sample_queue)) \<and>
   is_closed (queue_step sample_storage Take (drop_output sample_queue))"
  by (rule closed_is_final [OF sample_queue_closed])

lemma take_batch_split:
  "take_batch s = (Inr b, t) \<Longrightarrow> o_control s @ o_topics s = b # o_control t @ o_topics t"
  by (auto simp: take_batch_def split: list.splits)

lemma finish_None:
  assumes "finish now topic r s = (None, t)"
  shows "(is_closed s \<and> t = s) \<or> is_closed t \<or>
    (topic \<and> \<not> is_closed s \<and> (\<forall>fs. r = Ok fs \<longrightarrow> byte_limit s < frames_size fs) \<and> dropped t = dropped s + 1 \<and>
     o_control t = o_control s \<and> o_topics t = o_topics s \<and> byte_limit t = byte_limit s)"
  using assms by (auto simp: finish_def reject_def close_full_def is_closed_def Let_def split: if_splits outcome.splits)

lemma take_batch_same:
  "take_batch s = (Inr b, t) \<Longrightarrow> is_closed t = is_closed s \<and> byte_limit t = byte_limit s \<and> dropped t = dropped s"
  by (auto simp: take_batch_def is_closed_def split: list.splits)

lemma try_recv_closed: "is_closed s \<Longrightarrow> try_recv K now s \<noteq> (Inr frames, t)"
proof (induction "backlog s" arbitrary: s rule: less_induct)
  case less
  show ?case
  proof (cases "take_batch s")
    case (Pair r s')
    show ?thesis
    proof (cases r)
      case (Inl e)
      with Pair show ?thesis by (simp add: try_recv.simps [of K now s])
    next
      case (Inr b)
      with Pair take_batch_same [of s b s'] less.prems have c: "is_closed s'" by simp
      then have "finish now (b_topic b \<noteq> None) (payload_encode K (b_payload b)) s' = (None, s')"
        by (auto simp: finish_def is_closed_def)
      moreover have "backlog s' < backlog s" using Pair Inr take_batch_backlog by simp
      ultimately show ?thesis using less.hyps [OF _ c] Pair Inr by (simp add: try_recv.simps [of K now s])
    qed
  qed
qed

text \<open>
  C22. Receiving serves control before topics, each in the order sent. What it returns is the encoding of
  the first batch that encodes within the byte limit; the batches before it are topic messages that do
  not, each counted as dropped; nothing is reordered and what is left is the rest of the queue.
\<close>

theorem try_recv_in_order:
  assumes "try_recv K now s = (Inr frames, t)"
  shows "\<exists>skipped b. o_control s @ o_topics s = skipped @ b # o_control t @ o_topics t \<and>
    payload_encode K (b_payload b) = Ok frames \<and> frames_size frames \<le> byte_limit s \<and>
    (\<forall>x \<in> set skipped. b_topic x \<noteq> None \<and> (\<forall>fs. payload_encode K (b_payload x) = Ok fs \<longrightarrow> byte_limit s < frames_size fs)) \<and>
    dropped t = dropped s + length skipped"
  using assms
proof (induction "backlog s" arbitrary: s rule: less_induct)
  case less
  from less.prems obtain b s' where tk: "take_batch s = (Inr b, s')"
    by (cases "take_batch s"; cases "fst (take_batch s)") (auto simp: try_recv.simps [of K now s])
  note same = take_batch_same [OF tk]
  obtain x s'' where fin: "finish now (b_topic b \<noteq> None) (payload_encode K (b_payload b)) s' = (x, s'')"
    by (cases "finish now (b_topic b \<noteq> None) (payload_encode K (b_payload b)) s'")
  show ?case
  proof (cases x)
    case (Some fs)
    then have "fs = frames" "s'' = t" using less.prems tk fin by (auto simp: try_recv.simps [of K now s])
    moreover from fin Some have "payload_encode K (b_payload b) = Ok fs" "frames_size fs \<le> byte_limit s'" "s'' = s'"
      by (auto simp: finish_def split: outcome.splits if_splits)
    ultimately show ?thesis using take_batch_split [OF tk] same by (intro exI [of _ "[]"]) auto
  next
    case None
    then have rest: "try_recv K now s'' = (Inr frames, t)" using less.prems tk fin by (simp add: try_recv.simps [of K now s])
    then have "\<not> is_closed s''" using try_recv_closed by blast
    with finish_None [OF fin [unfolded None]] have d: "b_topic b \<noteq> None" "\<not> is_closed s'"
      "\<And>fs. payload_encode K (b_payload b) = Ok fs \<Longrightarrow> byte_limit s' < frames_size fs" "dropped s'' = dropped s' + 1"
      "o_control s'' = o_control s'" "o_topics s'' = o_topics s'" "byte_limit s'' = byte_limit s'" by auto
    from less.hyps [OF retry_backlog [OF tk fin] rest] obtain skipped b' where
      r: "o_control s'' @ o_topics s'' = skipped @ b' # o_control t @ o_topics t"
      "payload_encode K (b_payload b') = Ok frames" "frames_size frames \<le> byte_limit s''"
      "\<forall>x \<in> set skipped. b_topic x \<noteq> None \<and> (\<forall>fs. payload_encode K (b_payload x) = Ok fs \<longrightarrow> byte_limit s'' < frames_size fs)"
      "dropped t = dropped s'' + length skipped" by blast
    with d same take_batch_split [OF tk] show ?thesis
      by (intro exI [of _ "b # skipped"] exI [of _ b']) auto
  qed
qed

theorem try_recv_in_order_witness:
  "\<exists>t. try_recv sample_codec 5 sample_queue = (Inr [Text ''ab''], t) \<and>
    (\<exists>skipped b. o_control sample_queue @ o_topics sample_queue = skipped @ b # o_control t @ o_topics t \<and>
      payload_encode sample_codec (b_payload b) = Ok [Text ''ab''] \<and> dropped t = dropped sample_queue + length skipped)"
proof -
  obtain t where t: "try_recv sample_codec 5 sample_queue = (Inr [Text ''ab''], t)"
    by (simp add: try_recv.simps sample_queue_def sample_batch_def take_batch_def finish_def
        frames_size_def message_size_def)
  from try_recv_in_order [OF this] t show ?thesis by blast
qed

end
