(* ===== verification/Bridge.thy ===== *)
theory Bridge
  imports Backend Access Outgoing
begin

text \<open>
  \<^verbatim>\<open>src/bridge/mod.rs\<close>, first part: the state of the bridge, the reading of operation
  fields, the sending of a message to a connection, error replies and the resolution of
  interface types. The bridge runs on one worker thread; an operation is an action on its
  state and \<open>clock\<close> is the \<^verbatim>\<open>Instant::now()\<close> it reads. The send queues are shared with the
  WebSocket tasks: an \<^verbatim>\<open>Output\<close> is an address in \<open>queues\<close>, and dropping it closes the queue.
\<close>

section \<open>State\<close>

text \<open>What the bridge calls outside the repository: the backend's methods, glob patterns, the
  buffer sizes, base64 decoding and the random UUIDs, the \<open>n\<close>-th of which is \<open>e_uuid n\<close>.\<close>

record 'b env =
  e_backend :: "'b backend_ops"
  e_globs :: globs
  e_storage :: storage
  e_unbase64 :: "string \<Rightarrow> byte list outcome"
  e_uuid :: "nat \<Rightarrow> byte list"

record publisher =
  pub_entity :: nat
  pub_typ :: string
  pub_owners :: "(nat \<times> string option list) list"

record client_sub =
  registrations :: "(string option \<times> options) list"
  sub_last :: "nat option"
  pending :: "ros_message list"

record subscription =
  transient_local :: bool
  retained :: "ros_message option"
  sub_entity :: nat
  sub_typ :: string
  sub_clients :: "(nat \<times> client_sub) list"

record service =
  svc_next :: nat
  svc_owner :: nat
  svc_entity :: nat
  svc_typ :: string

record call =
  call_started :: nat
  call_parameter_names :: bool
  call_owner :: nat
  call_id :: "string option"
  call_service_name :: string
  call_options :: options
  call_expires :: nat

record external_request =
  ext_started :: nat
  ext_owner :: nat
  ext_entity :: nat
  ext_request :: nat
  ext_service :: string
  ext_expires :: nat

record client_goal =
  goal_owner :: nat
  goal_id :: "string option"
  goal_action :: string
  goal_uuid :: json
  goal_feedback :: bool
  goal_options :: options
  goal_send :: nat
  goal_result :: nat
  goal_cancel :: nat
  goal_feedback_sub :: nat
  goal_status_sub :: nat
  goal_accepted :: bool
  goal_deadline :: nat
  goal_cancelling :: bool

record action_server =
  srv_owner :: nat
  srv_advertised :: string
  srv_typ :: string
  srv_send :: nat
  srv_cancel :: nat
  srv_result :: nat
  srv_feedback :: nat
  srv_status :: nat

record server_goal =
  sg_owner :: nat
  sg_action :: string
  sg_id :: string
  sg_uuid :: json
  sg_status :: int
  sg_stamp :: json
  sg_result :: "json option"
  sg_requests :: "(nat \<times> nat) list"
  sg_completed :: "nat option"

datatype action_call = CallSend string | CallResult string | CallCancel string

record 'b bridge =
  backend :: 'b
  acc :: access
  outputs :: "(nat \<times> nat) list"
  queues :: "nat \<Rightarrow> queue"
  publishers :: "(string \<times> publisher) list"
  subscriptions :: "(string \<times> subscription) list"
  svcs :: "(string \<times> service) list"
  calls :: "((nat \<times> int) \<times> call) list"
  external :: "(string \<times> external_request) list"
  goals :: "(string \<times> client_goal) list"
  action_calls :: "((nat \<times> int) \<times> action_call) list"
  action_servers :: "(string \<times> action_server) list"
  server_goals :: "(string \<times> server_goal) list"
  next_id :: nat
  timeout :: nat
  failed :: "nat list"
  clock :: nat
  uuid_count :: nat

definition bridge_new :: "'b \<Rightarrow> nat \<Rightarrow> (nat \<Rightarrow> queue) \<Rightarrow> 'b bridge" where
  "bridge_new b t qs = \<lparr>backend = b, acc = access_default, outputs = [], queues = qs, publishers = [],
     subscriptions = [], svcs = [], calls = [], external = [], goals = [], action_calls = [],
     action_servers = [], server_goals = [], next_id = 0, timeout = t, failed = [], clock = 0,
     uuid_count = 0\<rparr>"

section \<open>Reading operations\<close>

definition required :: "json \<Rightarrow> string \<Rightarrow> string outcome" where
  "required v key =
     (case Option.bind (jget v key) as_str of
        Some s \<Rightarrow> if s \<noteq> [] then Ok s else Err (key @ '' must be a nonempty string'')
      | None \<Rightarrow> Err (key @ '' must be a nonempty string''))"

definition request_id :: "json \<Rightarrow> string option outcome" where
  "request_id v =
     (case jget v ''id'' of
        None \<Rightarrow> Ok None
      | Some x \<Rightarrow> bindO (context_of (as_str x) ''id must be a string'') (\<lambda>s. Ok (Some s)))"

definition ros_name :: "json \<Rightarrow> string \<Rightarrow> string outcome" where
  "ros_name v key =
     bindO (required v key) (\<lambda>n.
     bindO (ensure (CHR ''~'' \<notin> set n \<and>
              list_all (list_all ident_char) (filter (\<lambda>s. s \<noteq> []) (split_char CHR ''/'' n)))
              ''invalid ROS name'') (\<lambda>_.
     Ok (if prefix ''/'' n then n else CHR ''/'' # n)))"

text \<open>\<^verbatim>\<open>v.get(key).cloned().unwrap_or_else(|| json!({}))\<close>\<close>

definition args_or_empty :: "json \<Rightarrow> json" where
  "args_or_empty v = (case jget v ''args'' of None \<Rightarrow> JObj [] | Some a \<Rightarrow> a)"

definition hex_digit :: "nat \<Rightarrow> char" where
  "hex_digit d = ''0123456789abcdef'' ! d"

definition hex :: "byte list \<Rightarrow> string" where
  "hex bs = concat (map (\<lambda>b. [hex_digit (unat b div 16), hex_digit (unat b mod 16)]) bs)"

definition uuid_byte :: "json \<Rightarrow> byte outcome" where
  "uuid_byte v =
     bindO (context_of (as_u64 v) ''invalid UUID byte'') (\<lambda>n.
     if n < 256 then Ok (word_of_nat n) else Err try_from_int_error)"

definition uuid_key :: "'b env \<Rightarrow> json \<Rightarrow> string outcome" where
  "uuid_key E v =
     bindO (case as_str (jix v ''uuid'') of
              Some s \<Rightarrow> e_unbase64 E s
            | None \<Rightarrow>
                bindO (context_of (as_array (jix v ''uuid'')) ''missing goal UUID'') (mapO uuid_byte)) (\<lambda>bytes.
     bindO (ensure (length bytes = 16) ''goal UUID must be 16 bytes'') (\<lambda>_.
     Ok (hex bytes)))"

section \<open>Options of a shared subscription\<close>

definition least :: "nat list \<Rightarrow> nat option" where
  "least ns = (case ns of [] \<Rightarrow> None | n # ns \<Rightarrow> Some (fold min ns n))"

definition client_options :: "client_sub \<Rightarrow> options" where
  "client_options c =
     (let rs = vals (registrations c);
          base = (case rs of [] \<Rightarrow> options_default | r # _ \<Rightarrow> r);
          throttle = (case least (map opt_throttle rs) of None \<Rightarrow> 0 | Some n \<Rightarrow> n);
          queue = (case least (map opt_queue rs) of None \<Rightarrow> 0 | Some n \<Rightarrow> n);
          fragment = least (List.map_filter opt_fragment rs);
          compression = (case find (\<lambda>k. list_ex (\<lambda>r. opt_compression r = k) rs) [CompRaw, CompCbor, CompPng] of
                           None \<Rightarrow> CompNone | Some k \<Rightarrow> k)
      in base\<lparr>opt_throttle := throttle, opt_queue := queue, opt_fragment := fragment,
           opt_compression := compression\<rparr>)"

section \<open>Talking to the backend and to connections\<close>

text \<open>A call of a backend method.\<close>

definition onB :: "('b, 'a) action \<Rightarrow> ('b bridge, 'a) action" where
  "onB m s = (case m (backend s) of (r, b) \<Rightarrow> (r, s\<lparr>backend := b\<rparr>))"

definition unique :: "('b bridge, string) action" where
  "unique s = (let n = next_id s + 1 in (Ok (''rosbridge:'' @ dec n), s\<lparr>next_id := n\<rparr>))"

text \<open>Dropping an \<^verbatim>\<open>Output\<close> of the bridge.\<close>

definition close_output :: "nat \<Rightarrow> 'b bridge \<Rightarrow> 'b bridge" where
  "close_output a s = s\<lparr>queues := (queues s)(a := drop_output (queues s a))\<rparr>"

definition connect :: "nat \<Rightarrow> nat \<Rightarrow> 'b bridge \<Rightarrow> 'b bridge" where
  "connect connection a s =
     (let s1 = (case map_of (outputs s) connection of None \<Rightarrow> s | Some old \<Rightarrow> close_output old s)
      in s1\<lparr>outputs := AList.update connection a (outputs s1)\<rparr>)"

definition put_queue :: "nat \<Rightarrow> queue \<Rightarrow> 'b bridge \<Rightarrow> 'b bridge" where
  "put_queue a q s = s\<lparr>queues := (queues s)(a := q)\<rparr>"

definition mark_failed :: "nat \<Rightarrow> 'b bridge \<Rightarrow> 'b bridge" where
  "mark_failed owner s = s\<lparr>failed := List.insert owner (failed s)\<rparr>"

text \<open>The half of \<^verbatim>\<open>send\<close> that has an output at address \<open>a\<close>.\<close>

definition deliver ::
  "'b env \<Rightarrow> nat \<Rightarrow> nat \<Rightarrow> json \<Rightarrow> options \<Rightarrow> cbor option \<Rightarrow> string \<Rightarrow> 'b bridge \<Rightarrow> 'b bridge" where
  "deliver E owner a v options binary key s =
     (let topic = (if jix v ''op'' = JStr ''publish'' then as_str (jix v ''topic'') else None);
          (r, q) = Outgoing.send_request (e_storage E) (clock s) owner topic (opt_queue options)
                     (request_new v binary options key) (queues s a);
          s1 = put_queue a q s
      in case r of Inl e \<Rightarrow> mark_failed owner s1 | Inr _ \<Rightarrow> s1)"

definition send ::
  "'b env \<Rightarrow> nat \<Rightarrow> json \<Rightarrow> string option \<Rightarrow> options \<Rightarrow> cbor option \<Rightarrow> ('b bridge, unit) action" where
  "send E owner v rid options binary =
     bindA (liftA (case rid of None \<Rightarrow> Ok v | Some i \<Rightarrow> jset v ''id'' (JStr i))) (\<lambda>v.
     bindA (getA (\<lambda>s. owner \<in> set (failed s))) (\<lambda>f.
     if f then retA ()
     else
       bindA unique (\<lambda>key.
       bindA (getA (\<lambda>s. map_of (outputs s) owner)) (\<lambda>out. case out of
         None \<Rightarrow> retA ()
       | Some a \<Rightarrow> modA (deliver E owner a v options binary key)))))"

definition error_reply :: "json \<Rightarrow> error \<Rightarrow> json" where
  "error_reply v e =
     (let operation = (case as_str (jix v ''op'') of None \<Rightarrow> [] | Some s \<Rightarrow> s)
      in if operation = ''call_service'' then
           JObj [(''op'', JStr ''service_response''), (''service'', jix v ''service''),
                 (''result'', JBool False), (''values'', JStr e)]
         else if operation = ''send_action_goal'' then
           JObj [(''op'', JStr ''action_result''), (''action'', jix v ''action''),
                 (''result'', JBool False), (''status'', jint 6), (''values'', JStr e)]
         else
           JObj [(''op'', JStr ''status''), (''level'', JStr ''error''), (''msg'', JStr e)])"

definition error :: "'b env \<Rightarrow> nat \<Rightarrow> json \<Rightarrow> error \<Rightarrow> ('b bridge, unit) action" where
  "error E owner v e =
     send E owner (error_reply v e)
       (case request_id v of Ok i \<Rightarrow> i | _ \<Rightarrow> None) options_default None"

text \<open>\<^verbatim>\<open>{types:?}\<close>; type names hold nothing that the debug form escapes.\<close>

definition debug_strings :: "string list \<Rightarrow> string" where
  "debug_strings ss = ''['' @ join '', '' (map (\<lambda>s. CHR 0x22 # s @ [CHR 0x22]) ss) @ '']''"

definition resolve :: "'b env \<Rightarrow> json \<Rightarrow> string \<Rightarrow> string \<Rightarrow> ('b bridge, string) action" where
  "resolve E v key kind =
     bindA (onB (if kind = ''msg'' then be_topics (e_backend E) else be_services (e_backend E))) (\<lambda>graph.
     liftA (
       bindO (ros_name v key) (\<lambda>topic.
       case jget v ''type'' of
         Some t \<Rightarrow>
           bindO (bindO (context_of (as_str t) ''type must be a string'') (\<lambda>t. type_name t kind)) (\<lambda>typ.
           bindO (case map_of graph topic of
                    None \<Rightarrow> Ok ()
                  | Some types \<Rightarrow> ensure (list_all (\<lambda>t. t = typ) types)
                      (topic @ '' has another type: requested '' @ typ @ '', ROS graph '' @ debug_strings types)) (\<lambda>_.
           Ok typ))
       | None \<Rightarrow>
           bindO (context_of (map_of graph topic) ''type is required when interface is absent from ROS graph'') (\<lambda>types.
           bindO (ensure (length types = 1) ''interface has ambiguous types'') (\<lambda>_.
           Ok (types ! 0))))))"

end
