(* ===== verification/Topics.thy ===== *)
theory Topics
  imports Bridge
begin

text \<open>
  \<^verbatim>\<open>src/bridge/topics.rs\<close>: advertisements shared by connections, subscriptions shared by
  connections with a bounded backlog each, and the delivery of a ROS message.
\<close>

section \<open>Publishers\<close>

definition put_publisher :: "string \<Rightarrow> publisher \<Rightarrow> 'b bridge \<Rightarrow> 'b bridge" where
  "put_publisher topic p s = s\<lparr>publishers := AList.update topic p (publishers s)\<rparr>"

definition del_publisher :: "string \<Rightarrow> 'b bridge \<Rightarrow> 'b bridge" where
  "del_publisher topic s = s\<lparr>publishers := AList.delete topic (publishers s)\<rparr>"

text \<open>\<^verbatim>\<open>p.owners.entry(owner).or_default().insert(registration)\<close>\<close>

definition add_owner :: "nat \<Rightarrow> string option \<Rightarrow> publisher \<Rightarrow> publisher" where
  "add_owner owner registration p =
     (let ids = (case map_of (pub_owners p) owner of None \<Rightarrow> [] | Some ids \<Rightarrow> ids)
      in p\<lparr>pub_owners := AList.update owner (List.insert registration ids) (pub_owners p)\<rparr>)"

definition publisher_qos_of :: "json \<Rightarrow> qos outcome" where
  "publisher_qos_of v =
     bindO (case jget v ''qos'' of Some q \<Rightarrow> qos_parse q | None \<Rightarrow> Ok qos_publisher) (\<lambda>q.
     if jget v ''qos'' = None then
       bindO (case jget v ''queue_size'' of
                Some d \<Rightarrow> bindO (context_of (as_u64 d) ''queue_size must be nonnegative'') (\<lambda>n. Ok (q\<lparr>q_depth := n\<rparr>))
              | None \<Rightarrow> Ok q) (\<lambda>q.
       case jget v ''latch'' of
         Some l \<Rightarrow> bindO (context_of (as_bool l) ''latch must be a boolean'')
                     (\<lambda>b. Ok (q\<lparr>q_durability := (if b then 1 else 2)\<rparr>))
       | None \<Rightarrow> Ok q)
     else Ok q)"

definition advertise :: "'b env \<Rightarrow> nat \<Rightarrow> json \<Rightarrow> ('b bridge, unit) action" where
  "advertise E owner v =
     bindA (liftA (ros_name v ''topic'')) (\<lambda>topic.
     bindA (liftA (request_id v)) (\<lambda>registration.
     bindA (getA (\<lambda>s. map_of (publishers s) topic)) (\<lambda>found. case found of
       Some p \<Rightarrow>
         bindA (liftA (case jget v ''type'' of
                  Some t \<Rightarrow>
                    bindO (bindO (context_of (as_str t) ''invalid type'') (\<lambda>t. type_name t ''msg'')) (\<lambda>t.
                    ensure (t = pub_typ p) ''topic type mismatch'')
                | None \<Rightarrow> Ok ())) (\<lambda>_.
         modA (put_publisher topic (add_owner owner registration p)))
     | None \<Rightarrow>
         bindA (resolve E v ''topic'' ''msg'') (\<lambda>typ.
         bindA (liftA (publisher_qos_of v)) (\<lambda>q.
         bindA (onB (be_publisher (e_backend E) topic typ q)) (\<lambda>entity.
         modA (put_publisher topic
           \<lparr>pub_entity = entity, pub_typ = typ, pub_owners = [(owner, [registration])]\<rparr>)))))))"

text \<open>The registrations a connection keeps: none for a request without an id.\<close>

definition remaining_ids :: "string option \<Rightarrow> string option list \<Rightarrow> string option list outcome" where
  "remaining_ids i ids =
     (case i of
        Some _ \<Rightarrow> bindO (ensure (i \<in> set ids) ''unknown advertisement id'') (\<lambda>_. Ok (remove1 i ids))
      | None \<Rightarrow> Ok [])"

definition unadvertise :: "'b env \<Rightarrow> nat \<Rightarrow> string \<Rightarrow> string option \<Rightarrow> ('b bridge, unit) action" where
  "unadvertise E owner topic i =
     bindA (getA (\<lambda>s. map_of (publishers s) topic)) (\<lambda>found.
     bindA (liftA (context_of found ''topic is not advertised'')) (\<lambda>p.
     bindA (liftA (context_of (map_of (pub_owners p) owner) ''topic is not advertised by this client'')) (\<lambda>ids.
     bindA (liftA (remaining_ids i ids)) (\<lambda>ids.
     let owners = (if ids = [] then AList.delete owner (pub_owners p)
                   else AList.update owner ids (pub_owners p))
     in if owners = []
        then bindA (modA (del_publisher topic)) (\<lambda>_. onB (be_destroy (e_backend E) (pub_entity p)))
        else modA (put_publisher topic (p\<lparr>pub_owners := owners\<rparr>))))))"

section \<open>Subscriptions\<close>

definition put_subscription :: "string \<Rightarrow> subscription \<Rightarrow> 'b bridge \<Rightarrow> 'b bridge" where
  "put_subscription topic x s = s\<lparr>subscriptions := AList.update topic x (subscriptions s)\<rparr>"

definition del_subscription :: "string \<Rightarrow> 'b bridge \<Rightarrow> 'b bridge" where
  "del_subscription topic s = s\<lparr>subscriptions := AList.delete topic (subscriptions s)\<rparr>"

text \<open>The profile of a subscription that names none follows the publishers it finds.\<close>

definition match_qos :: "qos list \<Rightarrow> qos" where
  "match_qos pubs =
     (let q = qos_subscriber
      in if pubs \<noteq> [] then
           let q1 = q\<lparr>q_reliability := (if list_ex (\<lambda>p. q_reliability p = 2) pubs then 2 else 1)\<rparr>
           in if list_all (\<lambda>p. q_durability p = 1) pubs
              then q1\<lparr>q_durability := 1, q_reliability := 1\<rparr> else q1
         else q)"

definition subscription_qos :: "'b env \<Rightarrow> string \<Rightarrow> json \<Rightarrow> ('b bridge, qos) action" where
  "subscription_qos E topic v =
     (case jget v ''qos'' of
        Some q \<Rightarrow> liftA (qos_parse q)
      | None \<Rightarrow> bindA (onB (be_publisher_qos (e_backend E) topic)) (\<lambda>pubs. retA (match_qos pubs)))"

definition publish_value :: "string \<Rightarrow> ros_message \<Rightarrow> json" where
  "publish_value topic msg =
     JObj [(''op'', JStr ''publish''), (''topic'', JStr topic), (''msg'', m_json msg)]"

definition raw_body :: "ros_message \<Rightarrow> cbor" where
  "raw_body msg = CMap [(CText ''bytes'', CBytes (m_raw msg)),
     (CText ''secs'', CInt (fst (m_stamp msg))), (CText ''nsecs'', CInt (int (snd (m_stamp msg))))]"

definition publish_binary :: "string \<Rightarrow> ros_message \<Rightarrow> compression \<Rightarrow> cbor" where
  "publish_binary topic msg k =
     CMap [(CText ''op'', CText ''publish''), (CText ''topic'', CText topic),
           (CText ''msg'', if k = CompRaw then raw_body msg else m_cbor msg)]"

definition deliver_topic ::
  "'b env \<Rightarrow> nat \<Rightarrow> string \<Rightarrow> ros_message \<Rightarrow> options \<Rightarrow> ('b bridge, unit) action" where
  "deliver_topic E owner topic msg options =
     (if \<not> (opt_compression options = CompCbor \<or> opt_compression options = CompRaw)
      then send E owner (publish_value topic msg) None options None
      else send E owner (publish_value topic msg) None options
             (Some (publish_binary topic msg (opt_compression options))))"

text \<open>\<^verbatim>\<open>entry(owner).or_insert_with(...)\<close> and the new registration.\<close>

definition subscribed_client :: "nat \<Rightarrow> string option \<Rightarrow> options \<Rightarrow> subscription \<Rightarrow> client_sub" where
  "subscribed_client owner i options x =
     (let c = (case map_of (sub_clients x) owner of
                 Some c \<Rightarrow> c | None \<Rightarrow> \<lparr>registrations = [], sub_last = None, pending = []\<rparr>)
      in c\<lparr>registrations := AList.update i options (registrations c)\<rparr>)"

definition join_subscription ::
  "'b env \<Rightarrow> nat \<Rightarrow> string \<Rightarrow> string option \<Rightarrow> options \<Rightarrow> subscription \<Rightarrow> ('b bridge, unit) action" where
  "join_subscription E owner topic i options x =
     (let new_client = \<not> has (sub_clients x) owner;
          c = subscribed_client owner i options x
      in case (if new_client then retained x else None) of
           None \<Rightarrow> modA (put_subscription topic (x\<lparr>sub_clients := AList.update owner c (sub_clients x)\<rparr>))
         | Some msg \<Rightarrow>
             bindA (getA clock) (\<lambda>now.
             bindA (modA (put_subscription topic
                (x\<lparr>sub_clients := AList.update owner (c\<lparr>sub_last := Some now\<rparr>) (sub_clients x)\<rparr>))) (\<lambda>_.
             deliver_topic E owner topic msg options)))"

text \<open>The identifier was checked when the operation was accepted, so \<^verbatim>\<open>id(v)?\<close> cannot fail
  after the subscription has been created.\<close>

definition subscribe :: "'b env \<Rightarrow> nat \<Rightarrow> json \<Rightarrow> ('b bridge, unit) action" where
  "subscribe E owner v =
     bindA (liftA (ros_name v ''topic'')) (\<lambda>topic.
     bindA (liftA (options_parse v)) (\<lambda>options.
     bindA (resolve E v ''topic'' ''msg'') (\<lambda>typ.
     bindA (getA (\<lambda>s. map_of (subscriptions s) topic)) (\<lambda>found.
     bindA (case found of
         Some x \<Rightarrow> bindA (liftA (ensure (sub_typ x = typ) ''topic type mismatch'')) (\<lambda>_. retA x)
       | None \<Rightarrow>
           bindA (subscription_qos E topic v) (\<lambda>q.
           bindA (onB (be_subscription (e_backend E) topic typ q)) (\<lambda>entity.
           let x = \<lparr>transient_local = (q_durability q = 1), retained = None, sub_entity = entity,
                    sub_typ = typ, sub_clients = []\<rparr>
           in bindA (modA (put_subscription topic x)) (\<lambda>_. retA x)))) (\<lambda>x.
     bindA (liftA (request_id v)) (\<lambda>i.
     join_subscription E owner topic i options x))))))"

definition remaining_registrations ::
  "string option \<Rightarrow> (string option \<times> options) list \<Rightarrow> (string option \<times> options) list outcome" where
  "remaining_registrations i rs =
     (case i of
        Some _ \<Rightarrow> bindO (ensure (has rs i) ''unknown subscription id'') (\<lambda>_. Ok (AList.delete i rs))
      | None \<Rightarrow> Ok [])"

definition unsubscribe :: "'b env \<Rightarrow> nat \<Rightarrow> string \<Rightarrow> string option \<Rightarrow> ('b bridge, unit) action" where
  "unsubscribe E owner topic i =
     bindA (getA (\<lambda>s. map_of (subscriptions s) topic)) (\<lambda>found.
     bindA (liftA (context_of found ''topic is not subscribed'')) (\<lambda>x.
     bindA (liftA (context_of (map_of (sub_clients x) owner) ''topic is not subscribed by this client'')) (\<lambda>c.
     bindA (liftA (remaining_registrations i (registrations c))) (\<lambda>rs.
     let cs = (if rs = [] then AList.delete owner (sub_clients x)
               else AList.update owner (c\<lparr>registrations := rs\<rparr>) (sub_clients x))
     in if cs = []
        then bindA (modA (del_subscription topic)) (\<lambda>_. onB (be_destroy (e_backend E) (sub_entity x)))
        else modA (put_subscription topic (x\<lparr>sub_clients := cs\<rparr>))))))"

section \<open>Messages from ROS\<close>

text \<open>What a message does to one subscriber: deliver now, keep for later, or drop.\<close>

definition queue_pending :: "nat \<Rightarrow> ros_message \<Rightarrow> ros_message list \<Rightarrow> ros_message list" where
  "queue_pending limit msg ps = drop (Suc (length ps) - limit) ps @ [msg]"

definition offer ::
  "nat \<Rightarrow> ros_message \<Rightarrow> client_sub \<Rightarrow> client_sub \<times> options option" where
  "offer now msg c =
     (let options = client_options c
      in if pending c = [] \<and> (case sub_last c of None \<Rightarrow> True | Some t \<Rightarrow> opt_throttle options \<le> since now t)
         then (c\<lparr>sub_last := Some now\<rparr>, Some options)
         else if opt_queue options > 0
         then (c\<lparr>pending := queue_pending (opt_queue options) msg (pending c)\<rparr>, None)
         else (c, None))"

definition offers ::
  "nat \<Rightarrow> ros_message \<Rightarrow> (nat \<times> client_sub) list \<Rightarrow> (nat \<times> client_sub) list \<times> (nat \<times> options) list" where
  "offers now msg cs =
     (map (\<lambda>(owner, c). (owner, fst (offer now msg c))) cs,
      List.map_filter (\<lambda>(owner, c). map_option (Pair owner) (snd (offer now msg c))) cs)"

definition topic_message :: "'b env \<Rightarrow> nat \<Rightarrow> ros_message \<Rightarrow> ('b bridge, unit) action" where
  "topic_message E entity msg =
     bindA (getA (\<lambda>s. find (\<lambda>g. goal_feedback_sub g = entity) (vals (goals s)))) (\<lambda>goal. case goal of
       Some g \<Rightarrow>
         if goal_feedback g then
           bindA (liftA (uuid_key E (goal_uuid g))) (\<lambda>a.
           bindA (liftA (uuid_key E (jix (m_json msg) ''goal_id''))) (\<lambda>b.
           if a = b then
             send E (goal_owner g) (JObj [(''op'', JStr ''action_feedback''), (''action'', JStr (goal_action g)),
                 (''values'', jix (m_json msg) ''feedback'')]) (goal_id g) (goal_options g) None
           else retA ()))
         else retA ()
     | None \<Rightarrow>
         bindA (getA (\<lambda>s. find (\<lambda>(_, x). sub_entity x = entity) (subscriptions s))) (\<lambda>found. case found of
           None \<Rightarrow> retA ()
         | Some (topic, x) \<Rightarrow>
             bindA (getA clock) (\<lambda>now.
             case offers now msg (sub_clients x) of (cs, deliveries) \<Rightarrow>
             bindA (modA (put_subscription topic
                 (x\<lparr>retained := (if transient_local x then Some msg else retained x), sub_clients := cs\<rparr>))) (\<lambda>_.
             forA deliveries (\<lambda>(owner, options). deliver_topic E owner topic msg options)))))"

end
