(* ===== verification/Services.thy ===== *)
theory Services
  imports Bridge
begin

text \<open>
  \<^verbatim>\<open>src/bridge/services.rs\<close>: calls from connections to ROS services, services advertised by
  connections, and the correlation of their requests and responses. \<^verbatim>\<open>log_payload\<close> only
  writes a log line; the preview it truncates is modelled as a function on the text.
\<close>

section \<open>The log preview\<close>

text \<open>One \<^verbatim>\<open>write_str\<close>: the text kept, and whether the writer stops there.\<close>

record preview =
  pv_text :: string
  pv_truncated :: bool

definition write_str :: "string \<Rightarrow> preview \<Rightarrow> bool \<times> preview" where
  "write_str val p =
     (let stop = boundary_before val (min (length val) (4096 - length (pv_text p)));
          p1 = p\<lparr>pv_text := pv_text p @ take stop val\<rparr>
      in if stop < length val then (False, p1\<lparr>pv_truncated := True\<rparr>) else (True, p1))"

text \<open>Formatting stops at the first piece that is cut.\<close>

fun write_all :: "string list \<Rightarrow> preview \<Rightarrow> preview" where
  "write_all [] p = p"
| "write_all (v # vs) p = (case write_str v p of (True, q) \<Rightarrow> write_all vs q | (False, q) \<Rightarrow> q)"

section \<open>Calls to ROS\<close>

definition call_timeout :: "json \<Rightarrow> nat \<Rightarrow> nat outcome" where
  "call_timeout v standard =
     (case jget v ''timeout'' of
        Some t \<Rightarrow> bindO (context_of (as_f64 t) ''timeout must be a number'') try_from_secs_f64
      | None \<Rightarrow> Ok standard)"

definition put_call :: "nat \<times> int \<Rightarrow> call \<Rightarrow> 'b bridge \<Rightarrow> 'b bridge" where
  "put_call key c s = s\<lparr>calls := AList.update key c (calls s)\<rparr>"

definition del_call :: "nat \<times> int \<Rightarrow> 'b bridge \<Rightarrow> 'b bridge" where
  "del_call key s = s\<lparr>calls := AList.delete key (calls s)\<rparr>"

definition call_service :: "'b env \<Rightarrow> nat \<Rightarrow> json \<Rightarrow> ('b bridge, unit) action" where
  "call_service E owner v =
     bindA (getA clock) (\<lambda>started.
     bindA (liftA (request_id v)) (\<lambda>i.
     bindA (liftA (ros_name v ''service'')) (\<lambda>service.
     bindA (liftA (options_parse v)) (\<lambda>options.
     bindA (resolve E v ''service'' ''srv'') (\<lambda>typ.
     bindA (getA acc) (\<lambda>access.
     bindA (liftA (parameter_service (e_globs E) access typ (jix v ''args''))) (\<lambda>_.
     bindA (getA timeout) (\<lambda>standard.
     bindA (liftA (call_timeout v standard)) (\<lambda>limit.
     bindA (onB (be_client (e_backend E) service typ)) (\<lambda>entity.
     bindA (tryA (onB (be_request (e_backend E) entity (args_or_empty v)))) (\<lambda>r. case r of
       Inl e \<Rightarrow> bindA (onB (be_destroy (e_backend E) entity)) (\<lambda>_. errA e)
     | Inr sequence \<Rightarrow>
         bindA (getA clock) (\<lambda>now.
         bindA (liftA (instant_add now limit)) (\<lambda>expires.
         modA (put_call (entity, sequence)
           \<lparr>call_started = started, call_parameter_names = (typ = ''rosapi_msgs/srv/GetParamNames''),
            call_owner = owner, call_id = i, call_service_name = service, call_options = options,
            call_expires = expires\<rparr>))))))))))))))"

section \<open>Services of connections\<close>

definition put_service :: "string \<Rightarrow> service \<Rightarrow> 'b bridge \<Rightarrow> 'b bridge" where
  "put_service n x s = s\<lparr>svcs := AList.update n x (svcs s)\<rparr>"

definition del_service :: "string \<Rightarrow> 'b bridge \<Rightarrow> 'b bridge" where
  "del_service n s = s\<lparr>svcs := AList.delete n (svcs s)\<rparr>"

text \<open>The requests that wait for the answer of a service go with it.\<close>

definition drop_requests :: "nat \<Rightarrow> 'b bridge \<Rightarrow> 'b bridge" where
  "drop_requests entity s = s\<lparr>external := retain (\<lambda>_ r. ext_entity r \<noteq> entity) (external s)\<rparr>"

definition remove_service :: "'b env \<Rightarrow> nat \<Rightarrow> string \<Rightarrow> ('b bridge, unit) action" where
  "remove_service E owner n =
     bindA (getA (\<lambda>s. map_of (svcs s) n)) (\<lambda>found.
     case found of
       None \<Rightarrow> errA ''service is not advertised by this client''
     | Some x \<Rightarrow>
         if svc_owner x \<noteq> owner then errA ''service is not advertised by this client''
         else
           bindA (modA (del_service n)) (\<lambda>_.
           bindA (onB (be_destroy (e_backend E) (svc_entity x))) (\<lambda>_.
           modA (drop_requests (svc_entity x)))))"

definition advertise_service :: "'b env \<Rightarrow> nat \<Rightarrow> json \<Rightarrow> ('b bridge, unit) action" where
  "advertise_service E owner v =
     bindA (liftA (ros_name v ''service'')) (\<lambda>service.
     bindA (liftA (bindO (required v ''type'') (\<lambda>t. type_name t ''srv''))) (\<lambda>typ.
     bindA (getA acc) (\<lambda>access.
     bindA (liftA (acc_advertise_service access typ)) (\<lambda>_.
     bindA (getA (\<lambda>s. map_of (svcs s) service)) (\<lambda>found.
     bindA (case found of
         None \<Rightarrow> retA False
       | Some x \<Rightarrow>
           bindA (liftA (ensure (svc_owner x = owner) ''service is advertised by another client'')) (\<lambda>_.
           if svc_typ x = typ then retA True
           else bindA (remove_service E owner service) (\<lambda>_. retA False))) (\<lambda>done.
     if done then retA ()
     else
       bindA (onB (be_service (e_backend E) service typ)) (\<lambda>entity.
       modA (put_service service
         \<lparr>svc_next = 0, svc_owner = owner, svc_entity = entity, svc_typ = typ\<rparr>))))))))"

definition put_external :: "string \<Rightarrow> external_request \<Rightarrow> 'b bridge \<Rightarrow> 'b bridge" where
  "put_external i r s = s\<lparr>external := AList.update i r (external s)\<rparr>"

definition del_external :: "string \<Rightarrow> 'b bridge \<Rightarrow> 'b bridge" where
  "del_external i s = s\<lparr>external := AList.delete i (external s)\<rparr>"

definition service_response :: "'b env \<Rightarrow> nat \<Rightarrow> json \<Rightarrow> ('b bridge, unit) action" where
  "service_response E owner v =
     bindA (liftA (required v ''id'')) (\<lambda>i.
     bindA (liftA (ros_name v ''service'')) (\<lambda>service.
     bindA (getA (\<lambda>s. map_of (external s) i)) (\<lambda>found.
     bindA (liftA (context_of found ''unknown service request id'')) (\<lambda>r.
     bindA (liftA (ensure (ext_owner r = owner \<and> ext_service r = service)
        ''service response does not belong to this client'')) (\<lambda>_.
     bindA (liftA (bindO (context_of (as_bool (jix v ''result'')) ''result must be boolean'')
        (\<lambda>b. ensure b ''ROS services cannot carry an error response; request will time out''))) (\<lambda>_.
     bindA (onB (be_respond (e_backend E) (ext_entity r) (ext_request r) (jix v ''values''))) (\<lambda>_.
     modA (del_external i))))))))"

definition external_id :: "string \<Rightarrow> nat \<Rightarrow> string" where
  "external_id n k = ''service_request:'' @ n @ '':'' @ dec k"

text \<open>The last part of \<^verbatim>\<open>service_request\<close>: a request for a service of a connection.\<close>

definition forward_request :: "'b env \<Rightarrow> nat \<Rightarrow> nat \<Rightarrow> json \<Rightarrow> ('b bridge, unit) action" where
  "forward_request E entity request args =
     bindA (getA (\<lambda>s. find (\<lambda>(_, x). svc_entity x = entity) (svcs s))) (\<lambda>found. case found of
       None \<Rightarrow> retA ()
     | Some (n, x) \<Rightarrow>
         let x1 = x\<lparr>svc_next := svc_next x + 1\<rparr>; i = external_id n (svc_next x1)
         in bindA (modA (put_service n x1)) (\<lambda>_.
            bindA (getA clock) (\<lambda>now.
            bindA (getA timeout) (\<lambda>limit.
            bindA (liftA (instant_add now limit)) (\<lambda>expires.
            bindA (modA (put_external i
              \<lparr>ext_started = now, ext_owner = svc_owner x, ext_entity = entity, ext_request = request,
               ext_service = n, ext_expires = expires\<rparr>)) (\<lambda>_.
            send E (svc_owner x)
              (JObj [(''op'', JStr ''call_service''), (''service'', JStr n), (''args'', args)])
              (Some i) options_default None))))))"

end
