(* ===== verification/Actions.thy ===== *)
theory Actions
  imports Bridge
begin

text \<open>
  \<^verbatim>\<open>src/bridge/actions.rs\<close>: the goals that connections send to ROS action servers, the
  action servers that connections advertise, and the protocol between them.
\<close>

section \<open>Goals of connections\<close>

definition put_goal :: "string \<Rightarrow> client_goal \<Rightarrow> 'b bridge \<Rightarrow> 'b bridge" where
  "put_goal key g s = s\<lparr>goals := AList.update key g (goals s)\<rparr>"

definition put_action_call :: "nat \<times> int \<Rightarrow> action_call \<Rightarrow> 'b bridge \<Rightarrow> 'b bridge" where
  "put_action_call key c s = s\<lparr>action_calls := AList.update key c (action_calls s)\<rparr>"

fun call_key :: "action_call \<Rightarrow> string" where
  "call_key (CallSend k) = k"
| "call_key (CallResult k) = k"
| "call_key (CallCancel k) = k"

definition goal_entities :: "client_goal \<Rightarrow> nat list" where
  "goal_entities g = [goal_send g, goal_result g, goal_cancel g, goal_feedback_sub g, goal_status_sub g]"

definition cancel_request :: "json \<Rightarrow> json" where
  "cancel_request uuid = JObj [(''goal_info'', JObj [(''goal_id'', uuid),
     (''stamp'', JObj [(''sec'', jnat 0), (''nanosec'', jnat 0)])])]"

text \<open>\<^verbatim>\<open>Uuid::new_v4()\<close>\<close>

definition fresh_uuid :: "'b env \<Rightarrow> ('b bridge, json) action" where
  "fresh_uuid E s = (Ok (JObj [(''uuid'', JArr (map (\<lambda>b. jnat (unat b)) (e_uuid E (uuid_count s))))]),
     s\<lparr>uuid_count := uuid_count s + 1\<rparr>)"

text \<open>The entities of a set of creations, in order; the second result is what was created,
  also when one of them fails.\<close>

fun create_all :: "('b bridge, nat) action list \<Rightarrow> ('b bridge, (error + nat list) \<times> nat list) action" where
  "create_all [] = retA (Inr [], [])"
| "create_all (m # ms) =
     bindA (tryA m) (\<lambda>r. case r of
       Inl e \<Rightarrow> retA (Inl e, [])
     | Inr e \<Rightarrow> bindA (create_all ms) (\<lambda>(r, created).
         retA (case r of Inl x \<Rightarrow> Inl x | Inr es \<Rightarrow> Inr (e # es), e # created)))"

definition destroy_all :: "'b env \<Rightarrow> nat list \<Rightarrow> ('b bridge, unit) action" where
  "destroy_all E es = forA es (\<lambda>e. onB (be_destroy (e_backend E) e))"

definition status_qos :: "nat \<Rightarrow> qos" where
  "status_qos depth = qos_service\<lparr>q_durability := 1, q_depth := depth\<rparr>"

definition goal_creations :: "'b env \<Rightarrow> string \<Rightarrow> string \<Rightarrow> ('b bridge, nat) action list" where
  "goal_creations E action typ =
     (let B = e_backend E in
      [onB (be_client B (action @ ''/_action/send_goal'') (typ @ ''_SendGoal'')),
       onB (be_client B (action @ ''/_action/get_result'') (typ @ ''_GetResult'')),
       onB (be_client B (action @ ''/_action/cancel_goal'') ''action_msgs/srv/CancelGoal''),
       onB (be_subscription B (action @ ''/_action/feedback'') (typ @ ''_FeedbackMessage'') qos_service),
       onB (be_subscription B (action @ ''/_action/status'') ''action_msgs/msg/GoalStatusArray'' (status_qos 10))])"

definition send_goal :: "'b env \<Rightarrow> nat \<Rightarrow> json \<Rightarrow> ('b bridge, unit) action" where
  "send_goal E owner v =
     bindA (liftA (ros_name v ''action'')) (\<lambda>action.
     bindA (liftA (bindO (required v ''action_type'') (\<lambda>t. type_name t ''action''))) (\<lambda>typ.
     bindA (liftA (request_id v)) (\<lambda>i.
     bindA (liftA (options_parse v)) (\<lambda>options.
     bindA (getA (\<lambda>s. list_ex (\<lambda>g. goal_owner g = owner \<and> goal_action g = action \<and> goal_id g = i) (vals (goals s)))) (\<lambda>active.
     bindA (liftA (ensure (\<not> active) ''goal id is already active'')) (\<lambda>_.
     bindA (liftA (case jget v ''feedback'' of
              None \<Rightarrow> Ok False
            | Some b \<Rightarrow> context_of (as_bool b) ''feedback must be boolean'')) (\<lambda>feedback.
     bindA (fresh_uuid E) (\<lambda>uuid.
     bindA (liftA (uuid_key E uuid)) (\<lambda>key.
     bindA (create_all (goal_creations E action typ)) (\<lambda>(r, created).
     bindA (case r of
         Inl e \<Rightarrow> retA (Inl e)
       | Inr es \<Rightarrow>
           bindA (tryA (onB (be_request (e_backend E) (es ! 0)
              (JObj [(''goal_id'', uuid), (''goal'', args_or_empty v)])))) (\<lambda>r. case r of
             Inl e \<Rightarrow> retA (Inl e)
           | Inr sequence \<Rightarrow>
               bindA (modA (put_action_call (es ! 0, sequence) (CallSend key))) (\<lambda>_.
               bindA (getA clock) (\<lambda>now.
               bindA (getA timeout) (\<lambda>limit.
               bindA (liftA (instant_add now limit)) (\<lambda>deadline.
               bindA (modA (put_goal key
                 \<lparr>goal_owner = owner, goal_id = i, goal_action = action, goal_uuid = uuid,
                  goal_feedback = feedback, goal_options = options, goal_send = es ! 0,
                  goal_result = es ! 1, goal_cancel = es ! 2, goal_feedback_sub = es ! 3,
                  goal_status_sub = es ! 4, goal_accepted = False, goal_deadline = deadline,
                  goal_cancelling = False\<rparr>)) (\<lambda>_. retA (Inr ())))))))) (\<lambda>result.
     case result of
       Inl e \<Rightarrow> bindA (destroy_all E created) (\<lambda>_. errA e)
     | Inr u \<Rightarrow> retA ())))))))))))"

definition cancel_goal :: "'b env \<Rightarrow> nat \<Rightarrow> json \<Rightarrow> ('b bridge, unit) action" where
  "cancel_goal E owner v =
     bindA (liftA (ros_name v ''action'')) (\<lambda>action.
     bindA (liftA (required v ''id'')) (\<lambda>i.
     bindA (getA (\<lambda>s. find (\<lambda>(_, g). goal_owner g = owner \<and> goal_action g = action \<and> goal_id g = Some i) (goals s))) (\<lambda>found.
     bindA (liftA (context_of found ''unknown active goal'')) (\<lambda>(key, g).
     bindA (liftA (ensure (\<not> goal_cancelling g) ''goal cancellation is already in progress'')) (\<lambda>_.
     bindA (liftA (ensure (goal_accepted g) ''goal is not accepted yet'')) (\<lambda>_.
     bindA (onB (be_request (e_backend E) (goal_cancel g) (cancel_request (goal_uuid g)))) (\<lambda>sequence.
     bindA (modA (put_goal key (g\<lparr>goal_cancelling := True\<rparr>))) (\<lambda>_.
     modA (put_action_call (goal_cancel g, sequence) (CallCancel key))))))))))"

definition del_goal :: "string \<Rightarrow> 'b bridge \<Rightarrow> 'b bridge" where
  "del_goal key s = s\<lparr>goals := AList.delete key (goals s)\<rparr>"

definition drop_calls :: "string \<Rightarrow> 'b bridge \<Rightarrow> 'b bridge" where
  "drop_calls key s = s\<lparr>action_calls := retain (\<lambda>_ c. call_key c \<noteq> key) (action_calls s)\<rparr>"

definition action_result_value :: "string \<Rightarrow> json \<Rightarrow> int \<Rightarrow> bool \<Rightarrow> json" where
  "action_result_value action values status success =
     JObj [(''op'', JStr ''action_result''), (''action'', JStr action), (''values'', values),
           (''status'', jint status), (''result'', JBool success)]"

definition finish_goal ::
  "'b env \<Rightarrow> string \<Rightarrow> json \<Rightarrow> int \<Rightarrow> bool \<Rightarrow> ('b bridge, unit) action" where
  "finish_goal E key values status success =
     bindA (getA (\<lambda>s. map_of (goals s) key)) (\<lambda>found. case found of
       None \<Rightarrow> retA ()
     | Some g \<Rightarrow>
         bindA (modA (del_goal key)) (\<lambda>_.
         bindA (send E (goal_owner g) (action_result_value (goal_action g) values status success)
            (goal_id g) (goal_options g) None) (\<lambda>_.
         bindA (destroy_all E (goal_entities g)) (\<lambda>_.
         modA (drop_calls key)))))"

section \<open>Action servers of connections\<close>

definition server_entities :: "action_server \<Rightarrow> nat list" where
  "server_entities a = [srv_send a, srv_result a, srv_cancel a, srv_feedback a, srv_status a]"

definition put_server :: "string \<Rightarrow> action_server \<Rightarrow> 'b bridge \<Rightarrow> 'b bridge" where
  "put_server n a s = s\<lparr>action_servers := AList.update n a (action_servers s)\<rparr>"

definition del_server :: "string \<Rightarrow> 'b bridge \<Rightarrow> 'b bridge" where
  "del_server n s = s\<lparr>action_servers := AList.delete n (action_servers s)\<rparr>"

definition put_server_goal :: "string \<Rightarrow> server_goal \<Rightarrow> 'b bridge \<Rightarrow> 'b bridge" where
  "put_server_goal key g s = s\<lparr>server_goals := AList.update key g (server_goals s)\<rparr>"

definition del_server_goal :: "string \<Rightarrow> 'b bridge \<Rightarrow> 'b bridge" where
  "del_server_goal key s = s\<lparr>server_goals := AList.delete key (server_goals s)\<rparr>"

definition aborted_result :: json where
  "aborted_result = JObj [(''status'', jnat 6), (''result'', JObj [])]"

definition remove_action :: "'b env \<Rightarrow> nat \<Rightarrow> string \<Rightarrow> ('b bridge, unit) action" where
  "remove_action E owner action =
     bindA (getA (\<lambda>s. map_of (action_servers s) action)) (\<lambda>found.
     case found of
       None \<Rightarrow> errA ''action is not advertised by this client''
     | Some a \<Rightarrow>
         if srv_owner a \<noteq> owner then errA ''action is not advertised by this client''
         else
           bindA (getA (\<lambda>s. map fst (filter (\<lambda>(_, g). sg_action g = action) (server_goals s)))) (\<lambda>keys.
           bindA (forA keys (\<lambda>key.
             bindA (getA (\<lambda>s. map_of (server_goals s) key)) (\<lambda>g. case g of
               None \<Rightarrow> retA ()
             | Some g \<Rightarrow>
                 bindA (modA (del_server_goal key)) (\<lambda>_.
                 forA (sg_requests g) (\<lambda>(entity, request).
                   bindA (tryA (onB (be_respond (e_backend E) entity request aborted_result))) (\<lambda>_. retA ())))))) (\<lambda>_.
           bindA (modA (del_server action)) (\<lambda>_.
           destroy_all E [srv_send a, srv_result a, srv_cancel a, srv_feedback a, srv_status a]))))"

definition server_creations :: "'b env \<Rightarrow> string \<Rightarrow> string \<Rightarrow> ('b bridge, nat) action list" where
  "server_creations E action typ =
     (let B = e_backend E in
      [onB (be_service B (action @ ''/_action/send_goal'') (typ @ ''_SendGoal'')),
       onB (be_service B (action @ ''/_action/get_result'') (typ @ ''_GetResult'')),
       onB (be_service B (action @ ''/_action/cancel_goal'') ''action_msgs/srv/CancelGoal''),
       onB (be_publisher B (action @ ''/_action/feedback'') (typ @ ''_FeedbackMessage'') qos_service),
       onB (be_publisher B (action @ ''/_action/status'') ''action_msgs/msg/GoalStatusArray'' (status_qos 1))])"

text \<open>The required \<^verbatim>\<open>type\<close> is read again for the stored record; it was read before, so it
  cannot fail there.\<close>

definition advertise_action :: "'b env \<Rightarrow> nat \<Rightarrow> json \<Rightarrow> ('b bridge, unit) action" where
  "advertise_action E owner v =
     bindA (liftA (ros_name v ''action'')) (\<lambda>action.
     bindA (liftA (required v ''type'')) (\<lambda>advertised.
     bindA (liftA (type_name advertised ''action'')) (\<lambda>typ.
     bindA (getA (\<lambda>s. map_of (action_servers s) action)) (\<lambda>found.
     bindA (case found of
         None \<Rightarrow> retA False
       | Some a \<Rightarrow>
           bindA (liftA (ensure (srv_owner a = owner) ''action is advertised by another client'')) (\<lambda>_.
           if srv_typ a = typ then retA True
           else bindA (remove_action E owner action) (\<lambda>_. retA False))) (\<lambda>done.
     if done then retA ()
     else
       bindA (create_all (server_creations E action typ)) (\<lambda>(r, created).
       case r of
         Inl e \<Rightarrow> bindA (destroy_all E created) (\<lambda>_. errA e)
       | Inr es \<Rightarrow>
           modA (put_server action
             \<lparr>srv_owner = owner, srv_advertised = advertised, srv_typ = typ, srv_send = es ! 0,
              srv_cancel = es ! 2, srv_result = es ! 1, srv_feedback = es ! 3, srv_status = es ! 4\<rparr>)))))))"

text \<open>\<^verbatim>\<open>self.action_servers[action]\<close>, which panics when the action is not advertised.\<close>

definition server_of :: "string \<Rightarrow> ('b bridge, action_server) action" where
  "server_of action s = (case map_of (action_servers s) action of None \<Rightarrow> (Panic, s) | Some a \<Rightarrow> (Ok a, s))"

definition find_goal :: "nat \<Rightarrow> string \<Rightarrow> string \<Rightarrow> ('b bridge, string \<times> server_goal) action" where
  "find_goal owner i action =
     bindA (getA (\<lambda>s. find (\<lambda>(_, g). sg_owner g = owner \<and> sg_id g = i \<and> sg_action g = action) (server_goals s))) (\<lambda>found.
     liftA (context_of found ''unknown goal''))"

definition action_feedback :: "'b env \<Rightarrow> nat \<Rightarrow> json \<Rightarrow> ('b bridge, unit) action" where
  "action_feedback E owner v =
     bindA (liftA (required v ''id'')) (\<lambda>i.
     bindA (liftA (ros_name v ''action'')) (\<lambda>action.
     bindA (find_goal owner i action) (\<lambda>(key, g).
     bindA (liftA (ensure (sg_result g = None) ''goal has completed'')) (\<lambda>_.
     bindA (liftA (ensure (is_object (jix v ''values'')) ''feedback values must be an object'')) (\<lambda>_.
     bindA (server_of action) (\<lambda>a.
     onB (be_publish (e_backend E) (srv_feedback a)
       (JObj [(''goal_id'', sg_uuid g), (''feedback'', jix v ''values'')]))))))))"

definition status_entry :: "server_goal \<Rightarrow> json" where
  "status_entry g = JObj [(''goal_info'', JObj [(''goal_id'', sg_uuid g), (''stamp'', sg_stamp g)]),
     (''status'', jint (sg_status g))]"

definition publish_status :: "'b env \<Rightarrow> string \<Rightarrow> ('b bridge, unit) action" where
  "publish_status E action =
     bindA (getA (\<lambda>s. map status_entry (filter (\<lambda>g. sg_action g = action) (vals (server_goals s))))) (\<lambda>entries.
     bindA (server_of action) (\<lambda>a.
     onB (be_publish (e_backend E) (srv_status a) (JObj [(''status_list'', JArr entries)]))))"

text \<open>The loop that answers the requests waiting for a result, the last one first; an answered
  request is removed before the next is tried.\<close>

fun answer_waiting ::
  "'b env \<Rightarrow> string \<Rightarrow> server_goal \<Rightarrow> json \<Rightarrow> (nat \<times> nat) list \<Rightarrow> ('b bridge, unit) action" where
  "answer_waiting E key g response [] = retA ()"
| "answer_waiting E key g response ((entity, request) # rest) =
     bindA (onB (be_respond (e_backend E) entity request response)) (\<lambda>_.
     bindA (modA (put_server_goal key (g\<lparr>sg_requests := rev rest\<rparr>))) (\<lambda>_.
     answer_waiting E key g response rest))"

definition action_result :: "'b env \<Rightarrow> nat \<Rightarrow> json \<Rightarrow> ('b bridge, unit) action" where
  "action_result E owner v =
     bindA (liftA (required v ''id'')) (\<lambda>i.
     bindA (liftA (ros_name v ''action'')) (\<lambda>action.
     bindA (find_goal owner i action) (\<lambda>(key, g).
     bindA (liftA (ensure (sg_result g = None) ''goal has completed'')) (\<lambda>_.
     bindA (liftA (context_of (as_i64 (jix v ''status'')) ''status must be an integer'')) (\<lambda>status.
     bindA (liftA (ensure (4 \<le> status \<and> status \<le> 6) ''result requires terminal action status (4,5,6)'')) (\<lambda>_.
     bindA (liftA (context_of (as_bool (jix v ''result'')) ''result must be boolean'')) (\<lambda>success.
     bindA (liftA (if success
              then bindO (ensure (is_object (jix v ''values'')) ''values must be an object'') (\<lambda>_. Ok (jix v ''values''))
              else Ok (JObj []))) (\<lambda>values.
     let response = JObj [(''status'', jint status), (''result'', values)] in
     bindA (server_of action) (\<lambda>a.
     bindA (onB (be_validate_response (e_backend E) (srv_result a) response)) (\<lambda>_.
     bindA (answer_waiting E key g response (rev (sg_requests g))) (\<lambda>_.
     bindA (getA clock) (\<lambda>now.
     bindA (modA (put_server_goal key (g\<lparr>sg_requests := [], sg_status := status,
        sg_result := Some values, sg_completed := Some now\<rparr>))) (\<lambda>_.
     publish_status E action)))))))))))))"

section \<open>Requests to action servers\<close>

definition server_key :: "string \<Rightarrow> string \<Rightarrow> string" where
  "server_key action uuid = action @ '':'' @ uuid"

definition stamp_value :: "int \<times> nat \<Rightarrow> json" where
  "stamp_value now = JObj [(''sec'', jint (fst now)), (''nanosec'', jnat (snd now))]"

text \<open>A \<^verbatim>\<open>send_goal\<close> request.\<close>

definition request_goal ::
  "'b env \<Rightarrow> string \<Rightarrow> action_server \<Rightarrow> nat \<Rightarrow> nat \<Rightarrow> json \<Rightarrow> ('b bridge, unit) action" where
  "request_goal E action a entity request args =
     (let uuid = jix args ''goal_id'' in
     bindA (liftA (uuid_key E uuid)) (\<lambda>u.
     let key = server_key action u in
     bindA (getA (\<lambda>s. stamp_value (be_now (e_backend E) (backend s)))) (\<lambda>stamp.
     bindA (getA (\<lambda>s. has (server_goals s) key)) (\<lambda>dup.
     if dup then
       onB (be_respond (e_backend E) entity request (JObj [(''accepted'', JBool False), (''stamp'', stamp)]))
     else
       bindA unique (\<lambda>i.
       bindA (onB (be_respond (e_backend E) entity request (JObj [(''accepted'', JBool True), (''stamp'', stamp)]))) (\<lambda>_.
       bindA (modA (put_server_goal key
         \<lparr>sg_owner = srv_owner a, sg_action = action, sg_id = i, sg_uuid = uuid, sg_status = 2,
          sg_stamp = stamp, sg_result = None, sg_requests = [], sg_completed = None\<rparr>)) (\<lambda>_.
       bindA (send E (srv_owner a)
         (JObj [(''op'', JStr ''send_action_goal''), (''action'', JStr action),
                (''action_type'', JStr (srv_advertised a)), (''args'', jix args ''goal''),
                (''feedback'', JBool True)]) (Some i) options_default None) (\<lambda>_.
       publish_status E action))))))))"

text \<open>A \<^verbatim>\<open>get_result\<close> request.\<close>

definition request_result ::
  "'b env \<Rightarrow> string \<Rightarrow> nat \<Rightarrow> nat \<Rightarrow> json \<Rightarrow> ('b bridge, unit) action" where
  "request_result E action entity request args =
     bindA (liftA (uuid_key E (jix args ''goal_id''))) (\<lambda>u.
     let key = server_key action u in
     bindA (getA (\<lambda>s. map_of (server_goals s) key)) (\<lambda>found. case found of
       None \<Rightarrow> onB (be_respond (e_backend E) entity request (JObj [(''status'', jnat 0), (''result'', JObj [])]))
     | Some g \<Rightarrow> (case sg_result g of
         Some r \<Rightarrow> onB (be_respond (e_backend E) entity request (JObj [(''status'', jint (sg_status g)), (''result'', r)]))
       | None \<Rightarrow> modA (put_server_goal key (g\<lparr>sg_requests := sg_requests g @ [(entity, request)]\<rparr>)))))"

text \<open>A stamp as \<^verbatim>\<open>(i64, u64)\<close>, and the lexicographic order of such pairs.\<close>

definition stamp_of :: "json \<Rightarrow> int \<times> nat" where
  "stamp_of v = ((case as_i64 (jix v ''sec'') of None \<Rightarrow> 0 | Some s \<Rightarrow> s),
     (case as_u64 (jix v ''nanosec'') of None \<Rightarrow> 0 | Some n \<Rightarrow> n))"

definition stamp_le :: "int \<times> nat \<Rightarrow> int \<times> nat \<Rightarrow> bool" where
  "stamp_le a b \<longleftrightarrow> fst a < fst b \<or> fst a = fst b \<and> snd a \<le> snd b"

text \<open>Which goals a cancel request names: one by its id, all, or those accepted by a time.\<close>

definition cancels :: "bool \<Rightarrow> bool \<Rightarrow> int \<times> nat \<Rightarrow> server_goal \<Rightarrow> bool" where
  "cancels exact all stamp g \<longleftrightarrow> sg_result g = None \<and>
     (exact \<or> all \<and> stamp = (0, 0) \<or> stamp \<noteq> (0, 0) \<and> stamp_le (stamp_of (sg_stamp g)) stamp)"

definition zero_uuid :: string where
  "zero_uuid = replicate 32 CHR ''0''"

text \<open>What the loop over the goals collects.\<close>

record cancellation =
  cn_cancelling :: "json list"
  cn_notify :: "string list"
  cn_known :: bool
  cn_terminal :: bool

definition no_cancellation :: cancellation where
  "no_cancellation = \<lparr>cn_cancelling = [], cn_notify = [], cn_known = False, cn_terminal = False\<rparr>"

definition cancel_one ::
  "'b env \<Rightarrow> string \<Rightarrow> int \<times> nat \<Rightarrow> string \<Rightarrow> server_goal \<Rightarrow> cancellation \<Rightarrow> ('b bridge, cancellation) action" where
  "cancel_one E requested stamp key g r =
     bindA (liftA (uuid_key E (sg_uuid g))) (\<lambda>u.
     let exact = (u = requested);
         r1 = (if exact then r\<lparr>cn_known := True, cn_terminal := (sg_result g \<noteq> None)\<rparr> else r)
     in if cancels exact (requested = zero_uuid) stamp g
        then bindA (modA (put_server_goal key (g\<lparr>sg_status := 3\<rparr>))) (\<lambda>_.
          retA (r1\<lparr>cn_cancelling := cn_cancelling r1 @ [JObj [(''goal_id'', sg_uuid g), (''stamp'', sg_stamp g)]],
                   cn_notify := cn_notify r1 @ [sg_id g]\<rparr>))
        else retA r1)"

fun cancel_each ::
  "'b env \<Rightarrow> string \<Rightarrow> int \<times> nat \<Rightarrow> (string \<times> server_goal) list \<Rightarrow> cancellation \<Rightarrow> ('b bridge, cancellation) action" where
  "cancel_each E requested stamp [] r = retA r"
| "cancel_each E requested stamp ((key, g) # gs) r =
     bindA (cancel_one E requested stamp key g r) (cancel_each E requested stamp gs)"

definition cancel_code :: "bool \<Rightarrow> cancellation \<Rightarrow> nat" where
  "cancel_code all r =
     (if cn_cancelling r \<noteq> [] \<or> all then 0 else if cn_terminal r then 3 else if \<not> cn_known r then 2 else 1)"

text \<open>A \<^verbatim>\<open>cancel_goal\<close> request.\<close>

definition request_cancel ::
  "'b env \<Rightarrow> string \<Rightarrow> action_server \<Rightarrow> nat \<Rightarrow> nat \<Rightarrow> json \<Rightarrow> ('b bridge, unit) action" where
  "request_cancel E action a entity request args =
     bindA (liftA (uuid_key E (jix (jix args ''goal_info'') ''goal_id''))) (\<lambda>requested.
     let stamp = stamp_of (jix (jix args ''goal_info'') ''stamp'') in
     bindA (getA (\<lambda>s. filter (\<lambda>(_, g). sg_action g = action) (server_goals s))) (\<lambda>gs.
     bindA (cancel_each E requested stamp gs no_cancellation) (\<lambda>r.
     bindA (onB (be_respond (e_backend E) entity request
        (JObj [(''return_code'', jnat (cancel_code (requested = zero_uuid) r)),
               (''goals_canceling'', JArr (cn_cancelling r))]))) (\<lambda>_.
     bindA (forA (cn_notify r) (\<lambda>i.
        send E (srv_owner a) (JObj [(''op'', JStr ''cancel_action_goal''), (''action'', JStr action)])
          (Some i) options_default None)) (\<lambda>_.
     publish_status E action)))))"

definition action_request :: "'b env \<Rightarrow> nat \<Rightarrow> nat \<Rightarrow> json \<Rightarrow> ('b bridge, bool) action" where
  "action_request E entity request args =
     bindA (getA (\<lambda>s. find (\<lambda>(_, a). entity \<in> set [srv_send a, srv_cancel a, srv_result a]) (action_servers s))) (\<lambda>found.
     case found of
       None \<Rightarrow> retA False
     | Some (action, a) \<Rightarrow>
         bindA (if entity = srv_send a then request_goal E action a entity request args
                else if entity = srv_result a then request_result E action entity request args
                else request_cancel E action a entity request args) (\<lambda>_. retA True))"

end
