(* ===== verification/Dispatch.thy ===== *)
theory Dispatch
  imports Topics Services Actions
begin

text \<open>
  \<^verbatim>\<open>src/bridge/mod.rs\<close>, second part: the dispatch of a connection's operation, the events of
  the backend, the periodic work, and the end of a connection.
\<close>

section \<open>Operations of connections\<close>

text \<open>The access check that precedes every operation.\<close>

definition authorize :: "globs \<Rightarrow> access \<Rightarrow> json \<Rightarrow> string \<Rightarrow> unit outcome" where
  "authorize G a v operation =
     (if operation = ''advertise'' \<or> operation = ''publish'' then
        bindO (ros_name v ''topic'') (\<lambda>n. acc_topic G a n True)
      else if operation = ''subscribe'' then bindO (ros_name v ''topic'') (\<lambda>n. acc_topic G a n False)
      else if operation = ''call_service'' \<or> operation = ''advertise_service'' then
        bindO (ros_name v ''service'') (acc_service G a)
      else if operation = ''send_action_goal'' then bindO (ros_name v ''action'') (\<lambda>n. acc_action G a n False)
      else if operation = ''advertise_action'' then bindO (ros_name v ''action'') (\<lambda>n. acc_action G a n True)
      else Ok ())"

definition publish :: "'b env \<Rightarrow> nat \<Rightarrow> json \<Rightarrow> ('b bridge, unit) action" where
  "publish E owner v =
     bindA (liftA (ros_name v ''topic'')) (\<lambda>topic.
     bindA (liftA (ensure (is_object (jix v ''msg'')) ''msg must be an object'')) (\<lambda>_.
     bindA (advertise E owner v) (\<lambda>_.
     bindA (getA (\<lambda>s. map_of (publishers s) topic)) (\<lambda>found. case found of
       None \<Rightarrow> panicA
     | Some p \<Rightarrow> onB (be_publish (e_backend E) (pub_entity p) (jix v ''msg''))))))"

definition operate :: "'b env \<Rightarrow> nat \<Rightarrow> json \<Rightarrow> string \<Rightarrow> ('b bridge, unit) action" where
  "operate E owner v operation =
     (if operation = ''advertise'' then advertise E owner v
      else if operation = ''unadvertise'' then
        bindA (liftA (ros_name v ''topic'')) (\<lambda>n. bindA (liftA (request_id v)) (unadvertise E owner n))
      else if operation = ''publish'' then publish E owner v
      else if operation = ''subscribe'' then subscribe E owner v
      else if operation = ''unsubscribe'' then
        bindA (liftA (ros_name v ''topic'')) (\<lambda>n. bindA (liftA (request_id v)) (unsubscribe E owner n))
      else if operation = ''call_service'' then call_service E owner v
      else if operation = ''advertise_service'' then advertise_service E owner v
      else if operation = ''unadvertise_service'' then
        bindA (liftA (ros_name v ''service'')) (remove_service E owner)
      else if operation = ''service_response'' then service_response E owner v
      else if operation = ''send_action_goal'' then send_goal E owner v
      else if operation = ''cancel_action_goal'' then cancel_goal E owner v
      else if operation = ''advertise_action'' then advertise_action E owner v
      else if operation = ''unadvertise_action'' then
        bindA (liftA (ros_name v ''action'')) (remove_action E owner)
      else if operation = ''action_feedback'' then action_feedback E owner v
      else if operation = ''action_result'' then action_result E owner v
      else errA (''unknown operation: '' @ operation))"

definition execute :: "'b env \<Rightarrow> nat \<Rightarrow> json \<Rightarrow> ('b bridge, unit) action" where
  "execute E owner v =
     bindA (liftA (request_id v)) (\<lambda>_.
     bindA (liftA (required v ''op'')) (\<lambda>operation.
     bindA (getA acc) (\<lambda>a.
     bindA (liftA (authorize (e_globs E) a v operation)) (\<lambda>_.
     operate E owner v operation))))"

text \<open>Operations still queued when a socket closes must not recreate ROS entities.\<close>

definition command :: "'b env \<Rightarrow> nat \<Rightarrow> json \<Rightarrow> ('b bridge, unit) action" where
  "command E owner v =
     bindA (getA (\<lambda>s. has (outputs s) owner)) (\<lambda>known.
     if \<not> known then retA ()
     else
       bindA (tryA (execute E owner v)) (\<lambda>r. case r of
         Inl e \<Rightarrow> error E owner v e
       | Inr _ \<Rightarrow> retA ()))"

section \<open>Events\<close>

text \<open>\<^verbatim>\<open>values["names"].as_array_mut()\<close> creates a missing member, and panics on a value that is
  neither an object nor null.\<close>

fun index_mut :: "json \<Rightarrow> string \<Rightarrow> json outcome" where
  "index_mut (JObj fs) k = Ok (if has fs k then JObj fs else JObj (fs @ [(k, JNull)]))"
| "index_mut JNull k = Ok (JObj [(k, JNull)])"
| "index_mut v k = Panic"

definition visible_parameter :: "globs \<Rightarrow> access \<Rightarrow> json \<Rightarrow> bool" where
  "visible_parameter G a x =
     (case Option.bind (as_str x) (split_once '':'') of
        None \<Rightarrow> False
      | Some (_, n) \<Rightarrow> matches G (params a) n)"

definition filter_names :: "globs \<Rightarrow> access \<Rightarrow> json \<Rightarrow> json outcome" where
  "filter_names G a values =
     bindO (index_mut values ''names'') (\<lambda>v.
     case jix v ''names'' of
       JArr names \<Rightarrow> jset v ''names'' (JArr (filter (visible_parameter G a) names))
     | _ \<Rightarrow> Ok v)"

definition service_reply :: "call \<Rightarrow> json \<Rightarrow> json" where
  "service_reply c values = JObj [(''op'', JStr ''service_response''), (''service'', JStr (call_service_name c)),
     (''result'', JBool True), (''values'', values)]"

definition del_action_call :: "nat \<times> int \<Rightarrow> 'b bridge \<Rightarrow> 'b bridge" where
  "del_action_call key s = s\<lparr>action_calls := AList.delete key (action_calls s)\<rparr>"

text \<open>The answer to a call on behalf of an action goal.\<close>

definition action_response :: "'b env \<Rightarrow> action_call \<Rightarrow> json \<Rightarrow> ('b bridge, unit) action" where
  "action_response E c values = (case c of
     CallSend key \<Rightarrow>
       if jix values ''accepted'' \<noteq> JBool True
       then finish_goal E key (JStr ''goal rejected'') 6 False
       else
         bindA (getA (\<lambda>s. map_of (goals s) key)) (\<lambda>found. case found of
           None \<Rightarrow> retA ()
         | Some g \<Rightarrow>
             bindA (modA (put_goal key (g\<lparr>goal_accepted := True\<rparr>))) (\<lambda>_.
             bindA (onB (be_request (e_backend E) (goal_result g) (JObj [(''goal_id'', goal_uuid g)]))) (\<lambda>sequence.
             modA (put_action_call (goal_result g, sequence) (CallResult key)))))
   | CallResult key \<Rightarrow>
       let status = (case as_i64 (jix values ''status'') of None \<Rightarrow> 0 | Some n \<Rightarrow> n)
       in finish_goal E key (jix values ''result'') status (status = 4)
   | CallCancel key \<Rightarrow>
       if as_i64 (jix values ''return_code'') \<noteq> Some 0 then
         bindA (getA (\<lambda>s. map_of (goals s) key)) (\<lambda>found. case found of
           None \<Rightarrow> retA ()
         | Some g \<Rightarrow>
             bindA (modA (put_goal key (g\<lparr>goal_cancelling := False\<rparr>))) (\<lambda>_.
             send E (goal_owner g)
               (JObj [(''op'', JStr ''status''), (''level'', JStr ''error''), (''msg'', JStr ''action cancellation rejected'')])
               (goal_id g) options_default None))
       else retA ())"

definition response :: "'b env \<Rightarrow> nat \<Rightarrow> int \<Rightarrow> json \<Rightarrow> ('b bridge, unit) action" where
  "response E entity sequence values =
     bindA (getA (\<lambda>s. map_of (calls s) (entity, sequence))) (\<lambda>found. case found of
       Some c \<Rightarrow>
         bindA (modA (del_call (entity, sequence))) (\<lambda>_.
         bindA (getA acc) (\<lambda>a.
         bindA (liftA (if call_parameter_names c \<and> params a \<noteq> None
                  then filter_names (e_globs E) a values else Ok values)) (\<lambda>values.
         bindA (send E (call_owner c) (service_reply c values) (call_id c) (call_options c) None) (\<lambda>_.
         onB (be_destroy (e_backend E) entity)))))
     | None \<Rightarrow>
         bindA (getA (\<lambda>s. map_of (action_calls s) (entity, sequence))) (\<lambda>found. case found of
           None \<Rightarrow> retA ()
         | Some c \<Rightarrow>
             bindA (modA (del_action_call (entity, sequence))) (\<lambda>_. action_response E c values)))"

definition service_request :: "'b env \<Rightarrow> nat \<Rightarrow> nat \<Rightarrow> json \<Rightarrow> ('b bridge, unit) action" where
  "service_request E entity request args =
     bindA (action_request E entity request args) (\<lambda>handled.
     if handled then retA () else forward_request E entity request args)"

text \<open>An event; its error is only logged, after a failed request has been discarded.\<close>

definition handle :: "'b env \<Rightarrow> event \<Rightarrow> ('b bridge, unit) action" where
  "handle E ev = (case ev of
     EvMessage entity msg \<Rightarrow> bindA (tryA (topic_message E entity msg)) (\<lambda>_. retA ())
   | EvResponse entity sequence values \<Rightarrow> bindA (tryA (response E entity sequence values)) (\<lambda>_. retA ())
   | EvRequest entity request args \<Rightarrow>
       bindA (tryA (service_request E entity request args)) (\<lambda>r. case r of
         Inl e \<Rightarrow> onB (be_discard_request (e_backend E) entity request)
       | Inr _ \<Rightarrow> retA ()))"

section \<open>Periodic work\<close>

definition until :: "nat \<Rightarrow> nat \<Rightarrow> nat" where
  "until now t = t - now"

definition pending_wait :: "nat \<Rightarrow> client_sub \<Rightarrow> nat" where
  "pending_wait now c =
     (case sub_last c of None \<Rightarrow> 0 | Some t \<Rightarrow> opt_throttle (client_options c) - since now t)"

definition next_wakeup :: "'b bridge \<Rightarrow> nat" where
  "next_wakeup s =
     (let now = clock s;
          waits = map (\<lambda>c. until now (call_expires c)) (vals (calls s))
            @ map (\<lambda>r. until now (ext_expires r)) (vals (external s))
            @ map (\<lambda>g. until now (goal_deadline g)) (filter (\<lambda>g. \<not> goal_accepted g) (vals (goals s)))
            @ map (pending_wait now)
                (filter (\<lambda>c. pending c \<noteq> []) (concat (map (\<lambda>x. vals (sub_clients x)) (vals (subscriptions s)))))
      in fold min waits (millis 100))"

text \<open>The delivery a subscriber is due: its throttle has passed and a message waits.\<close>

definition due :: "nat \<Rightarrow> client_sub \<Rightarrow> client_sub \<times> (ros_message \<times> options) option" where
  "due now c =
     (let options = client_options c
      in if (case sub_last c of None \<Rightarrow> True | Some t \<Rightarrow> opt_throttle options \<le> since now t)
         then (case pending c of
                 [] \<Rightarrow> (c, None)
               | msg # rest \<Rightarrow> (c\<lparr>sub_last := Some now, pending := rest\<rparr>, Some (msg, options)))
         else (c, None))"

definition due_clients :: "nat \<Rightarrow> subscription \<Rightarrow> subscription" where
  "due_clients now x = x\<lparr>sub_clients := map (\<lambda>(owner, c). (owner, fst (due now c))) (sub_clients x)\<rparr>"

definition due_messages :: "nat \<Rightarrow> string \<times> subscription \<Rightarrow> (nat \<times> string \<times> ros_message \<times> options) list" where
  "due_messages now tx =
     List.map_filter (\<lambda>(owner, c). map_option (\<lambda>(msg, options). (owner, fst tx, msg, options)) (snd (due now c)))
       (sub_clients (snd tx))"

definition take_due :: "('b bridge, (nat \<times> string \<times> ros_message \<times> options) list) action" where
  "take_due s =
     (Ok (concat (map (due_messages (clock s)) (subscriptions s))),
      s\<lparr>subscriptions := map (\<lambda>(topic, x). (topic, due_clients (clock s) x)) (subscriptions s)\<rparr>)"

definition timeout_reply :: "call \<Rightarrow> json" where
  "timeout_reply c = JObj [(''op'', JStr ''service_response''), (''service'', JStr (call_service_name c)),
     (''values'', JStr ''Timeout exceeded while waiting for service response''), (''result'', JBool False)]"

definition expire_call :: "'b env \<Rightarrow> nat \<times> int \<Rightarrow> ('b bridge, unit) action" where
  "expire_call E key =
     bindA (getA (\<lambda>s. map_of (calls s) key)) (\<lambda>found. case found of
       None \<Rightarrow> panicA
     | Some c \<Rightarrow>
         bindA (modA (del_call key)) (\<lambda>_.
         bindA (send E (call_owner c) (timeout_reply c) (call_id c) (call_options c) None) (\<lambda>_.
         onB (be_destroy (e_backend E) (fst key)))))"

definition expire_external :: "'b env \<Rightarrow> string \<Rightarrow> ('b bridge, unit) action" where
  "expire_external E i =
     bindA (getA (\<lambda>s. map_of (external s) i)) (\<lambda>found. case found of
       None \<Rightarrow> panicA
     | Some r \<Rightarrow>
         bindA (modA (del_external i)) (\<lambda>_.
         onB (be_discard_request (e_backend E) (ext_entity r) (ext_request r))))"

definition forget_goals :: "'b bridge \<Rightarrow> 'b bridge" where
  "forget_goals s = s\<lparr>server_goals := retain (\<lambda>_ g.
     case sg_completed g of None \<Rightarrow> True | Some t \<Rightarrow> since (clock s) t < secs 60) (server_goals s)\<rparr>"

section \<open>The end of a connection\<close>

definition drop_connection :: "nat \<Rightarrow> 'b bridge \<Rightarrow> 'b bridge" where
  "drop_connection owner s = (case map_of (outputs s) owner of
     None \<Rightarrow> s
   | Some a \<Rightarrow> (close_output a s)\<lparr>outputs := AList.delete owner (outputs s)\<rparr>)"

text \<open>\<^verbatim>\<open>let _ = ...\<close>\<close>

definition quietly :: "('b bridge, 'a) action \<Rightarrow> ('b bridge, unit) action" where
  "quietly m = bindA (tryA m) (\<lambda>_. retA ())"

definition abandon_goal :: "'b env \<Rightarrow> string \<Rightarrow> ('b bridge, unit) action" where
  "abandon_goal E key =
     bindA (getA (\<lambda>s. map_of (goals s) key)) (\<lambda>found.
     bindA (case found of
         None \<Rightarrow> retA ()
       | Some g \<Rightarrow>
           if goal_accepted g
           then quietly (onB (be_request (e_backend E) (goal_cancel g) (cancel_request (goal_uuid g))))
           else retA ()) (\<lambda>_.
     finish_goal E key (JStr ''client disconnected'') 6 False))"

definition abandon_call :: "'b env \<Rightarrow> nat \<times> int \<Rightarrow> ('b bridge, unit) action" where
  "abandon_call E key =
     bindA (modA (del_call key)) (\<lambda>_. onB (be_destroy (e_backend E) (fst key)))"

definition drop_external :: "nat \<Rightarrow> 'b bridge \<Rightarrow> 'b bridge" where
  "drop_external owner s = s\<lparr>external := retain (\<lambda>_ r. ext_owner r \<noteq> owner) (external s)\<rparr>"

abbreviation keys_with :: "('v \<Rightarrow> bool) \<Rightarrow> ('k \<times> 'v) list \<Rightarrow> 'k list" where
  "keys_with p t \<equiv> map fst (filter (\<lambda>(_, v). p v) t)"

text \<open>What follows once the connection is no longer in the table of outputs.\<close>

definition release :: "'b env \<Rightarrow> nat \<Rightarrow> ('b bridge, unit) action" where
  "release E owner =
     bindA (getA (\<lambda>s. keys_with (\<lambda>p. has (pub_owners p) owner) (publishers s))) (\<lambda>ts.
     bindA (forA ts (\<lambda>t. quietly (unadvertise E owner t None))) (\<lambda>_.
     bindA (getA (\<lambda>s. keys_with (\<lambda>x. has (sub_clients x) owner) (subscriptions s))) (\<lambda>ts.
     bindA (forA ts (\<lambda>t. quietly (unsubscribe E owner t None))) (\<lambda>_.
     bindA (getA (\<lambda>s. keys_with (\<lambda>x. svc_owner x = owner) (svcs s))) (\<lambda>ns.
     bindA (forA ns (\<lambda>n. quietly (remove_service E owner n))) (\<lambda>_.
     bindA (getA (\<lambda>s. keys_with (\<lambda>a. srv_owner a = owner) (action_servers s))) (\<lambda>ns.
     bindA (forA ns (\<lambda>n. quietly (remove_action E owner n))) (\<lambda>_.
     bindA (getA (\<lambda>s. keys_with (\<lambda>g. goal_owner g = owner) (goals s))) (\<lambda>ks.
     bindA (forA ks (abandon_goal E)) (\<lambda>_.
     bindA (getA (\<lambda>s. keys_with (\<lambda>c. call_owner c = owner) (calls s))) (\<lambda>ks.
     bindA (forA ks (abandon_call E)) (\<lambda>_.
     modA (drop_external owner)))))))))))))"

definition disconnect :: "'b env \<Rightarrow> nat \<Rightarrow> ('b bridge, unit) action" where
  "disconnect E owner = bindA (modA (drop_connection owner)) (\<lambda>_. release E owner)"

definition shutdown :: "'b env \<Rightarrow> ('b bridge, unit) action" where
  "shutdown E = bindA (getA (\<lambda>s. keys (outputs s))) (\<lambda>owners. forA owners (disconnect E))"

definition drain_failed :: "('b bridge, nat list) action" where
  "drain_failed s = (Ok (failed s), s\<lparr>failed := []\<rparr>)"

text \<open>What \<^verbatim>\<open>tick\<close> does with the events of one poll.\<close>

definition advance :: "'b env \<Rightarrow> event list \<Rightarrow> ('b bridge, unit) action" where
  "advance E events =
     bindA (forA events (handle E)) (\<lambda>_.
     bindA (getA (\<lambda>s. keys_with (\<lambda>g. \<not> goal_accepted g \<and> goal_deadline g \<le> clock s) (goals s))) (\<lambda>expired.
     bindA (forA expired (\<lambda>key. finish_goal E key (JObj []) 6 False)) (\<lambda>_.
     bindA take_due (\<lambda>deliveries.
     bindA (forA deliveries (\<lambda>(owner, topic, msg, options). deliver_topic E owner topic msg options)) (\<lambda>_.
     bindA (getA (\<lambda>s. keys_with (\<lambda>c. call_expires c \<le> clock s) (calls s))) (\<lambda>expired.
     bindA (forA expired (expire_call E)) (\<lambda>_.
     bindA (getA (\<lambda>s. keys_with (\<lambda>r. ext_expires r \<le> clock s) (external s))) (\<lambda>expired.
     bindA (forA expired (expire_external E)) (\<lambda>_.
     bindA (modA forget_goals) (\<lambda>_.
     bindA drain_failed (\<lambda>broken.
     bindA (forA broken (disconnect E)) (\<lambda>_.
     bindA (getA (\<lambda>s. map fst (filter (\<lambda>(_, a). is_closed (queues s a)) (outputs s)))) (\<lambda>closed.
     forA closed (disconnect E))))))))))))))"

definition tick :: "'b env \<Rightarrow> ('b bridge, unit) action" where
  "tick E = bindA (onB (be_poll (e_backend E))) (advance E)"

end
