(* ===== verification/Ownership.thy ===== *)
theory Ownership
  imports Dispatch
begin

text \<open>
  What the bridge guarantees of the ROS entities it creates: every live entity of the backend
  is held by exactly one table entry of a connected client, so nothing leaks and nothing is
  used after it was destroyed. The invariant is kept by every operation, whichever way it
  ends, and its proof shows that no operation panics.
\<close>

section \<open>The invariant\<close>

text \<open>The entities the tables hold, with multiplicity.\<close>

definition owned :: "'b bridge \<Rightarrow> nat multiset" where
  "owned s = mset (map (pub_entity \<circ> snd) (publishers s)) + mset (map (sub_entity \<circ> snd) (subscriptions s)) +
     mset (map (svc_entity \<circ> snd) (svcs s)) + mset (map (fst \<circ> fst) (calls s)) +
     \<Sum>\<^sub># (mset (map (mset \<circ> goal_entities \<circ> snd) (goals s))) +
     \<Sum>\<^sub># (mset (map (mset \<circ> server_entities \<circ> snd) (action_servers s)))"

text \<open>The tables whose entries belong to connections. While a connection is being removed its
  entries outlive it; \<open>D\<close> says in which tables.\<close>

datatype kind = KPub | KSub | KSvc | KSrv | KGoal | KCall

definition present :: "(kind \<Rightarrow> nat set) \<Rightarrow> kind \<Rightarrow> (nat \<times> nat) list \<Rightarrow> nat \<Rightarrow> bool" where
  "present D k outs owner \<longleftrightarrow> owner \<in> set (keys outs) \<or> owner \<in> D k"

definition publisher_ok :: "(nat \<Rightarrow> bool) \<Rightarrow> publisher \<Rightarrow> bool" where
  "publisher_ok here p \<longleftrightarrow> pub_owners p \<noteq> [] \<and> distinct (keys (pub_owners p)) \<and>
     (\<forall>(owner, ids) \<in> set (pub_owners p). ids \<noteq> [] \<and> distinct ids \<and> here owner)"

definition subscription_ok :: "(nat \<Rightarrow> bool) \<Rightarrow> subscription \<Rightarrow> bool" where
  "subscription_ok here x \<longleftrightarrow> sub_clients x \<noteq> [] \<and> distinct (keys (sub_clients x)) \<and>
     (\<forall>(owner, c) \<in> set (sub_clients x). registrations c \<noteq> [] \<and> distinct (keys (registrations c)) \<and> here owner)"

text \<open>A table with distinct keys whose entries satisfy \<open>P\<close>.\<close>

definition entries :: "('k \<Rightarrow> 'v \<Rightarrow> bool) \<Rightarrow> ('k \<times> 'v) list \<Rightarrow> bool" where
  "entries P t \<longleftrightarrow> distinct (keys t) \<and> (\<forall>(k, v) \<in> set t. P k v)"

definition outputs_ok :: "(nat \<Rightarrow> queue) \<Rightarrow> (nat \<times> nat) list \<Rightarrow> bool" where
  "outputs_ok qs outs \<longleftrightarrow> distinct (keys outs) \<and> distinct (vals outs) \<and>
     (\<forall>a \<in> set (vals outs). queue_ok (qs a))"

text \<open>A request waits for a service of its connection; \<open>X\<close> are services just removed.\<close>

definition external_ok :: "nat set \<Rightarrow> (string \<times> service) list \<Rightarrow> external_request \<Rightarrow> bool" where
  "external_ok X ss r \<longleftrightarrow> ext_entity r \<in> X \<or>
     (\<exists>x. map_of ss (ext_service r) = Some x \<and> svc_entity x = ext_entity r \<and> svc_owner x = ext_owner r)"

text \<open>A call belongs to a goal; \<open>K\<close> are goals just removed or about to be added.\<close>

definition call_entity :: "action_call \<Rightarrow> client_goal \<Rightarrow> nat" where
  "call_entity c g = (case c of CallSend _ \<Rightarrow> goal_send g | CallResult _ \<Rightarrow> goal_result g | CallCancel _ \<Rightarrow> goal_cancel g)"

definition action_call_ok :: "string set \<Rightarrow> (string \<times> client_goal) list \<Rightarrow> nat \<times> int \<Rightarrow> action_call \<Rightarrow> bool" where
  "action_call_ok K gs key c \<longleftrightarrow> call_key c \<in> K \<or>
     (\<exists>g. map_of gs (call_key c) = Some g \<and> fst key = call_entity c g)"

definition goal_ok :: "'b env \<Rightarrow> (nat \<Rightarrow> bool) \<Rightarrow> nat \<Rightarrow> string \<Rightarrow> client_goal \<Rightarrow> bool" where
  "goal_ok E here used key g \<longleftrightarrow> here (goal_owner g) \<and> (\<exists>n < used. key = hex (e_uuid E n))"

definition server_goal_ok :: "(string \<times> action_server) list \<Rightarrow> server_goal \<Rightarrow> bool" where
  "server_goal_ok servers g \<longleftrightarrow> (\<exists>a. map_of servers (sg_action g) = Some a \<and> srv_owner a = sg_owner g)"

definition tables_ok :: "'b env \<Rightarrow> (kind \<Rightarrow> nat set) \<Rightarrow> nat set \<Rightarrow> string set \<Rightarrow> 'b bridge \<Rightarrow> bool" where
  "tables_ok E D X K s \<longleftrightarrow> outputs_ok (queues s) (outputs s) \<and> instant_ok (clock s + timeout s) \<and>
     entries (\<lambda>_. publisher_ok (present D KPub (outputs s))) (publishers s) \<and>
     entries (\<lambda>_. subscription_ok (present D KSub (outputs s))) (subscriptions s) \<and>
     entries (\<lambda>_ x. present D KSvc (outputs s) (svc_owner x)) (svcs s) \<and>
     entries (\<lambda>_ c. present D KCall (outputs s) (call_owner c)) (calls s) \<and>
     entries (\<lambda>_ a. present D KSrv (outputs s) (srv_owner a)) (action_servers s) \<and>
     entries (goal_ok E (present D KGoal (outputs s)) (uuid_count s)) (goals s) \<and>
     entries (\<lambda>_. external_ok X (svcs s)) (external s) \<and>
     entries (action_call_ok K (goals s)) (action_calls s) \<and>
     entries (\<lambda>_. server_goal_ok (action_servers s)) (server_goals s)"

text \<open>\<open>F\<close> are the entities in flight: created and not yet held, or no longer held and not yet
  destroyed.\<close>

definition bridge_inv ::
  "('b \<Rightarrow> bool) \<Rightarrow> ('b \<Rightarrow> nat set) \<Rightarrow> 'b env \<Rightarrow> (kind \<Rightarrow> nat set) \<Rightarrow> nat set \<Rightarrow> string set \<Rightarrow>
   nat multiset \<Rightarrow> 'b bridge \<Rightarrow> bool" where
  "bridge_inv valid live E D X K F s \<longleftrightarrow> valid (backend s) \<and>
     owned s + F = mset_set (live (backend s)) \<and> tables_ok E D X K s"

text \<open>A version 4 UUID has 122 random bits; as long as fewer were drawn they differ. Decoding
  base64 never aborts.\<close>

definition UUIDS :: nat where
  "UUIDS = 2 ^ 122"

definition uuids_ok :: "'b env \<Rightarrow> bool" where
  "uuids_ok E \<longleftrightarrow> inj_on (e_uuid E) {..<UUIDS} \<and> (\<forall>n < UUIDS. length (e_uuid E n) = 16) \<and>
     (\<forall>s. e_unbase64 E s \<noteq> Panic)"

section \<open>Rules\<close>

lemma entries_update: "entries P t \<Longrightarrow> P k v \<Longrightarrow> entries P (AList.update k v t)"
  unfolding entries_def using set_update_subset [of k v t] by (auto intro: distinct_keys_update)

lemma entries_delete: "entries P t \<Longrightarrow> entries P (AList.delete k t)"
  by (auto simp: entries_def)

lemma entries_filter: "entries P t \<Longrightarrow> entries P (filter p t)"
  by (auto simp: entries_def)

lemma entries_mono: "entries P t \<Longrightarrow> (\<And>k v. (k, v) \<in> set t \<Longrightarrow> P k v \<Longrightarrow> Q k v) \<Longrightarrow> entries Q t"
  by (auto simp: entries_def)

lemma entries_lookup: "entries P t \<Longrightarrow> map_of t k = Some v \<Longrightarrow> P k v"
  by (auto simp: entries_def dest: map_of_SomeD)

lemma entries_distinct: "entries P t \<Longrightarrow> distinct (keys t)"
  by (simp add: entries_def)

lemma entries_Nil [simp]: "entries P []"
  by (simp add: entries_def)

lemma bind_get:
  "(\<And>x. triple (\<lambda>s. P s \<and> x = f s) (g x) Q E) \<Longrightarrow> triple P (bindA (getA f) g) Q E"
  by (auto simp: triple_def bindA_def getA_def)

lemma bind_lift:
  assumes "r \<noteq> Panic" "\<And>s e. P s \<Longrightarrow> r = Err e \<Longrightarrow> E s" "\<And>x. r = Ok x \<Longrightarrow> triple P (g x) Q E"
  shows "triple P (bindA (liftA r) g) Q E"
  using assms by (cases r) (auto simp: triple_def bindA_def liftA_def errA_def)

lemma bind_mod: "triple (\<lambda>s. \<exists>t. s = f t \<and> P t) (g ()) Q E \<Longrightarrow> triple P (bindA (modA f) g) Q E"
  unfolding triple_def bindA_def modA_def by auto

lemma triple_modI: "(\<And>s. P s \<Longrightarrow> Q () (f s)) \<Longrightarrow> triple P (modA f) Q E"
  by (simp add: triple_def modA_def)

lemma triple_retI: "(\<And>s. P s \<Longrightarrow> Q a s) \<Longrightarrow> triple P (retA a) Q E"
  by (simp add: triple_def retA_def)

lemma triple_errI: "(\<And>s. P s \<Longrightarrow> E s) \<Longrightarrow> triple P (errA e) Q E"
  by (simp add: triple_def errA_def)

lemma triple_liftI:
  "r \<noteq> Panic \<Longrightarrow> (\<And>s e. P s \<Longrightarrow> r = Err e \<Longrightarrow> E s) \<Longrightarrow> (\<And>s a. P s \<Longrightarrow> r = Ok a \<Longrightarrow> Q a s) \<Longrightarrow> triple P (liftA r) Q E"
  by (cases r) (auto simp: triple_def liftA_def)

lemma bind_try:
  "triple P m R E' \<Longrightarrow> (\<And>a. triple (R a) (g (Inr a)) Q E) \<Longrightarrow> (\<And>e. triple E' (g (Inl e)) Q E) \<Longrightarrow>
   triple P (bindA (tryA m) g) Q E"
  unfolding triple_def bindA_def tryA_def by (fastforce split: outcome.splits prod.splits)

lemma triple_assume: "(A \<Longrightarrow> triple P m Q E) \<Longrightarrow> triple (\<lambda>s. P s \<and> A) m Q E"
  by (auto simp: triple_def)

lemma triple_pre_cong: "(\<And>s. P s = P' s) \<Longrightarrow> triple P m Q E = triple P' m Q E"
  by (simp add: triple_def)

text \<open>What an action leaves alone.\<close>

definition same :: "('s \<Rightarrow> 'x) \<Rightarrow> ('s, 'a) action \<Rightarrow> bool" where
  "same f m \<longleftrightarrow> (\<forall>s. f (snd (m s)) = f s)"

lemma sameI: "(\<And>s. f (snd (m s)) = f s) \<Longrightarrow> same f m"
  by (simp add: same_def)

lemma same_bind [intro]:
  assumes "same f m" "\<And>a. same f (g a)"
  shows "same f (bindA m g)"
proof (rule sameI)
  fix s
  obtain r t where m: "m s = (r, t)" by (cases "m s")
  then have t: "f t = f s" using assms(1) unfolding same_def by (metis snd_conv)
  show "f (snd (bindA m g s)) = f s"
  proof (cases r)
    case (Ok a)
    have "f (snd (g a t)) = f t" using assms(2) by (simp add: same_def)
    with m t Ok show ?thesis by (simp add: bindA_def)
  qed (use m t in \<open>simp_all add: bindA_def\<close>)
qed

lemma same_basic [intro]:
  "same f (retA a)" "same f (errA e)" "same f panicA" "same f (liftA r)" "same f (getA g)"
  by (simp_all add: same_def action_defs split: outcome.split)

lemma same_mod: "(\<And>s. f (h s) = f s) \<Longrightarrow> same f (modA h)"
  by (simp add: same_def modA_def)

lemma same_try [intro]:
  assumes "same f m"
  shows "same f (tryA m)"
proof (rule sameI)
  fix s
  obtain r t where m: "m s = (r, t)" by (cases "m s")
  then have "f t = f s" using assms unfolding same_def by (metis snd_conv)
  with m show "f (snd (tryA m s)) = f s" by (cases r) (simp_all add: tryA_def)
qed

lemma same_for [intro]: "(\<And>x. x \<in> set xs \<Longrightarrow> same f (m x)) \<Longrightarrow> same f (forA xs m)"
  by (induction xs) auto

lemma same_onB: "(\<And>s b. f (s\<lparr>backend := b\<rparr>) = f s) \<Longrightarrow> same f (onB m)"
  by (simp add: same_def onB_def split: prod.split)

lemmas same_rules = same_bind same_basic same_try same_for same_mod same_onB

lemma triple_same:
  assumes "triple P m Q E" "same f m"
  shows "triple (\<lambda>s. P s \<and> C (f s)) m (\<lambda>a s. Q a s \<and> C (f s)) (\<lambda>s. E s \<and> C (f s))"
proof (rule tripleI)
  fix s a t assume "P s \<and> C (f s)" "m s = (Ok a, t)"
  then show "Q a t \<and> C (f t)"
    using triple_Ok [OF assms(1)] assms(2) unfolding same_def by (metis snd_conv)
next
  fix s e t assume "P s \<and> C (f s)" "m s = (Err e, t)"
  then show "E t \<and> C (f t)"
    using triple_Err [OF assms(1)] assms(2) unfolding same_def by (metis snd_conv)
next
  fix s t assume "P s \<and> C (f s)" "m s = (Panic, t)"
  then show False using triple_no_panic [OF assms(1)] by (metis fst_conv)
qed

locale bridge_env = backend_contract "e_backend E" valid live
  for E :: "'b env" and valid live +
  assumes uuids: "uuids_ok E"
begin

abbreviation inv :: "(kind \<Rightarrow> nat set) \<Rightarrow> nat set \<Rightarrow> string set \<Rightarrow> nat multiset \<Rightarrow> 'b bridge \<Rightarrow> bool" where
  "inv \<equiv> bridge_inv valid live E"

lemma frame_backend:
  "tables_ok E D X K (s\<lparr>backend := b\<rparr>) = tables_ok E D X K s" "owned (s\<lparr>backend := b\<rparr>) = owned s"
  by (simp_all add: tables_ok_def owned_def)

lemma onB_keep:
  assumes "keeps valid live m" "\<And>s b. R s \<Longrightarrow> R (s\<lparr>backend := b\<rparr>)"
  shows "triple (\<lambda>s. inv D X K F s \<and> R s) (onB m) (\<lambda>_ s. inv D X K F s \<and> R s) (\<lambda>s. inv D X K F s \<and> R s)"
  using assms unfolding keeps_def triple_def onB_def bridge_inv_def
  by (fastforce simp: frame_backend split: outcome.splits prod.splits)

lemma onB_create:
  assumes "creates valid live m" "\<And>s b. R s \<Longrightarrow> R (s\<lparr>backend := b\<rparr>)"
  shows "triple (\<lambda>s. inv D X K F s \<and> R s) (onB m) (\<lambda>e s. inv D X K (add_mset e F) s \<and> R s)
    (\<lambda>s. inv D X K F s \<and> R s)"
proof (rule tripleI)
  fix s assume P: "inv D X K F s \<and> R s"
  let ?L = "live (backend s)"
  have fin: "finite ?L" using P finite_live by (simp add: bridge_inv_def)
  have c: "triple (\<lambda>b. valid b \<and> live b = ?L) m (\<lambda>e b. valid b \<and> e \<notin> ?L \<and> live b = insert e ?L)
      (\<lambda>b. valid b \<and> live b = ?L)" using assms(1) by (simp add: creates_def)
  have pre: "valid (backend s) \<and> live (backend s) = ?L" using P by (simp add: bridge_inv_def)
  {
    fix e t assume "onB m s = (Ok e, t)"
    then obtain b where b: "m (backend s) = (Ok e, b)" "t = s\<lparr>backend := b\<rparr>"
      by (auto simp: onB_def split: prod.splits)
    with triple_Ok [OF c pre b(1)] P fin assms(2) show "inv D X K (add_mset e F) t \<and> R t"
      by (auto simp: bridge_inv_def frame_backend)
  next
    fix e t assume "onB m s = (Err e, t)"
    then obtain b where b: "m (backend s) = (Err e, b)" "t = s\<lparr>backend := b\<rparr>"
      by (auto simp: onB_def split: prod.splits)
    with triple_Err [OF c pre b(1)] P assms(2) show "inv D X K F t \<and> R t"
      by (auto simp: bridge_inv_def frame_backend)
  next
    fix t assume "onB m s = (Panic, t)"
    then obtain b where "m (backend s) = (Panic, b)" by (auto simp: onB_def split: prod.splits)
    with triple_no_panic [OF c pre] show False by simp
  }
qed

lemma onB_destroy:
  assumes "\<And>s b. R s \<Longrightarrow> R (s\<lparr>backend := b\<rparr>)"
  shows "triple (\<lambda>s. inv D X K (add_mset e F) s \<and> R s) (onB (be_destroy (e_backend E) e))
    (\<lambda>_ s. inv D X K F s \<and> R s) (\<lambda>_. False)"
proof (rule tripleI)
  fix s assume P: "inv D X K (add_mset e F) s \<and> R s"
  let ?L = "live (backend s)" and ?m = "be_destroy (e_backend E) e"
  have fin: "finite ?L" using P finite_live by (simp add: bridge_inv_def)
  have pre: "valid (backend s) \<and> live (backend s) = ?L" using P by (simp add: bridge_inv_def)
  have own: "owned s + add_mset e F = mset_set ?L" using P by (simp add: bridge_inv_def)
  then have "e \<in># mset_set ?L" by (metis union_iff union_single_eq_member)
  then have "e \<in> ?L" using fin by simp
  then have c: "triple (\<lambda>b. valid b \<and> live b = ?L) ?m (\<lambda>_ b. valid b \<and> live b = ?L - {e}) (\<lambda>b. False)"
    using destroy [of e] by (simp add: destroys_def)
  from \<open>e \<in> ?L\<close> have own': "owned s + F = mset_set (?L - {e})"
  proof -
    have "mset_set (?L - {e}) = mset_set ?L - {#e#}" using fin \<open>e \<in> ?L\<close> by (simp add: mset_set_Diff)
    also have "\<dots> = owned s + F" using own by (metis add_mset_add_single add_mset_remove_trivial union_mset_add_mset_right)
    finally show ?thesis by simp
  qed
  {
    fix u t assume "onB ?m s = (Ok u, t)"
    then obtain b where b: "?m (backend s) = (Ok u, b)" "t = s\<lparr>backend := b\<rparr>"
      by (auto simp: onB_def split: prod.splits)
    with triple_Ok [OF c pre b(1)] P own' assms show "inv D X K F t \<and> R t"
      by (auto simp: bridge_inv_def frame_backend)
  next
    fix x t assume "onB ?m s = (Err x, t)"
    then obtain b where "?m (backend s) = (Err x, b)" by (auto simp: onB_def split: prod.splits)
    with triple_Err [OF c pre this] show False by simp
  next
    fix t assume "onB ?m s = (Panic, t)"
    then obtain b where "?m (backend s) = (Panic, b)" by (auto simp: onB_def split: prod.splits)
    with triple_no_panic [OF c pre] show False by simp
  }
qed

section \<open>Sending\<close>

lemma frame_queues:
  "outputs_ok q (outputs s) \<Longrightarrow> tables_ok E D X K s \<Longrightarrow>
   tables_ok E D X K (s\<lparr>queues := q, next_id := n, failed := f\<rparr>)"
  "owned (s\<lparr>queues := q, next_id := n, failed := f\<rparr>) = owned s"
  by (simp_all add: tables_ok_def owned_def)

lemma deliver_shape:
  assumes "outputs_ok (queues s) (outputs s)" "a \<in> set (vals (outputs s))"
  shows "\<exists>q f. deliver E owner a v options binary key s = s\<lparr>queues := q, failed := f\<rparr> \<and> outputs_ok q (outputs s)"
proof -
  obtain r q where rq: "Outgoing.send_request (e_storage E) (clock s) owner
      (if jix v ''op'' = JStr ''publish'' then as_str (jix v ''topic'') else None) (opt_queue options)
      (request_new v binary options key) (queues s a) = (r, q)" by (cases rule: prod.exhaust)
  have "queue_ok (queues s a)" using assms by (auto simp: outputs_ok_def)
  then have q: "queue_ok q" using enqueue_ok rq by (metis send_request_def snd_conv)
  have out: "outputs_ok ((queues s)(a := q)) (outputs s)" using assms q by (auto simp: outputs_ok_def)
  show ?thesis
  proof (cases r)
    case (Inl e)
    with rq out show ?thesis
      by (intro exI [of _ "(queues s)(a := q)"] exI [of _ "List.insert owner (failed s)"])
        (simp add: deliver_def put_queue_def mark_failed_def)
  next
    case (Inr u)
    with rq out show ?thesis
      by (intro exI [of _ "(queues s)(a := q)"] exI [of _ "failed s"]) (simp add: deliver_def put_queue_def)
  qed
qed

lemma send_inv:
  assumes v: "is_object v" and R: "\<And>s q n f. R s \<Longrightarrow> R (s\<lparr>queues := q, next_id := n, failed := f\<rparr>)"
  shows "triple (\<lambda>s. inv D X K F s \<and> R s) (send E owner v rid options binary)
    (\<lambda>_ s. inv D X K F s \<and> R s) (\<lambda>_. False)"
proof (rule tripleI)
  have frame: "inv D X K F (s\<lparr>queues := q, next_id := n, failed := f\<rparr>) \<and> R (s\<lparr>queues := q, next_id := n, failed := f\<rparr>)"
    if "inv D X K F s \<and> R s" "outputs_ok q (outputs s)" for s q n f
    using that R frame_queues(1) [of q s] frame_queues(2) by (simp add: bridge_inv_def)
  fix s assume P: "inv D X K F s \<and> R s"
  then have out: "outputs_ok (queues s) (outputs s)" by (simp add: bridge_inv_def tables_ok_def)
  obtain v' where v': "(case rid of None \<Rightarrow> Ok v | Some i \<Rightarrow> jset v ''id'' (JStr i)) = Ok v'"
    using v by (cases rid) (auto simp: is_object_iff)
  let ?u = "s\<lparr>next_id := next_id s + 1\<rparr>"
  have "\<exists>q n f. send E owner v rid options binary s = (Ok (), s\<lparr>queues := q, next_id := n, failed := f\<rparr>) \<and>
      outputs_ok q (outputs s)"
  proof (cases "owner \<in> set (failed s)")
    case True
    with v' out show ?thesis
      by (intro exI [of _ "queues s"] exI [of _ "next_id s"] exI [of _ "failed s"])
        (simp add: send_def action_defs)
  next
    case nf: False
    show ?thesis
    proof (cases "map_of (outputs s) owner")
      case None
      with v' nf out show ?thesis
        by (intro exI [of _ "queues s"] exI [of _ "next_id s + 1"] exI [of _ "failed s"])
          (simp add: send_def action_defs unique_def Let_def)
    next
      case (Some a)
      then have "a \<in> set (vals (outputs ?u))" by (force dest: map_of_SomeD)
      moreover have "outputs_ok (queues ?u) (outputs ?u)" using out by (simp add: outputs_ok_def)
      ultimately obtain q f where d: "deliver E owner a v' options binary (''rosbridge:'' @ dec (next_id s + 1)) ?u =
          ?u\<lparr>queues := q, failed := f\<rparr>" "outputs_ok q (outputs ?u)"
        using deliver_shape [of ?u a owner v' options binary "''rosbridge:'' @ dec (next_id s + 1)"] by blast
      then have "outputs_ok q (outputs s)" by (simp add: outputs_ok_def)
      with d(1) Some v' nf show ?thesis
        by (intro exI [of _ q] exI [of _ "next_id s + 1"] exI [of _ f])
          (simp add: send_def action_defs unique_def Let_def)
    qed
  qed
  then obtain q n f where sent: "send E owner v rid options binary s = (Ok (), s\<lparr>queues := q, next_id := n, failed := f\<rparr>)"
    "outputs_ok q (outputs s)" by blast
  {
    fix a t assume "send E owner v rid options binary s = (Ok a, t)"
    with sent frame [OF P sent(2)] show "inv D X K F t \<and> R t" by simp
  next
    fix e t assume "send E owner v rid options binary s = (Err e, t)"
    with sent show False by simp
  next
    fix t assume "send E owner v rid options binary s = (Panic, t)"
    with sent show False by simp
  }
qed

end

lemmas table_ops =
  put_publisher_def del_publisher_def put_subscription_def del_subscription_def put_service_def
  del_service_def drop_requests_def put_call_def del_call_def put_external_def del_external_def
  put_goal_def del_goal_def put_action_call_def del_action_call_def drop_calls_def put_server_def
  del_server_def put_server_goal_def del_server_goal_def forget_goals_def drop_external_def

lemma entries_in: "entries P t \<Longrightarrow> (k, v) \<in> set t \<Longrightarrow> map_of t k = Some v"
  by (auto simp: entries_def)

text \<open>The entities of a table under its updates.\<close>

lemma image_update_new:
  "map_of t k = None \<Longrightarrow>
   image_mset f (mset (AList.update k v t)) = add_mset (f (k, v)) (image_mset f (mset t))"
  by (simp add: update_fresh map_of_eq_None_iff)

lemma image_update_same:
  assumes "entries P t" "map_of t k = Some w" "f (k, v) = f (k, w)"
  shows "image_mset f (mset (AList.update k v t)) = image_mset f (mset t)"
  using mset_map_update [of t k w f v] assms by (simp add: entries_def)

lemma image_delete:
  assumes "entries P t" "map_of t k = Some v"
  shows "image_mset f (mset t) = add_mset (f (k, v)) (image_mset f (mset (AList.delete k t)))"
  using mset_map_remove [of t k v f] assms by (simp add: entries_def)

context bridge_env
begin

text \<open>A change of the tables that keeps them in order and moves entities between the tables
  and those in flight keeps the invariant.\<close>

lemma inv_change:
  assumes "inv D X K F s" "backend t = backend s" "tables_ok E D X K s \<Longrightarrow> owned t + G = owned s + F"
    and "tables_ok E D X K s \<Longrightarrow> tables_ok E D' X' K' t"
  shows "inv D' X' K' G t"
  using assms by (simp add: bridge_inv_def)

lemma inv_tables: "inv D X K F s \<Longrightarrow> tables_ok E D X K s"
  by (simp add: bridge_inv_def)


lemma inv_publisher_new:
  assumes "inv D X K (add_mset (pub_entity p) F) s" "map_of (publishers s) k = None" "publisher_ok (present D KPub (outputs s)) p"
  shows "inv D X K F (put_publisher k p s)"
  using assms(1)
  by (rule inv_change)
    (use assms(2,3) in \<open>auto simp: tables_ok_def table_ops owned_def image_update_new intro: entries_update\<close>)

lemma inv_publisher_same:
  assumes "inv D X K F s" "map_of (publishers s) k = Some q" "pub_entity p = pub_entity q" "publisher_ok (present D KPub (outputs s)) p"
  shows "inv D X K F (put_publisher k p s)"
  using assms(1)
  by (rule inv_change)
    (use assms(2-4) in \<open>auto simp: tables_ok_def table_ops owned_def image_update_same intro: entries_update\<close>)

lemma inv_publisher_del:
  assumes "inv D X K F s" "map_of (publishers s) k = Some p"
  shows "inv D X K (add_mset (pub_entity p) F) (del_publisher k s)"
  using assms(1)
  by (rule inv_change)
    (use assms(2) in \<open>auto simp: tables_ok_def table_ops owned_def image_delete [of _ "publishers s" k p] intro: entries_delete\<close>)

lemma inv_subscription_new:
  assumes "inv D X K (add_mset (sub_entity p) F) s" "map_of (subscriptions s) k = None" "subscription_ok (present D KSub (outputs s)) p"
  shows "inv D X K F (put_subscription k p s)"
  using assms(1)
  by (rule inv_change)
    (use assms(2,3) in \<open>auto simp: tables_ok_def table_ops owned_def image_update_new intro: entries_update\<close>)

lemma inv_subscription_same:
  assumes "inv D X K F s" "map_of (subscriptions s) k = Some q" "sub_entity p = sub_entity q" "subscription_ok (present D KSub (outputs s)) p"
  shows "inv D X K F (put_subscription k p s)"
  using assms(1)
  by (rule inv_change)
    (use assms(2-4) in \<open>auto simp: tables_ok_def table_ops owned_def image_update_same intro: entries_update\<close>)

lemma inv_subscription_del:
  assumes "inv D X K F s" "map_of (subscriptions s) k = Some p"
  shows "inv D X K (add_mset (sub_entity p) F) (del_subscription k s)"
  using assms(1)
  by (rule inv_change)
    (use assms(2) in \<open>auto simp: tables_ok_def table_ops owned_def image_delete [of _ "subscriptions s" k p] intro: entries_delete\<close>)

lemma inv_call_new:
  assumes "inv D X K (add_mset (fst k) F) s" "map_of (calls s) k = None" "present D KCall (outputs s) (call_owner c)"
  shows "inv D X K F (put_call k c s)"
  using assms(1)
  by (rule inv_change)
    (use assms(2,3) in \<open>auto simp: tables_ok_def table_ops owned_def image_update_new intro: entries_update\<close>)

lemma inv_call_del:
  assumes "inv D X K F s" "map_of (calls s) k = Some c"
  shows "inv D X K (add_mset (fst k) F) (del_call k s)"
  using assms(1)
  by (rule inv_change)
    (use assms(2) in \<open>auto simp: tables_ok_def table_ops owned_def image_delete [of _ "calls s" k c] intro: entries_delete\<close>)

text \<open>Services: the requests waiting for them follow.\<close>

lemma external_ok_update:
  "external_ok X ss r \<Longrightarrow> map_of ss k = None \<or>
     (\<exists>y. map_of ss k = Some y \<and> svc_entity x = svc_entity y \<and> svc_owner x = svc_owner y) \<Longrightarrow>
   external_ok X (AList.update k x ss) r"
  by (auto simp: external_ok_def)

lemma inv_service_new:
  assumes "inv D X K (add_mset (svc_entity p) F) s" "map_of (svcs s) k = None"
    "present D KSvc (outputs s) (svc_owner p)"
  shows "inv D X K F (put_service k p s)"
  using assms(1)
  by (rule inv_change)
    (use assms(2,3) in \<open>auto simp: tables_ok_def table_ops owned_def image_update_new external_ok_update
      intro: entries_update elim: entries_mono\<close>)

lemma inv_service_same:
  assumes "inv D X K F s" "map_of (svcs s) k = Some q" "svc_entity p = svc_entity q" "svc_owner p = svc_owner q"
  shows "inv D X K F (put_service k p s)"
  using assms(1)
proof (rule inv_change)
  assume t: "tables_ok E D X K s"
  have "present D KSvc (outputs s) (svc_owner q)"
    using t assms(2) entries_lookup [of _ "svcs s" k q] by (auto simp: tables_ok_def)
  with t assms(2-4) show "tables_ok E D X K (put_service k p s)"
    by (auto simp: tables_ok_def table_ops external_ok_update intro: entries_update elim: entries_mono)
qed (use assms(2-4) in \<open>auto simp: tables_ok_def table_ops owned_def image_update_same\<close>)

lemma inv_service_del:
  assumes "inv D X K F s" "map_of (svcs s) k = Some p"
  shows "inv D (insert (svc_entity p) X) K (add_mset (svc_entity p) F) (del_service k s)"
  using assms(1)
proof (rule inv_change)
  assume t: "tables_ok E D X K s"
  have "external_ok (insert (svc_entity p) X) (AList.delete k (svcs s)) r" if "external_ok X (svcs s) r" for r
    using that assms(2) by (auto simp: external_ok_def)
  with t show "tables_ok E D (insert (svc_entity p) X) K (del_service k s)"
    by (auto simp: tables_ok_def table_ops intro: entries_delete elim: entries_mono)
qed (use assms(2) in \<open>auto simp: tables_ok_def table_ops owned_def image_delete [of _ "svcs s" k p]\<close>)

lemma inv_requests_drop:
  assumes "inv D (insert e X) K F s"
  shows "inv D X K F (drop_requests e s)"
  using assms
proof (rule inv_change)
  assume t: "tables_ok E D (insert e X) K s"
  then have "entries (\<lambda>_. external_ok X (svcs s)) (retain (\<lambda>_ r. ext_entity r \<noteq> e) (external s))"
    by (auto simp: tables_ok_def entries_def external_ok_def)
  with t show "tables_ok E D X K (drop_requests e s)" by (simp add: tables_ok_def table_ops)
qed (simp_all add: table_ops owned_def)

lemma inv_external_put:
  assumes "inv D X K F s" "external_ok X (svcs s) r"
  shows "inv D X K F (put_external i r s)"
  using assms(1)
  by (rule inv_change) (use assms(2) in \<open>auto simp: tables_ok_def table_ops owned_def intro: entries_update\<close>)

lemma inv_external_del: "inv D X K F s \<Longrightarrow> inv D X K F (del_external i s)"
  by (erule inv_change) (auto simp: tables_ok_def table_ops owned_def intro: entries_delete)

lemma inv_external_drop: "inv D X K F s \<Longrightarrow> inv D X K F (drop_external o' s)"
  by (erule inv_change) (auto simp: tables_ok_def table_ops owned_def intro: entries_filter)

end

context bridge_env
begin

subsection \<open>Goals and the calls made for them\<close>

lemma inv_goal_new:
  assumes "inv D X K (mset (goal_entities g) + F) s" "map_of (goals s) k = None" "k \<notin> K"
    and "goal_ok E (present D KGoal (outputs s)) (uuid_count s) k g"
  shows "inv D X K F (put_goal k g (put_action_call (goal_send g, sequence) (CallSend k) s))"
  using assms(1)
proof (rule inv_change)
  assume t: "tables_ok E D X K s"
  then have "entries (action_call_ok K (goals s)) (action_calls s)" by (simp add: tables_ok_def)
  then have "entries (action_call_ok K (AList.update k g (goals s))) (action_calls s)"
    by (rule entries_mono) (use assms(2) in \<open>auto simp: action_call_ok_def\<close>)
  then have "entries (action_call_ok K (AList.update k g (goals s)))
      (AList.update (goal_send g, sequence) (CallSend k) (action_calls s))"
    by (rule entries_update) (simp add: action_call_ok_def call_entity_def)
  with t assms(4) show "tables_ok E D X K (put_goal k g (put_action_call (goal_send g, sequence) (CallSend k) s))"
    by (auto simp: tables_ok_def table_ops intro: entries_update)
qed (use assms(2) in \<open>auto simp: table_ops owned_def image_update_new\<close>)

lemma inv_goal_same:
  assumes "inv D X K F s" "map_of (goals s) k = Some g" "goal_entities h = goal_entities g" "goal_owner h = goal_owner g"
  shows "inv D X K F (put_goal k h s)"
  using assms(1)
proof (rule inv_change)
  assume t: "tables_ok E D X K s"
  have "goal_ok E (present D KGoal (outputs s)) (uuid_count s) k g"
    using t assms(2) entries_lookup [of _ "goals s" k g] by (auto simp: tables_ok_def)
  then have "goal_ok E (present D KGoal (outputs s)) (uuid_count s) k h" using assms(4) by (simp add: goal_ok_def)
  moreover have "call_entity c h = call_entity c g" for c
    using assms(3) by (simp add: call_entity_def goal_entities_def split: action_call.split)
  then have "entries (action_call_ok K (AList.update k h (goals s))) (action_calls s)"
    using t assms(2) unfolding tables_ok_def by (auto simp: action_call_ok_def elim!: entries_mono)
  ultimately show "tables_ok E D X K (put_goal k h s)"
    using t by (auto simp: tables_ok_def table_ops intro: entries_update)
qed (use assms(2,3) in \<open>auto simp: tables_ok_def table_ops owned_def image_update_same\<close>)

lemma inv_goal_del:
  assumes "inv D X K F s" "map_of (goals s) k = Some g"
  shows "inv D X (insert k K) (mset (goal_entities g) + F) (del_goal k s)"
  using assms(1)
proof (rule inv_change)
  assume t: "tables_ok E D X K s"
  then have "entries (action_call_ok (insert k K) (AList.delete k (goals s))) (action_calls s)"
    unfolding tables_ok_def by (auto simp: action_call_ok_def elim!: entries_mono)
  with t show "tables_ok E D X (insert k K) (del_goal k s)"
    by (auto simp: tables_ok_def table_ops intro: entries_delete)
qed (use assms(2) in \<open>auto simp: tables_ok_def table_ops owned_def image_delete [of _ "goals s" k g]\<close>)

lemma inv_calls_drop:
  assumes "inv D X (insert k K) F s"
  shows "inv D X K F (drop_calls k s)"
  using assms
proof (rule inv_change)
  assume t: "tables_ok E D X (insert k K) s"
  then have "entries (action_call_ok K (goals s)) (retain (\<lambda>_ c. call_key c \<noteq> k) (action_calls s))"
    by (auto simp: tables_ok_def entries_def action_call_ok_def)
  with t show "tables_ok E D X K (drop_calls k s)" by (simp add: tables_ok_def table_ops)
qed (simp_all add: table_ops owned_def)

lemma inv_action_call_put:
  assumes "inv D X K F s" "map_of (goals s) (call_key c) = Some g" "fst k = call_entity c g"
  shows "inv D X K F (put_action_call k c s)"
  using assms(1)
  by (rule inv_change)
    (use assms(2,3) in \<open>auto simp: tables_ok_def table_ops owned_def action_call_ok_def intro: entries_update\<close>)

lemma inv_action_call_del: "inv D X K F s \<Longrightarrow> inv D X K F (del_action_call k s)"
  by (erule inv_change) (auto simp: tables_ok_def table_ops owned_def intro: entries_delete)

subsection \<open>Action servers and their goals\<close>

lemma inv_server_new:
  assumes "inv D X K (mset (server_entities a) + F) s" "map_of (action_servers s) k = None"
    and "present D KSrv (outputs s) (srv_owner a)"
  shows "inv D X K F (put_server k a s)"
  using assms(1)
proof (rule inv_change)
  assume t: "tables_ok E D X K s"
  then have "entries (\<lambda>_. server_goal_ok (AList.update k a (action_servers s))) (server_goals s)"
    using assms(2) unfolding tables_ok_def by (auto simp: server_goal_ok_def elim!: entries_mono)
  with t assms(3) show "tables_ok E D X K (put_server k a s)"
    by (auto simp: tables_ok_def table_ops intro: entries_update)
qed (use assms(2) in \<open>auto simp: table_ops owned_def image_update_new\<close>)

lemma inv_server_del:
  assumes "inv D X K F s" "map_of (action_servers s) k = Some a"
    and "\<forall>(i, g) \<in> set (server_goals s). sg_action g \<noteq> k"
  shows "inv D X K (mset (server_entities a) + F) (del_server k s)"
  using assms(1)
proof (rule inv_change)
  assume t: "tables_ok E D X K s"
  then have "entries (\<lambda>_. server_goal_ok (AList.delete k (action_servers s))) (server_goals s)"
    using assms(3) unfolding tables_ok_def by (auto simp: server_goal_ok_def elim!: entries_mono)
  with t show "tables_ok E D X K (del_server k s)"
    by (auto simp: tables_ok_def table_ops intro: entries_delete)
qed (use assms(2) in \<open>auto simp: tables_ok_def table_ops owned_def image_delete [of _ "action_servers s" k a]\<close>)

lemma inv_server_goal_put:
  "inv D X K F s \<Longrightarrow> server_goal_ok (action_servers s) g \<Longrightarrow> inv D X K F (put_server_goal k g s)"
  by (erule inv_change) (auto simp: tables_ok_def table_ops owned_def intro: entries_update)

lemma inv_server_goal_del: "inv D X K F s \<Longrightarrow> inv D X K F (del_server_goal k s)"
  by (erule inv_change) (auto simp: tables_ok_def table_ops owned_def intro: entries_delete)

lemma inv_forget: "inv D X K F s \<Longrightarrow> inv D X K F (forget_goals s)"
  by (erule inv_change) (auto simp: tables_ok_def table_ops owned_def intro: entries_filter)

lemma inv_server_goal_at:
  "inv D X K F s \<Longrightarrow> (k, g) \<in> set (server_goals s) \<Longrightarrow>
   \<exists>a. map_of (action_servers s) (sg_action g) = Some a \<and> srv_owner a = sg_owner g"
  using inv_tables by (force simp: tables_ok_def entries_def server_goal_ok_def)

end

section \<open>Readers do not panic\<close>

lemma required_no_panic [simp]: "required v k \<noteq> Panic"
  by (auto simp: required_def split: option.split)

lemma request_id_no_panic [simp]: "request_id v \<noteq> Panic"
  by (auto simp: request_id_def bindO_Panic split: option.split)

lemma ros_name_no_panic [simp]: "ros_name v k \<noteq> Panic"
  by (auto simp: ros_name_def bindO_Panic)

lemma options_parse_no_panic [simp]: "options_parse v \<noteq> Panic"
  by (auto simp: options_parse_def integer_option_def compression_parse_def bindO_Panic split: option.splits if_splits)

lemma publisher_qos_no_panic [simp]: "publisher_qos_of v \<noteq> Panic"
  by (auto simp: publisher_qos_of_def bindO_Panic split: option.splits)

lemma remaining_no_panic [simp]: "remaining_ids i ids \<noteq> Panic" "remaining_registrations i rs \<noteq> Panic"
  by (auto simp: remaining_ids_def remaining_registrations_def bindO_Panic simp del: has_keys split: option.split)

lemma authorize_no_panic [simp]: "authorize G a v operation \<noteq> Panic"
  unfolding authorize_def
  by (simp only: bindO_Panic ros_name_no_panic acc_no_panic acc_action_no_panic outcome.distinct simp_thms
      if_split_eq2 split: if_split)

definition here :: "nat \<Rightarrow> 'b bridge \<Rightarrow> bool" where
  "here owner s \<longleftrightarrow> owner \<in> set (keys (outputs s))"

lemma here_simps [simp]:
  "here owner (s\<lparr>backend := b\<rparr>) = here owner s"
  "here owner (s\<lparr>queues := q, next_id := n, failed := f\<rparr>) = here owner s"
  by (simp_all add: here_def)

lemma here_present: "here owner s \<Longrightarrow> present D k (outputs s) owner"
  by (simp add: here_def present_def)

section \<open>Rules for the calls of an operation\<close>

context bridge_env
begin

abbreviation I :: "(kind \<Rightarrow> nat set) \<Rightarrow> 'b bridge \<Rightarrow> bool" where
  "I D \<equiv> inv D {} {} {#}"

lemma bind_keep:
  assumes "keeps valid live m" "\<And>s b. R s \<Longrightarrow> R (s\<lparr>backend := b\<rparr>)" "\<And>s. inv D X K F s \<Longrightarrow> R s \<Longrightarrow> E' s"
    and "\<And>a. triple (\<lambda>s. inv D X K F s \<and> R s) (g a) Q E'"
  shows "triple (\<lambda>s. inv D X K F s \<and> R s) (bindA (onB m) g) Q E'"
proof (rule triple_bind)
  show "triple (\<lambda>s. inv D X K F s \<and> R s) (onB m) (\<lambda>_ s. inv D X K F s \<and> R s) E'"
    by (rule triple_post [OF onB_keep [where R = R, OF assms(1,2)]]) (use assms(3) in auto)
qed (rule assms(4))

lemma bind_create:
  assumes "creates valid live m" "\<And>s b. R s \<Longrightarrow> R (s\<lparr>backend := b\<rparr>)" "\<And>s. inv D X K F s \<Longrightarrow> R s \<Longrightarrow> E' s"
    and "\<And>e. triple (\<lambda>s. inv D X K (add_mset e F) s \<and> R s) (g e) Q E'"
  shows "triple (\<lambda>s. inv D X K F s \<and> R s) (bindA (onB m) g) Q E'"
proof (rule triple_bind)
  show "triple (\<lambda>s. inv D X K F s \<and> R s) (onB m) (\<lambda>e s. inv D X K (add_mset e F) s \<and> R s) E'"
    by (rule triple_post [OF onB_create [where R = R, OF assms(1,2)]]) (use assms(3) in auto)
qed (rule assms(4))

lemma keep_end:
  assumes "keeps valid live m" "\<And>s b. R s \<Longrightarrow> R (s\<lparr>backend := b\<rparr>)"
    and "\<And>s a. inv D X K F s \<Longrightarrow> R s \<Longrightarrow> Q a s" "\<And>s. inv D X K F s \<Longrightarrow> R s \<Longrightarrow> E' s"
  shows "triple (\<lambda>s. inv D X K F s \<and> R s) (onB m) Q E'"
  by (rule triple_post [OF onB_keep [where R = R, OF assms(1,2)]]) (use assms(3,4) in auto)

lemma destroy_end:
  assumes "\<And>s b. R s \<Longrightarrow> R (s\<lparr>backend := b\<rparr>)" "\<And>s a. inv D X K F s \<Longrightarrow> R s \<Longrightarrow> Q a s"
  shows "triple (\<lambda>s. inv D X K (add_mset e F) s \<and> R s) (onB (be_destroy (e_backend E) e)) Q E'"
  by (rule triple_post [OF onB_destroy [where R = R, OF assms(1)]]) (use assms(2) in auto)

lemma send_end:
  assumes "is_object v" "\<And>s q n f. R s \<Longrightarrow> R (s\<lparr>queues := q, next_id := n, failed := f\<rparr>)"
    and "\<And>s a. inv D X K F s \<Longrightarrow> R s \<Longrightarrow> Q a s"
  shows "triple (\<lambda>s. inv D X K F s \<and> R s) (send E owner v rid options binary) Q E'"
  by (rule triple_post [OF send_inv [where R = R, OF assms(1,2)]]) (use assms(3) in auto)

lemma bind_send:
  assumes "is_object v" "\<And>s q n f. R s \<Longrightarrow> R (s\<lparr>queues := q, next_id := n, failed := f\<rparr>)"
    and "triple (\<lambda>s. inv D X K F s \<and> R s) (g ()) Q E'"
  shows "triple (\<lambda>s. inv D X K F s \<and> R s) (bindA (send E owner v rid options binary) g) Q E'"
  by (rule triple_bind [OF triple_post [OF send_inv [where R = R, OF assms(1,2)]]]) (use assms(3) in auto)

lemma bind_resolve:
  assumes "\<And>s b. R s \<Longrightarrow> R (s\<lparr>backend := b\<rparr>)" "\<And>s. inv D X K F s \<Longrightarrow> R s \<Longrightarrow> E' s"
    and "\<And>t. triple (\<lambda>s. inv D X K F s \<and> R s) (g t) Q E'"
  shows "triple (\<lambda>s. inv D X K F s \<and> R s) (bindA (resolve E v key kind) g) Q E'"
proof (rule triple_bind)
  have "keeps valid live (if kind = ''msg'' then be_topics (e_backend E) else be_services (e_backend E))"
    using topics services by (cases "kind = ''msg''") simp_all
  then show "triple (\<lambda>s. inv D X K F s \<and> R s) (resolve E v key kind) (\<lambda>_ s. inv D X K F s \<and> R s) E'"
    unfolding resolve_def
    by (rule bind_keep) (auto intro!: triple_liftI assms(1,2) simp: bindO_Panic split: option.splits)
qed (rule assms(3))

lemma bind_read:
  "(\<And>x. triple (\<lambda>s. J s \<and> R s \<and> f s = x) (g x) Q E') \<Longrightarrow> triple (\<lambda>s. J s \<and> R s) (bindA (getA f) g) Q E'"
  by (auto simp: triple_def bindA_def getA_def)

lemma alone: "triple (\<lambda>s. J s \<and> True) m Q E' \<Longrightarrow> triple J m Q E'"
  by simp

lemma find_in: "find P xs = Some x \<Longrightarrow> x \<in> set xs"
  by (auto simp: find_Some_iff)

lemma uuid_byte_no_panic [simp]: "uuid_byte v \<noteq> Panic"
  by (auto simp: uuid_byte_def bindO_Panic)

lemma mapO_no_panic [simp]: "(\<And>x. f x \<noteq> Panic) \<Longrightarrow> mapO f xs \<noteq> Panic"
  using mapO_Panic by blast

lemma uuid_key_no_panic [simp]: "uuid_key E v \<noteq> Panic"
  using uuids by (auto simp: uuid_key_def uuids_ok_def bindO_Panic split: option.splits)

end

end
