(* ===== verification/Ros.thy ===== *)
theory Ros
  imports Native Ownership
begin

text \<open>
The rest of \<^verbatim>\<open>src/ros/mod.rs\<close>: polling and the \<^verbatim>\<open>Backend\<close> implementation, and the proof that it
  keeps the contract of its clients whatever the native layer does, as long as that layer
  provides well-formed type descriptions and fills messages according to them.
\<close>

section \<open>Polling\<close>

text \<open>\<^verbatim>\<open>json["clock"]["sec"].as_i64().unwrap_or(0)\<close> and \<^verbatim>\<open>as u32\<close> of the nanoseconds.\<close>

definition sim_time :: "json \<Rightarrow> int \<times> nat" where
  "sim_time j =
     ((case as_i64 (jix (jix j ''clock'') ''sec'') of None \<Rightarrow> 0 | Some s \<Rightarrow> s),
      (case as_u64 (jix (jix j ''clock'') ''nanosec'') of None \<Rightarrow> 0 | Some n \<Rightarrow> n mod 2 ^ 32))"

text \<open>\<^verbatim>\<open>Message::raw\<close>: the buffer is released whether or not the serialisation succeeds.\<close>

definition raw_message :: "'w world \<Rightarrow> members \<Rightarrow> slot list \<Rightarrow> ('w ros, byte list) action" where
  "raw_message W ty msg =
     bindA (checked (rcutils_array_init (w_rcl W))) (\<lambda>_.
     bindA (tryA (checked (rmw_serialize (w_rcl W) ty msg))) (\<lambda>result.
     bindA (tryA (checked (rcutils_array_fini (w_rcl W)))) (\<lambda>released.
     case result of
       Inl e \<Rightarrow> errA e
     | Inr bytes \<Rightarrow> (case released of Inl e \<Rightarrow> errA e | Inr _ \<Rightarrow> retA bytes))))"

text \<open>One round of the loop of a handle: \<open>None\<close> is its \<^verbatim>\<open>break\<close>, otherwise the events it adds.\<close>

definition take_one :: "'w world \<Rightarrow> int \<times> nat \<Rightarrow> nat \<Rightarrow> handle \<Rightarrow> ('w ros, event list option) action" where
  "take_one W now i h = (case h of
     HSubscription n ty \<Rightarrow>
       bindA (taken SUBSCRIPTION_TAKE_FAILED (rcl_take (w_rcl W) n ty)) (\<lambda>got. case got of
         None \<Rightarrow> retA None
       | Some msg \<Rightarrow>
           bindA (liftA (values_of (w_types W) ty msg)) (\<lambda>(j, c).
           bindA (getA (\<lambda>r. clock_subscription r = Some i)) (\<lambda>is_clock.
           if is_clock then
             bindA (modA (\<lambda>r. r\<lparr>simulated := Some (sim_time j)\<rparr>)) (\<lambda>_. retA (Some []))
           else
             bindA (raw_message W ty msg) (\<lambda>bytes.
             retA (Some [EvMessage i \<lparr>m_json = j, m_cbor = c, m_raw = bytes, m_stamp = now\<rparr>])))))
   | HClient n request resp \<Rightarrow>
       bindA (taken CLIENT_TAKE_FAILED (rcl_take_response (w_rcl W) n resp)) (\<lambda>got. case got of
         None \<Rightarrow> retA None
       | Some (sequence, msg) \<Rightarrow>
           bindA (liftA (values_of (w_types W) resp msg)) (\<lambda>(j, c).
           retA (Some [EvResponse i sequence j])))
   | HService n request resp \<Rightarrow>
       bindA (taken SERVICE_TAKE_FAILED (rcl_take_request (w_rcl W) n request)) (\<lambda>got. case got of
         None \<Rightarrow> retA None
       | Some (header, msg) \<Rightarrow>
           bindA (getA (\<lambda>r. next_request r + 1)) (\<lambda>k.
           bindA (modA (\<lambda>r. r\<lparr>next_request := k, requests := AList.update (i, k) header (requests r)\<rparr>)) (\<lambda>_.
           bindA (liftA (values_of (w_types W) request msg)) (\<lambda>(j, c).
           retA (Some [EvRequest i k j])))))
   | HPublisher _ _ \<Rightarrow> retA None)"

fun take_up_to :: "nat \<Rightarrow> 'w world \<Rightarrow> int \<times> nat \<Rightarrow> nat \<Rightarrow> handle \<Rightarrow> ('w ros, event list) action" where
  "take_up_to 0 W now i h = retA []"
| "take_up_to (Suc n) W now i h =
     bindA (take_one W now i h) (\<lambda>got. case got of
       None \<Rightarrow> retA []
     | Some evs \<Rightarrow> bindA (take_up_to n W now i h) (\<lambda>more. retA (evs @ more)))"

definition ready :: "nat \<Rightarrow> 'w ros \<Rightarrow> bool outcome" where
  "ready i r = (case waiter r of None \<Rightarrow> Panic | Some w \<Rightarrow> Ok (i \<in> set (ready_set w)))"

fun poll_handles :: "'w world \<Rightarrow> int \<times> nat \<Rightarrow> (nat \<times> handle) list \<Rightarrow> ('w ros, event list) action" where
  "poll_handles W now [] = retA []"
| "poll_handles W now ((i, h) # hs) =
     bindA (getA (ready i)) (\<lambda>rd. bindA (liftA rd) (\<lambda>rd.
     bindA (if rd then take_up_to 32 W now i h else retA []) (\<lambda>evs.
     bindA (poll_handles W now hs) (\<lambda>more. retA (evs @ more)))))"

text \<open>\<^verbatim>\<open>poll\<close> up to the built-in rosapi services. The order in which a hash map is traversed is
  that of the model's table.\<close>

definition ros_poll :: "'w world \<Rightarrow> ('w ros, event list) action" where
  "ros_poll W = bindA (getA (ros_now W)) (\<lambda>now. bindA (getA handles) (\<lambda>hs. poll_handles W now hs))"

definition ros_backend :: "'w world \<Rightarrow> 'w ros backend_ops" where
  "ros_backend W = \<lparr>be_publisher = ros_publisher W, be_subscription = ros_subscription W,
     be_client = ros_client W, be_service = ros_service W, be_publish = ros_publish W,
     be_request = ros_request W, be_validate_response = ros_validate_response W,
     be_respond = ros_respond W, be_discard_request = ros_discard_request, be_destroy = ros_destroy W,
     be_poll = ros_poll W, be_topics = ros_graph W False, be_services = ros_graph W True,
     be_publisher_qos = ros_publisher_qos W, be_now = ros_now W\<rparr>"

section \<open>What the native layer promises\<close>

text \<open>Type descriptions are well formed and loading never aborts; a take fills the memory it is
  given according to its type. Nothing else is relied on: any call may fail at any time.\<close>

definition takes_typed :: "('w, 'a) native \<Rightarrow> ('a \<Rightarrow> bool) \<Rightarrow> bool" where
  "takes_typed m P \<longleftrightarrow> (\<forall>w ret text x w'. m w = ((ret, text, x), w') \<longrightarrow> ret = 0 \<longrightarrow> P x)"

locale native_contract =
  fixes W :: "'w world"
  assumes load: "yields members_wf (ts_load (w_types W) n)"
    and unbase64: "ts_unbase64 (w_types W) s \<noteq> Panic"
    and take_message: "members_wf ty \<Longrightarrow> takes_typed (rcl_take (w_rcl W) h ty) (typed_object ty)"
    and take_response: "members_wf ty \<Longrightarrow> takes_typed (rcl_take_response (w_rcl W) h ty) (\<lambda>(_, d). typed_object ty d)"
    and take_request: "members_wf ty \<Longrightarrow> takes_typed (rcl_take_request (w_rcl W) h ty) (\<lambda>(_, d). typed_object ty d)"

fun handle_wf :: "handle \<Rightarrow> bool" where
  "handle_wf (HPublisher _ ty) = members_wf ty"
| "handle_wf (HSubscription _ ty) = members_wf ty"
| "handle_wf (HClient _ q s) = (members_wf q \<and> members_wf s)"
| "handle_wf (HService _ q s) = (members_wf q \<and> members_wf s)"

text \<open>A consistent backend; what its client holds is everything but the clock.\<close>

definition ros_valid :: "'w ros \<Rightarrow> bool" where
  "ros_valid r \<longleftrightarrow> waiter r \<noteq> None \<and> entries (\<lambda>k h. k \<le> ros_next r \<and> handle_wf h) (handles r) \<and>
     (\<forall>c. clock_subscription r = Some c \<longrightarrow> c \<le> ros_next r)"

definition ros_live :: "'w ros \<Rightarrow> nat set" where
  "ros_live r = set (keys (handles r)) - set_option (clock_subscription r)"

section \<open>Rules\<close>

text \<open>\<open>m\<close> keeps \<open>P\<close>, its result satisfies \<open>Q\<close>, and it does not panic.\<close>

definition ends :: "('s \<Rightarrow> bool) \<Rightarrow> ('a \<Rightarrow> bool) \<Rightarrow> ('s, 'a) action \<Rightarrow> bool" where
  "ends P Q m \<longleftrightarrow> triple P m (\<lambda>a s. P s \<and> Q a) P"

lemma ends_bind: "ends P R m \<Longrightarrow> (\<And>a. R a \<Longrightarrow> ends P Q (f a)) \<Longrightarrow> ends P Q (bindA m f)"
  unfolding ends_def by (rule triple_bind, assumption) (rule triple_assume, simp)

lemma ends_get: "(\<And>s. P s \<Longrightarrow> ends P Q (f (g s))) \<Longrightarrow> ends P Q (bindA (getA g) f)"
  unfolding ends_def triple_def bindA_def getA_def by simp

lemma ends_lift: "r \<noteq> Panic \<Longrightarrow> (\<And>x. r = Ok x \<Longrightarrow> ends P Q (f x)) \<Longrightarrow> ends P Q (bindA (liftA r) f)"
  unfolding ends_def by (cases r) (auto simp: triple_def bindA_def liftA_def errA_def)

lemma ends_mod: "(\<And>s. P s \<Longrightarrow> P (h s)) \<Longrightarrow> ends P Q (f ()) \<Longrightarrow> ends P Q (bindA (modA h) f)"
  unfolding ends_def triple_def bindA_def modA_def by simp

lemma ends_mod_end: "(\<And>s. P s \<Longrightarrow> P (h s)) \<Longrightarrow> Q () \<Longrightarrow> ends P Q (modA h)"
  unfolding ends_def triple_def modA_def by simp

lemma ends_ret: "Q x \<Longrightarrow> ends P Q (retA x)"
  by (simp add: ends_def triple_def retA_def)

lemma ends_err: "ends P Q (errA e)"
  by (simp add: ends_def triple_def errA_def)

lemma ends_if: "(b \<Longrightarrow> ends P Q m) \<Longrightarrow> (\<not> b \<Longrightarrow> ends P Q m') \<Longrightarrow> ends P Q (if b then m else m')"
  by simp

lemma ends_try:
  "ends P R m \<Longrightarrow> (\<And>a. R a \<Longrightarrow> ends P Q (f (Inr a))) \<Longrightarrow> (\<And>e. ends P Q (f (Inl e))) \<Longrightarrow>
   ends P Q (bindA (tryA m) f)"
  unfolding ends_def by (rule bind_try, assumption, rule triple_assume, simp_all)

lemma ends_for: "(\<And>x. x \<in> set xs \<Longrightarrow> ends P (\<lambda>_. True) (f x)) \<Longrightarrow> ends P (\<lambda>_. True) (forA xs f)"
  by (induction xs) (auto intro: ends_bind ends_ret)

lemma ends_mono: "ends P Q m \<Longrightarrow> (\<And>a. Q a \<Longrightarrow> R a) \<Longrightarrow> ends P R m"
  unfolding ends_def triple_def by (fastforce split: outcome.splits)

text \<open>Native calls change nothing else.\<close>

definition native_free :: "('w ros \<Rightarrow> bool) \<Rightarrow> bool" where
  "native_free P \<longleftrightarrow> (\<forall>r w. P r \<longrightarrow> P (r\<lparr>native := w\<rparr>))"

lemma check_no_panic [simp]: "check ret text \<noteq> Panic"
  by (simp add: check_def)

lemma check_Ok: "check ret text = Ok u \<longleftrightarrow> ret = 0"
  by (simp add: check_def)

lemma ends_checked: "native_free P \<Longrightarrow> takes_typed m Q \<Longrightarrow> ends P Q (checked m)"
  unfolding ends_def triple_def checked_def native_free_def takes_typed_def
  by (fastforce simp: bindO_eq_Ok bindO_Panic check_Ok split: prod.splits outcome.splits)

lemma ends_ignored: "native_free P \<Longrightarrow> Q () \<Longrightarrow> ends P Q (ignored m)"
  unfolding ends_def triple_def ignored_def native_free_def by (auto split: prod.splits)

lemma ends_taken:
  "native_free P \<Longrightarrow> takes_typed m Q \<Longrightarrow> ends P (\<lambda>x. case x of None \<Rightarrow> True | Some y \<Rightarrow> Q y) (taken k m)"
  unfolding ends_def triple_def taken_def native_free_def takes_typed_def
  by (fastforce simp: bindO_eq_Ok bindO_Panic check_Ok split: prod.splits outcome.splits if_splits)

lemma takes_any: "takes_typed m (\<lambda>_. True)"
  by (simp add: takes_typed_def)

lemma ends_any: "native_free P \<Longrightarrow> ends P (\<lambda>_. True) (checked m)"
  by (rule ends_checked [OF _ takes_any])

lemmas ends_steps = ends_get ends_lift ends_mod ends_mod_end ends_ret ends_err ends_for

section \<open>The backend keeps the contract\<close>

lemma c_string_no_panic [simp]: "c_string s \<noteq> Panic"
  by (simp add: c_string_def)

text \<open>What the backend holds, at a given moment.\<close>

definition holds :: "nat set \<Rightarrow> 'w ros \<Rightarrow> bool" where
  "holds L r \<longleftrightarrow> ros_valid r \<and> ros_live r = L"

lemma holds_native [simp]: "native_free (holds L)"
  by (simp add: native_free_def holds_def ros_valid_def ros_live_def)

lemma holds_frame [simp]:
  "holds L (r\<lparr>requests := q\<rparr>) = holds L r" "holds L (r\<lparr>next_request := n\<rparr>) = holds L r"
  "holds L (r\<lparr>simulated := t\<rparr>) = holds L r"
  by (simp_all add: holds_def ros_valid_def ros_live_def)

lemma holds_handle: "holds L r \<Longrightarrow> map_of (handles r) i = Some h \<Longrightarrow> handle_wf h"
  by (auto simp: holds_def ros_valid_def dest: entries_lookup)

lemma holds_fun: "holds L = (\<lambda>r. ros_valid r \<and> ros_live r = L)"
  by (simp add: holds_def fun_eq_iff)

lemma keeps_ends: "(\<And>L. ends (holds L) (\<lambda>_. True) m) \<Longrightarrow> keeps ros_valid ros_live m"
  by (simp add: keeps_def ends_def holds_fun)

lemma found_wf:
  "holds L r \<Longrightarrow> map_of (handles r) i = Some (HPublisher h ty) \<Longrightarrow> members_wf ty"
  "holds L r \<Longrightarrow> map_of (handles r) i = Some (HClient h q s) \<Longrightarrow> members_wf q"
  "holds L r \<Longrightarrow> map_of (handles r) i = Some (HService h q s) \<Longrightarrow> members_wf s"
  using holds_handle by fastforce+

lemma holds_delete: "holds L r \<Longrightarrow> holds (L - {e}) (r\<lparr>handles := AList.delete e (handles r)\<rparr>)"
  by (auto simp: holds_def ros_valid_def ros_live_def intro: entries_delete)

lemma holds_absent: "holds L r \<Longrightarrow> map_of (handles r) e = None \<Longrightarrow> L - {e} = L"
  by (auto simp: holds_def ros_live_def map_of_eq_None_iff)

lemma destroys_holds:
  "(\<And>L r. holds L r \<Longrightarrow> \<exists>t. m r = (Ok (), t) \<and> holds (L - {e}) t) \<Longrightarrow> destroys ros_valid ros_live e m"
  unfolding destroys_def triple_def by (auto simp: holds_fun) fastforce

lemma holds_insert:
  "holds L r \<Longrightarrow> handle_wf h \<Longrightarrow> ros_next r + 1 \<notin> L \<and>
   holds (insert (ros_next r + 1) L) (r\<lparr>ros_next := ros_next r + 1, handles := AList.update (ros_next r + 1) h (handles r)\<rparr>)"
  by (fastforce simp: holds_def ros_valid_def ros_live_def entries_def
      dest!: subsetD [OF set_update_subset] split: option.splits)

lemma creates_insert:
  "handle_wf h \<Longrightarrow> triple (holds L) (ros_insert h) (\<lambda>e r. e \<notin> L \<and> holds (insert e L) r) (holds L)"
  unfolding triple_def ros_insert_def Let_def using holds_insert by (auto simp del: AList.update.simps)

lemma creates_bind:
  "ends (holds L) R m \<Longrightarrow> (\<And>a. R a \<Longrightarrow> triple (holds L) (f a) Q (holds L)) \<Longrightarrow> triple (holds L) (bindA m f) Q (holds L)"
  unfolding ends_def by (rule triple_bind, assumption) (rule triple_assume, simp)

lemma creates_lift:
  "r \<noteq> Panic \<Longrightarrow> (\<And>x. r = Ok x \<Longrightarrow> triple P (f x) Q P) \<Longrightarrow> triple P (bindA (liftA r) f) Q P"
  by (rule bind_lift) auto

lemma creates_holds:
  "(\<And>L. triple (holds L) m (\<lambda>e r. e \<notin> L \<and> holds (insert e L) r) (holds L)) \<Longrightarrow> creates ros_valid ros_live m"
  unfolding creates_def holds_def by (auto intro: triple_post)

context native_contract
begin

lemma load_message_ok: "yields members_wf (load_message (w_types W) n)"
  using load by (simp add: load_message_def)

lemma load_service_ok: "yields (\<lambda>(q, s). members_wf q \<and> members_wf s) (load_service W n)"
  unfolding load_service_def yields_bind yields_simps prod.case
  by (intro yields_mono [OF load_message_ok] conjI)

lemma fill_ok: "members_wf ty \<Longrightarrow> fill (w_types W) ty v now \<noteq> Panic"
  unfolding fill_def new_message_def
  by (rule yields_no_panic [OF write_typed(1)]) (simp_all add: unbase64 members_wf_init del: typed_object.simps)

lemma publisher_creates: "creates ros_valid ros_live (ros_publisher W n t q)"
  unfolding ros_publisher_def
  by (intro creates_holds creates_lift creates_bind [OF ends_any] creates_insert)
    (auto simp: yields_Ok [OF load_message_ok] yields_no_panic [OF load_message_ok])

lemma subscription_creates: "creates ros_valid ros_live (ros_subscription W n t q)"
  unfolding ros_subscription_def
  by (intro creates_holds creates_lift creates_bind [OF ends_any] creates_insert)
    (auto simp: yields_Ok [OF load_message_ok] yields_no_panic [OF load_message_ok])

lemma client_creates: "creates ros_valid ros_live (ros_client W n t)"
  unfolding ros_client_def
  by (rule creates_holds creates_lift)+ 
   (auto simp: yields_no_panic [OF load_service_ok] dest: yields_Ok [OF load_service_ok]
     intro!: creates_lift creates_bind [OF ends_any] creates_insert)

lemma service_creates: "creates ros_valid ros_live (ros_service W n t)"
  unfolding ros_service_def
  by (rule creates_holds creates_lift)+ 
   (auto simp: yields_no_panic [OF load_service_ok] dest: yields_Ok [OF load_service_ok]
     intro!: creates_lift creates_bind [OF ends_any] creates_insert)

lemma publish_keeps: "keeps ros_valid ros_live (ros_publish W i v)"
  unfolding ros_publish_def
  by (rule keeps_ends)
    (auto intro!: ends_steps ends_any fill_ok dest: found_wf split: option.split handle.split)

lemma request_keeps: "keeps ros_valid ros_live (ros_request W i v)"
  unfolding ros_request_def
  by (rule keeps_ends)
    (auto intro!: ends_steps ends_any fill_ok dest: found_wf split: option.split handle.split)

lemma validate_keeps: "keeps ros_valid ros_live (ros_validate_response W i v)"
  unfolding ros_validate_response_def
  by (rule keeps_ends)
    (auto intro!: ends_steps ends_any fill_ok dest: found_wf split: option.split handle.split)

lemma respond_ends: "ends (holds L) (\<lambda>_. True) (ros_respond W i n v)"
  unfolding ros_respond_def
  by (auto intro!: ends_steps ends_bind [OF ends_any] fill_ok dest: found_wf split: option.split handle.split)

lemma destroy_holds: "holds L r \<Longrightarrow> \<exists>t. ros_destroy W e r = (Ok (), t) \<and> holds (L - {e}) t"
proof -
  let ?r = "r\<lparr>requests := retain (\<lambda>(e', _) _. e' \<noteq> e) (requests r)\<rparr>"
  assume "holds L r"
  then have r: "holds L ?r" by simp
  show ?thesis
  proof (cases "map_of (handles r) e")
    case None
    then show ?thesis
      using r holds_absent [of L ?r e] by (simp add: ros_destroy_def bindA_def modA_def getA_def retA_def)
  next
    case (Some h)
    obtain x w where w: "fini W h (native r) = (x, w)" by (cases "fini W h (native r)")
    have "holds (L - {e}) (?r\<lparr>handles := AList.delete e (handles ?r), native := w\<rparr>)"
      using holds_delete [OF r, of e] holds_native unfolding native_free_def by fastforce
    then show ?thesis
      using Some w by (simp add: ros_destroy_def bindA_def modA_def getA_def ignored_def)
  qed
qed

lemma destroy_destroys: "destroys ros_valid ros_live e (ros_destroy W e)"
  by (rule destroys_holds) (rule destroy_holds)

lemma graph_ends: "ends (holds L) (\<lambda>_. True) (ros_graph W b)"
  unfolding ros_graph_def by (intro ends_bind [OF ends_any] ends_steps) simp_all

lemma publisher_qos_keeps: "keeps ros_valid ros_live (ros_publisher_qos W n)"
  unfolding ros_publisher_qos_def by (intro keeps_ends ends_lift ends_bind [OF ends_any] ends_steps) simp_all

lemma values_object:
  "members_wf ty \<Longrightarrow> typed_object ty msg \<Longrightarrow> values_of (w_types W) ty msg \<noteq> Panic"
  "members_wf ty \<Longrightarrow> typed_object ty msg \<Longrightarrow> values_of (w_types W) ty msg = Ok (j, c) \<Longrightarrow> is_object j"
  unfolding values_of_def using read_typed(1) [of ty msg "w_types W"] by (auto simp: is_object_def simp del: typed_object.simps read_object.simps)

lemma raw_ends: "ends (holds L) (\<lambda>_. True) (raw_message W ty msg)"
  unfolding raw_message_def
  by (intro ends_bind [OF ends_any] ends_try [OF ends_any]) (auto intro!: ends_steps split: sum.split)

lemma take_one_ends:
  assumes "handle_wf h"
  shows "ends (holds L) (\<lambda>x. case x of None \<Rightarrow> True | Some evs \<Rightarrow> list_all event_ok evs) (take_one W now i h)"
proof (cases h)
  case (HPublisher n ty)
  then show ?thesis by (simp add: take_one_def ends_ret)
next
  case (HSubscription n ty)
  with assms have ty: "members_wf ty" by simp
  show ?thesis
    unfolding take_one_def HSubscription handle.case
    by (rule ends_bind [OF ends_taken [OF holds_native take_message [OF ty]]])
      (auto intro!: ends_steps ends_bind [OF raw_ends] values_object [OF ty]
        simp del: typed_object.simps split: option.splits)
next
  case (HClient n q s)
  with assms have ty: "members_wf s" by simp
  show ?thesis
    unfolding take_one_def HClient handle.case
    by (rule ends_bind [OF ends_taken [OF holds_native take_response [OF ty]]])
      (auto intro!: ends_steps values_object(1) [OF ty] dest: values_object(2) [OF ty]
        simp del: typed_object.simps split: option.splits)
next
  case (HService n q s)
  with assms have ty: "members_wf q" by simp
  show ?thesis
    unfolding take_one_def HService handle.case
    by (rule ends_bind [OF ends_taken [OF holds_native take_request [OF ty]]])
      (auto intro!: ends_steps values_object(1) [OF ty]
        simp del: typed_object.simps split: option.splits)
qed

lemma take_up_to_ends: "handle_wf h \<Longrightarrow> ends (holds L) (list_all event_ok) (take_up_to k W now i h)"
proof (induction k)
  case (Suc k)
  then show ?case
    by (auto intro!: ends_bind [OF take_one_ends] ends_bind [OF Suc.IH] ends_steps split: option.splits)
qed (simp add: ends_ret)

lemma poll_handles_ends:
  "list_all (\<lambda>(i, h). handle_wf h) hs \<Longrightarrow> ends (holds L) (list_all event_ok) (poll_handles W now hs)"
proof (induction hs)
  case (Cons x hs)
  obtain i h where x: "x = (i, h)" by (cases x)
  then have h: "handle_wf h" and hs: "ends (holds L) (list_all event_ok) (poll_handles W now hs)"
    using Cons by auto
  have "ends (holds L) (list_all event_ok) (if b then take_up_to 32 W now i h else retA [])" for b
    using take_up_to_ends [OF h] by (simp add: ends_ret)
  have rd: "holds L s \<Longrightarrow> ready i s \<noteq> Panic" for s
    by (auto simp: ready_def holds_def ros_valid_def)
  have "ends (holds L) (list_all event_ok)
      (bindA (if b then take_up_to 32 W now i h else retA []) (\<lambda>evs. bindA (poll_handles W now hs) (\<lambda>more. retA (evs @ more))))" for b
    by (rule ends_bind [OF \<open>\<And>b. ends _ _ (if b then _ else _)\<close>], rule ends_bind [OF hs], rule ends_ret) simp
  with rd show ?case
    unfolding x poll_handles.simps by (intro ends_get ends_lift) auto
qed (simp add: ends_ret)

lemma poll_ends: "ends (holds L) (list_all event_ok) (ros_poll W)"
  unfolding ros_poll_def
  by (intro ends_get poll_handles_ends)
    (auto simp: holds_def ros_valid_def entries_def list_all_iff)

lemma discard_ends: "ends (holds L) (\<lambda>_. True) (ros_discard_request i n)"
  unfolding ros_discard_request_def by (rule ends_mod_end) simp_all

end

sublocale native_contract \<subseteq> backend_contract "ros_backend W" ros_valid ros_live
proof
  show "finite (ros_live r)" for r
    by (simp add: ros_live_def)
  show "triple ros_valid (be_poll (ros_backend W)) (\<lambda>evs _. list_all event_ok evs) (\<lambda>_. True)"
    using poll_ends unfolding ends_def triple_def holds_def ros_backend_def
    by (fastforce split: outcome.splits prod.splits)
  show "keeps ros_valid ros_live (be_poll (ros_backend W))"
    unfolding ros_backend_def by (simp add: keeps_ends [OF ends_mono [OF poll_ends]])
  show "infallible ros_valid (be_discard_request (ros_backend W) e n)" for e n
    by (simp add: ros_backend_def ros_discard_request_def infallible_def triple_def modA_def)
qed (simp_all add: ros_backend_def publisher_creates subscription_creates client_creates service_creates
    publish_keeps request_keeps validate_keeps destroy_destroys publisher_qos_keeps keeps_ends
    respond_ends graph_ends discard_ends)

end
