(* ===== verification/Graph.thy ===== *)
theory Graph
  imports Ros Access
begin

text \<open>
  \<^verbatim>\<open>src/ros/graph.rs\<close>: the nodes of the ROS graph and what each of them offers, and the record
  of everything that the rosapi services use outside RCL.
\<close>

section \<open>The host\<close>

text \<open>What the rosapi services use besides RCL: further graph calls, the clock, the environment,
  the files that packages install, JSON text, patterns and the parsing of floats.\<close>

record 'w host =
  rcl_node_names :: "('w, string list \<times> string list) native"
  rcutils_strings_fini :: "('w, unit) native"
  rcl_publishers_by_node :: "string \<Rightarrow> string \<Rightarrow> ('w, (string \<times> string list) list) native"
  rcl_subscribers_by_node :: "string \<Rightarrow> string \<Rightarrow> ('w, (string \<times> string list) list) native"
  rcl_services_by_node :: "string \<Rightarrow> string \<Rightarrow> ('w, (string \<times> string list) list) native"
  h_instant :: "'w \<Rightarrow> nat"
  h_distro :: string
  h_prefixes :: "string list"
  h_is_file :: "'w \<Rightarrow> string \<Rightarrow> bool"
  h_read_dir :: "'w \<Rightarrow> string \<Rightarrow> string list option"
  h_read_file :: "'w \<Rightarrow> string \<Rightarrow> error + string"
  h_codec :: codec
  h_globs :: globs
  h_toml :: toml_reader
  h_parse_f64 :: "string \<Rightarrow> error + f64"

section \<open>Names in the graph\<close>

definition public :: "string \<Rightarrow> bool" where
  "public n \<longleftrightarrow> \<not> list_ex (prefix ''_'') (split_char CHR ''/'' n)"

definition trim_end_slash :: "string \<Rightarrow> string" where
  "trim_end_slash s = rev (dropWhile (\<lambda>c. c = CHR ''/'') (rev s))"

definition trim_start_slash :: "string \<Rightarrow> string" where
  "trim_start_slash s = dropWhile (\<lambda>c. c = CHR ''/'') s"

text \<open>\<^verbatim>\<open>s.rsplit_once(c)\<close>\<close>

definition rsplit_once :: "char \<Rightarrow> string \<Rightarrow> (string \<times> string) option" where
  "rsplit_once c s =
     (if c \<in> set s then Some (join [c] (butlast (split_char c s)), last (split_char c s)) else None)"

definition ros_nodes :: "'w host \<Rightarrow> ('w ros, string list) action" where
  "ros_nodes H =
     bindA (checked (rcl_node_names H)) (\<lambda>(names, namespaces).
     bindA (checked (rcutils_strings_fini H)) (\<lambda>_.
     bindA (checked (rcutils_strings_fini H)) (\<lambda>_.
     retA (filter public (map (\<lambda>(n, ns). trim_end_slash ns @ ''/'' @ n) (zip names namespaces))))))"

definition ros_node_graph :: "'w world \<Rightarrow> 'w host \<Rightarrow> string \<Rightarrow> string \<Rightarrow> ('w ros, (string \<times> string list) list) action" where
  "ros_node_graph W H full kind =
     (case rsplit_once CHR ''/'' (CHR ''/'' # trim_start_slash full) of
        None \<Rightarrow> panicA
      | Some (namespace, n) \<Rightarrow>
          bindA (liftA (c_string n)) (\<lambda>_.
          (let ns = (if namespace = [] then ''/'' else namespace) in
           bindA (liftA (c_string ns)) (\<lambda>_.
           bindA (checked (if kind = ''publishers'' then rcl_publishers_by_node H n ns
                           else if kind = ''subscribers'' then rcl_subscribers_by_node H n ns
                           else rcl_services_by_node H n ns)) (\<lambda>names.
           bindA (checked (rcl_names_and_types_fini (w_rcl W))) (\<lambda>_.
           retA (btree (filter (\<lambda>(n, _). public n) names))))))))"

lemma rsplit_once_absolute: "rsplit_once c (c # s) \<noteq> None"
  by (simp add: rsplit_once_def)

end
