(* ===== verification/Definitions.thy ===== *)
theory Definitions
  imports Graph
begin

text \<open>
  \<^verbatim>\<open>src/ros/definitions.rs\<close> and the type descriptions of \<^verbatim>\<open>src/ros/message.rs\<close> (\<open>dependencies\<close>,
  \<open>typedefs\<close>): the files of installed interfaces, their constants, the text of a type with all it
  depends on, and the cache of both.
\<close>

section \<open>Text\<close>

text \<open>\<^verbatim>\<open>str::lines\<close>: a carriage return belongs to the line end only before a newline.\<close>

definition str_lines :: "string \<Rightarrow> string list" where
  "str_lines s =
     (let ps = split_char (CHR 0x0A) s
      in map (\<lambda>l. case strip_suffix [CHR 0x0D] l of Some r \<Rightarrow> r | None \<Rightarrow> l) (butlast ps) @
         (if last ps = [] then [] else [last ps]))"

lemma split_once_shorter: "split_once pat s = Some (a, b) \<Longrightarrow> pat \<noteq> [] \<Longrightarrow> length b < length s"
proof (induction s arbitrary: a)
  case Nil
  then show ?case by (simp add: split_once.simps split: if_splits)
next
  case (Cons c s)
  show ?case
  proof (cases "prefix pat (c # s)")
    case True
    then have "b = drop (length pat) (c # s)" using Cons.prems(1) by (simp add: split_once.simps [of pat "c # s"])
    then show ?thesis using Cons.prems(2) by (cases pat) auto
  next
    case False
    then obtain a' where "split_once pat s = Some (a', b)"
      using Cons.prems(1) by (auto simp: split_once.simps [of pat "c # s"])
    from Cons.IH [OF this Cons.prems(2)] show ?thesis by simp
  qed
qed

function str_split :: "string \<Rightarrow> string \<Rightarrow> string list" where
  "str_split pat s =
     (case if pat = [] then None else split_once pat s of
        None \<Rightarrow> [s] | Some (a, b) \<Rightarrow> a # str_split pat b)"
  by pat_completeness auto
termination
  by (relation "measure (\<lambda>(pat, s). length s)") (auto simp: split_once_shorter split: if_splits)

declare str_split.simps [simp del]

definition str_replace :: "string \<Rightarrow> string \<Rightarrow> string \<Rightarrow> string" where
  "str_replace pat r s = join r (str_split pat s)"

text \<open>\<^verbatim>\<open>split_whitespace\<close>, on the bytes of the text.\<close>

function words_from :: "nat list \<Rightarrow> nat list \<Rightarrow> nat list list" where
  "words_from cur s =
     (case find (\<lambda>w. w \<noteq> [] \<and> prefix w s) ws_encodings of
        Some w \<Rightarrow> (if cur = [] then [] else [rev cur]) @ words_from [] (drop (length w) s)
      | None \<Rightarrow> (case s of
          [] \<Rightarrow> if cur = [] then [] else [rev cur]
        | c # cs \<Rightarrow> words_from (c # cur) cs))"
  by pat_completeness auto
termination
proof (relation "measure (\<lambda>(cur, s). length s)")
  fix cur s w :: "nat list"
  assume "find (\<lambda>w. w \<noteq> [] \<and> prefix w s) ws_encodings = Some w"
  then have "w \<noteq> []" "prefix w s" by (auto simp: find_Some_iff)
  then show "(([], drop (length w) s), (cur, s)) \<in> measure (\<lambda>(cur, s). length s)"
    by (auto simp: prefix_def)
qed simp_all

declare words_from.simps [simp del]

definition split_whitespace :: "string \<Rightarrow> string list" where
  "split_whitespace s = map (map char_of) (words_from [] (map code_of s))"

definition trim_quotes :: "string \<Rightarrow> string" where
  "trim_quotes s =
     (let quote = (\<lambda>c. c = CHR 0x27 \<or> c = CHR 0x22) in rev (dropWhile quote (rev (dropWhile quote s))))"

section \<open>Installed interfaces\<close>

definition join_path :: "string \<Rightarrow> string \<Rightarrow> string" where
  "join_path p r = (if p = [] \<or> last p = CHR ''/'' then p @ r else p @ ''/'' @ r)"

definition interface_path :: "'w host \<Rightarrow> 'w \<Rightarrow> string \<Rightarrow> string outcome" where
  "interface_path H w typ =
     (let parts = split_char CHR ''/'' typ in
      bindO (ensure (length parts = 3 \<and> list_all ident parts) ''invalid interface name'') (\<lambda>_.
      (let rel = ''share/'' @ parts ! 0 @ ''/'' @ parts ! 1 @ ''/'' @ parts ! 2 @ ''.'' @ parts ! 1 in
       context_of (find (h_is_file H w) (map (\<lambda>p. join_path p rel) (h_prefixes H)))
         (''interface source not found: '' @ typ))))"

definition package_interfaces :: "'w host \<Rightarrow> 'w \<Rightarrow> string \<Rightarrow> string \<Rightarrow> string list" where
  "package_interfaces H w dir package =
     (case h_read_file H w (join_path dir package) of
        Inl e \<Rightarrow> []
      | Inr text \<Rightarrow> List.map_filter (\<lambda>line. map_option (\<lambda>(n, _). package @ ''/'' @ n) (rsplit_once CHR ''.'' line)) (str_lines text))"

definition interfaces :: "'w host \<Rightarrow> 'w \<Rightarrow> string list" where
  "interfaces H w =
     keys (btree (map (\<lambda>n. (n, ())) (concat (map (\<lambda>p.
       let dir = join_path p ''share/ament_index/resource_index/rosidl_interfaces'' in
       case h_read_dir H w dir of None \<Rightarrow> [] | Some names \<Rightarrow> concat (map (package_interfaces H w dir) names))
       (h_prefixes H)))))"

section \<open>The text of a definition with its dependencies\<close>

text \<open>A message field without a description of its type would be a null pointer.\<close>

definition dependencies :: "members \<Rightarrow> string list outcome" where
  "dependencies m =
     mapO (\<lambda>f. case f_nested f of Some n \<Rightarrow> Ok (message_name n) | None \<Rightarrow> Panic) (filter (\<lambda>f. f_type f = 18) (m_fields m))"

definition read_text :: "'w host \<Rightarrow> 'w \<Rightarrow> string \<Rightarrow> string outcome" where
  "read_text H w path = (case h_read_file H w path of Inl e \<Rightarrow> Err e | Inr text \<Rightarrow> Ok text)"

definition raw_one :: "typesupport \<Rightarrow> 'w host \<Rightarrow> 'w \<Rightarrow> string \<Rightarrow> (string \<times> string list) outcome" where
  "raw_one T H w current =
     bindO (bindO (interface_path H w current) (read_text H w)) (\<lambda>text.
     bindO (bindO (load_message T current) dependencies) (\<lambda>ds. Ok (text, ds)))"

definition push_new :: "string list \<Rightarrow> string list \<times> string list \<Rightarrow> string list \<times> string list" where
  "push_new ds st = foldl (\<lambda>(stack, seen) d. if d \<in> set seen then (stack, seen) else (d # stack, d # seen)) st ds"

definition raw_heading :: "string \<Rightarrow> string" where
  "raw_heading current =
     [CHR 0x0A] @ replicate 80 CHR ''='' @ [CHR 0x0A] @ ''MSG: '' @ str_replace ''/msg/'' ''/'' current @ [CHR 0x0A]"

partial_function (option) raw_loop ::
  "typesupport \<Rightarrow> 'w host \<Rightarrow> 'w \<Rightarrow> string list \<Rightarrow> string list \<Rightarrow> bool \<Rightarrow> string \<Rightarrow> string outcome option" where
  "raw_loop T H w stack seen first out =
     (case stack of
        [] \<Rightarrow> Some (Ok out)
      | current # rest \<Rightarrow>
          (case raw_one T H w current of
             Ok (text, ds) \<Rightarrow>
               raw_loop T H w (fst (push_new ds (rest, seen))) (snd (push_new ds (rest, seen))) False
                 (out @ (if first then [] else raw_heading current) @ text)
           | Err e \<Rightarrow> Some (Err e)
           | Panic \<Rightarrow> Some Panic))"

text \<open>A loop that does not end is \<open>Panic\<close>, like everything that must not happen.\<close>

definition or_diverge :: "'a outcome option \<Rightarrow> 'a outcome" where
  "or_diverge r = (case r of None \<Rightarrow> Panic | Some x \<Rightarrow> x)"

definition raw_definition :: "typesupport \<Rightarrow> 'w host \<Rightarrow> 'w \<Rightarrow> string \<Rightarrow> string outcome" where
  "raw_definition T H w typ =
     bindO (type_name typ ''msg'') (\<lambda>t. or_diverge (raw_loop T H w [t] [] True []))"

section \<open>Constants\<close>

text \<open>The file of an interface and the section of it that a message is declared in.\<close>

definition base_and_section :: "string \<Rightarrow> string \<Rightarrow> string \<times> nat" where
  "base_and_section kind n =
     (if kind = ''srv'' then
        (case strip_suffix ''_Request'' n of Some b \<Rightarrow> (b, 0) | None \<Rightarrow>
         (case strip_suffix ''_Response'' n of Some b \<Rightarrow> (b, 1) | None \<Rightarrow> (n, 0)))
      else if kind = ''action'' then
        (case strip_suffix ''_Goal'' n of Some b \<Rightarrow> (b, 0) | None \<Rightarrow>
         (case strip_suffix ''_Result'' n of Some b \<Rightarrow> (b, 1) | None \<Rightarrow>
         (case strip_suffix ''_Feedback'' n of Some b \<Rightarrow> (b, 2) | None \<Rightarrow> (n, 0))))
      else (n, 0))"

definition constant_of_line :: "string \<Rightarrow> (string \<times> string) option" where
  "constant_of_line l =
     (let line = trim l in
      if prefix ''#'' line then None
      else (case split_once ''='' line of
          None \<Rightarrow> None
        | Some (field, val) \<Rightarrow>
            (case split_whitespace field of
               [typ, n] \<Rightarrow>
                 Some (n, if typ = ''string'' then trim_quotes (trim val) else trim (hd (split_char CHR ''#'' val)))
             | _ \<Rightarrow> None)))"

definition constants :: "'w host \<Rightarrow> 'w \<Rightarrow> string \<Rightarrow> (string \<times> string) list" where
  "constants H w typ =
     (case split_char CHR ''/'' typ of
        [package, kind, n] \<Rightarrow>
          (case base_and_section kind n of (base, sec) \<Rightarrow>
            (case bindO (interface_path H w (join ''/'' [package, kind, base])) (read_text H w) of
               Ok text \<Rightarrow>
                 (let secs = str_split ([CHR 0x0A] @ ''---'') text;
                      part = (if sec < length secs then secs ! sec else [])
                  in btree (List.map_filter constant_of_line (str_lines part)))
             | _ \<Rightarrow> []))
      | _ \<Rightarrow> [])"

section \<open>Type definitions\<close>

definition type_label :: "nat \<Rightarrow> string option" where
  "type_label t = map_of [(1, ''float''), (2, ''double''), (3, ''long double''), (4, ''uint8''), (5, ''wchar''),
     (6, ''boolean''), (7, ''octet''), (8, ''uint8''), (9, ''int8''), (10, ''uint16''), (11, ''int16''),
     (12, ''uint32''), (13, ''int32''), (14, ''uint64''), (15, ''int64''), (16, ''string''), (17, ''wstring'')] t"

text \<open>The name of the type of a field, and the type it depends on.\<close>

definition field_type :: "member \<Rightarrow> (string \<times> string list) outcome" where
  "field_type f =
     (if f_type f = 18 then
        (case f_nested f of
           None \<Rightarrow> Panic
         | Some m \<Rightarrow> Ok (str_replace ''/msg/'' ''/'' (message_name m), [message_name m]))
      else bindO (context_of (type_label (f_type f)) ''unknown field type'') (\<lambda>l. Ok (l, [])))"

text \<open>\<^verbatim>\<open>field.array_size_ as i64\<close>\<close>

definition array_length_of :: "member \<Rightarrow> int" where
  "array_length_of f =
     (if \<not> f_array f then - 1 else if f_upper f then 0
      else if f_size f < 2 ^ 63 then int (f_size f) else int (f_size f) - 2 ^ 64)"

text \<open>An octet as Python prints it: \<^verbatim>\<open>b'x'\<close>.\<close>

definition octet_example :: "nat \<Rightarrow> string" where
  "octet_example b =
     (let q = CHR 0x27; bs = CHR 0x5C; quoted = (\<lambda>s. CHR ''b'' # q # s @ [q]) in
      if b = 10 then quoted [bs, CHR ''n'']
      else if b = 13 then quoted [bs, CHR ''r'']
      else if b = 9 then quoted [bs, CHR ''t'']
      else if b = 92 then quoted [bs, bs]
      else if b = 39 then [CHR ''b'', CHR 0x22, q, CHR 0x22]
      else if 32 \<le> b \<and> b \<le> 126 then quoted [char_of b]
      else quoted (bs # CHR ''x'' # hex [word_of_nat b]))"

definition field_example :: "'w host \<Rightarrow> json \<Rightarrow> member \<Rightarrow> string" where
  "field_example H defaults f =
     (if f_array f then ''[]''
      else if f_type f = 18 then ''{}''
      else if f_type f = 7 then
        octet_example ((case as_u64 (jix defaults (f_name f)) of None \<Rightarrow> 0 | Some n \<Rightarrow> n) mod 256)
      else (case jix defaults (f_name f) of
          JStr s \<Rightarrow> s
        | JBool b \<Rightarrow> if b then ''True'' else ''False''
        | v \<Rightarrow> json_print (h_codec H) v))"

definition short_name :: "string \<Rightarrow> string" where
  "short_name n = str_replace ''/action/'' ''/'' (str_replace ''/srv/'' ''/'' (str_replace ''/msg/'' ''/'' n))"

definition jstrs :: "string list \<Rightarrow> json" where
  "jstrs ss = JArr (map JStr ss)"

text \<open>The entry of one type and the types it depends on.\<close>

definition typedef_of :: "typesupport \<Rightarrow> 'w host \<Rightarrow> 'w \<Rightarrow> members \<Rightarrow> (json \<times> string list) outcome" where
  "typedef_of T H w m =
     bindO (values_of T m (new_message m)) (\<lambda>(defaults, _).
     (let fs = filter (\<lambda>f. f_name f \<noteq> ''structure_needs_at_least_one_member'') (m_fields m) in
      bindO (mapO field_type fs) (\<lambda>types.
      (let consts = constants H w (message_name m) in
       Ok (JObj [(''type'', JStr (short_name (message_name m))),
             (''fieldnames'', jstrs (map f_name fs)), (''fieldtypes'', jstrs (map fst types)),
             (''fieldarraylen'', JArr (map (\<lambda>f. jint (array_length_of f)) fs)),
             (''examples'', jstrs (map (field_example H defaults) fs)),
             (''constnames'', jstrs (keys consts)), (''constvalues'', jstrs (vals consts))],
           concat (map snd types))))))"

text \<open>\<^verbatim>\<open>visit\<close> for each of a list of dependencies in turn, with the names seen and the entries
  made so far.\<close>

partial_function (option) visit_deps ::
  "typesupport \<Rightarrow> 'w host \<Rightarrow> 'w \<Rightarrow> string list \<Rightarrow> string list \<Rightarrow> json list \<Rightarrow> (string list \<times> json list) outcome option" where
  "visit_deps T H w ds seen res =
     (case ds of
        [] \<Rightarrow> Some (Ok (seen, res))
      | d # ds \<Rightarrow>
          (case load_message T d of
             Err e \<Rightarrow> Some (Err e)
           | Panic \<Rightarrow> Some Panic
           | Ok m \<Rightarrow>
               if message_name m \<in> set seen then visit_deps T H w ds seen res
               else (case typedef_of T H w m of
                   Err e \<Rightarrow> Some (Err e)
                 | Panic \<Rightarrow> Some Panic
                 | Ok (entry, own_deps) \<Rightarrow>
                     Option.bind (visit_deps T H w own_deps (message_name m # seen) (res @ [entry])) (\<lambda>r. case r of
                       Ok (seen', res') \<Rightarrow> visit_deps T H w ds seen' res'
                     | Err e \<Rightarrow> Some (Err e)
                     | Panic \<Rightarrow> Some Panic))))"

definition typedefs :: "typesupport \<Rightarrow> 'w host \<Rightarrow> 'w \<Rightarrow> members \<Rightarrow> json outcome" where
  "typedefs T H w m =
     bindO (typedef_of T H w m) (\<lambda>(entry, own_deps).
     bindO (or_diverge (visit_deps T H w own_deps [message_name m] [entry])) (\<lambda>(_, res). Ok (JArr res)))"

section \<open>The cache\<close>

record definitions =
  raw_cache :: "(string \<times> string) list"
  detail_cache :: "(string \<times> json) list"

definition no_definitions :: definitions where
  "no_definitions = \<lparr>raw_cache = [], detail_cache = []\<rparr>"

definition definitions_raw :: "typesupport \<Rightarrow> 'w host \<Rightarrow> 'w \<Rightarrow> string \<Rightarrow> (definitions, string) action" where
  "definitions_raw T H w typ =
     bindA (getA (\<lambda>d. map_of (raw_cache d) typ)) (\<lambda>found. case found of
       Some text \<Rightarrow> retA text
     | None \<Rightarrow>
         bindA (liftA (case raw_definition T H w typ of
             Err e \<Rightarrow> Ok (''# failed to get full definition text for '' @ typ @ '': '' @ e)
           | r \<Rightarrow> r)) (\<lambda>text.
         bindA (modA (\<lambda>d. d\<lparr>raw_cache := btree_insert typ text (raw_cache d)\<rparr>)) (\<lambda>_. retA text)))"

definition definitions_details :: "typesupport \<Rightarrow> 'w host \<Rightarrow> 'w \<Rightarrow> string \<Rightarrow> (definitions, json) action" where
  "definitions_details T H w typ =
     bindA (getA (\<lambda>d. map_of (detail_cache d) typ)) (\<lambda>found. case found of
       Some v \<Rightarrow> retA v
     | None \<Rightarrow>
         bindA (liftA (case bindO (load_message T typ) (typedefs T H w) of Err e \<Rightarrow> Ok (JArr []) | r \<Rightarrow> r)) (\<lambda>v.
         bindA (modA (\<lambda>d. d\<lparr>detail_cache := btree_insert typ v (detail_cache d)\<rparr>)) (\<lambda>_. retA v)))"

end
