(* ===== verification/Rosapi.thy ===== *)
theory Rosapi
  imports Definitions
begin

text \<open>
  \<^verbatim>\<open>src/ros/api.rs\<close> and \<^verbatim>\<open>src/ros/parameters.rs\<close>: the built-in rosapi services, and \<^verbatim>\<open>Ros\<close> with
  them (\<open>enable_rosapi\<close> and the end of \<open>poll\<close> in \<^verbatim>\<open>src/ros/mod.rs\<close>).
\<close>

section \<open>State\<close>

record pending_call =
  pc_group :: nat
  pc_node :: string
  pc_delete_check :: bool

record param_group =
  pg_service :: nat
  pg_request :: nat
  pg_op :: string
  pg_args :: json
  pg_remaining :: nat
  pg_names :: "string list"
  pg_deadline :: nat

record api =
  operations :: "(nat \<times> string) list"
  api_definitions :: definitions
  api_pending :: "((nat \<times> int) \<times> pending_call) list"
  api_groups :: "(nat \<times> param_group) list"
  api_config :: access
  api_timeout :: nat

text \<open>The backend together with the services, while these work; and the backend as a whole.\<close>

record 'w served =
  sv_ros :: "'w ros"
  sv_api :: api

record 'w node =
  node_ros :: "'w ros"
  node_api :: "api option"

definition SERVICES :: "(string \<times> string) list" where
  "SERVICES =
     [(''topics'', ''Topics''), (''interfaces'', ''Interfaces''), (''topics_for_type'', ''TopicsForType''),
      (''topics_and_raw_types'', ''TopicsAndRawTypes''), (''services'', ''Services''),
      (''services_for_type'', ''ServicesForType''), (''nodes'', ''Nodes''), (''node_details'', ''NodeDetails''),
      (''action_servers'', ''GetActionServers''), (''action_type'', ''ActionType''), (''topic_type'', ''TopicType''),
      (''service_type'', ''ServiceType''), (''publishers'', ''Publishers''), (''subscribers'', ''Subscribers''),
      (''service_providers'', ''ServiceProviders''), (''service_node'', ''ServiceNode''),
      (''message_details'', ''MessageDetails''), (''service_request_details'', ''ServiceRequestDetails''),
      (''service_response_details'', ''ServiceResponseDetails''), (''action_goal_details'', ''ActionGoalDetails''),
      (''action_result_details'', ''ActionResultDetails''), (''action_feedback_details'', ''ActionFeedbackDetails''),
      (''set_param'', ''SetParam''), (''get_param'', ''GetParam''), (''has_param'', ''HasParam''),
      (''delete_param'', ''DeleteParam''), (''get_param_names'', ''GetParamNames''), (''get_time'', ''GetTime''),
      (''get_ros_version'', ''GetROSVersion'')]"

definition onR :: "('w ros, 'a) action \<Rightarrow> ('w served, 'a) action" where
  "onR m s = (case m (sv_ros s) of (res, r) \<Rightarrow> (res, s\<lparr>sv_ros := r\<rparr>))"

definition getApi :: "(api \<Rightarrow> 'a) \<Rightarrow> ('w served, 'a) action" where
  "getApi f = getA (\<lambda>s. f (sv_api s))"

definition modApi :: "(api \<Rightarrow> api) \<Rightarrow> ('w served, unit) action" where
  "modApi f = modA (\<lambda>s. s\<lparr>sv_api := f (sv_api s)\<rparr>)"

definition cached :: "('w \<Rightarrow> (definitions, 'a) action) \<Rightarrow> ('w served, 'a) action" where
  "cached f s =
     (case f (native (sv_ros s)) (api_definitions (sv_api s)) of
        (res, d) \<Rightarrow> (res, s\<lparr>sv_api := (sv_api s)\<lparr>api_definitions := d\<rparr>\<rparr>))"

fun mapA :: "('a \<Rightarrow> ('s, 'b) action) \<Rightarrow> 'a list \<Rightarrow> ('s, 'b list) action" where
  "mapA f [] = retA []"
| "mapA f (x # xs) = bindA (f x) (\<lambda>y. bindA (mapA f xs) (\<lambda>ys. retA (y # ys)))"

text \<open>\<^verbatim>\<open>v[key].as_str().unwrap_or("")\<close>\<close>

definition text_of :: "json \<Rightarrow> string \<Rightarrow> string" where
  "text_of v key = (case as_str (jix v key) of None \<Rightarrow> [] | Some s \<Rightarrow> s)"

definition first_of :: "'a list \<Rightarrow> 'a option" where
  "first_of xs = (case xs of [] \<Rightarrow> None | x # _ \<Rightarrow> Some x)"

section \<open>Parameter values\<close>

definition parameter_json :: "json \<Rightarrow> json" where
  "parameter_json v =
     (case map_of [(1 :: nat, ''bool_value''), (2, ''integer_value''), (3, ''double_value''), (4, ''string_value''),
          (5, ''byte_array_value''), (6, ''bool_array_value''), (7, ''integer_array_value''),
          (8, ''double_array_value''), (9, ''string_array_value'')]
        (case as_u64 (jix v ''type'') of None \<Rightarrow> 0 | Some t \<Rightarrow> t) of
        None \<Rightarrow> JNull | Some field \<Rightarrow> jix v field)"

definition typed_value :: "nat \<Rightarrow> string \<Rightarrow> json \<Rightarrow> json" where
  "typed_value t field v = JObj [(''type'', jnat t), (field, v)]"

definition parameter_value :: "json \<Rightarrow> json outcome" where
  "parameter_value v =
     (case v of
        JNull \<Rightarrow> Ok (JObj [(''type'', jnat 0)])
      | JBool _ \<Rightarrow> Ok (typed_value 1 ''bool_value'' v)
      | JNum _ \<Rightarrow> Ok (if as_i64 v \<noteq> None then typed_value 2 ''integer_value'' v else typed_value 3 ''double_value'' v)
      | JStr _ \<Rightarrow> Ok (typed_value 4 ''string_value'' v)
      | JArr xs \<Rightarrow>
          if list_all (\<lambda>x. as_bool x \<noteq> None) xs then Ok (typed_value 6 ''bool_array_value'' v)
          else if list_all (\<lambda>x. as_i64 x \<noteq> None) xs then Ok (typed_value 7 ''integer_array_value'' v)
          else if list_all (\<lambda>x. as_f64 x \<noteq> None) xs then Ok (typed_value 8 ''double_array_value'' v)
          else if list_all (\<lambda>x. as_str x \<noteq> None) xs then Ok (typed_value 9 ''string_array_value'' v)
          else Err ''parameter value must be a scalar or homogeneous array''
      | JObj _ \<Rightarrow> Err ''parameter value must be a scalar or homogeneous array'')"

section \<open>Answering a parameter request\<close>

definition flagged :: "bool \<Rightarrow> (string \<times> json) list \<Rightarrow> error option \<Rightarrow> json" where
  "flagged humble kvs err =
     (if humble then JObj kvs
      else JObj (kvs @ [(''successful'', JBool (err = None)),
                           (''reason'', JStr (case err of None \<Rightarrow> [] | Some e \<Rightarrow> e))]))"

definition parameter_reply :: "'w host \<Rightarrow> bool \<Rightarrow> param_group \<Rightarrow> json option \<Rightarrow> error option \<Rightarrow> json" where
  "parameter_reply H humble g val err =
     (if pg_op g = ''get_param_names'' then JObj [(''names'', jstrs (pg_names g))]
      else if pg_op g = ''has_param'' then
        JObj [(''exists'', JBool (err = None \<and> (case val of None \<Rightarrow> False
          | Some v \<Rightarrow> (case as_u64 (jix v ''type'') of None \<Rightarrow> False | Some t \<Rightarrow> 1 \<le> t \<and> t \<le> 9))))]
      else if pg_op g = ''get_param'' then
        (let default_val = (case json_parse (h_codec H) (text_of (pg_args g) ''default_value'') of Ok v \<Rightarrow> v | _ \<Rightarrow> JStr []);
             result = (if err = None then (case val of None \<Rightarrow> default_val | Some v \<Rightarrow> parameter_json v) else default_val)
         in flagged humble [(''value'', JStr (json_print (h_codec H) result))] err)
      else flagged humble [] err)"

definition finish_request :: "'w world \<Rightarrow> 'w host \<Rightarrow> nat \<Rightarrow> json option \<Rightarrow> error option \<Rightarrow> ('w served, unit) action" where
  "finish_request W H i val err =
     bindA (getApi (\<lambda>a. map_of (api_groups a) i)) (\<lambda>found.
     bindA (liftA (context_of found ''missing parameter request'')) (\<lambda>g.
     bindA (modApi (\<lambda>a. a\<lparr>api_groups := AList.delete i (api_groups a)\<rparr>)) (\<lambda>_.
     bindA (getApi (\<lambda>a. keys (retain (\<lambda>_ p. pc_group p = i) (api_pending a)))) (\<lambda>clients.
     bindA (forA clients (\<lambda>k.
       bindA (modApi (\<lambda>a. a\<lparr>api_pending := AList.delete k (api_pending a)\<rparr>)) (\<lambda>_. onR (ros_destroy W (fst k))))) (\<lambda>_.
     onR (ros_respond W (pg_service g) (pg_request g) (parameter_reply H (w_humble W) g val err)))))))"

section \<open>Asking the nodes\<close>

text \<open>The calls of a request: node, service, type and payload of each.\<close>

type_synonym node_call = "string \<times> string \<times> string \<times> json"

definition parameter_calls :: "'w world \<Rightarrow> 'w host \<Rightarrow> string \<Rightarrow> json \<Rightarrow> ('w served, node_call list) action" where
  "parameter_calls W H op args =
     bindA (onR (ros_graph W True)) (\<lambda>graph.
     if op = ''get_param_names'' then
       bindA (onR (ros_nodes H)) (\<lambda>nodes.
       retA (map (\<lambda>n. (n, n @ ''/list_parameters'', ''ListParameters'', JObj [(''prefixes'', JArr []), (''depth'', jnat 0)]))
         (filter (\<lambda>n. has graph (n @ ''/list_parameters'')) nodes)))
     else
       bindA (liftA (context_of (split_once '':'' (text_of args ''name'')) ''expected <node_name>:<param_name>'')) (\<lambda>(n, name).
       bindA (getApi (\<lambda>a. params (api_config a))) (\<lambda>allowed.
       bindA (liftA (ensure (matches (h_globs H) allowed name)
         (''Parameter '' @ name @ '' does not match any of the glob strings''))) (\<lambda>_.
       (let nd = CHR ''/'' # trim_start_slash n in
        bindA (if op = ''get_param'' \<or> op = ''has_param'' \<or> op = ''delete_param''
            then retA (''get_parameters'', ''GetParameters'', JObj [(''names'', jstrs [name])])
            else bindA (liftA (json_parse (h_codec H) (text_of args ''value''))) (\<lambda>v.
              bindA (liftA (parameter_value v)) (\<lambda>pv.
              retA (''set_parameters'', ''SetParameters'',
                JObj [(''parameters'', JArr [JObj [(''name'', JStr name), (''value'', pv)]])])))) (\<lambda>(method, typ, payload).
        (let srv = nd @ ''/'' @ method in
         bindA (liftA (ensure (has graph srv) (''Service '' @ srv @ '' is not available''))) (\<lambda>_.
         retA [(nd, srv, typ, payload)]))))))))"

text \<open>A client for one call; a request that cannot be sent gives its client back.\<close>

definition call_node :: "'w world \<Rightarrow> string \<Rightarrow> string \<Rightarrow> json \<Rightarrow> ('w served, nat \<times> int) action" where
  "call_node W srv typ payload =
     bindA (onR (ros_client W srv (''rcl_interfaces/srv/'' @ typ))) (\<lambda>e.
     bindA (tryA (onR (ros_request W e payload))) (\<lambda>sent. case sent of
       Inl err \<Rightarrow> bindA (onR (ros_destroy W e)) (\<lambda>_. errA err)
     | Inr n \<Rightarrow> retA (e, n)))"

definition put_pending :: "nat \<times> int \<Rightarrow> pending_call \<Rightarrow> ('w served, unit) action" where
  "put_pending k p = modApi (\<lambda>a. a\<lparr>api_pending := AList.update k p (api_pending a)\<rparr>)"

text \<open>\<^verbatim>\<open>self.groups.get_mut(&id).unwrap()\<close>\<close>

definition the_group :: "nat \<Rightarrow> ('w served, param_group) action" where
  "the_group i = bindA (getApi (\<lambda>a. map_of (api_groups a) i)) (\<lambda>found. case found of None \<Rightarrow> panicA | Some g \<Rightarrow> retA g)"

definition put_group :: "nat \<Rightarrow> param_group \<Rightarrow> ('w served, unit) action" where
  "put_group i g = modApi (\<lambda>a. a\<lparr>api_groups := AList.update i g (api_groups a)\<rparr>)"

definition start_call :: "'w world \<Rightarrow> nat \<Rightarrow> string \<Rightarrow> node_call \<Rightarrow> ('w served, unit) action" where
  "start_call W i op c =
     (case c of (nd, srv, typ, payload) \<Rightarrow>
       bindA (call_node W srv typ payload) (\<lambda>k.
       bindA (put_pending k \<lparr>pc_group = i, pc_node = nd, pc_delete_check = (op = ''delete_param'')\<rparr>) (\<lambda>_.
       bindA (the_group i) (\<lambda>g. put_group i (g\<lparr>pg_remaining := pg_remaining g + 1\<rparr>)))))"

definition parameter_request :: "'w world \<Rightarrow> 'w host \<Rightarrow> nat \<Rightarrow> nat \<Rightarrow> string \<Rightarrow> json \<Rightarrow> ('w served, unit) action" where
  "parameter_request W H srv i op args =
     bindA (getA (\<lambda>s. instant_add (h_instant H (native (sv_ros s))) (api_timeout (sv_api s)))) (\<lambda>deadline.
     bindA (liftA deadline) (\<lambda>deadline.
     bindA (put_group i \<lparr>pg_service = srv, pg_request = i, pg_op = op, pg_args = args, pg_remaining = 0,
        pg_names = [], pg_deadline = deadline\<rparr>) (\<lambda>_.
     bindA (tryA (bindA (parameter_calls W H op args) (\<lambda>cs. forA cs (start_call W i op)))) (\<lambda>result.
     case result of
       Inl e \<Rightarrow> finish_request W H i None (Some e)
     | Inr _ \<Rightarrow> bindA (the_group i) (\<lambda>g. if pg_remaining g = 0 then finish_request W H i None None else retA ())))))"

text \<open>An answer of a node. The group is looked up again only where its mutable borrow is used.\<close>

definition parameter_response :: "'w world \<Rightarrow> 'w host \<Rightarrow> pending_call \<Rightarrow> json \<Rightarrow> ('w served, unit) action" where
  "parameter_response W H p answer =
     (let i = pc_group p in
      bindA (the_group i) (\<lambda>g.
      if pg_remaining g = 0 then panicA
      else
        (let g = g\<lparr>pg_remaining := pg_remaining g - 1\<rparr> in
         bindA (put_group i g) (\<lambda>_.
         if pc_delete_check p then
           (if \<not> (case Option.bind (as_array (jix answer ''values'')) first_of of
                  None \<Rightarrow> False
                | Some v \<Rightarrow> (case as_u64 (jix v ''type'') of None \<Rightarrow> False | Some t \<Rightarrow> t > 0))
            then finish_request W H i None None
            else (case split_once '':'' (text_of (pg_args g) ''name'') of
                None \<Rightarrow> panicA
              | Some (_, name) \<Rightarrow>
                  bindA (onR (ros_client W (pc_node p @ ''/set_parameters'') ''rcl_interfaces/srv/SetParameters'')) (\<lambda>e.
                  bindA (tryA (onR (ros_request W e
                    (JObj [(''parameters'', JArr [JObj [(''name'', JStr name), (''value'', JObj [(''type'', jnat 0)])]])])))) (\<lambda>sent.
                  case sent of
                    Inl err \<Rightarrow> bindA (onR (ros_destroy W e)) (\<lambda>_. finish_request W H i None (Some err))
                  | Inr n \<Rightarrow>
                      bindA (put_group i (g\<lparr>pg_remaining := pg_remaining g + 1\<rparr>)) (\<lambda>_.
                      put_pending (e, n) (p\<lparr>pc_delete_check := False\<rparr>))))))
         else if pg_op g = ''get_param_names'' then
           bindA (getApi (\<lambda>a. params (api_config a))) (\<lambda>allowed.
           (let g = (case as_array (jix (jix answer ''result'') ''names'') of
                 None \<Rightarrow> g
               | Some names \<Rightarrow> g\<lparr>pg_names := pg_names g @ map (\<lambda>n. pc_node p @ '':'' @ n)
                   (filter (matches (h_globs H) allowed) (List.map_filter as_str names))\<rparr>) in
            bindA (put_group i g) (\<lambda>_.
            if pg_remaining g = 0 then finish_request W H i None None else retA ())))
         else if pg_op g = ''get_param'' \<or> pg_op g = ''has_param'' then
           (let val = Option.bind (as_array (jix answer ''values'')) first_of;
                missing = (case val of None \<Rightarrow> True | Some v \<Rightarrow> as_i64 (jix v ''type'') = Some 0)
            in finish_request W H i val (if missing then Some ''Parameter not found'' else None))
         else
           (let result = jat (jix answer ''results'') 0
            in finish_request W H i None
                 (if as_bool (jix result ''successful'') = Some True then None else Some (text_of result ''reason'')))))))"

section \<open>Answering a request\<close>

definition topic_visible :: "'w host \<Rightarrow> access \<Rightarrow> string \<Rightarrow> bool" where
  "topic_visible H a n \<longleftrightarrow>
     public n \<and> (matches (h_globs H) (pub_topics a) n \<or> matches (h_globs H) (sub_topics a) n)"

definition topics_reply :: "'w world \<Rightarrow> 'w host \<Rightarrow> string \<Rightarrow> json \<Rightarrow> ('w served, json) action" where
  "topics_reply W H op args =
     bindA (onR (ros_graph W False)) (\<lambda>graph.
     bindA (getApi api_config) (\<lambda>a.
     (let pairs = List.map_filter (\<lambda>(n, types). map_option (Pair n) (first_of types))
        (filter (\<lambda>(n, _). topic_visible H a n) graph) in
      if op = ''topics_for_type'' then
        retA (JObj [(''topics'', jstrs (map fst (filter (\<lambda>(_, t). t = text_of args ''type'') pairs)))])
      else if op = ''topic_type'' then
        retA (JObj [(''type'', JStr (case find (\<lambda>(n, _). n = text_of args ''topic'') pairs of None \<Rightarrow> [] | Some (_, t) \<Rightarrow> t))])
      else if op = ''topics_and_raw_types'' then
        bindA (mapA (\<lambda>(_, t). cached (\<lambda>w. definitions_raw (w_types W) H w t)) pairs) (\<lambda>texts.
        retA (JObj [(''topics'', jstrs (map fst pairs)), (''types'', jstrs (map snd pairs)),
          (''typedefs_full_text'', jstrs texts)]))
      else retA (JObj [(''topics'', jstrs (map fst pairs)), (''types'', jstrs (map snd pairs))]))))"

definition services_reply :: "'w world \<Rightarrow> 'w host \<Rightarrow> string \<Rightarrow> json \<Rightarrow> ('w served, json) action" where
  "services_reply W H op args =
     bindA (onR (ros_graph W True)) (\<lambda>graph.
     bindA (getApi api_config) (\<lambda>a.
     (let visible = (\<lambda>n. public n \<and> matches (h_globs H) (services a) n) in
      if op = ''service_type'' then
        (let n = text_of args ''service'' in
         retA (JObj [(''type'', JStr (if visible n then
           (case Option.bind (map_of graph n) first_of of None \<Rightarrow> [] | Some t \<Rightarrow> t) else []))]))
      else
        retA (JObj [(''services'', jstrs (map fst (filter (\<lambda>(n, types). visible n \<and>
          (op = ''services'' \<or> first_of types = Some (text_of args ''type''))) graph)))]))))"

definition node_details_reply :: "'w world \<Rightarrow> 'w host \<Rightarrow> json \<Rightarrow> ('w served, json) action" where
  "node_details_reply W H args =
     (let n = text_of args ''node'' in
      bindA (onR (ros_node_graph W H n ''subscribers'')) (\<lambda>subs.
      bindA (onR (ros_node_graph W H n ''publishers'')) (\<lambda>pubs.
      bindA (onR (ros_node_graph W H n ''services'')) (\<lambda>srvs.
      retA (JObj [(''subscribing'', jstrs (keys subs)), (''publishing'', jstrs (keys pubs)), (''services'', jstrs (keys srvs))])))))"

text \<open>The nodes that offer something; nodes may disappear meanwhile.\<close>

fun nodes_with :: "'w world \<Rightarrow> 'w host \<Rightarrow> string \<Rightarrow> string \<Rightarrow> string list \<Rightarrow> ('w served, string list) action" where
  "nodes_with W H op query [] = retA []"
| "nodes_with W H op query (n # ns) =
     bindA (tryA (onR (ros_node_graph W H n op))) (\<lambda>graph.
     bindA (nodes_with W H op query ns) (\<lambda>more.
     retA (case graph of
         Inl _ \<Rightarrow> more
       | Inr g \<Rightarrow>
           if (if op = ''service_providers'' then list_ex (list_ex (\<lambda>t. t = query)) (vals g) else has g query)
           then n # more else more)))"

definition providers_reply :: "'w world \<Rightarrow> 'w host \<Rightarrow> string \<Rightarrow> json \<Rightarrow> ('w served, json) action" where
  "providers_reply W H op args =
     bindA (getApi api_config) (\<lambda>a.
     (let query = text_of args (if op = ''publishers'' \<or> op = ''subscribers'' then ''topic'' else ''service'');
          patterns = (if op = ''publishers'' then pub_topics a else if op = ''subscribers'' then sub_topics a else services a)
      in bindA (if matches (h_globs H) patterns query
                then bindA (onR (ros_nodes H)) (nodes_with W H op query) else retA []) (\<lambda>names.
         retA (if op = ''service_node'' then JObj [(''node'', JStr (case first_of names of None \<Rightarrow> [] | Some n \<Rightarrow> n))]
               else if op = ''service_providers'' then JObj [(''providers'', jstrs names)]
               else JObj [(op, jstrs names)]))))"

definition action_servers_reply :: "'w world \<Rightarrow> 'w host \<Rightarrow> ('w served, json) action" where
  "action_servers_reply W H =
     bindA (onR (ros_graph W False)) (\<lambda>graph.
     bindA (getApi api_config) (\<lambda>a.
     retA (JObj [(''action_servers'', jstrs (filter (\<lambda>n. has graph (n @ ''/_action/status'') \<and>
         (matches (h_globs H) (pub_topics a) n \<or> matches (h_globs H) (sub_topics a) n))
       (List.map_filter (strip_suffix ''/_action/feedback'') (keys graph))))])))"

definition action_type_reply :: "'w world \<Rightarrow> json \<Rightarrow> ('w served, json) action" where
  "action_type_reply W args =
     bindA (onR (ros_graph W True)) (\<lambda>graph.
     retA (JObj [(''type'', JStr (case Option.bind (Option.bind (map_of graph (text_of args ''action'' @ ''/_action/send_goal''))
       first_of) (strip_suffix ''_SendGoal'') of None \<Rightarrow> [] | Some t \<Rightarrow> t))]))"

definition details_kind :: "string \<Rightarrow> (string \<times> string) option" where
  "details_kind op = map_of
     [(''message_details'', (''msg'', [])), (''service_request_details'', (''srv'', ''_Request'')),
      (''service_response_details'', (''srv'', ''_Response'')), (''action_goal_details'', (''action'', ''_Goal'')),
      (''action_result_details'', (''action'', ''_Result'')), (''action_feedback_details'', (''action'', ''_Feedback''))] op"

definition details_reply :: "'w world \<Rightarrow> 'w host \<Rightarrow> string \<Rightarrow> string \<Rightarrow> json \<Rightarrow> ('w served, json) action" where
  "details_reply W H kind suf args =
     bindA (case type_name (text_of args ''type'') kind of
         Ok t \<Rightarrow> cached (\<lambda>w. definitions_details (w_types W) H w (t @ suf))
       | Err _ \<Rightarrow> retA (JArr [])
       | Panic \<Rightarrow> panicA) (\<lambda>details.
     retA (JObj [(''typedefs'', details)]))"

definition api_reply_value :: "'w world \<Rightarrow> 'w host \<Rightarrow> string \<Rightarrow> json \<Rightarrow> ('w served, json) action" where
  "api_reply_value W H op args =
     (if op \<in> {''topics'', ''topics_and_raw_types'', ''topics_for_type'', ''topic_type''} then topics_reply W H op args
      else if op = ''interfaces'' then
        bindA (getA (\<lambda>s. interfaces H (native (sv_ros s)))) (\<lambda>names. retA (JObj [(''interfaces'', jstrs names)]))
      else if op \<in> {''services'', ''services_for_type'', ''service_type''} then services_reply W H op args
      else if op = ''nodes'' then bindA (onR (ros_nodes H)) (\<lambda>ns. retA (JObj [(''nodes'', jstrs ns)]))
      else if op = ''node_details'' then node_details_reply W H args
      else if op \<in> {''publishers'', ''subscribers'', ''service_node'', ''service_providers''} then providers_reply W H op args
      else if op = ''action_servers'' then action_servers_reply W H
      else if op = ''action_type'' then action_type_reply W args
      else (case details_kind op of
          Some (kind, suf) \<Rightarrow> details_reply W H kind suf args
        | None \<Rightarrow>
            if op = ''get_time'' then
              bindA (getA (\<lambda>s. ros_now W (sv_ros s))) (\<lambda>(sec, nanosec).
              retA (JObj [(''time'', JObj [(''sec'', jint sec), (''nanosec'', jnat nanosec)])]))
            else if op = ''get_ros_version'' then
              retA (JObj [(''version'', jnat 2), (''distro'', JStr (h_distro H))])
            else errA (''unknown rosapi operation '' @ op)))"

definition api_reply :: "'w world \<Rightarrow> 'w host \<Rightarrow> nat \<Rightarrow> nat \<Rightarrow> string \<Rightarrow> json \<Rightarrow> ('w served, unit) action" where
  "api_reply W H e i op args =
     (if op \<in> {''get_param'', ''set_param'', ''has_param'', ''delete_param'', ''get_param_names''}
      then parameter_request W H e i op args
      else bindA (api_reply_value W H op args) (\<lambda>v. onR (ros_respond W e i v)))"

section \<open>Processing events\<close>

text \<open>An event is consumed, or passed on to the caller of \<^verbatim>\<open>poll\<close>.\<close>

definition process_one :: "'w world \<Rightarrow> 'w host \<Rightarrow> event \<Rightarrow> ('w served, event list) action" where
  "process_one W H ev =
     (case ev of
        EvRequest e i args \<Rightarrow>
          bindA (getApi (\<lambda>a. map_of (operations a) e)) (\<lambda>op. case op of
            None \<Rightarrow> retA [ev]
          | Some op \<Rightarrow>
              bindA (tryA (api_reply W H e i op args)) (\<lambda>answered. case answered of
                Inl _ \<Rightarrow> bindA (onR (ros_discard_request e i)) (\<lambda>_. retA [])
              | Inr _ \<Rightarrow> retA []))
      | EvResponse e n answer \<Rightarrow>
          bindA (getApi (\<lambda>a. map_of (api_pending a) (e, n))) (\<lambda>found. case found of
            None \<Rightarrow> retA [ev]
          | Some p \<Rightarrow>
              bindA (modApi (\<lambda>a. a\<lparr>api_pending := AList.delete (e, n) (api_pending a)\<rparr>)) (\<lambda>_.
              bindA (onR (ros_destroy W e)) (\<lambda>_.
              bindA (parameter_response W H p answer) (\<lambda>_. retA []))))
      | EvMessage e m \<Rightarrow> retA [ev])"

fun process_events :: "'w world \<Rightarrow> 'w host \<Rightarrow> event list \<Rightarrow> ('w served, event list) action" where
  "process_events W H [] = retA []"
| "process_events W H (ev # evs) =
     bindA (process_one W H ev) (\<lambda>out. bindA (process_events W H evs) (\<lambda>more. retA (out @ more)))"

definition process :: "'w world \<Rightarrow> 'w host \<Rightarrow> event list \<Rightarrow> ('w served, event list) action" where
  "process W H evs =
     bindA (process_events W H evs) (\<lambda>output.
     bindA (getA (\<lambda>s. keys (retain (\<lambda>_ g. pg_deadline g \<le> h_instant H (native (sv_ros s))) (api_groups (sv_api s))))) (\<lambda>expired.
     bindA (forA expired (\<lambda>i. finish_request W H i None (Some ''Timeout occurred''))) (\<lambda>_.
     retA output)))"

section \<open>Starting the services\<close>

text \<open>\<^verbatim>\<open>Api::new\<close>: the timeout, 5 seconds unless set, the allowlists, and one service for each name.\<close>

definition default_timeout :: f64 where
  "default_timeout = 0x4014000000000000"

fun open_services :: "'w world \<Rightarrow> (string \<times> string) list \<Rightarrow> (nat \<times> string) list \<Rightarrow> ('w ros, (nat \<times> string) list) action" where
  "open_services W [] ops = retA ops"
| "open_services W ((n, t) # rest) ops =
     bindA (ros_service W (''/rosapi/'' @ n) (''rosapi_msgs/srv/'' @ t)) (\<lambda>e.
     open_services W rest (AList.update e n ops))"

definition params_timeout :: "'w host \<Rightarrow> string list \<Rightarrow> nat outcome" where
  "params_timeout H args =
     bindO (case last_setting ''params_timeout'' args of
         None \<Rightarrow> Ok default_timeout
       | Some v \<Rightarrow> (case h_parse_f64 H v of Inl e \<Rightarrow> Err e | Inr x \<Rightarrow> Ok x)) (\<lambda>x.
     bindO (try_from_secs_f64 x) (\<lambda>t.
     bindO (ensure (t \<noteq> 0) ''params_timeout must be positive'') (\<lambda>_. Ok t)))"

definition api_new :: "'w world \<Rightarrow> 'w host \<Rightarrow> string list \<Rightarrow> ('w ros, api) action" where
  "api_new W H args =
     bindA (liftA (params_timeout H args)) (\<lambda>t.
     bindA (liftA (from_ros_args (h_globs H) (h_toml H) args)) (\<lambda>config.
     bindA (open_services W SERVICES []) (\<lambda>ops.
     retA \<lparr>operations = ops, api_definitions = no_definitions, api_pending = [], api_groups = [],
       api_config = config, api_timeout = t\<rparr>)))"

section \<open>The backend as a whole\<close>

definition onN :: "('w ros, 'a) action \<Rightarrow> ('w node, 'a) action" where
  "onN m s = (case m (node_ros s) of (res, r) \<Rightarrow> (res, s\<lparr>node_ros := r\<rparr>))"

definition enable_rosapi :: "'w world \<Rightarrow> 'w host \<Rightarrow> string list \<Rightarrow> ('w node, unit) action" where
  "enable_rosapi W H args = bindA (onN (api_new W H args)) (\<lambda>a. modA (\<lambda>s. s\<lparr>node_api := Some a\<rparr>))"

text \<open>\<^verbatim>\<open>self.api.take()\<close> and back.\<close>

definition node_process :: "'w world \<Rightarrow> 'w host \<Rightarrow> event list \<Rightarrow> ('w node, event list) action" where
  "node_process W H evs s =
     (case node_api s of
        None \<Rightarrow> (Ok evs, s)
      | Some a \<Rightarrow>
          (case process W H evs \<lparr>sv_ros = node_ros s, sv_api = a\<rparr> of
             (res, t) \<Rightarrow> (res, s\<lparr>node_ros := sv_ros t, node_api := Some (sv_api t)\<rparr>)))"

definition node_poll :: "'w world \<Rightarrow> 'w host \<Rightarrow> ('w node, event list) action" where
  "node_poll W H = bindA (onN (ros_poll W)) (node_process W H)"

definition node_backend :: "'w world \<Rightarrow> 'w host \<Rightarrow> 'w node backend_ops" where
  "node_backend W H =
     \<lparr>be_publisher = (\<lambda>n t q. onN (ros_publisher W n t q)), be_subscription = (\<lambda>n t q. onN (ros_subscription W n t q)),
      be_client = (\<lambda>n t. onN (ros_client W n t)), be_service = (\<lambda>n t. onN (ros_service W n t)),
      be_publish = (\<lambda>e v. onN (ros_publish W e v)), be_request = (\<lambda>e v. onN (ros_request W e v)),
      be_validate_response = (\<lambda>e v. onN (ros_validate_response W e v)),
      be_respond = (\<lambda>e i v. onN (ros_respond W e i v)), be_discard_request = (\<lambda>e i. onN (ros_discard_request e i)),
      be_destroy = (\<lambda>e. onN (ros_destroy W e)), be_poll = node_poll W H, be_topics = onN (ros_graph W False),
      be_services = onN (ros_graph W True), be_publisher_qos = (\<lambda>n. onN (ros_publisher_qos W n)),
      be_now = (\<lambda>s. ros_now W (node_ros s))\<rparr>"

end
