(* ===== verification/Exact.thy ===== *)
theory Exact
  imports Message
begin

text \<open>
  Encodings that lose nothing: every finite binary32 survives the way through binary64, and
  every UTF-16 string the way through UTF-8.
\<close>

section \<open>Binary32\<close>

lemma bitlen_bounds: "0 < n \<Longrightarrow> 2 ^ (bitlen n - 1) \<le> n \<and> n < 2 ^ bitlen n \<and> 0 < bitlen n"
proof (induction n rule: less_induct)
  case (less n)
  show ?case
  proof (cases "n = 1")
    case True
    then show ?thesis by (simp add: bitlen.simps)
  next
    case False
    then have "0 < n div 2" "n div 2 < n" using less.prems by auto
    from less.IH [OF this(2,1)] obtain l where l: "bitlen (n div 2) = Suc l" "2 ^ l \<le> n div 2" "n div 2 < 2 * 2 ^ l"
      by (cases "bitlen (n div 2)") auto
    then have "2 * 2 ^ l \<le> n" "n < 4 * 2 ^ l" by auto
    with l less.prems show ?thesis by (simp add: bitlen.simps [of n])
  qed
qed

lemma bitlen_le: "0 < n \<Longrightarrow> n < 2 ^ k \<Longrightarrow> bitlen n \<le> k"
proof -
  assume n: "0 < n" "n < 2 ^ k"
  with bitlen_bounds [of n] have "2 ^ (bitlen n - 1) < (2 :: nat) ^ k" by linarith
  then have "bitlen n - 1 < k" by (simp add: power_strict_increasing_iff)
  then show ?thesis by simp
qed

text \<open>The fields of a binary64 made of a sign, an exponent and a mantissa.\<close>

lemma f64_fields:
  assumes "s < 2" "e < 2048" "m < 2 ^ 52"
  shows "unat (word_of_nat (s * 2 ^ 63 + e * 2 ^ 52 + m) :: f64) = s * 2 ^ 63 + e * 2 ^ 52 + m"
    and "f64_sign (word_of_nat (s * 2 ^ 63 + e * 2 ^ 52 + m)) \<longleftrightarrow> s = 1"
    and "f64_exp (word_of_nat (s * 2 ^ 63 + e * 2 ^ 52 + m)) = e"
    and "f64_mant (word_of_nat (s * 2 ^ 63 + e * 2 ^ 52 + m)) = m"
proof -
  let ?n = "s * 2 ^ 63 + e * 2 ^ 52 + m"
  have em: "e * 2 ^ 52 + m < 2 ^ 63" using assms(2,3) by simp
  have "?n < 2 ^ 64" using assms by simp
  then show u: "unat (word_of_nat ?n :: f64) = ?n"
    by (subst unat_of_nat) (simp add: take_bit_nat_eq_self_iff)
  show "f64_sign (word_of_nat ?n) \<longleftrightarrow> s = 1"
    unfolding f64_sign_def u using assms(1) em by (cases "s = 1") auto
  have "?n div 2 ^ 52 = s * 2048 + e" using assms(3) by simp
  then show "f64_exp (word_of_nat ?n) = e" unfolding f64_exp_def u using assms(2) by simp
  have "?n = m + (s * 2048 + e) * 2 ^ 52" by simp
  then have "?n mod 2 ^ 52 = m mod 2 ^ 52" by (metis mod_mult_self1)
  then show "f64_mant (word_of_nat ?n) = m" unfolding f64_mant_def u using assms(3) by simp
qed

lemma round_half_even_exact: "0 < b \<Longrightarrow> round_half_even (a * b) b = a"
  by (simp add: round_half_even_def)

definition f32_finite :: "f32 \<Rightarrow> bool" where
  "f32_finite w \<longleftrightarrow> (unat w div 2 ^ 23) mod 256 \<noteq> 255"

lemma f32_widened:
  assumes "f32_finite w"
  shows "f32_of_f64 (f64_of_f32 w) = w \<and> fits_f32 (f64_of_f32 w) \<and> f64_finite (f64_of_f32 w)"
proof -
  define n where "n = unat w"
  define s where "s = n div 2 ^ 31"
  define e where "e = (n div 2 ^ 23) mod 256"
  define m where "m = n mod 2 ^ 23"
  have n: "n < 2 ^ 32" unfolding n_def using unsigned_less [of w] by simp
  have s: "s < 2" using n by (simp add: s_def)
  have m: "m < 2 ^ 23" by (simp add: m_def)
  have e: "e < 255" using assms by (simp add: f32_finite_def e_def n_def)
  have split: "n = s * 2 ^ 31 + e * 2 ^ 23 + m"
  proof -
    have "n div 2 ^ 31 = n div 2 ^ 23 div 256" by (simp add: div_mult2_eq [symmetric])
    then have "n div 2 ^ 23 = s * 256 + e" unfolding s_def e_def by simp
    then show ?thesis using div_mult_mod_eq [of n "2 ^ 23"] by (simp add: m_def)
  qed
  have w: "w = word_of_nat n" by (simp add: n_def)
  have key: "f32_of_f64 v = w \<and> fits_f32 v \<and> f64_finite v"
    if v: "v = word_of_nat (s * 2 ^ 63 + x * 2 ^ 52 + y)" "x < 2047" "y < 2 ^ 52"
      and low: "x * 2 ^ 52 + y \<le> 0x47EFFFFFE0000000"
      and r: "(if x \<ge> 897 then (x - 897) * 2 ^ 23 + round_half_even (2 ^ 52 + y) (2 ^ 29)
        else if x = 0 then 0 else round_half_even (2 ^ 52 + y) (2 ^ (926 - x))) = e * 2 ^ 23 + m" for v x y
  proof -
    have x: "x < 2048" using v(2) by simp
    note f = f64_fields [OF s x v(3), folded v(1)]
    have "f32_of_f64 v = word_of_nat ((if s = 1 then 2 ^ 31 else 0) + (e * 2 ^ 23 + m))"
      unfolding f32_of_f64_def Let_def f r by simp
    also have "(if s = 1 then 2 ^ 31 else 0) = s * 2 ^ 31" using s by auto
    finally have "f32_of_f64 v = w" by (simp add: w split add.assoc)
    moreover have "unat v mod 2 ^ 63 = x * 2 ^ 52 + y"
    proof -
      have "unat v = (x * 2 ^ 52 + y) + s * 2 ^ 63" using f(1) by simp
      then have "unat v mod 2 ^ 63 = (x * 2 ^ 52 + y) mod 2 ^ 63" by (metis mod_mult_self1)
      then show ?thesis using low by simp
    qed
    ultimately show ?thesis using low v(2) by (simp add: fits_f32_def f64_finite_def f)
  qed
  have v: "f64_of_f32 w = word_of_nat
      (if e = 0 then (if m = 0 then s * 2 ^ 63 else s * 2 ^ 63 + (bitlen m + 873) * 2 ^ 52 + (m * 2 ^ (53 - bitlen m) - 2 ^ 52))
       else s * 2 ^ 63 + (e + 896) * 2 ^ 52 + m * 2 ^ 29)"
    unfolding f64_of_f32_def Let_def n_def [symmetric] s_def [symmetric] e_def [symmetric] m_def [symmetric] using e by simp
  consider "e = 0" "m = 0" | "e = 0" "0 < m" | "0 < e" by blast
  then show ?thesis
  proof cases
    case 1
    then show ?thesis by (intro key [of _ 0 0]) (simp_all add: v)
  next
    case 2
    define l where "l = bitlen m"
    have l: "2 ^ (l - 1) \<le> m" "m < 2 ^ l" "0 < l" "l \<le> 23"
      using bitlen_bounds [OF 2(2)] bitlen_le [OF 2(2) m] by (simp_all add: l_def)
    have "2 ^ 52 = 2 ^ (l - 1) * (2 :: nat) ^ (53 - l)" using l by (simp flip: power_add)
    then have lo: "2 ^ 52 \<le> m * 2 ^ (53 - l)" using mult_le_mono1 [OF l(1), of "2 ^ (53 - l)"] by simp
    have "2 ^ 53 = 2 ^ l * (2 :: nat) ^ (53 - l)" using l by (simp flip: power_add)
    then have hi: "m * 2 ^ (53 - l) < 2 ^ 53" using l(2) by (metis mult_less_mono1 zero_less_numeral zero_less_power)
    have "round_half_even (m * 2 ^ (53 - l)) (2 ^ (53 - l)) = m" by (rule round_half_even_exact) simp
    moreover have "926 - (l + 873) = 53 - l" by simp
    ultimately show ?thesis
      using l lo hi 2 by (intro key [of _ "l + 873" "m * 2 ^ (53 - l) - 2 ^ 52"]) (simp_all add: v l_def)
  next
    case 3
    have "round_half_even ((2 ^ 23 + m) * 2 ^ 29) (2 ^ 29) = 2 ^ 23 + m"
      by (rule round_half_even_exact) simp
    moreover have "(2 ^ 23 + m) * 2 ^ 29 = 2 ^ 52 + m * 2 ^ 29" by simp
    ultimately have "round_half_even (2 ^ 52 + m * 2 ^ 29) (2 ^ 29) = 2 ^ 23 + m" by (simp only:)
    moreover have "(e + 896 - 897) * 2 ^ 23 + 2 ^ 23 = e * 2 ^ 23" using 3 by (cases e) auto
    ultimately show ?thesis
      using 3 e m by (intro key [of _ "e + 896" "m * 2 ^ 29"]) (auto simp: v)
  qed
qed

section \<open>UTF-16 and UTF-8\<close>

definition scalar_value :: "nat \<Rightarrow> bool" where
  "scalar_value p \<longleftrightarrow> p < 55296 \<or> 57344 \<le> p \<and> p < 1114112"

lemma utf16_points_inverse:
  "utf16_points us = Some ps \<Longrightarrow> list_all (\<lambda>u. u < 65536) us \<Longrightarrow>
   concat (map utf16_point ps) = us \<and> list_all scalar_value ps"
proof (induction us arbitrary: ps rule: utf16_points.induct)
  case (2 u us)
  show ?case
  proof (cases "u < 55296 \<or> 57344 \<le> u")
    case True
    then show ?thesis using 2 by (auto simp: utf16_point_def scalar_value_def)
  next
    case False
    obtain v vs qs where v: "us = v # vs" "u < 56320" "56320 \<le> v" "v < 57344" "utf16_points vs = Some qs"
      "ps = (65536 + (u - 55296) * 1024 + (v - 56320)) # qs"
      using 2(3) False by (auto split: if_splits list.splits)
    obtain a b where ab: "u = 55296 + a" "v = 56320 + b" "a < 1024" "b < 1024"
      using that [of "u - 55296" "v - 56320"] False v by auto
    then have "utf16_point (65536 + (u - 55296) * 1024 + (v - 56320)) = [u, v]"
      by (simp add: utf16_point_def)
    moreover have "scalar_value (65536 + (u - 55296) * 1024 + (v - 56320))"
      using False v by (auto simp: scalar_value_def)
    ultimately show ?thesis
      using 2(2) [OF False v(2) v(1) _ v(5)] 2(4) False v by auto
  qed
qed simp

lemma utf8_point_bytes: "scalar_value p \<Longrightarrow> b \<in> set (utf8_point p) \<Longrightarrow> b < 256"
  by (auto simp: utf8_point_def scalar_value_def split: if_splits)

lemma utf8_point_decoded:
  assumes "scalar_value p"
  shows "utf8_points (utf8_point p @ r) = map_option ((#) p) (utf8_points r)"
proof -
  define a b c d where abcd: "a = p div 262144" "b = p div 4096 mod 64" "c = p div 64 mod 64" "d = p mod 64"
  have lt: "b < 64" "c < 64" "d < 64" by (simp_all add: abcd)
  have "p div 4096 = p div 64 div 64" "a = p div 4096 div 64" by (simp_all add: abcd div_mult2_eq [symmetric])
  then have p: "p = p div 64 * 64 + d" "p div 64 = p div 4096 * 64 + c" "p div 4096 = a * 64 + b"
    unfolding abcd by simp_all
  have x: "p < 1114112" "p < 55296 \<or> 57344 \<le> p" using assms by (auto simp: scalar_value_def)
  note unfold = utf8_point_def cont_def abcd [symmetric]
  consider "p < 128" | "128 \<le> p" "p < 2048" | "2048 \<le> p" "p < 65536" | "65536 \<le> p" by linarith
  then show ?thesis
  proof cases
    case 1
    then show ?thesis by (simp add: utf8_point_def)
  next
    case 2
    have "p div 64 < 32" "2 \<le> p div 64" using 2 by linarith+
    then show ?thesis using 2 p(1) lt by (simp add: unfold)
  next
    case 3
    define q where "q = p div 4096"
    have q: "q * 4096 + c * 64 + d = p" using p by (simp add: q_def)
    have u: "utf8_point p = [224 + q, 128 + c, 128 + d]" using 3 by (simp add: unfold q_def)
    have "q < 16" using 3 q by linarith
    moreover have "q = 0 \<Longrightarrow> 32 \<le> c" "q = 13 \<Longrightarrow> c < 32" using 3 q[symmetric] x lt by linarith+
    ultimately show ?thesis using lt by (auto simp: u cont_def q)
  next
    case 4
    have q: "a * 262144 + b * 4096 + c * 64 + d = p" using p by simp
    have u: "utf8_point p = [240 + a, 128 + b, 128 + c, 128 + d]" using 4 by (simp add: unfold)
    have "a < 5" using x q by linarith
    moreover have "a = 0 \<Longrightarrow> 16 \<le> b" "a = 4 \<Longrightarrow> b < 16" using 4 q x lt by linarith+
    ultimately show ?thesis using lt by (auto simp: u cont_def q)
  qed
qed

lemma from_utf8_points: "list_all scalar_value ps \<Longrightarrow> from_utf8 (map char_of (concat (map utf8_point ps))) = Some ps"
proof -
  assume ps: "list_all scalar_value ps"
  then have "map code_of (map char_of (concat (map utf8_point ps))) = concat (map utf8_point ps)"
    by (auto simp: list_all_iff intro!: map_idI code_of_char_of utf8_point_bytes)
  moreover have "utf8_points (concat (map utf8_point ps)) = Some ps"
    using ps by (induction ps) (simp_all add: utf8_point_decoded)
  ultimately show ?thesis by (simp only: from_utf8_def)
qed

lemma utf16_roundtrip: "from_utf16 us = Some x \<Longrightarrow> list_all (\<lambda>u. u < 65536) us \<Longrightarrow> encode_utf16 x = us"
  by (auto simp: from_utf16_def encode_utf16_def dest!: utf16_points_inverse [rotated 0] simp: from_utf8_points)

section \<open>Little-endian bytes\<close>

lemma le_bytes_Suc: "le_bytes (Suc k) n = word_of_nat n # le_bytes k (n div 256)"
  by (simp add: le_bytes_def upt_conv_Cons map_Suc_upt [symmetric] comp_def div_mult2_eq del: upt_Suc map_Suc_upt)

lemma le_nat_bytes: "le_nat (le_bytes k n) = n mod 256 ^ k"
proof (induction k arbitrary: n)
  case 0
  then show ?case by (simp add: le_bytes_def)
next
  case (Suc k)
  have "unat (word_of_nat n :: byte) = n mod 256" by (simp add: unat_of_nat take_bit_eq_mod)
  then show ?case by (simp add: le_bytes_Suc Suc mod_mult2_eq add.commute)
qed

lemma le_bytes_inj: "m < 256 ^ k \<Longrightarrow> n < 256 ^ k \<Longrightarrow> le_bytes k m = le_bytes k n \<Longrightarrow> m = n"
  by (metis le_nat_bytes mod_less)

end
