(* ===== verification/Message_Roundtrip.thy ===== *)
theory Message_Roundtrip
  imports Exact
begin

text \<open>
  Messages through JSON and back: filling a message never leaves the memory of its type, and the
  JSON form of a message determines its memory (\<^verbatim>\<open>src/ros/message.rs\<close>).
\<close>

section \<open>Messages that JSON can express\<close>

text \<open>Numbers that are not finite become null; code units have 16 bits.\<close>

primrec exact :: "slot \<Rightarrow> bool" where
  "exact (SF32 w) \<longleftrightarrow> f32_finite w"
| "exact (SF64 w) \<longleftrightarrow> f64_finite w"
| "exact (SInt i) \<longleftrightarrow> True"
| "exact (SBool b) \<longleftrightarrow> True"
| "exact (SStr x) \<longleftrightarrow> True"
| "exact (SWstr us) \<longleftrightarrow> list_all (\<lambda>u. u < 65536) us"
| "exact (SObj ss) \<longleftrightarrow> list_all id (map exact ss)"
| "exact (SArr ss) \<longleftrightarrow> list_all id (map exact ss)"

text \<open>A description whose fields have distinct names, where a header has a stamp and a time has
  no field with a name of ROS 1.\<close>

primrec plain_member :: "member \<Rightarrow> bool" and plain :: "members \<Rightarrow> bool" where
  "plain_member (Member n t b nest arr sz upper d) \<longleftrightarrow>
     (case map_option plain nest of None \<Rightarrow> True | Some p \<Rightarrow> p)"
| "plain (Members ns n fs ini) \<longleftrightarrow>
     list_all id (map plain_member fs) \<and> distinct (map f_name fs) \<and>
     (message_name (Members ns n fs ini) = TIME \<longrightarrow> ''secs'' \<notin> f_name ` set fs \<and> ''nsecs'' \<notin> f_name ` set fs) \<and>
     (message_name (Members ns n fs ini) = ''std_msgs/msg/Header'' \<longrightarrow> ''stamp'' \<in> f_name ` set fs)"

lemma plain_fields:
  "plain m \<Longrightarrow> list_all plain_member (m_fields m) \<and> distinct (map f_name (m_fields m)) \<and>
     (message_name m = TIME \<longrightarrow> ''secs'' \<notin> f_name ` set (m_fields m) \<and> ''nsecs'' \<notin> f_name ` set (m_fields m)) \<and>
     (message_name m = ''std_msgs/msg/Header'' \<longrightarrow> ''stamp'' \<in> f_name ` set (m_fields m))"
  by (cases m) (simp add: list_all_iff)

lemma plain_nested: "plain_member f \<Longrightarrow> f_nested f = Some m \<Longrightarrow> plain m"
  by (cases f) auto

section \<open>Basic values\<close>

lemma as_u64_jint: "0 \<le> i \<Longrightarrow> as_u64 (jint i) = Some (nat i)"
  by (simp add: jint_def)

lemma as_i64_jint: "i < 2 ^ 63 \<Longrightarrow> as_i64 (jint i) = Some i"
  by (auto simp: jint_def nat_less_iff)

lemma write_int: "basic_ok f (SInt i) \<Longrightarrow> write_basic f (jint i) = Ok (SInt i)"
  unfolding basic_ok_def Let_def slot.case
  by (elim disjE conjE)
    (simp_all add: write_basic_def Let_def unsigned_slot_def signed_slot_def integer_slot_def as_u64_jint as_i64_jint nat_less_iff)

lemma read_int: "basic_ok f (SInt i) \<Longrightarrow> read_basic f (SInt i) = Ok (jint i, cbor_value (jint i))"
  unfolding basic_ok_def Let_def slot.case by (elim disjE conjE) (simp_all add: read_basic_def Let_def)

lemma write_read_basic:
  assumes "read_basic f s = Ok (j, c)" "basic_ok f s" "exact s"
  shows "write_basic f j = Ok s"
proof (cases s)
  case (SInt i)
  then show ?thesis using assms(1,2) read_int [of f i] write_int [of f i] by auto
next
  case (SF32 w)
  then have "f_type f = 1" "j = jfloat (f64_of_f32 w)" using assms by (auto simp: basic_ok_def read_basic_def)
  then show ?thesis using assms(3) SF32 f32_widened [of w] by (simp add: jfloat_def write_basic_def)
next
  case (SF64 w)
  then have "f_type f = 2" "j = jfloat w" using assms by (auto simp: basic_ok_def read_basic_def)
  then show ?thesis using assms(3) SF64 by (simp add: jfloat_def write_basic_def)
next
  case (SBool b)
  then have "f_type f = 6" "j = JBool b" using assms by (auto simp: basic_ok_def read_basic_def)
  then show ?thesis using SBool by (simp add: write_basic_def)
next
  case (SStr x)
  then have "f_type f = 16" "j = JStr x" using assms by (auto simp: basic_ok_def read_basic_def split: if_splits)
  then show ?thesis using SStr assms(2) by (simp add: write_basic_def basic_ok_def)
next
  case (SWstr us)
  then obtain x where "f_type f = 17" "from_utf16 us = Some x" "j = JStr x"
    using assms by (auto simp: basic_ok_def read_basic_def split: option.splits)
  then show ?thesis using SWstr assms(2,3) utf16_roundtrip [of us x] by (simp add: write_basic_def basic_ok_def)
qed (use assms(2) in \<open>simp_all add: basic_ok_def\<close>)

lemma byte_values:
  "f_type f = 4 \<or> f_type f = 8 \<Longrightarrow> list_all (typed_scalar f) ss \<Longrightarrow> read_elements T f ss = Ok es \<Longrightarrow>
   map (\<lambda>b. jnat (unat b)) (concat (map (element_bytes (f_type f)) ss)) = map fst es"
proof (induction ss arbitrary: es)
  case (Cons s ss)
  have "basic_ok f s" using Cons.prems(1,2) by auto
  then obtain i where i: "s = SInt i" "0 \<le> i" "i < 2 ^ 8"
    using Cons.prems(1) by (auto simp: basic_ok_def Let_def split: slot.splits)
  have "unat (word_of_nat (nat i) :: byte) = nat i"
    by (subst unat_of_nat) (use i in \<open>simp add: take_bit_nat_eq_self_iff nat_less_iff\<close>)
  then have "map (\<lambda>b. jnat (unat b)) (element_bytes (f_type f) s) = [jint i]"
    using i Cons.prems(1) by (auto simp: element_bytes_def int_bytes_def le_bytes_def jint_def jnat_def)
  then show ?case
    using Cons i by (auto simp: bindO_eq_Ok read_basic_def Let_def)
qed simp

section \<open>Writing back what was read\<close>

lemma map_of_collected:
  "distinct (map fst es) \<Longrightarrow> (k, j, c) \<in> set es \<Longrightarrow> map_of (foldl (\<lambda>t (k, j, c). AList.update k j t) [] es) k = Some j"
proof (induction es rule: rev_induct)
  case (snoc e es)
  obtain k' j' c' where e: "e = (k', j', c')" by (cases e)
  show ?case
    using snoc by (cases "k = k'") (auto simp: e rev_image_eqI)
qed simp

lemma fill_object_read:
  assumes "plain m" "set (keys t) = f_name ` set (m_fields m)"
  shows "fill_object m (JObj t) now = Ok t"
proof -
  have none: "find (\<lambda>k. k \<notin> set (map f_name (m_fields m))) (keys t) = None"
    using assms(2) by (auto simp: find_None_iff)
  have "rename_field ''nsecs'' ''nanosec'' (rename_field ''secs'' ''sec'' t) = t" if "message_name m = TIME"
  proof -
    have "map_of t ''secs'' = None" "map_of t ''nsecs'' = None"
      using plain_fields [OF assms(1)] that assms(2) by (auto simp: map_of_eq_None_iff)
    then show ?thesis by (simp add: rename_field_def)
  qed
  with none show ?thesis by (auto simp: fill_object_def Let_def)
qed

lemma read_object_fields:
  "read_object T m data = Ok (j, c) \<Longrightarrow> \<exists>es. read_fields T (m_fields m) data = Ok es \<and>
     j = JObj (foldl (\<lambda>t (k, j, c). AList.update k j t) [] es)"
  by (auto simp: bindO_eq_Ok)

definition unbases :: "typesupport \<Rightarrow> bool" where
  "unbases T \<longleftrightarrow> (\<forall>bs. ts_unbase64 T (ts_base64 T bs) = Ok bs)"

lemma array_values_read:
  assumes "read_elements T f ss = Ok es" "list_all (typed_scalar f) ss" "unbases T"
  shows "array_values T f (fst (array_forms T f ss es)) = Ok (map fst es)"
  using assms byte_values [OF _ assms(2,1)]
  by (auto simp: array_forms_def Let_def array_values_def unbases_def)

lemma header_read:
  assumes "is_header f" "plain_member f" "typed_field f s" "read_field T f s = Ok (j, c)"
  shows "\<exists>h. j = JObj h \<and> has h ''stamp''"
proof -
  obtain m where m: "f_type f = 18" "\<not> f_array f" "f_nested f = Some m" "message_name m = ''std_msgs/msg/Header''"
    using assms(1) by (auto simp: is_header_def split: option.splits)
  then obtain data where data: "s = SObj data" "typed_object m data"
    using assms(3) typed_message [of f s] by auto
  then have "read_object T m data = Ok (j, c)" using assms(4) m by simp
  then obtain t where "j = JObj t" "set (keys t) = f_name ` set (m_fields m)"
    using read_typed(1) [OF data(2), of T] by auto
  then show ?thesis using plain_fields [OF plain_nested [OF assms(2) m(3)]] m(4) by (auto simp: has_keys)
qed

lemma field_value_read:
  assumes "plain_member f" "typed_field f s" "read_field T f s = Ok (j, c)" "map_of obj (f_name f) = Some j"
  shows "field_value f obj now root = Ok (Some j)"
  using header_read [OF _ assms(1-3)] assms(4) by (cases "root \<and> is_header f") (fastforce simp: field_value_def Let_def, auto simp: field_value_def Let_def)

lemma write_read:
  "read_object T m data = Ok (j, c) \<Longrightarrow> unbases T \<Longrightarrow> members_wf m \<Longrightarrow> plain m \<Longrightarrow> typed_object m data \<Longrightarrow>
     list_all exact data \<Longrightarrow> typed_object m old \<Longrightarrow> write_object T m old j now root = Ok data"
  "read_fields T fs ss = Ok es \<Longrightarrow> unbases T \<Longrightarrow> list_all member_wf fs \<Longrightarrow> list_all plain_member fs \<Longrightarrow> typed_fields fs ss \<Longrightarrow>
     list_all exact ss \<Longrightarrow> typed_fields fs old \<Longrightarrow> (\<And>k j c. (k, j, c) \<in> set es \<Longrightarrow> map_of obj k = Some j) \<Longrightarrow>
     write_fields T n fs old obj now root = Ok ss"
  "read_field T f s = Ok (j, c) \<Longrightarrow> unbases T \<Longrightarrow> member_wf f \<Longrightarrow> plain_member f \<Longrightarrow> typed_field f s \<Longrightarrow> exact s \<Longrightarrow>
     typed_field f old1 \<Longrightarrow> write_field T f old1 j now = Ok s"
  "read_elements T f ss = Ok es' \<Longrightarrow> unbases T \<Longrightarrow> member_wf f \<Longrightarrow> plain_member f \<Longrightarrow> list_all (typed_scalar f) ss \<Longrightarrow>
     list_all exact ss \<Longrightarrow> list_all (typed_scalar f) old \<Longrightarrow> length old = length ss \<Longrightarrow>
     write_elements T f old (map fst es') now = Ok ss"
  "read_scalar T f s = Ok (j, c) \<Longrightarrow> unbases T \<Longrightarrow> member_wf f \<Longrightarrow> plain_member f \<Longrightarrow> typed_scalar f s \<Longrightarrow> exact s \<Longrightarrow>
     typed_scalar f old1 \<Longrightarrow> write_scalar T f old1 j now = Ok s"
proof (induction T m data and T fs ss and T f s and T f ss and T f s
    arbitrary: j c old root and es old n root obj and j c old1 and es' old and j c old1
    rule: read_object_read_fields_read_field_read_elements_read_scalar.induct)
  case (1 T m data)
  obtain es where es: "read_fields T (m_fields m) data = Ok es"
    and j: "j = JObj (foldl (\<lambda>t (k, j, c). AList.update k j t) [] es)" (is "_ = JObj ?t")
    using read_object_fields [OF 1(2)] by blast
  have names: "map fst es = map f_name (m_fields m)"
    using read_typed(2) [of "m_fields m" data T] 1(6) es by simp
  note p = plain_fields [OF 1(5)]
  have t: "fill_object m (JObj ?t) now = Ok ?t"
    using names by (intro fill_object_read [OF 1(5)]) (metis (no_types) keys_collected list.set_map set_empty2 sup_bot_left list.map(1))
  have "write_fields T (message_name m) (m_fields m) old ?t now root = Ok data"
    by (rule 1(1) [OF es 1(3)])
      (use 1 p names members_wf_fields [OF 1(4)] in \<open>auto simp: list_all_iff intro!: map_of_collected\<close>)
  then show ?case using t by (simp add: j)
next
  case (2 T f fs s ss)
  obtain j c es' where j: "read_field T f s = Ok (j, c)" and es': "read_fields T fs ss = Ok es'" "es = (f_name f, j, c) # es'"
    using 2(3) by (auto simp: bindO_eq_Ok simp del: read_field.simps)
  obtain o1 os where old: "old = o1 # os" "typed_field f o1" "typed_fields fs os"
    using 2(9) by (cases old) (auto simp del: typed_field.simps)
  have "field_value f obj now root = Ok (Some j)"
    using 2(6,7,10) j es' by (intro field_value_read [of f s T j c]) (auto simp del: typed_field.simps)
  moreover have "write_field T f o1 j now = Ok s"
    using 2(4-8) old by (intro 2(1) [OF j]) (auto simp del: typed_field.simps)
  moreover have "write_fields T n fs os obj now root = Ok ss"
    using 2(4-8,10) old es' by (intro 2(2) [OF j _ 2(4)]) (auto simp del: typed_field.simps)
  ultimately show ?case using old(1) by simp
next
  case (3 T)
  then show ?case by (cases old) auto
next
  case (5 T f s)
  show ?case
  proof (cases "f_array f")
    case True
    obtain ss where ss: "s = SArr ss" "length_ok f (length ss)" "list_all (typed_scalar f) ss"
      using 5(7) True by (auto simp del: typed_scalar.simps split: slot.splits)
    obtain os where os: "old1 = SArr os" "length_ok f (length os)" "list_all (typed_scalar f) os"
      using 5(9) True by (auto simp del: typed_scalar.simps split: slot.splits)
    obtain es where es: "read_elements T f ss = Ok es" "j = fst (array_forms T f ss es)"
      using 5(3) True ss(1) by (auto simp: bindO_eq_Ok array_of_def)
    have len: "length es = length ss" using read_typed(4) [OF ss(3), of T] es(1) by simp
    obtain sl where sl: "array_slots f os (length ss) = Ok sl" "length sl = length ss" "list_all (typed_scalar f) sl"
      using array_slots_ok [OF 5(5) True os(2,3), of "length ss"] ss(2)
      by (auto simp: array_slots_def length_ok_def split: if_splits)
    have "write_elements T f sl (map fst es) now = Ok ss"
      using 5(4-6,8) ss sl es by (intro 5(1) [OF True _ es(1)]) (auto simp: list_all_iff array_of_def)
    then show ?thesis
      using True ss(1) os(1) sl es(2) len array_values_read [OF es(1) ss(3) 5(4)]
      by (simp add: array_of_def)
  next
    case False
    then show ?thesis using 5(2-) by (simp del: typed_scalar.simps write_scalar.simps read_scalar.simps)
  qed
next
  case (7 T f s ss)
  obtain j c es where j: "read_scalar T f s = Ok (j, c)" and es: "read_elements T f ss = Ok es" "es' = (j, c) # es"
    using 7(3) by (auto simp: bindO_eq_Ok simp del: read_scalar.simps)
  obtain o1 os where old: "old = o1 # os" "typed_scalar f o1" "list_all (typed_scalar f) os" "length os = length ss"
    using 7(9,10) by (cases old) (auto simp del: typed_scalar.simps)
  have "write_scalar T f o1 j now = Ok s" "write_elements T f os (map fst es) now = Ok ss"
    using 7(4-8) old by (auto intro!: 7(1) [OF j] 7(2) [OF j es(1)] simp del: typed_scalar.simps write_scalar.simps)
  then show ?case using es(2) old(1) by simp
next
  case (8 T f s)
  show ?case
  proof (cases "f_type f = 18")
    case True
    obtain m data where m: "f_nested f = Some m" "s = SObj data" "typed_object m data"
      using typed_message [OF 8(6) True] by blast
    obtain m' data' where o: "f_nested f = Some m'" "old1 = SObj data'" "typed_object m' data'"
      using typed_message [OF 8(8) True] by blast
    have "members_wf m" using member_wf_nested [OF 8(4) True] m(1) by auto
    moreover have "plain m" by (rule plain_nested [OF 8(5) m(1)])
    ultimately have "write_object T m data' j now False = Ok data"
      using 8(2,3,7) m o True by (intro 8(1) [OF True _ m(1,2)]) (auto simp: list_all_iff simp del: typed_object.simps read_object.simps)
    then show ?thesis using True m o by simp
  next
    case False
    then show ?thesis using 8(2-) write_read_basic [of f s j c] by simp
  qed
qed (auto simp del: typed_scalar.simps write_scalar.simps)

section \<open>Properties\<close>

text \<open>
  C11. Filling a message from any JSON value is type safe: it never goes outside the memory that
  the type description lays out, what it writes is a well-typed message within every bound of
  the type, and reading that message back does not fail on a type either.
\<close>

theorem message_typed:
  assumes "members_wf m" "\<forall>s. ts_unbase64 T s \<noteq> Panic"
  shows "case fill T m v now of
      Ok data \<Rightarrow> typed_object m data \<and> values_of T m data \<noteq> Panic
    | Err e \<Rightarrow> True
    | Panic \<Rightarrow> False"
proof -
  have "yields (typed_object m) (fill T m v now)"
    unfolding fill_def new_message_def by (rule write_typed(1) [OF assms(2,1) members_wf_init [OF assms(1)]])
  then show ?thesis
    by (cases "fill T m v now") (auto simp: values_of_def simp del: typed_object.simps read_object.simps dest: yields_no_panic [OF read_typed(1)])
qed

text \<open>
  C10. A message read from ROS into a JSON value and filled back from this value is the same message:
  the memory of the new one is the memory of the well-typed one, for plain types (distinct field names,
  a header has a stamp, a time has no field with the name of ROS 1) and when all floating point numbers in
  it are finite and its wide characters have 16 bits. This is about the JSON values; their text form is
  \<^verbatim>\<open>serde_json\<close> and not modelled, and numbers that are not finite become null.
\<close>

theorem message_roundtrip:
  assumes "members_wf m" "plain m" "unbases T" "typed_object m data" "list_all exact data"
    and "values_of T m data = Ok (j, c)"
  shows "fill T m j now = Ok data"
  using write_read(1) [of T m data j c "m_init m" now True] assms members_wf_init [OF assms(1)]
  by (simp add: fill_def new_message_def values_of_def del: typed_object.simps read_object.simps write_object.simps)

definition sample_types :: typesupport where
  "sample_types = \<lparr>ts_load = (\<lambda>_. Err ''unknown''), ts_base64 = map (\<lambda>b. char_of (unat b)),
     ts_unbase64 = (\<lambda>s. Ok (map (\<lambda>c. word_of_nat (code_of c)) s))\<rparr>"

definition sample_stamp :: members where
  "sample_stamp = Members ''builtin_interfaces__msg'' ''Time''
     [Member ''sec'' 13 0 None False 0 False (SInt 0), Member ''nanosec'' 12 0 None False 0 False (SInt 0)]
     [SInt 0, SInt 0]"

definition sample_members :: members where
  "sample_members = Members ''sample__msg'' ''Reading''
     [Member ''stamp'' 18 0 (Some sample_stamp) False 0 False (SInt 0),
      Member ''gain'' 1 0 None False 0 False (SF32 0),
      Member ''label'' 16 8 None False 0 False (SStr []),
      Member ''data'' 8 0 None True 4 True (SInt 0)]
     [SObj [SInt 0, SInt 0], SF32 0, SStr [], SArr []]"

definition sample_memory :: "slot list" where
  "sample_memory = [SObj [SInt (- 3), SInt 7], SF32 0x3FC00000, SStr ''abc'', SArr [SInt 65, SInt 66]]"

lemma word_char: "word_of_nat (code_of (char_of (unat (b :: byte)))) = b"
proof -
  have "unat b < 256" using unsigned_less [of b] by simp
  then show ?thesis by simp
qed

lemma sample_members: "members_wf sample_members" "plain sample_members" "unbases sample_types"
  by (simp_all add: sample_members_def sample_stamp_def basic_ok_def Let_def message_name_def TIME_def length_ok_def
      unbases_def sample_types_def comp_def word_char)

theorem message_typed_witness:
  "case fill sample_types sample_members (JObj [(''gain'', JStr ''high'')]) (0, 0) of
      Ok data \<Rightarrow> typed_object sample_members data \<and> values_of sample_types sample_members data \<noteq> Panic
    | Err e \<Rightarrow> True
    | Panic \<Rightarrow> False"
  by (rule message_typed [OF sample_members(1)]) (simp add: sample_types_def)

theorem message_roundtrip_witness:
  "\<exists>j c. values_of sample_types sample_members sample_memory = Ok (j, c) \<and>
     fill sample_types sample_members j (0, 0) = Ok sample_memory"
proof -
  have t: "typed_object sample_members sample_memory" "list_all exact sample_memory"
    by (simp_all add: sample_members_def sample_stamp_def sample_memory_def basic_ok_def Let_def length_ok_def f32_finite_def)
  obtain j c where v: "values_of sample_types sample_members sample_memory = Ok (j, c)"
    by (simp add: values_of_def sample_members_def sample_stamp_def sample_memory_def read_basic_def array_of_def Let_def from_utf8_def code_of_def)
  show ?thesis using message_roundtrip [OF sample_members t v] v by blast
qed

end
