(* ===== verification/Definitions_Complete.thy ===== *)
theory Definitions_Complete
  imports Definitions Message_Roundtrip
begin

text \<open>
  Looking up definitions ends, and the text of a type contains all it depends on, once
  (\<^verbatim>\<open>src/ros/definitions.rs\<close>).
\<close>

section \<open>Only finitely many types are installed\<close>

definition loadable :: "typesupport \<Rightarrow> string set" where
  "loadable T = {n. \<exists>m. load_message T n = Ok m}"

definition known_deps :: "typesupport \<Rightarrow> string set" where
  "known_deps T = (\<Union>n \<in> loadable T. case bindO (load_message T n) dependencies of Ok ds \<Rightarrow> set ds | _ \<Rightarrow> {})"

lemma known_deps: "load_message T n = Ok m \<Longrightarrow> dependencies m = Ok ds \<Longrightarrow> set ds \<subseteq> known_deps T"
  by (fastforce simp: known_deps_def loadable_def)

lemma finite_known: "finite (loadable T) \<Longrightarrow> finite (known_deps T)"
  by (auto simp: known_deps_def split: outcome.split)

definition loads_wf :: "typesupport \<Rightarrow> bool" where
  "loads_wf T \<longleftrightarrow> (\<forall>n. yields members_wf (load_message T n))"

lemma dependencies_ok: "members_wf m \<Longrightarrow> yields (\<lambda>_. True) (dependencies m)"
proof -
  assume m: "members_wf m"
  have "f_nested f \<noteq> None" if "f \<in> set (m_fields m)" "f_type f = 18" for f
    using member_wf_nested [OF members_wf_fields [OF m that(1)] that(2)] by auto
  then have "dependencies m \<noteq> Panic"
    by (fastforce simp: dependencies_def dest: mapO_Panic split: option.splits)
  then show ?thesis by (cases "dependencies m") auto
qed

lemma raw_one_ok: "loads_wf T \<Longrightarrow> yields (\<lambda>(text, ds). set ds \<subseteq> known_deps T) (raw_one T H w n)"
proof -
  assume T: "loads_wf T"
  then have l: "yields members_wf (load_message T n)" by (simp add: loads_wf_def)
  have d: "yields (\<lambda>ds. set ds \<subseteq> known_deps T) (bindO (load_message T n) dependencies)"
    using l known_deps [of T n] unfolding yields_bind
    by (cases "load_message T n") (auto intro!: yields_mono [OF dependencies_ok])
  show ?thesis
    unfolding raw_one_def
    by (rule no_panic_cases)
      (use d in \<open>auto simp: interface_path_def read_text_def bindO_Panic Let_def intro: yields_mono split: sum.splits\<close>)
qed

section \<open>The work list\<close>

lemma push_new_Cons: "push_new (d # ds) (stack, seen) =
    (if d \<in> set seen then push_new ds (stack, seen) else push_new ds (d # stack, d # seen))"
  by (simp add: push_new_def)

lemma push_new_Nil: "push_new [] st = st"
  by (simp add: push_new_def)

text \<open>What is new goes onto the stack, once.\<close>

lemma push_new_spec:
  "\<exists>new. push_new ds (stack, seen) = (new @ stack, new @ seen) \<and> distinct new \<and>
     set new = set ds - set seen"
proof (induction ds arbitrary: stack seen)
  case Nil
  then show ?case by (simp add: push_new_Nil)
next
  case (Cons d ds)
  show ?case
  proof (cases "d \<in> set seen")
    case True
    obtain new where "push_new ds (stack, seen) = (new @ stack, new @ seen)" "distinct new" "set new = set ds - set seen"
      using Cons by blast
    then show ?thesis using True by (auto simp: push_new_Cons)
  next
    case False
    obtain new where "push_new ds (d # stack, d # seen) = (new @ d # stack, new @ d # seen)" "distinct new"
      "set new = set ds - set (d # seen)"
      using Cons by blast
    then show ?thesis using False by (intro exI [of _ "new @ [d]"]) (auto simp: push_new_Cons)
  qed
qed

lemma raw_loop_returns:
  assumes "loads_wf T" "finite (loadable T)"
  shows "\<exists>r. raw_loop T H w stack seen first out = Some r \<and> r \<noteq> Panic"
proof (induction "(card (known_deps T - set seen), length stack)" arbitrary: stack seen first out
    rule: wf_induct_rule [OF wf_lex_prod [OF wf_less_than wf_less_than]])
  case (1 stack seen first out)
  show ?case
  proof (cases stack)
    case Nil
    then show ?thesis by (simp add: raw_loop.simps)
  next
    case (Cons n rest)
    show ?thesis
    proof (cases "raw_one T H w n")
      case (Ok a)
      then obtain content ds where a: "raw_one T H w n = Ok (content, ds)" by (cases a) auto
      have ds: "set ds \<subseteq> known_deps T" using raw_one_ok [OF assms(1), of H w n] a by simp
      obtain new where new: "push_new ds (rest, seen) = (new @ rest, new @ seen)" "distinct new" "set new = set ds - set seen"
        using push_new_spec by blast
      have "((card (known_deps T - set (new @ seen)), length (new @ rest)), (card (known_deps T - set seen), length stack))
          \<in> less_than <*lex*> less_than"
      proof (cases new)
        case Nil
        then show ?thesis using Cons by simp
      next
        case (Cons d ds')
        then have "d \<in> known_deps T - set seen" "d \<notin> known_deps T - set (new @ seen)"
          using new(3) ds by auto
        then have "known_deps T - set (new @ seen) \<subset> known_deps T - set seen" by auto
        then show ?thesis
          using psubset_card_mono [OF finite_Diff [OF finite_known [OF assms(2)]]] by simp
      qed
      then show ?thesis using 1 a new(1) Cons by (subst raw_loop.simps) auto
    next
      case (Err e)
      then show ?thesis using Cons by (simp add: raw_loop.simps)
    next
      case Panic
      then show ?thesis using raw_one_ok [OF assms(1), of H w n] by simp
    qed
  qed
qed

lemma raw_definition_no_panic:
  "loads_wf T \<Longrightarrow> finite (loadable T) \<Longrightarrow> raw_definition T H w typ \<noteq> Panic"
  using raw_loop_returns [of T H w "[t]" "[]" True "[]" for t]
  by (auto simp: raw_definition_def bindO_Panic or_diverge_def) (metis option.simps(5))

section \<open>What the text contains\<close>

text \<open>The dependencies of a type, and its own section of the text.\<close>

definition depends :: "typesupport \<Rightarrow> 'w host \<Rightarrow> 'w \<Rightarrow> string \<Rightarrow> string list" where
  "depends T H w n = (case raw_one T H w n of Ok (content, ds) \<Rightarrow> ds | _ \<Rightarrow> [])"

definition own_text :: "typesupport \<Rightarrow> 'w host \<Rightarrow> 'w \<Rightarrow> string \<Rightarrow> string" where
  "own_text T H w n = (case raw_one T H w n of Ok (content, ds) \<Rightarrow> content | _ \<Rightarrow> [])"

definition dep_rel :: "typesupport \<Rightarrow> 'w host \<Rightarrow> 'w \<Rightarrow> (string \<times> string) set" where
  "dep_rel T H w = {(n, d). d \<in> set (depends T H w n)}"

text \<open>From a stack of types that were seen but not written, the loop writes each of them and all
  that becomes known on the way, once.\<close>

definition writes :: "typesupport \<Rightarrow> 'w host \<Rightarrow> 'w \<Rightarrow> string list \<Rightarrow> string list \<Rightarrow> string \<Rightarrow> string \<Rightarrow> string list \<Rightarrow> bool" where
  "writes T H w stack seen out res L \<longleftrightarrow>
     res = out @ concat (map (\<lambda>n. raw_heading n @ own_text T H w n) L) \<and> distinct L \<and>
     set stack \<subseteq> set L \<and> set L \<inter> (set seen - set stack) = {} \<and>
     (\<forall>n \<in> set L. set (depends T H w n) \<subseteq> set seen \<union> set L) \<and> set L \<subseteq> (dep_rel T H w)\<^sup>* `` set stack"

lemma writes_step:
  assumes a: "raw_one T H w n = Ok (content, ds)"
    and new: "distinct new" "set new = set ds - set seen"
    and stack: "distinct (n # rest)" "set (n # rest) \<subseteq> set seen"
    and L: "writes T H w (new @ rest) (new @ seen) (out @ raw_heading n @ content) res L"
  shows "writes T H w (n # rest) seen out res (n # L)"
proof -
  note L' = L [unfolded writes_def]
  have dn: "depends T H w n = ds" "own_text T H w n = content" by (simp_all add: depends_def own_text_def a)
  have "n \<notin> set (new @ rest)" "n \<in> set seen" using stack new by auto
  then have n: "n \<notin> set L" using L' by auto
  have "set new \<subseteq> (dep_rel T H w)\<^sup>* `` {n}" using new(2) dn(1) by (auto simp: dep_rel_def)
  then have "(dep_rel T H w)\<^sup>* `` set (new @ rest) \<subseteq> (dep_rel T H w)\<^sup>* `` set (n # rest)"
    by (auto intro: rtrancl_trans)
  then have reach: "set (n # L) \<subseteq> (dep_rel T H w)\<^sup>* `` set (n # rest)" using L' by auto
  have sub: "set new \<subseteq> set L" "set rest \<subseteq> set L" using L' by auto
  have "set (depends T H w m) \<subseteq> set seen \<union> set (n # L)" if "m \<in> set (n # L)" for m
  proof (cases "m = n")
    case True
    then show ?thesis using dn(1) new(2) sub(1) by auto
  next
    case False
    then have "set (depends T H w m) \<subseteq> set (new @ seen) \<union> set L" using that L' by auto
    then show ?thesis using sub(1) by auto
  qed
  moreover have "set (n # L) \<inter> (set seen - set (n # rest)) = {}" using L' new(2) by auto
  moreover have "res = out @ concat (map (\<lambda>n. raw_heading n @ own_text T H w n) (n # L))" using L' dn(2) by simp
  moreover have "distinct (n # L)" "set (n # rest) \<subseteq> set (n # L)" using L' n sub(2) by auto
  ultimately show ?thesis using reach unfolding writes_def by blast
qed

lemma raw_loop_sections:
  assumes "raw_loop T H w stack seen first out = Some r"
  shows "\<forall>res. r = Ok res \<longrightarrow> \<not> first \<longrightarrow> distinct stack \<longrightarrow> set stack \<subseteq> set seen \<longrightarrow>
    (\<exists>L. writes T H w stack seen out res L)"
  using assms
proof (rule raw_loop.raw_induct [rotated])
  fix loop :: "typesupport \<Rightarrow> 'a host \<Rightarrow> 'a \<Rightarrow> string list \<Rightarrow> string list \<Rightarrow> bool \<Rightarrow> string \<Rightarrow> string outcome option"
  fix T :: typesupport and H :: "'a host" and w stack seen first out r
  assume IH: "\<And>T H w stack seen first out r. loop T H w stack seen first out = Some r \<Longrightarrow>
      \<forall>res. r = Ok res \<longrightarrow> \<not> first \<longrightarrow> distinct stack \<longrightarrow> set stack \<subseteq> set seen \<longrightarrow> (\<exists>L. writes T H w stack seen out res L)"
    and step: "(case stack of
        [] \<Rightarrow> Some (Ok out)
      | current # rest \<Rightarrow>
          (case raw_one T H w current of
             Ok (text, ds) \<Rightarrow>
               loop T H w (fst (push_new ds (rest, seen))) (snd (push_new ds (rest, seen))) False
                 (out @ (if first then [] else raw_heading current) @ text)
           | Err e \<Rightarrow> Some (Err e)
           | Panic \<Rightarrow> Some Panic)) = Some r"
  show "\<forall>res. r = Ok res \<longrightarrow> \<not> first \<longrightarrow> distinct stack \<longrightarrow> set stack \<subseteq> set seen \<longrightarrow> (\<exists>L. writes T H w stack seen out res L)"
  proof (intro allI impI)
    fix res assume r: "r = Ok res" "\<not> first" and st: "distinct stack" "set stack \<subseteq> set seen"
    show "\<exists>L. writes T H w stack seen out res L"
    proof (cases stack)
      case Nil
      then show ?thesis using step r by (intro exI [of _ "[]"]) (simp add: writes_def)
    next
      case (Cons n rest)
      then obtain content ds where a: "raw_one T H w n = Ok (content, ds)"
        using step r by (auto split: outcome.splits)
      obtain new where new: "push_new ds (rest, seen) = (new @ rest, new @ seen)" "distinct new" "set new = set ds - set seen"
        using push_new_spec by blast
      have "loop T H w (new @ rest) (new @ seen) False (out @ raw_heading n @ content) = Some r"
        using step r Cons a new(1) by simp
      from IH [OF this] obtain L where "writes T H w (new @ rest) (new @ seen) (out @ raw_heading n @ content) res L"
        using r st Cons new by fastforce
      then show ?thesis using writes_step [OF a new(2,3)] st Cons by blast
    qed
  qed
qed

section \<open>Visiting the type descriptions\<close>

lemma field_type_ok: "member_wf f \<Longrightarrow> field_type f \<noteq> Panic"
  using member_wf_nested [of f] by (auto simp: field_type_def bindO_Panic split: option.splits)

lemma typedef_of_ok: "members_wf m \<Longrightarrow> typedef_of T H w m \<noteq> Panic"
proof -
  assume m: "members_wf m"
  have "values_of T m (new_message m) \<noteq> Panic"
    unfolding values_of_def new_message_def by (rule yields_no_panic [OF read_typed(1) [OF members_wf_init [OF m]]])
  moreover have "mapO field_type (filter P (m_fields m)) \<noteq> Panic" for P
    using field_type_ok members_wf_fields [OF m] by (auto dest!: mapO_Panic)
  ultimately show ?thesis by (auto simp: typedef_of_def bindO_Panic Let_def split: prod.splits)
qed

definition loaded_names :: "typesupport \<Rightarrow> string set" where
  "loaded_names T = (\<Union>n \<in> loadable T. case load_message T n of Ok m \<Rightarrow> {message_name m} | _ \<Rightarrow> {})"

lemma finite_loaded: "finite (loadable T) \<Longrightarrow> finite (loaded_names T)"
  by (auto simp: loaded_names_def split: outcome.split)

lemma loaded_name: "load_message T n = Ok m \<Longrightarrow> message_name m \<in> loaded_names T"
  by (auto simp: loaded_names_def loadable_def intro!: exI [of _ n])

text \<open>A visit returns, does not panic, and forgets no type it has seen.\<close>

definition visited :: "string list \<Rightarrow> (string list \<times> json list) outcome option \<Rightarrow> bool" where
  "visited seen r \<longleftrightarrow> (\<exists>x. r = Some x \<and> yields (\<lambda>(seen', _). set seen \<subseteq> set seen') x)"

lemma visit_deps_returns:
  assumes "loads_wf T" "finite (loadable T)"
  shows "visited seen (visit_deps T H w ds seen res)"
proof (induction "(card (loaded_names T - set seen), length ds)" arbitrary: ds seen res
    rule: wf_induct_rule [OF wf_lex_prod [OF wf_less_than wf_less_than]])
  case (1 ds seen res)
  note fin = finite_Diff [OF finite_loaded [OF assms(2)]]
  have later: "visited seen' (visit_deps T H w ds' seen' res')"
    if "set seen \<subseteq> set seen'" "length ds' < length ds" for ds' seen' res'
  proof (rule 1)
    have "card (loaded_names T - set seen') \<le> card (loaded_names T - set seen)"
      using that(1) by (intro card_mono [OF fin]) auto
    then show "((card (loaded_names T - set seen'), length ds'), (card (loaded_names T - set seen), length ds)) \<in> less_than <*lex*> less_than"
      using that(2) by auto
  qed
  show ?case
  proof (cases ds)
    case Nil
    then show ?thesis by (simp add: visit_deps.simps visited_def)
  next
    case (Cons d rest)
    show ?thesis
    proof (cases "load_message T d")
      case (Ok m)
      have m: "members_wf m" using assms(1) Ok unfolding loads_wf_def by (metis yields_simps(1))
      show ?thesis
      proof (cases "message_name m \<in> set seen")
        case True
        then show ?thesis using Ok Cons later [of seen rest res] by (simp add: visit_deps.simps [of _ _ _ "d # rest"])
      next
        case False
        show ?thesis
        proof (cases "typedef_of T H w m")
          case td: (Ok a)
          obtain entry own where a: "a = (entry, own)" by (cases a)
          have "loaded_names T - set (message_name m # seen) \<subset> loaded_names T - set seen"
            using False loaded_name [OF Ok] by auto
          then have "visited (message_name m # seen) (visit_deps T H w own (message_name m # seen) (res @ [entry]))"
            by (intro 1) (simp add: psubset_card_mono [OF fin])
          then obtain x where x: "visit_deps T H w own (message_name m # seen) (res @ [entry]) = Some x"
            "yields (\<lambda>(seen', _). set (message_name m # seen) \<subseteq> set seen') x" by (auto simp: visited_def)
          show ?thesis
          proof (cases x)
            case xo: (Ok b)
            obtain seen' res' where b: "b = (seen', res')" by (cases b)
            then have sub: "set seen \<subseteq> set seen'" using x(2) xo by auto
            then have "visited seen (visit_deps T H w rest seen' res')"
              using later [of seen' rest res'] Cons by (fastforce simp: visited_def elim: yields_mono)
            then show ?thesis
              using Ok Cons False td a x(1) xo b by (simp add: visit_deps.simps [of _ _ _ "d # rest"])
          qed (use Ok Cons False td a x in \<open>simp_all add: visit_deps.simps [of _ _ _ "d # rest"] visited_def\<close>)
        qed (use typedef_of_ok [OF m, of T H w] Ok Cons False in \<open>simp_all add: visit_deps.simps [of _ _ _ "d # rest"] visited_def\<close>)
      qed
    qed (use assms(1) Cons in \<open>auto simp: visit_deps.simps [of _ _ _ "d # rest"] visited_def loads_wf_def dest: spec [of _ d]\<close>)
  qed
qed

lemma typedefs_no_panic:
  assumes "loads_wf T" "finite (loadable T)" "members_wf m"
  shows "typedefs T H w m \<noteq> Panic"
proof (cases "typedef_of T H w m")
  case (Ok a)
  obtain entry own where a: "a = (entry, own)" by (cases a)
  obtain x where "visit_deps T H w own [message_name m] [entry] = Some x" "x \<noteq> Panic"
    using visit_deps_returns [OF assms(1,2), of "[message_name m]" H w own "[entry]"]
    by (auto simp: visited_def dest: yields_no_panic)
  then show ?thesis using Ok a by (auto simp: typedefs_def or_diverge_def bindO_Panic split: prod.splits)
qed (use typedef_of_ok [OF assms(3), of T H w] in \<open>simp_all add: typedefs_def\<close>)

section \<open>Properties\<close>

text \<open>
  C31. The full text that rosapi gives for a type is the text of its interface followed by one
  section for each type it depends on, directly or through others: all of them, none twice, and
  no others, each under a heading with its name.
\<close>

theorem raw_definition_complete:
  assumes "raw_definition T H w typ = Ok res" "type_name typ ''msg'' = Ok t"
  shows "\<exists>L. distinct L \<and> set L = (dep_rel T H w)\<^sup>+ `` {t} \<and>
    res = own_text T H w t @ concat (map (\<lambda>n. raw_heading n @ own_text T H w n) L)"
proof -
  have r: "raw_loop T H w [t] [] True [] = Some (Ok res)"
    using assms by (auto simp: raw_definition_def or_diverge_def split: option.splits)
  then obtain content ds where a: "raw_one T H w t = Ok (content, ds)"
    by (subst (asm) raw_loop.simps) (auto split: outcome.splits)
  obtain new where new: "push_new ds ([], []) = (new, new)" "distinct new" "set new = set ds"
    using push_new_spec [of ds "[]" "[]"] by auto
  have "raw_loop T H w new new False content = Some (Ok res)"
    using r a new(1) by (subst (asm) raw_loop.simps) simp
  from raw_loop_sections [OF this] obtain L where "writes T H w new new content res L"
    using new(2) by auto
  then have L: "res = content @ concat (map (\<lambda>n. raw_heading n @ own_text T H w n) L)" "distinct L" "set new \<subseteq> set L"
    "\<And>n. n \<in> set L \<Longrightarrow> set (depends T H w n) \<subseteq> set L" "set L \<subseteq> (dep_rel T H w)\<^sup>* `` set new"
    by (auto simp: writes_def)
  have dt: "depends T H w t = ds" "own_text T H w t = content" by (simp_all add: depends_def own_text_def a)
  have "d \<in> set L" if "(t, d) \<in> (dep_rel T H w)\<^sup>+" for d
    using that
  proof (induction rule: trancl_induct)
    case (base d)
    then show ?case using L(3) new(3) dt(1) by (auto simp: dep_rel_def)
  next
    case (step d e)
    then show ?case using L(4) by (auto simp: dep_rel_def)
  qed
  moreover have "(t, d) \<in> (dep_rel T H w)\<^sup>+" if "d \<in> set L" for d
  proof -
    have "d \<in> (dep_rel T H w)\<^sup>* `` set new" using L(5) that by blast
    then obtain n where "n \<in> set new" "(n, d) \<in> (dep_rel T H w)\<^sup>*" by blast
    moreover have "(t, n) \<in> dep_rel T H w" using calculation(1) new(3) dt(1) by (simp add: dep_rel_def)
    ultimately show ?thesis by (rule_tac rtrancl_into_trancl2)
  qed
  ultimately have "set L = (dep_rel T H w)\<^sup>+ `` {t}" by auto
  then show ?thesis using L(1,2) dt(2) by blast
qed

text \<open>
  C32. Looking up definitions ends: where finitely many interface types are installed, whatever
  they depend on, and even if they depend on each other in a circle, both the loop that collects
  the texts and the visit that collects the type descriptions return, with a result or an error.
\<close>

theorem definitions_terminate:
  assumes "loads_wf T" "finite (loadable T)"
  shows "(\<exists>r. raw_loop T H w stack seen first out = Some r \<and> r \<noteq> Panic) \<and>
    (\<exists>r. visit_deps T H w ds seen res = Some r \<and> r \<noteq> Panic)"
  using raw_loop_returns [OF assms] visit_deps_returns [OF assms, of seen H w ds res]
  by (auto simp: visited_def dest: yields_no_panic)

definition sample_loads :: typesupport where
  "sample_loads = sample_types\<lparr>ts_load := (\<lambda>n. if n = ''sample/msg/Reading'' then Ok sample_members
     else if n = ''builtin_interfaces/msg/Time'' then Ok sample_stamp else Err ''unknown'')\<rparr>"

definition sample_native :: "(unit, 'a) native" where
  "sample_native = (\<lambda>w. ((1, ''not available'', undefined), w))"

definition sample_host :: "unit host" where
  "sample_host = \<lparr>rcl_node_names = sample_native, rcutils_strings_fini = sample_native,
     rcl_publishers_by_node = (\<lambda>_ _. sample_native), rcl_subscribers_by_node = (\<lambda>_ _. sample_native),
     rcl_services_by_node = (\<lambda>_ _. sample_native), h_instant = (\<lambda>_. 0), h_distro = ''jazzy'', h_prefixes = [''/opt''],
     h_is_file = (\<lambda>_ _. True), h_read_dir = (\<lambda>_ _. None), h_read_file = (\<lambda>_ p. Inr p),
     h_codec = \<lparr>json_print = (\<lambda>_. []), json_parse = (\<lambda>_. Ok JNull), cbor_write = (\<lambda>_. Ok []),
       cbor_read = (\<lambda>_. Ok CNull), base64 = ts_base64 sample_types, png_encode = (\<lambda>_ _ _. Ok [])\<rparr>,
     h_globs = \<lparr>pattern_new = (\<lambda>_. None), pattern_matches = (\<lambda>p s. p = s)\<rparr>, h_toml = (\<lambda>_. None),
     h_parse_f64 = (\<lambda>_. Inl ''invalid float literal'')\<rparr>"

lemma sample_loadable: "loads_wf sample_loads" "finite (loadable sample_loads)"
proof -
  show "loads_wf sample_loads"
    using sample_members(1) by (auto simp: loads_wf_def load_message_def sample_loads_def sample_stamp_def basic_ok_def)
  have "loadable sample_loads \<subseteq> {''sample/msg/Reading'', ''builtin_interfaces/msg/Time''}"
    by (auto simp: loadable_def load_message_def sample_loads_def bindO_eq_Ok split: if_splits)
  then show "finite (loadable sample_loads)" by (rule finite_subset) simp
qed

theorem definitions_terminate_witness:
  "\<exists>r. raw_loop sample_loads sample_host () [''sample/msg/Reading''] [] True [] = Some r \<and> r \<noteq> Panic"
  using definitions_terminate [OF sample_loadable, of sample_host "()" "[''sample/msg/Reading'']" "[]" True "[]" "[]" "[]"] by blast

lemma sample_one:
  "\<exists>content. raw_one sample_loads sample_host () ''sample/msg/Reading'' = Ok (content, [''builtin_interfaces/msg/Time''])"
  "\<exists>content. raw_one sample_loads sample_host () ''builtin_interfaces/msg/Time'' = Ok (content, [])"
  by (simp_all add: raw_one_def interface_path_def read_text_def load_message_def valid_type_name_def dependencies_def
      sample_host_def sample_loads_def sample_members_def sample_stamp_def message_name_def Let_def ident_def
      ident_char_def is_alnum_def is_digit_def code_of_def)

lemma sample_type_name: "type_name ''sample/Reading'' ''msg'' = Ok ''sample/msg/Reading''"
  by (simp add: type_name_def ident_def ident_char_def is_alnum_def is_digit_def code_of_def)

theorem raw_definition_complete_witness:
  "\<exists>res L. raw_definition sample_loads sample_host () ''sample/Reading'' = Ok res \<and> distinct L \<and>
     res = own_text sample_loads sample_host () ''sample/msg/Reading'' @
       concat (map (\<lambda>n. raw_heading n @ own_text sample_loads sample_host () n) L)"
proof -
  have "\<exists>res. raw_loop sample_loads sample_host () [''sample/msg/Reading''] [] True [] = Some (Ok res)"
    using sample_one by (auto simp: raw_loop.simps push_new_def)
  then obtain res where "raw_definition sample_loads sample_host () ''sample/Reading'' = Ok res"
    by (auto simp: raw_definition_def sample_type_name or_diverge_def)
  from raw_definition_complete [OF this sample_type_name] this show ?thesis by blast
qed

end
