(* ===== verification/Rosapi_State.thy ===== *)
theory Rosapi_State
  imports Rosapi Definitions_Complete
begin

text \<open>
  The invariant of the rosapi services and its tables: every pending call belongs to a request that
  counts it, and the services hold entities of their own. Before that, what the operations of the
  backend do to the counters behind entities and requests.
\<close>

section \<open>Steady operations of the backend\<close>

text \<open>The counters behind entities and requests, and the operations that move neither them nor
  the set of live entities.\<close>

definition counters :: "'w ros \<Rightarrow> nat \<times> nat" where
  "counters r = (ros_next r, next_request r)"

definition steady :: "('w ros, 'a) action \<Rightarrow> bool" where
  "steady m \<longleftrightarrow> (\<forall>M. ends (holds M) (\<lambda>_. True) m) \<and> same counters m"

lemma same_checked: "same counters (checked m)"
  by (auto simp: same_def checked_def counters_def split: prod.split)

lemma same_ignored: "same counters (ignored m)"
  by (auto simp: same_def ignored_def counters_def split: prod.split)

lemma same_counters_mod:
  "(\<And>r. ros_next (h r) = ros_next r \<and> next_request (h r) = next_request r) \<Longrightarrow> same counters (modA h)"
  by (rule same_mod) (simp add: counters_def)

lemmas same_native = same_checked same_ignored same_counters_mod

lemma steady_ends: "steady m \<Longrightarrow> ends (holds M) (\<lambda>_. True) m"
  by (simp add: steady_def)

lemma ends_keeps: "keeps ros_valid ros_live m \<Longrightarrow> ends (holds L) (\<lambda>_. True) m"
  by (simp add: keeps_def ends_def holds_fun)

lemma creates_triple:
  assumes "creates ros_valid ros_live m"
  shows "triple (holds M) m (\<lambda>e r. e \<notin> M \<and> holds (insert e M) r) (holds M)"
proof -
  have "triple (holds M) m (\<lambda>e b. ros_valid b \<and> e \<notin> M \<and> ros_live b = insert e M) (holds M)"
    using assms by (simp add: creates_def holds_fun)
  then show ?thesis by (rule triple_post) (auto simp: holds_def)
qed

text \<open>A creation takes the next number.\<close>

definition counts :: "('w ros, nat) action \<Rightarrow> bool" where
  "counts m \<longleftrightarrow> (\<forall>s. case m s of
      (Ok e, t) \<Rightarrow> e = ros_next s + 1 \<and> counters t = (e, next_request s)
    | (_, t) \<Rightarrow> counters t = counters s)"

lemma same_result: "same f m \<Longrightarrow> m s = (r, u) \<Longrightarrow> f u = f s"
  unfolding same_def by (metis snd_conv)

lemma counts_bind:
  assumes m: "same counters m" and f: "\<And>a. counts (f a)"
  shows "counts (bindA m f)"
  unfolding counts_def
proof
  fix s
  obtain r u where u: "m s = (r, u)" by (cases "m s")
  then have c: "ros_next u = ros_next s" "next_request u = next_request s"
    using same_result [OF m u] by (simp_all add: counters_def)
  show "case bindA m f s of (Ok e, t) \<Rightarrow> e = ros_next s + 1 \<and> counters t = (e, next_request s)
    | (_, t) \<Rightarrow> counters t = counters s"
  proof (cases r)
    case (Ok a)
    then have "bindA m f s = f a u" by (simp add: bindA_def u)
    then show ?thesis
      using spec [OF f [of a, unfolded counts_def], of u] c by (auto simp: counters_def split: outcome.splits prod.splits)
  qed (simp_all add: bindA_def u c counters_def)
qed

lemma counts_insert: "counts (ros_insert h)"
  by (simp add: counts_def ros_insert_def counters_def Let_def)

text \<open>The numbers of the requests among events.\<close>

definition request_ids :: "event list \<Rightarrow> nat list" where
  "request_ids evs = List.map_filter (\<lambda>ev. case ev of EvRequest e i v \<Rightarrow> Some i | _ \<Rightarrow> None) evs"

lemma request_ids_simps [simp]:
  "request_ids [] = []" "request_ids (EvRequest e i v # evs) = i # request_ids evs"
  "request_ids (EvResponse e n v # evs) = request_ids evs" "request_ids (EvMessage e m # evs) = request_ids evs"
  "request_ids (evs @ evs') = request_ids evs @ request_ids evs'"
  by (simp_all add: request_ids_def List.map_filter_def)

text \<open>Polling numbers the requests it takes upwards from the counter. \<open>xs\<close> are the numbers taken
  before, \<open>g\<close> reads the events off the result.\<close>

definition numbers :: "nat list \<Rightarrow> ('a \<Rightarrow> event list) \<Rightarrow> ('w ros, 'a) action \<Rightarrow> bool" where
  "numbers xs g m \<longleftrightarrow> (\<forall>s. let (r, t) = m s in ros_next t = ros_next s \<and> next_request s \<le> next_request t \<and>
     (\<forall>a. r = Ok a \<longrightarrow> request_ids (g a) = xs @ [next_request s + 1..<next_request t + 1]))"

lemma numbersD:
  "numbers xs g m \<Longrightarrow> m s = (r, t) \<Longrightarrow> ros_next t = ros_next s \<and> next_request s \<le> next_request t \<and>
     (\<forall>a. r = Ok a \<longrightarrow> request_ids (g a) = xs @ [next_request s + 1..<next_request t + 1])"
  unfolding numbers_def by (drule spec [of _ s]) simp

lemma numbersI:
  "(\<And>s r t. m s = (r, t) \<Longrightarrow> ros_next t = ros_next s \<and> next_request s \<le> next_request t \<and>
     (\<forall>a. r = Ok a \<longrightarrow> request_ids (g a) = xs @ [next_request s + 1..<next_request t + 1])) \<Longrightarrow> numbers xs g m"
  by (simp add: numbers_def split: prod.split)

lemma upt_join: "a \<le> b \<Longrightarrow> b \<le> c \<Longrightarrow> [a + 1..<b + 1] @ [b + 1..<c + 1] = [a + 1..<c + (1::nat)]"
  using upt_add_eq_append [of "a + 1" "b + 1" "c - b"] by simp

lemma numbers_bind:
  assumes m: "numbers xs g m" and f: "\<And>a. numbers (request_ids (g a)) h (f a)"
  shows "numbers xs h (bindA m f)"
proof (rule numbersI)
  fix s r t assume b: "bindA m f s = (r, t)"
  obtain r1 u where u: "m s = (r1, u)" by (cases "m s")
  note 1 = numbersD [OF m u]
  show "ros_next t = ros_next s \<and> next_request s \<le> next_request t \<and>
     (\<forall>a. r = Ok a \<longrightarrow> request_ids (h a) = xs @ [next_request s + 1..<next_request t + 1])"
  proof (cases r1)
    case (Ok a)
    then have "f a u = (r, t)" using b by (simp add: bindA_def u)
    note 2 = numbersD [OF f this]
    have j: "[next_request s + 1..<next_request u + 1] @ [next_request u + 1..<next_request t + 1]
        = [next_request s + 1..<next_request t + 1]"
      by (rule upt_join) (use 1 2 in simp_all)
    from 1 Ok have "request_ids (g a) = xs @ [next_request s + 1..<next_request u + 1]" by blast
    with 1 2 j show ?thesis by auto
  qed (use b u 1 in \<open>auto simp: bindA_def\<close>)
qed

lemma numbers_same:
  assumes m: "same counters m" and f: "\<And>a. numbers xs h (f a)"
  shows "numbers xs h (bindA m f)"
proof (rule numbersI)
  fix s r t assume b: "bindA m f s = (r, t)"
  obtain r1 u where u: "m s = (r1, u)" by (cases "m s")
  have c: "ros_next u = ros_next s" "next_request u = next_request s"
    using same_result [OF m u] by (simp_all add: counters_def)
  show "ros_next t = ros_next s \<and> next_request s \<le> next_request t \<and>
     (\<forall>a. r = Ok a \<longrightarrow> request_ids (h a) = xs @ [next_request s + 1..<next_request t + 1])"
  proof (cases r1)
    case (Ok a)
    then have "f a u = (r, t)" using b by (simp add: bindA_def u)
    from numbersD [OF f this] c show ?thesis by simp
  qed (use b u c in \<open>auto simp: bindA_def\<close>)
qed

lemma numbers_ret: "request_ids (g a) = xs \<Longrightarrow> numbers xs g (retA a)"
  by (simp add: numbers_def retA_def)

lemma numbers_err: "numbers xs g (errA e)"
  by (simp add: numbers_def errA_def)

lemma numbers_more: "numbers [] (\<lambda>x. x) m \<Longrightarrow> numbers (request_ids evs) (\<lambda>x. x) (bindA m (\<lambda>more. retA (evs @ more)))"
proof (rule numbersI)
  fix s r t assume m: "numbers [] (\<lambda>x. x) m" and b: "bindA m (\<lambda>more. retA (evs @ more)) s = (r, t)"
  obtain r1 u where u: "m s = (r1, u)" by (cases "m s")
  from numbersD [OF m u] b u
  show "ros_next t = ros_next s \<and> next_request s \<le> next_request t \<and>
     (\<forall>a. r = Ok a \<longrightarrow> request_ids a = request_ids evs @ [next_request s + 1..<next_request t + 1])"
    by (cases r1) (auto simp: bindA_def retA_def)
qed

lemma same_taken: "same counters (taken n m)"
  by (auto simp: same_def taken_def counters_def split: prod.split)

lemma same_raw: "same counters (raw_message W ty msg)"
  unfolding raw_message_def by (auto intro!: same_rules same_native split: sum.split)

lemma same_frame:
  "same counters (modA (\<lambda>r. r\<lparr>simulated := x\<rparr>))" "same counters (modA (\<lambda>r. r\<lparr>requests := f r\<rparr>))"
  "same counters (modA (\<lambda>r. r\<lparr>handles := g r\<rparr>))"
  by (rule same_counters_mod, simp)+

abbreviation events_of :: "event list option \<Rightarrow> event list" where
  "events_of got \<equiv> (case got of None \<Rightarrow> [] | Some evs \<Rightarrow> evs)"

lemma numbers_service:
  "numbers [] events_of (bindA (getA (\<lambda>r. next_request r + 1)) (\<lambda>k.
     bindA (modA (\<lambda>r. r\<lparr>next_request := k, requests := AList.update (i, k) header (requests r)\<rparr>)) (\<lambda>_.
     bindA (liftA v) (\<lambda>(j, c). retA (Some [EvRequest i k j])))))"
  by (rule numbersI) (cases v; auto simp: bindA_def getA_def modA_def liftA_def retA_def errA_def split: prod.splits)

lemma numbers_take_one: "numbers [] events_of (take_one W now i h)"
proof (cases h)
  case (HPublisher n ty)
  show ?thesis unfolding take_one_def HPublisher by (simp add: numbers_ret)
next
  case (HSubscription n ty)
  show ?thesis unfolding take_one_def HSubscription handle.case
    by (auto intro!: numbers_same [OF same_taken] numbers_ret numbers_same [OF same_basic(4)] numbers_same [OF same_basic(5)]
        numbers_same [OF same_raw] numbers_same [OF same_frame(1)] split: option.split)
next
  case (HClient n q s)
  show ?thesis unfolding take_one_def HClient handle.case
    by (auto intro!: numbers_same [OF same_taken] numbers_ret numbers_same [OF same_basic(4)] split: option.split)
next
  case (HService n q s)
  show ?thesis unfolding take_one_def HService handle.case
    by (auto intro!: numbers_same [OF same_taken] numbers_ret numbers_service [simplified] split: option.split)
qed

lemma numbers_take: "numbers [] (\<lambda>x. x) (take_up_to k W now i h)"
proof (induction k)
  case 0
  show ?case by (simp add: numbers_ret)
next
  case (Suc k)
  show ?case
    unfolding take_up_to.simps
    by (rule numbers_bind [OF numbers_take_one]) (auto intro: numbers_ret numbers_more [OF Suc.IH] split: option.split)
qed

lemma numbers_handles: "numbers [] (\<lambda>x. x) (poll_handles W now hs)"
proof (induction hs)
  case Nil
  show ?case by (simp add: numbers_ret)
next
  case (Cons x hs)
  obtain i h where x: "x = (i, h)" by (cases x)
  have "numbers [] (\<lambda>x. x) (if b then take_up_to 32 W now i h else retA [])" for b
    by (simp add: numbers_take numbers_ret)
  then show ?case
    unfolding x poll_handles.simps
    by (intro numbers_same [OF same_basic(5)] numbers_same [OF same_basic(4)]
        numbers_bind [OF \<open>\<And>b. numbers _ _ (if b then _ else _)\<close>] numbers_more Cons.IH)
qed

lemma numbers_poll: "numbers [] (\<lambda>x. x) (ros_poll W)"
  unfolding ros_poll_def by (intro numbers_same [OF same_basic(5)] numbers_handles)

lemma same_graph: "same counters (ros_graph W b)"
  unfolding ros_graph_def by (intro same_bind same_basic same_checked)

lemma same_nodes: "same counters (ros_nodes H)"
  unfolding ros_nodes_def by (auto intro!: same_rules same_checked)

lemma same_node_graph: "same counters (ros_node_graph W H n k)"
  unfolding ros_node_graph_def Let_def by (auto intro!: same_rules same_checked split: option.split)

lemma same_publish: "same counters (ros_publish W i v)"
  unfolding ros_publish_def by (auto intro!: same_rules same_checked split: option.split handle.split)

lemma same_request: "same counters (ros_request W i v)"
  unfolding ros_request_def by (auto intro!: same_rules same_checked split: option.split handle.split)

lemma same_validate: "same counters (ros_validate_response W i v)"
  unfolding ros_validate_response_def by (auto intro!: same_rules split: option.split handle.split)

lemma same_respond: "same counters (ros_respond W i n v)"
  unfolding ros_respond_def by (auto intro!: same_rules same_checked same_frame split: option.split handle.split)

lemma same_discard: "same counters (ros_discard_request i n)"
  unfolding ros_discard_request_def by (rule same_frame)

lemma same_publisher_qos: "same counters (ros_publisher_qos W n)"
  unfolding ros_publisher_qos_def by (intro same_bind same_basic same_checked)

lemma same_destroy: "same counters (ros_destroy W i)"
  unfolding ros_destroy_def by (auto intro!: same_rules same_ignored same_frame split: option.split)

lemma counts_creations:
  "counts (ros_publisher W n t q)" "counts (ros_subscription W n t q)"
  "counts (ros_client W n t)" "counts (ros_service W n t)"
  unfolding ros_publisher_def ros_subscription_def ros_client_def ros_service_def
  by (auto intro!: counts_bind same_basic same_checked counts_insert)

text \<open>What the services rely on besides the native layer: parsing JSON does not abort, and
  finitely many message types are installed.\<close>

locale host_contract = native_contract W for W :: "'w world" +
  fixes H :: "'w host"
  assumes parse_total: "json_parse (h_codec H) s \<noteq> Panic"
    and finitely_many: "finite (loadable (w_types W))"
begin

lemma steady_ops:
  "steady (ros_graph W b)" "steady (ros_publish W i v)" "steady (ros_request W i v)"
  "steady (ros_validate_response W i v)" "steady (ros_respond W i k v)" "steady (ros_discard_request i k)"
  "steady (ros_publisher_qos W n)"
  by (simp_all add: steady_def same_graph same_publish same_request same_validate same_respond same_discard
      same_publisher_qos graph_ends respond_ends discard_ends ends_keeps publish_keeps request_keeps
      validate_keeps publisher_qos_keeps)

lemma steady_nodes: "steady (ros_nodes H)"
  unfolding steady_def
  by (simp add: same_nodes) (auto simp: ros_nodes_def intro!: ends_bind [OF ends_any] ends_steps)

lemma c_string_total: "c_string s \<noteq> Panic"
  by simp

lemma steady_node_graph: "steady (ros_node_graph W H n k)"
proof -
  obtain a b where r: "rsplit_once CHR ''/'' (CHR ''/'' # trim_start_slash n) = Some (a, b)"
    using rsplit_once_absolute by fastforce
  show ?thesis
    unfolding steady_def
    by (simp add: same_node_graph)
      (simp add: ros_node_graph_def r Let_def ends_lift ends_bind [OF ends_any] ends_ret)
qed

lemma loads: "loads_wf (w_types W)"
  by (simp add: loads_wf_def load_message_ok)

end

section \<open>The invariant of the services\<close>

text \<open>The entities the services hold: their servers, and one client for each pending call.\<close>

definition held :: "api \<Rightarrow> nat set" where
  "held a = set (keys (operations a)) \<union> fst ` set (keys (api_pending a))"

text \<open>No two of them are the same: each pending call has a client of its own.\<close>

definition own :: "api \<Rightarrow> bool" where
  "own a \<longleftrightarrow> distinct (keys (operations a)) \<and> distinct (map (fst \<circ> fst) (api_pending a)) \<and>
     set (keys (operations a)) \<inter> fst ` set (keys (api_pending a)) = {}"

definition waiting :: "nat \<Rightarrow> api \<Rightarrow> nat" where
  "waiting i a = count (mset (map (\<lambda>x. pc_group (snd x)) (api_pending a))) i"

definition names_param :: "json \<Rightarrow> bool" where
  "names_param args \<longleftrightarrow> split_once '':'' (text_of args ''name'') \<noteq> None"

text \<open>A pending call belongs to a request, which counts it; requests in \<open>F\<close> are being finished, and
  those in \<open>D\<close> have not yet counted an answer.\<close>

definition call_ok :: "nat set \<Rightarrow> api \<Rightarrow> pending_call \<Rightarrow> bool" where
  "call_ok F a p \<longleftrightarrow> pc_group p \<in> F \<or>
     (\<exists>g. map_of (api_groups a) (pc_group p) = Some g \<and> (pc_delete_check p \<longrightarrow> names_param (pg_args g)))"

definition group_ok :: "nat set \<Rightarrow> nat set \<Rightarrow> nat set \<Rightarrow> api \<Rightarrow> nat \<Rightarrow> param_group \<Rightarrow> bool" where
  "group_ok K D F a i g \<longleftrightarrow> i \<in> K \<and> i \<notin> F \<and> pg_remaining g = waiting i a + of_bool (i \<in> D)"

definition api_ok :: "'w host \<Rightarrow> nat set \<Rightarrow> nat set \<Rightarrow> nat set \<Rightarrow> api \<Rightarrow> bool" where
  "api_ok H K D F a \<longleftrightarrow> entries (\<lambda>_. call_ok F a) (api_pending a) \<and> entries (group_ok K D F a) (api_groups a) \<and>
     (\<forall>w. instant_ok (h_instant H w + api_timeout a))"

text \<open>What the services hold is alive, the rest of the backend keeps \<open>L\<close>; \<open>X\<close> are entities the services
  hold outside their tables.\<close>

definition holding :: "nat \<Rightarrow> nat set \<Rightarrow> nat set \<Rightarrow> 'w served \<Rightarrow> bool" where
  "holding q L X s \<longleftrightarrow> ros_valid (sv_ros s) \<and> own (sv_api s) \<and> held (sv_api s) \<union> X \<subseteq> ros_live (sv_ros s) \<and>
     ros_live (sv_ros s) - (held (sv_api s) \<union> X) = L \<and>
     held (sv_api s) \<union> X \<subseteq> {..ros_next (sv_ros s)} \<and> held (sv_api s) \<inter> X = {} \<and> next_request (sv_ros s) = q"

definition serves :: "'w host \<Rightarrow> nat \<Rightarrow> nat set \<Rightarrow> nat set \<Rightarrow> nat set \<Rightarrow> nat set \<Rightarrow> nat set \<Rightarrow> 'w served \<Rightarrow> bool" where
  "serves H q L K X D F s \<longleftrightarrow> holding q L X s \<and> api_ok H K D F (sv_api s)"

lemma waiting_drop:
  "distinct (keys (api_pending a)) \<Longrightarrow> map_of (api_pending a) k = Some p \<Longrightarrow>
   waiting i a = waiting i (a\<lparr>api_pending := AList.delete k (api_pending a)\<rparr>) + of_bool (pc_group p = i)"
  unfolding waiting_def using mset_map_remove [of "api_pending a" k p "\<lambda>x. pc_group (snd x)"] by simp

lemma waiting_put:
  "k \<notin> set (keys (api_pending a)) \<Longrightarrow>
   waiting i (a\<lparr>api_pending := AList.update k p (api_pending a)\<rparr>) = waiting i a + of_bool (pc_group p = i)"
  unfolding waiting_def using mset_map_update_fresh [of k "api_pending a" "\<lambda>x. pc_group (snd x)" p] by simp

lemma waiting_frame [simp]:
  "waiting i (a\<lparr>api_groups := gs\<rparr>) = waiting i a" "waiting i (a\<lparr>api_definitions := ds\<rparr>) = waiting i a"
  by (simp_all add: waiting_def)

lemma held_frame [simp]:
  "held (a\<lparr>api_groups := gs\<rparr>) = held a" "held (a\<lparr>api_definitions := ds\<rparr>) = held a"
  by (simp_all add: held_def)

lemma held_put: "held (a\<lparr>api_pending := AList.update k p (api_pending a)\<rparr>) = insert (fst k) (held a)"
  by (auto simp: held_def)

lemma held_drop:
  "k \<in> set (keys (api_pending a)) \<Longrightarrow>
   insert (fst k) (held (a\<lparr>api_pending := AList.delete k (api_pending a)\<rparr>)) = held a"
  by (force simp: held_def)

lemma own_frame [simp]:
  "own (a\<lparr>api_groups := gs\<rparr>) = own a" "own (a\<lparr>api_definitions := ds\<rparr>) = own a"
  by (simp_all add: own_def)

lemma own_put: "own a \<Longrightarrow> fst k \<notin> held a \<Longrightarrow> own (a\<lparr>api_pending := AList.update k p (api_pending a)\<rparr>)"
proof -
  assume a: "own a" "fst k \<notin> held a"
  then have "k \<notin> set (keys (api_pending a))" by (auto simp: held_def)
  from update_fresh [OF this, of p] a show ?thesis by (auto simp: own_def held_def)
qed

lemma own_drop:
  assumes "own a" "k \<in> set (keys (api_pending a))"
  shows "own (a\<lparr>api_pending := AList.delete k (api_pending a)\<rparr>) \<and>
    fst k \<notin> held (a\<lparr>api_pending := AList.delete k (api_pending a)\<rparr>)"
proof -
  have d: "distinct (map (fst \<circ> fst) (api_pending a))" and o: "set (keys (operations a)) \<inter> fst ` set (keys (api_pending a)) = {}"
    using assms(1) by (simp_all only: own_def)
  obtain p where p: "(k, p) \<in> set (api_pending a)" using assms(2) by auto
  have "fst (fst y) \<noteq> fst k" if "y \<in> set (AList.delete k (api_pending a))" for y
  proof
    assume "fst (fst y) = fst k"
    moreover have "y \<in> set (api_pending a)" "fst y \<noteq> k" using that by simp_all
    ultimately have "y = (k, p)" using p d unfolding distinct_map inj_on_def by (metis comp_apply fst_conv)
    then show False using \<open>fst y \<noteq> k\<close> by simp
  qed
  moreover have "fst k \<notin> set (keys (operations a))" using o assms(2) by blast
  moreover have "distinct (map (fst \<circ> fst) (AList.delete k (api_pending a)))"
    using d by (simp add: remove_filter distinct_map_filter)
  moreover have "set (keys (operations a)) \<inter> fst ` set (keys (AList.delete k (api_pending a))) = {}" using o by auto
  ultimately show ?thesis using assms(1) by (fastforce simp: own_def held_def)
qed

lemma waiting_none: "waiting i a = 0 \<longleftrightarrow> (\<forall>p \<in> set (vals (api_pending a)). pc_group p \<noteq> i)"
  by (auto simp: waiting_def count_eq_zero_iff)

section \<open>Tables of the services\<close>

lemma api_ok_definitions: "api_ok H K D F (a\<lparr>api_definitions := ds\<rparr>) = api_ok H K D F a"
  unfolding api_ok_def call_ok_def group_ok_def by simp

lemma group_frame [simp]:
  "group_ok K D F (a\<lparr>api_groups := gs\<rparr>) = group_ok K D F a"
  by (simp add: group_ok_def fun_eq_iff)

lemma api_ok_mono: "api_ok H K D F a \<Longrightarrow> K \<subseteq> K' \<Longrightarrow> api_ok H K' D F a"
  unfolding api_ok_def by (auto elim!: entries_mono simp: group_ok_def)

text \<open>A pending call is answered.\<close>

lemma api_ok_answer:
  assumes a: "api_ok H K {} {} a" and k: "map_of (api_pending a) k = Some p"
  shows "api_ok H K {pc_group p} {} (a\<lparr>api_pending := AList.delete k (api_pending a)\<rparr>)"
  using a waiting_drop [OF _ k]
  by (auto simp: api_ok_def entries_def group_ok_def call_ok_def)

text \<open>The entry of a request is changed, and counts what it waits for.\<close>

lemma api_ok_put:
  assumes a: "api_ok H K D {} a" "D \<subseteq> {i}" and g: "map_of (api_groups a) i = Some g"
    and g': "pg_args g' = pg_args g" "pg_remaining g' = waiting i a"
  shows "api_ok H K {} {} (a\<lparr>api_groups := AList.update i g' (api_groups a)\<rparr>)"
proof -
  let ?a = "a\<lparr>api_groups := AList.update i g' (api_groups a)\<rparr>"
  have e: "entries (group_ok K D {} a) (api_groups a)" using a by (simp add: api_ok_def)
  have "group_ok K {} {} ?a j h" if "(j, h) \<in> set (AList.update i g' (api_groups a))" for j h
  proof -
    have "j = i \<and> h = g' \<or> (j, h) \<in> set (api_groups a) \<and> j \<noteq> i"
      using that e in_set_update [of "api_groups a" "(j, h)" i g'] by (auto simp: entries_def)
    then show ?thesis
    proof
      assume "j = i \<and> h = g'"
      then show ?thesis using g' entries_lookup [OF e g] by (simp add: group_ok_def)
    next
      assume jh: "(j, h) \<in> set (api_groups a) \<and> j \<noteq> i"
      then have "group_ok K D {} a j h" using e by (auto simp: entries_def)
      then show ?thesis using jh a(2) by (auto simp: group_ok_def)
    qed
  qed
  moreover have "call_ok {} ?a p" if "call_ok {} a p" for p
    using that g g' by (auto simp: call_ok_def)
  ultimately show ?thesis using a(1)
    by (auto simp: api_ok_def entries_def)
qed

text \<open>A call is added, with its request counting it.\<close>

lemma api_ok_call:
  assumes a: "api_ok H K {} {} a" and g: "map_of (api_groups a) i = Some g"
    and k: "k \<notin> set (keys (api_pending a))" and p: "pc_group p = i" "pc_delete_check p \<longrightarrow> names_param (pg_args g)"
  shows "api_ok H K {} {} (a\<lparr>api_pending := AList.update k p (api_pending a),
     api_groups := AList.update i (g\<lparr>pg_remaining := pg_remaining g + 1\<rparr>) (api_groups a)\<rparr>)"
proof -
  let ?g = "g\<lparr>pg_remaining := pg_remaining g + 1\<rparr>"
  let ?p = "a\<lparr>api_pending := AList.update k p (api_pending a)\<rparr>"
  let ?a = "?p\<lparr>api_groups := AList.update i ?g (api_groups a)\<rparr>"
  have e: "entries (group_ok K {} {} a) (api_groups a)" and f: "entries (\<lambda>_. call_ok {} a) (api_pending a)"
    using a by (simp_all add: api_ok_def)
  have "group_ok K {} {} ?a j h" if "(j, h) \<in> set (AList.update i ?g (api_groups a))" for j h
    using that e p(1) entries_lookup [OF e g] in_set_update [of "api_groups a" "(j, h)" i ?g]
    by (auto simp: entries_def group_ok_def waiting_put [OF k])
  moreover have "call_ok {} ?a p'" if "p' = p \<or> call_ok {} a p'" for p'
    using that g p by (auto simp: call_ok_def)
  moreover have "(k', p') \<in> set (AList.update k p (api_pending a)) \<Longrightarrow> p' = p \<or> call_ok {} a p'" for k' p'
    using f set_update_subset [of k p "api_pending a"] by (auto simp: entries_def)
  ultimately show ?thesis using a
    by (auto simp: api_ok_def entries_def)
qed

text \<open>A request is added.\<close>

lemma api_ok_open:
  assumes a: "api_ok H K {} {} a" and i: "i \<notin> K" and g: "pg_remaining g = 0"
  shows "api_ok H (insert i K) {} {} (a\<lparr>api_groups := AList.update i g (api_groups a)\<rparr>)"
proof -
  let ?a = "a\<lparr>api_groups := AList.update i g (api_groups a)\<rparr>"
  have e: "entries (group_ok K {} {} a) (api_groups a)" and f: "entries (\<lambda>_. call_ok {} a) (api_pending a)"
    using a by (simp_all add: api_ok_def)
  have fresh: "i \<notin> set (keys (api_groups a))" using e i by (auto simp: entries_def group_ok_def)
  have other: "pc_group p \<noteq> i" if "p \<in> set (vals (api_pending a))" for p
  proof -
    have "\<exists>k. (k, p) \<in> set (api_pending a)" using that by (metis imageE list.set_map prod.collapse)
    then obtain k where "(k, p) \<in> set (api_pending a)" by blast
    then have "call_ok {} a p" using f by (auto simp: entries_def)
    then show ?thesis using fresh map_of_in_set [of "api_groups a"] by (force simp: call_ok_def)
  qed
  have "waiting i a = 0" using other by (auto simp: waiting_none)
  then have "group_ok (insert i K) {} {} ?a j h" if "(j, h) \<in> set (AList.update i g (api_groups a))" for j h
    using that e g by (auto simp: update_fresh [OF fresh] entries_def group_ok_def)
  moreover have "call_ok {} ?a p" if "(k, p) \<in> set (api_pending a)" for k p
  proof -
    have "p \<in> set (vals (api_pending a))" by (simp add: rev_image_eqI [OF that])
    with other have "pc_group p \<noteq> i" by blast
    moreover have "call_ok {} a p" using that f by (auto simp: entries_def)
    ultimately show ?thesis by (simp add: call_ok_def)
  qed
  ultimately show ?thesis using a
    by (auto simp: api_ok_def entries_def)
qed

text \<open>A request is removed; then its calls, one by one.\<close>

lemma api_ok_close:
  assumes a: "api_ok H K {} {} a"
  shows "api_ok H K {} {i} (a\<lparr>api_groups := AList.delete i (api_groups a)\<rparr>)"
  using a by (auto simp: api_ok_def entries_def group_ok_def call_ok_def)

lemma api_ok_drop:
  assumes a: "api_ok H K {} {i} a" and k: "map_of (api_pending a) k = Some p" "pc_group p = i"
  shows "api_ok H K {} {i} (a\<lparr>api_pending := AList.delete k (api_pending a)\<rparr>)"
proof -
  let ?a = "a\<lparr>api_pending := AList.delete k (api_pending a)\<rparr>"
  have "group_ok K {} {i} ?a = group_ok K {} {i} a"
    using waiting_drop [OF entries_distinct k(1)] a k(2) by (auto simp: group_ok_def api_ok_def fun_eq_iff)
  moreover have "call_ok {i} ?a = call_ok {i} a"
    by (simp add: call_ok_def fun_eq_iff)
  ultimately show ?thesis
    using a by (simp add: api_ok_def entries_delete)
qed

lemma api_ok_closed:
  assumes a: "api_ok H K {} {i} a" and none: "\<And>k p. map_of (api_pending a) k = Some p \<Longrightarrow> pc_group p \<noteq> i"
  shows "api_ok H K {} {} a"
  using a none by (fastforce simp: api_ok_def entries_def group_ok_def call_ok_def)

end
