(* ===== verification/Rosapi_Safety.thy ===== *)
theory Rosapi_Safety
  imports Rosapi_State
begin

text \<open>
  Every operation of the rosapi services (\<^verbatim>\<open>src/ros/api.rs\<close>, \<^verbatim>\<open>src/ros/parameters.rs\<close>) keeps their
  invariant and does not panic, whatever the nodes answer.
\<close>

section \<open>Operations of the backend under the services\<close>

lemma same_onR: "same sv_api (onR m)"
  by (simp add: same_def onR_def split: prod.split)

lemma onR_result: "onR m s = (r, t) \<longleftrightarrow> (\<exists>u. m (sv_ros s) = (r, u) \<and> t = s\<lparr>sv_ros := u\<rparr>)"
  by (auto simp: onR_def split: prod.split)

lemma serves_ros:
  "serves H q L K X D F s \<Longrightarrow> holding q' L' X' (s\<lparr>sv_ros := u\<rparr>) \<Longrightarrow> serves H q' L' K X' D F (s\<lparr>sv_ros := u\<rparr>)"
  by (simp add: serves_def)

lemma holding_same:
  "holding q L X s \<Longrightarrow> holds (ros_live (sv_ros s)) u \<Longrightarrow> counters u = counters (sv_ros s) \<Longrightarrow>
   holding q L X (s\<lparr>sv_ros := u\<rparr>)"
  by (simp add: holding_def holds_def counters_def)

lemma serves_holds: "serves H q L K X D F s \<Longrightarrow> holds (ros_live (sv_ros s)) (sv_ros s)"
  by (simp add: serves_def holding_def holds_def)

lemma onR_steady:
  assumes "steady m"
  shows "ends (serves H q L K X D F) (\<lambda>_. True) (onR m)"
  unfolding ends_def
proof (rule tripleI)
  fix s assume s: "serves H q L K X D F s"
  have e: "triple (holds (ros_live (sv_ros s))) m (\<lambda>_. holds (ros_live (sv_ros s))) (holds (ros_live (sv_ros s)))"
    using assms by (simp add: steady_def ends_def)
  have c: "m (sv_ros s) = (r, u) \<Longrightarrow> counters u = counters (sv_ros s)" for r u
    using assms same_result [of counters m] by (simp add: steady_def)
  have h: "holding q L X s" using s by (simp add: serves_def)
  note go = serves_ros [OF s holding_same [OF h]]
  {
    fix a t assume "onR m s = (Ok a, t)"
    then show "serves H q L K X D F t \<and> True"
      using go triple_Ok [OF e serves_holds [OF s]] c by (auto simp: onR_result)
  next
    fix x t assume "onR m s = (Err x, t)"
    then show "serves H q L K X D F t"
      using go triple_Err [OF e serves_holds [OF s]] c by (auto simp: onR_result)
  next
    fix t assume "onR m s = (Panic, t)"
    then show False using triple_no_panic [OF e serves_holds [OF s]] by (auto simp: onR_result)
  }
qed

lemma onR_create:
  assumes m: "creates ros_valid ros_live m" "counts m"
  shows "triple (serves H q L K X D F) (onR m)
    (\<lambda>e s. serves H q L K (insert e X) D F s \<and> e \<notin> X \<and> e \<in> ros_live (sv_ros s)) (serves H q L K X D F)"
proof (rule tripleI)
  fix s assume s: "serves H q L K X D F s"
  let ?M = "ros_live (sv_ros s)"
  note e = creates_triple [OF m(1)]
  have h: "holding q L X s" using s by (simp add: serves_def)
  {
    fix a t assume "onR m s = (Ok a, t)"
    then obtain u where u: "m (sv_ros s) = (Ok a, u)" "t = s\<lparr>sv_ros := u\<rparr>" by (auto simp: onR_result)
    have c: "a = ros_next (sv_ros s) + 1" "counters u = (a, next_request (sv_ros s))"
      using m(2) u(1) unfolding counts_def by (auto dest: spec [of _ "sv_ros s"])
    have new: "a \<notin> ?M" "holds (insert a ?M) u" using triple_Ok [OF e serves_holds [OF s] u(1)] by auto
    have "holding q L (insert a X) t" "a \<notin> X" "a \<in> ros_live (sv_ros t)"
      using h new c by (auto simp: holding_def holds_def counters_def u(2))
    then show "serves H q L K (insert a X) D F t \<and> a \<notin> X \<and> a \<in> ros_live (sv_ros t)" using serves_ros [OF s] by (simp add: u(2))
  next
    fix x t assume "onR m s = (Err x, t)"
    then obtain u where u: "m (sv_ros s) = (Err x, u)" "t = s\<lparr>sv_ros := u\<rparr>" by (auto simp: onR_result)
    have c: "counters u = counters (sv_ros s)"
      using m(2) u(1) unfolding counts_def by (auto dest: spec [of _ "sv_ros s"])
    show "serves H q L K X D F t"
      unfolding u(2) using serves_ros [OF s] holding_same [OF h _ c] triple_Err [OF e serves_holds [OF s] u(1)] by blast
  next
    fix t assume "onR m s = (Panic, t)"
    then show False using triple_no_panic [OF e serves_holds [OF s]] by (auto simp: onR_result)
  }
qed

lemma triple_total: "(\<And>s. P s \<Longrightarrow> \<exists>t. m s = (Ok (), t) \<and> Q t) \<Longrightarrow> triple P m (\<lambda>_. Q) (\<lambda>_. False)"
  by (rule tripleI) fastforce+

context host_contract
begin

lemma destroy_run:
  "serves H q L K X D F s \<Longrightarrow> \<exists>u. onR (ros_destroy W e) s = (Ok (), s\<lparr>sv_ros := u\<rparr>) \<and>
     holds (ros_live (sv_ros s) - {e}) u \<and> counters u = counters (sv_ros s)"
  using destroy_holds [OF serves_holds] same_result [OF same_destroy] unfolding onR_result by blast

lemma onR_destroy:
  "triple (\<lambda>s. serves H q L K (insert e X) D F s \<and> e \<notin> X) (onR (ros_destroy W e)) (\<lambda>_. serves H q L K X D F) (\<lambda>_. False)"
proof -
  have "\<exists>t. onR (ros_destroy W e) s = (Ok (), t) \<and> serves H q L K X D F t"
    if s: "serves H q L K (insert e X) D F s" "e \<notin> X" for s
  proof -
    obtain u where u: "onR (ros_destroy W e) s = (Ok (), s\<lparr>sv_ros := u\<rparr>)" "holds (ros_live (sv_ros s) - {e}) u"
      "counters u = counters (sv_ros s)" using destroy_run [OF s(1)] by blast
    have "holding q L X (s\<lparr>sv_ros := u\<rparr>)"
      using s u by (auto simp: serves_def holding_def holds_def counters_def)
    then show ?thesis using u(1) serves_ros [OF s(1)] by blast
  qed
  then show ?thesis by (intro triple_total) blast
qed

text \<open>A pending call is given up: it leaves the table, and its client is destroyed.\<close>

lemma drop_call:
  assumes k: "\<And>s. P s \<Longrightarrow> serves H q L K {} D F s \<and> k \<in> set (keys (api_pending (sv_api s))) \<and>
      api_ok H K D' F ((sv_api s)\<lparr>api_pending := AList.delete k (api_pending (sv_api s))\<rparr>)"
  shows "triple P (bindA (modApi (\<lambda>a. a\<lparr>api_pending := AList.delete k (api_pending a)\<rparr>)) (\<lambda>_. onR (ros_destroy W (fst k))))
    (\<lambda>_ s. serves H q L K {} D' F s \<and>
       (\<exists>s0. P s0 \<and> sv_api s = (sv_api s0)\<lparr>api_pending := AList.delete k (api_pending (sv_api s0))\<rparr>)) (\<lambda>_. False)"
proof -
  have "\<exists>t. bindA (modApi (\<lambda>a. a\<lparr>api_pending := AList.delete k (api_pending a)\<rparr>)) (\<lambda>_. onR (ros_destroy W (fst k))) s = (Ok (), t) \<and>
      serves H q L K {} D' F t \<and> sv_api t = (sv_api s)\<lparr>api_pending := AList.delete k (api_pending (sv_api s))\<rparr>"
    if P: "P s" for s
  proof -
    let ?a = "(sv_api s)\<lparr>api_pending := AList.delete k (api_pending (sv_api s))\<rparr>"
    let ?s = "s\<lparr>sv_api := ?a\<rparr>"
    note s = k [OF P]
    have "holds (ros_live (sv_ros ?s)) (sv_ros ?s)" using serves_holds [of H q L K "{}" D F s] s by simp
    from destroy_holds [OF this, of "fst k"] obtain u
      where u: "ros_destroy W (fst k) (sv_ros ?s) = (Ok (), u)" "holds (ros_live (sv_ros s) - {fst k}) u" by auto
    have c: "counters u = counters (sv_ros s)" using same_result [OF same_destroy u(1)] by simp
    have h: "insert (fst k) (held ?a) = held (sv_api s)" using s held_drop by blast
    have live: "ros_live (sv_ros s) - {fst k} - held ?a = ros_live (sv_ros s) - held (sv_api s)"
      and sub: "held ?a \<subseteq> held (sv_api s)" by (simp_all only: h [symmetric]) auto
    have old: "holding q L {} s" using s by (simp add: serves_def)
    then have own: "own ?a \<and> fst k \<notin> held ?a" using own_drop [of "sv_api s" k] s by (simp add: holding_def)
    then have "held ?a \<subseteq> ros_live (sv_ros s) - {fst k}" using old sub by (auto simp: holding_def)
    then have "holding q L {} (?s\<lparr>sv_ros := u\<rparr>)"
      using old u(2) c live sub own by (simp add: holding_def holds_def counters_def) (blast intro: order_trans)
    then have "serves H q L K {} D' F (?s\<lparr>sv_ros := u\<rparr>)" using s by (simp add: serves_def)
    then show ?thesis using u(1) by (simp add: bindA_def modApi_def modA_def onR_def)
  qed
  then show ?thesis by (intro triple_total) blast
qed

end

section \<open>Answering and asking\<close>

lemma serves_api:
  "serves H q L K X D F s \<Longrightarrow> held a = held (sv_api s) \<and> own a = own (sv_api s) \<Longrightarrow> api_ok H K' D' F' a \<Longrightarrow>
   serves H q L K' X D' F' (s\<lparr>sv_api := a\<rparr>)"
  by (simp add: serves_def holding_def)

lemma serves_ok: "serves H q L K X D F s \<Longrightarrow> api_ok H K D F (sv_api s)"
  by (simp add: serves_def)

lemma bind_modApi:
  "(\<And>s. P s \<Longrightarrow> P' (s\<lparr>sv_api := f (sv_api s)\<rparr>)) \<Longrightarrow> triple P' (g ()) Q E \<Longrightarrow> triple P (bindA (modApi f) g) Q E"
  unfolding modApi_def by (rule triple_bind [OF triple_modI]) auto

lemma bind_getApi:
  "(\<And>x. triple (\<lambda>s. P s \<and> x = f (sv_api s)) (g x) Q E) \<Longrightarrow> triple P (bindA (getApi f) g) Q E"
  unfolding getApi_def by (rule bind_get)

definition calls_left :: "nat \<Rightarrow> (nat \<times> int) list \<Rightarrow> 'w served \<Rightarrow> bool" where
  "calls_left i ks s \<longleftrightarrow> distinct ks \<and>
     (\<forall>k. k \<in> set ks \<longleftrightarrow> (\<exists>p. map_of (api_pending (sv_api s)) k = Some p \<and> pc_group p = i))"

lemma calls_left_all:
  assumes "distinct (keys (api_pending (sv_api s)))"
  shows "calls_left i (keys (retain (\<lambda>_ p. pc_group p = i) (api_pending (sv_api s)))) s"
proof -
  have "k \<in> set (keys (retain (\<lambda>_ p. pc_group p = i) (api_pending (sv_api s)))) \<longleftrightarrow>
      (\<exists>p. map_of (api_pending (sv_api s)) k = Some p \<and> pc_group p = i)" for k
    using map_of_eq_Some_iff [OF assms] by (cases k) (force simp: image_iff)
  then show ?thesis using assms by (simp add: calls_left_def)
qed

lemma calls_left_next:
  assumes "calls_left i (k # ks) s"
    "sv_api t = (sv_api s)\<lparr>api_pending := AList.delete k (api_pending (sv_api s))\<rparr>"
  shows "calls_left i ks t"
proof -
  have d: "k \<notin> set ks" "distinct ks"
    and k: "k' = k \<or> k' \<in> set ks \<longleftrightarrow> (\<exists>p. map_of (api_pending (sv_api s)) k' = Some p \<and> pc_group p = i)" for k'
    using assms(1) unfolding calls_left_def by (simp_all del: split_paired_All)
  have "k' \<in> set ks \<longleftrightarrow> (\<exists>p. map_of (api_pending (sv_api t)) k' = Some p \<and> pc_group p = i)" for k'
    using d(1) k [of k'] by (cases "k' = k") (simp_all add: assms(2))
  with d(2) show ?thesis unfolding calls_left_def by blast
qed

context host_contract
begin

lemma drop_calls:
  "triple (\<lambda>s. serves H q L K {} {} {i} s \<and> calls_left i ks s)
     (forA ks (\<lambda>k. bindA (modApi (\<lambda>a. a\<lparr>api_pending := AList.delete k (api_pending a)\<rparr>)) (\<lambda>_. onR (ros_destroy W (fst k)))))
     (\<lambda>_. serves H q L K {} {} {}) (\<lambda>_. False)"
proof (induction ks)
  case Nil
  have "serves H q L K {} {} {} s" if "serves H q L K {} {} {i} s" "calls_left i [] s" for s
    using that api_ok_closed [OF serves_ok [OF that(1)]] by (auto simp: serves_def calls_left_def)
  then show ?case by (auto intro: triple_retI)
next
  case (Cons k ks)
  have pre: "serves H q L K {} {} {i} s \<and> k \<in> set (keys (api_pending (sv_api s))) \<and>
      api_ok H K {} {i} ((sv_api s)\<lparr>api_pending := AList.delete k (api_pending (sv_api s))\<rparr>)"
    if s: "serves H q L K {} {} {i} s \<and> calls_left i (k # ks) s" for s
  proof -
    obtain p where p: "map_of (api_pending (sv_api s)) k = Some p" "pc_group p = i"
      using s unfolding calls_left_def by (meson list.set_intros(1))
    then have "k \<in> set (keys (api_pending (sv_api s)))" by (force dest: map_of_SomeD)
    then show ?thesis using s api_ok_drop [OF serves_ok p] by blast
  qed
  show ?case
    unfolding forA.simps
    by (rule triple_bind [OF drop_call [OF pre] triple_pre [OF Cons.IH]]) (blast intro: calls_left_next)+
qed

lemma finish_serves:
  "triple (serves H q L K {} {} {}) (finish_request W H i val err) (\<lambda>_. serves H q L K {} {} {}) (serves H q L K {} {} {})"
proof -
  let ?I = "serves H q L K {} {} {}" and ?J = "serves H q L K {} {} {i}"
  have answer: "triple ?I (onR (ros_respond W n k v)) (\<lambda>_. ?I) ?I" for n k v
    using onR_steady [OF steady_ops(5)] by (simp add: ends_def)
  have loop: "triple (\<lambda>s. ?J s \<and> ks = keys (retain (\<lambda>_ p. pc_group p = i) (api_pending (sv_api s))))
      (bindA (forA ks (\<lambda>k. bindA (modApi (\<lambda>a. a\<lparr>api_pending := AList.delete k (api_pending a)\<rparr>)) (\<lambda>_. onR (ros_destroy W (fst k)))))
        (\<lambda>_. onR (ros_respond W n k v))) (\<lambda>_. ?I) ?I" for ks n k v
  proof (rule triple_bind)
    show "triple (\<lambda>s. ?J s \<and> ks = keys (retain (\<lambda>_ p. pc_group p = i) (api_pending (sv_api s))))
      (forA ks (\<lambda>k. bindA (modApi (\<lambda>a. a\<lparr>api_pending := AList.delete k (api_pending a)\<rparr>)) (\<lambda>_. onR (ros_destroy W (fst k)))))
      (\<lambda>_. ?I) ?I"
      by (rule triple_pre [OF triple_post [OF drop_calls]])
        (auto intro: calls_left_all simp: serves_def api_ok_def entries_def)
  qed (rule answer)
  have close: "?J (s\<lparr>sv_api := (sv_api s)\<lparr>api_groups := AList.delete i (api_groups (sv_api s))\<rparr>\<rparr>)" if "?I s" for s
    by (rule serves_api [OF that _ api_ok_close [OF serves_ok [OF that]]]) simp
  show ?thesis
    unfolding finish_request_def
    by (intro bind_getApi bind_lift bind_modApi [where P' = ?J] loop) (use close in auto)
qed

end

definition open_request :: "nat \<Rightarrow> bool \<Rightarrow> api \<Rightarrow> bool" where
  "open_request i strict a \<longleftrightarrow> (\<exists>g. map_of (api_groups a) i = Some g \<and> (strict \<longrightarrow> names_param (pg_args g)))"

lemma serves_adopt:
  "serves H q L K {e} D F s \<Longrightarrow> held a = insert e (held (sv_api s)) \<and> own a \<Longrightarrow> api_ok H K' D' F' a \<Longrightarrow>
   serves H q L K' {} D' F' (s\<lparr>sv_api := a\<rparr>)"
  by (simp add: serves_def holding_def)

lemma serves_fresh: "serves H q L K {fst k} D F s \<Longrightarrow> k \<notin> set (keys (api_pending (sv_api s)))"
  by (auto simp: serves_def holding_def held_def)

lemma same_call_node: "same sv_api (call_node W srv typ payload)"
  unfolding call_node_def by (auto intro!: same_rules same_onR split: sum.split)

text \<open>A call that was sent is entered; both ways the code does it.\<close>

lemma enter_call:
  assumes s: "serves H q L K {fst k} {} {} s" and g: "map_of (api_groups (sv_api s)) i = Some g"
    and p: "pc_group p = i" "pc_delete_check p \<longrightarrow> names_param (pg_args g)"
  shows "serves H q L K {} {} {} (s\<lparr>sv_api := (sv_api s)\<lparr>api_pending := AList.update k p (api_pending (sv_api s)),
     api_groups := AList.update i (g\<lparr>pg_remaining := pg_remaining g + 1\<rparr>) (api_groups (sv_api s))\<rparr>\<rparr>)"
proof (rule serves_adopt [OF s _ api_ok_call [OF serves_ok [OF s] g serves_fresh [OF s] p]])
  have "own (sv_api s)" "fst k \<notin> held (sv_api s)" using s by (auto simp: serves_def holding_def)
  then show "held ((sv_api s)\<lparr>api_pending := AList.update k p (api_pending (sv_api s)),
      api_groups := AList.update i (g\<lparr>pg_remaining := pg_remaining g + 1\<rparr>) (api_groups (sv_api s))\<rparr>) = insert (fst k) (held (sv_api s)) \<and>
    own ((sv_api s)\<lparr>api_pending := AList.update k p (api_pending (sv_api s)),
      api_groups := AList.update i (g\<lparr>pg_remaining := pg_remaining g + 1\<rparr>) (api_groups (sv_api s))\<rparr>)"
    by (simp add: held_put own_put)
qed

context host_contract
begin

lemma onR_keep: "steady m \<Longrightarrow> triple (serves H q L K X D F) (onR m) (\<lambda>_. serves H q L K X D F) (serves H q L K X D F)"
  using onR_steady by (simp add: ends_def)

lemma onR_client:
  "triple (serves H q L K {} D F) (onR (ros_client W n t)) (\<lambda>e. serves H q L K {e} D F) (serves H q L K {} D F)"
  by (rule triple_post [OF onR_create [OF client_creates counts_creations(3)]]) auto

lemma give_back: "triple (serves H q L K {e} D F) (onR (ros_destroy W e)) (\<lambda>_. serves H q L K {} D F) (\<lambda>_. False)"
  by (rule triple_pre [OF onR_destroy [where X = "{}"]]) auto

lemma call_node_serves:
  "triple (\<lambda>s. serves H q L K {} D F s \<and> C (sv_api s)) (call_node W srv typ payload)
     (\<lambda>k s. serves H q L K {fst k} D F s \<and> C (sv_api s)) (\<lambda>s. serves H q L K {} D F s \<and> C (sv_api s))"
proof (rule triple_same [OF _ same_call_node])
  show "triple (serves H q L K {} D F) (call_node W srv typ payload)
     (\<lambda>k. serves H q L K {fst k} D F) (serves H q L K {} D F)"
    unfolding call_node_def
  proof (rule triple_bind [OF onR_client], rule bind_try [OF onR_keep])
    show "triple (serves H q L K {e} D F) (case Inl err of Inl err \<Rightarrow> bindA (onR (ros_destroy W e)) (\<lambda>_. errA err)
        | Inr n \<Rightarrow> retA (e, n)) (\<lambda>k. serves H q L K {fst k} D F) (serves H q L K {} D F)" for e err
      unfolding sum.case
      by (rule triple_bind [where R = "\<lambda>_. serves H q L K {} D F"], rule triple_post [OF give_back])
        (auto intro: triple_errI)
  qed (auto intro: triple_retI steady_ops)
qed

lemma start_call_serves:
  "triple (\<lambda>s. serves H q L K {} {} {} s \<and> open_request i (op = ''delete_param'') (sv_api s)) (start_call W i op c)
     (\<lambda>_ s. serves H q L K {} {} {} s \<and> open_request i (op = ''delete_param'') (sv_api s)) (serves H q L K {} {} {})"
proof -
  obtain nd srv ty payload where c: "c = (nd, srv, ty, payload)" by (cases c)
  let ?C = "open_request i (op = ''delete_param'')"
  let ?p = "\<lparr>pc_group = i, pc_node = nd, pc_delete_check = (op = ''delete_param'')\<rparr>"
  have enter: "triple (\<lambda>s. serves H q L K {fst k} {} {} s \<and> ?C (sv_api s))
      (bindA (put_pending k ?p) (\<lambda>_. bindA (the_group i) (\<lambda>g. put_group i (g\<lparr>pg_remaining := pg_remaining g + 1\<rparr>))))
      (\<lambda>_ s. serves H q L K {} {} {} s \<and> ?C (sv_api s)) (\<lambda>_. False)" for k
  proof (rule triple_total)
    fix s assume "serves H q L K {fst k} {} {} s \<and> ?C (sv_api s)"
    then obtain g where s: "serves H q L K {fst k} {} {} s" and g: "map_of (api_groups (sv_api s)) i = Some g"
      and n: "op = ''delete_param'' \<longrightarrow> names_param (pg_args g)" by (auto simp: open_request_def)
    have "pc_delete_check ?p \<longrightarrow> names_param (pg_args g)" using n by simp
    from enter_call [OF s g _ this] g n show "\<exists>t. bindA (put_pending k ?p) (\<lambda>_. bindA (the_group i)
        (\<lambda>g. put_group i (g\<lparr>pg_remaining := pg_remaining g + 1\<rparr>))) s = (Ok (), t) \<and>
        serves H q L K {} {} {} t \<and> ?C (sv_api t)"
      by (simp add: bindA_def put_pending_def modApi_def modA_def the_group_def getApi_def getA_def retA_def
          put_group_def open_request_def)
  qed
  show ?thesis
    unfolding start_call_def c prod.case
    by (rule triple_bind [OF triple_post [OF call_node_serves] triple_post [OF enter]]) auto
qed

end

lemma ends_getApi: "(\<And>x. ends P Q (g x)) \<Longrightarrow> ends P Q (bindA (getApi f) g)"
  unfolding getApi_def by (rule ends_get)

lemma parameter_value_total [simp]: "parameter_value v \<noteq> Panic"
  by (simp add: parameter_value_def split: json.split)

lemma same_onR_get: "same sv_api (getApi f)"
  unfolding getApi_def by (rule same_basic)

lemma same_parameter_calls: "same sv_api (parameter_calls W H op args)"
  unfolding parameter_calls_def Let_def
  by (auto intro!: same_rules same_onR same_onR_get)

lemma serves_put_group:
  assumes s: "serves H q L K X D {} s" and a: "api_ok H K' D' F' ((sv_api s)\<lparr>api_groups := AList.update i g (api_groups (sv_api s))\<rparr>)"
  shows "serves H q L K' X D' F' (s\<lparr>sv_api := (sv_api s)\<lparr>api_groups := AList.update i g (api_groups (sv_api s))\<rparr>\<rparr>)"
  by (rule serves_api [OF s _ a]) simp

lemma triple_the_group:
  "triple (\<lambda>s. P s \<and> map_of (api_groups (sv_api s)) i \<noteq> None) (the_group i)
     (\<lambda>g s. P s \<and> map_of (api_groups (sv_api s)) i = Some g) E"
  unfolding the_group_def by (rule bind_getApi) (auto simp: triple_def retA_def panicA_def split: option.split)

context host_contract
begin

lemma parameter_calls_ends:
  "ends (serves H q L K X D F) (\<lambda>_. op = ''delete_param'' \<longrightarrow> names_param args) (parameter_calls W H op args)"
proof -
  have payload: "ends (serves H q L K X D F) (\<lambda>_. True)
      (if b then retA x else bindA (liftA (json_parse (h_codec H) v)) (\<lambda>v. bindA (liftA (parameter_value v)) (f v)))"
    if "\<And>v pv. ends (serves H q L K X D F) (\<lambda>_. True) (f v pv)" for b and x :: "string \<times> string \<times> json" and v f
    using that parse_total by (auto intro!: ends_steps)
  show ?thesis
  proof (cases "op = ''get_param_names''")
    case True
    then show ?thesis
      unfolding parameter_calls_def
      by (auto intro!: ends_bind [OF onR_steady [OF steady_ops(1)]] ends_bind [OF onR_steady [OF steady_nodes]] ends_ret)
  next
    case False
    then show ?thesis
      unfolding parameter_calls_def Let_def
      by (simp only: if_False)
        (intro ends_bind [OF onR_steady [OF steady_ops(1)]] ends_lift,
         auto intro!: ends_getApi ends_lift ends_bind [OF payload] ends_ret simp: names_param_def)
  qed
qed

lemma parameter_request_serves:
  assumes i: "i \<notin> K"
  shows "triple (serves H q L K {} {} {}) (parameter_request W H srv i op args)
     (\<lambda>_. serves H q L (insert i K) {} {} {}) (serves H q L (insert i K) {} {} {})"
proof -
  let ?I = "serves H q L (insert i K) {} {} {}"
  let ?G = "\<lambda>s. ?I s \<and> (\<exists>g. map_of (api_groups (sv_api s)) i = Some g \<and> pg_args g = args)"
  let ?O = "\<lambda>s. ?I s \<and> open_request i (op = ''delete_param'') (sv_api s)"
  have calls: "triple ?G (bindA (parameter_calls W H op args) (\<lambda>cs. forA cs (start_call W i op))) (\<lambda>_. ?O) ?I"
  proof (rule triple_bind)
    show "triple ?G (parameter_calls W H op args)
        (\<lambda>_ s. ?I s \<and> (op = ''delete_param'' \<longrightarrow> names_param args) \<and> (\<exists>g. map_of (api_groups (sv_api s)) i = Some g \<and> pg_args g = args)) ?I"
      by (rule triple_post [OF triple_same [OF parameter_calls_ends [unfolded ends_def] same_parameter_calls]]) auto
    show "triple (\<lambda>s. ?I s \<and> (op = ''delete_param'' \<longrightarrow> names_param args) \<and> (\<exists>g. map_of (api_groups (sv_api s)) i = Some g \<and> pg_args g = args))
        (forA cs (start_call W i op)) (\<lambda>_. ?O) ?I" for cs
      by (rule triple_pre [OF triple_for [where I = ?O, OF start_call_serves]]) (auto simp: open_request_def)
  qed
  have fin: "triple ?I (finish_request W H i None err) (\<lambda>_. ?I) ?I" for err
    by (rule finish_serves)
  have ending: "triple ?O (bindA (the_group i) (\<lambda>g. if pg_remaining g = 0 then finish_request W H i None None else retA ())) (\<lambda>_. ?I) ?I"
    by (rule triple_bind [OF triple_pre [OF triple_the_group [where P = ?I and E = ?I]]])
      (auto simp: open_request_def intro: triple_pre [OF fin] triple_retI)
  have after: "triple ?G (bindA (tryA (bindA (parameter_calls W H op args) (\<lambda>cs. forA cs (start_call W i op)))) (\<lambda>result.
     case result of
       Inl e \<Rightarrow> finish_request W H i None (Some e)
     | Inr _ \<Rightarrow> bindA (the_group i) (\<lambda>g. if pg_remaining g = 0 then finish_request W H i None None else retA ()))) (\<lambda>_. ?I) ?I"
    by (rule bind_try [OF calls]) (simp_all add: fin ending)
  have opened: "triple (serves H q L K {} {} {}) (put_group i \<lparr>pg_service = srv, pg_request = i, pg_op = op, pg_args = args,
      pg_remaining = 0, pg_names = [], pg_deadline = deadline\<rparr>) (\<lambda>_. ?G) ?I" for deadline
    unfolding put_group_def modApi_def
    by (rule triple_modI) (use serves_put_group api_ok_open [OF serves_ok i] in fastforce)
  show ?thesis
    unfolding parameter_request_def
  proof (rule bind_get)
    fix deadline
    show "triple (\<lambda>s. serves H q L K {} {} {} s \<and> deadline = instant_add (h_instant H (native (sv_ros s))) (api_timeout (sv_api s)))
      (bindA (liftA deadline) (\<lambda>deadline. bindA (put_group i \<lparr>pg_service = srv, pg_request = i, pg_op = op, pg_args = args,
          pg_remaining = 0, pg_names = [], pg_deadline = deadline\<rparr>) (\<lambda>_.
        bindA (tryA (bindA (parameter_calls W H op args) (\<lambda>cs. forA cs (start_call W i op)))) (\<lambda>result.
        case result of
          Inl e \<Rightarrow> finish_request W H i None (Some e)
        | Inr _ \<Rightarrow> bindA (the_group i) (\<lambda>g. if pg_remaining g = 0 then finish_request W H i None None else retA ()))))) (\<lambda>_. ?I) ?I"
    proof (cases deadline)
      case (Ok t)
      show ?thesis unfolding Ok bindA_simps by (rule triple_pre [OF triple_bind [OF opened after]]) simp
    qed (auto simp: triple_def instant_add_def serves_def api_ok_def)
  qed
qed

end

lemma waits: "api_ok H K D F a \<Longrightarrow> map_of (api_groups a) i = Some g \<Longrightarrow> pg_remaining g = waiting i a + of_bool (i \<in> D)"
  unfolding api_ok_def by (drule conjunct2, drule conjunct1, drule (1) entries_lookup) (simp add: group_ok_def)

text \<open>The entry of the request \<open>i\<close> is \<open>g\<close>.\<close>

definition entered :: "nat \<Rightarrow> param_group \<Rightarrow> api \<Rightarrow> bool" where
  "entered i g a \<longleftrightarrow> map_of (api_groups a) i = Some g"

lemma put_group_keeps:
  assumes "D \<subseteq> {i}"
  shows "triple (\<lambda>s. serves H q L K X D {} s \<and> entered i g (sv_api s) \<and> pg_args g' = pg_args g \<and>
      pg_remaining g' = waiting i (sv_api s)) (put_group i g')
    (\<lambda>_ s. serves H q L K X {} {} s \<and> entered i g' (sv_api s)) E"
  unfolding put_group_def modApi_def
proof (rule triple_modI)
  fix s assume s: "serves H q L K X D {} s \<and> entered i g (sv_api s) \<and> pg_args g' = pg_args g \<and>
      pg_remaining g' = waiting i (sv_api s)"
  then have "api_ok H K {} {} ((sv_api s)\<lparr>api_groups := AList.update i g' (api_groups (sv_api s))\<rparr>)"
    using api_ok_put [OF serves_ok assms] by (auto simp: entered_def)
  from serves_put_group [OF conjunct1 [OF s] this]
  show "serves H q L K X {} {} (s\<lparr>sv_api := (sv_api s)\<lparr>api_groups := AList.update i g' (api_groups (sv_api s))\<rparr>\<rparr>) \<and>
      entered i g' (sv_api (s\<lparr>sv_api := (sv_api s)\<lparr>api_groups := AList.update i g' (api_groups (sv_api s))\<rparr>\<rparr>))"
    by (simp add: entered_def)
qed

lemma triple_weaken: "triple P m Q E \<Longrightarrow> triple (\<lambda>s. P s \<and> R s) m Q E"
  by (auto simp: triple_def)

lemma pending_groups: "a\<lparr>api_groups := gs, api_pending := ps\<rparr> = a\<lparr>api_pending := ps, api_groups := gs\<rparr>"
  by simp

context host_contract
begin

lemma delete_found:
  assumes p: "pc_group p = i" and g: "names_param (pg_args g)"
  shows "triple (\<lambda>s. serves H q L K {} {} {} s \<and> entered i g (sv_api s))
     (bindA (onR (ros_client W n t)) (\<lambda>e.
        bindA (tryA (onR (ros_request W e v))) (\<lambda>sent.
        case sent of
          Inl err \<Rightarrow> bindA (onR (ros_destroy W e)) (\<lambda>_. finish_request W H i None (Some err))
        | Inr n \<Rightarrow>
            bindA (put_group i (g\<lparr>pg_remaining := pg_remaining g + 1\<rparr>)) (\<lambda>_.
            put_pending (e, n) (p\<lparr>pc_delete_check := False\<rparr>)))))
     (\<lambda>_. serves H q L K {} {} {}) (serves H q L K {} {} {})"
proof -
  let ?I = "serves H q L K {} {} {}" and ?C = "entered i g"
  let ?P = "\<lambda>e s. serves H q L K {e} {} {} s \<and> ?C (sv_api s)"
  have client: "triple (\<lambda>s. ?I s \<and> ?C (sv_api s)) (onR (ros_client W n t)) ?P ?I"
    by (rule triple_post [OF triple_same [OF onR_client same_onR]]) auto
  have request: "triple (?P e) (onR (ros_request W e v)) (\<lambda>_. ?P e) (?P e)" for e
    by (rule triple_same [OF onR_keep [OF steady_ops(3)] same_onR])
  have refused: "triple (?P e) (bindA (onR (ros_destroy W e)) (\<lambda>_. finish_request W H i None (Some err))) (\<lambda>_. ?I) ?I" for e err
    by (rule triple_bind [OF _ finish_serves], rule triple_pre [OF triple_post [OF give_back]]) auto
  have sent: "triple (?P e) (bindA (put_group i (g\<lparr>pg_remaining := pg_remaining g + 1\<rparr>)) (\<lambda>_.
            put_pending (e, n) (p\<lparr>pc_delete_check := False\<rparr>))) (\<lambda>_. ?I) ?I" for e n
  proof (rule triple_post [OF triple_total])
    fix s assume s: "?P e s"
    let ?p = "p\<lparr>pc_delete_check := False\<rparr>"
    have "serves H q L K {} {} {} (s\<lparr>sv_api := (sv_api s)\<lparr>api_pending := AList.update (e, n) ?p (api_pending (sv_api s)),
        api_groups := AList.update i (g\<lparr>pg_remaining := pg_remaining g + 1\<rparr>) (api_groups (sv_api s))\<rparr>\<rparr>)"
      by (rule enter_call) (use s p in \<open>auto simp: entered_def\<close>)
    then show "\<exists>t. bindA (put_group i (g\<lparr>pg_remaining := pg_remaining g + 1\<rparr>)) (\<lambda>_. put_pending (e, n) ?p) s = (Ok (), t) \<and> ?I t"
      by (simp add: bindA_def put_pending_def modApi_def modA_def put_group_def pending_groups)
  qed auto
  show ?thesis
    by (rule triple_bind [OF client], rule bind_try [OF request]) (simp_all add: refused sent [simplified])
qed

lemma parameter_response_serves:
  "triple (\<lambda>s. serves H q L K {} {pc_group p} {} s \<and> open_request (pc_group p) (pc_delete_check p) (sv_api s))
     (parameter_response W H p answer) (\<lambda>_. serves H q L K {} {} {}) (serves H q L K {} {} {})"
proof -
  let ?i = "pc_group p" and ?I = "serves H q L K {} {} {}"
  let ?G = "\<lambda>g s. ?I s \<and> entered ?i g (sv_api s)"
  have fin: "triple (?G g) (finish_request W H ?i v err) (\<lambda>_. ?I) ?I" for g v err
    by (rule triple_pre [OF finish_serves]) simp
  have names: "triple (?G g) (bindA (put_group ?i g') (\<lambda>_. if pg_remaining g' = 0 then finish_request W H ?i None None else retA ())) (\<lambda>_. ?I) ?I"
    if "pg_args g' = pg_args g" "pg_remaining g' = pg_remaining g" for g g'
  proof (rule triple_bind)
    show "triple (?G g) (put_group ?i g') (\<lambda>_. ?G g') ?I"
      by (rule triple_pre [OF put_group_keeps [where D = "{}" and g = g]])
        (use that in \<open>auto simp: entered_def dest: waits [OF serves_ok]\<close>)
  qed (auto intro: fin triple_retI)
  have counted: "triple (\<lambda>s. serves H q L K {} {?i} {} s \<and> entered ?i g (sv_api s))
      (put_group ?i (g\<lparr>pg_remaining := pg_remaining g - 1\<rparr>)) (\<lambda>_. ?G (g\<lparr>pg_remaining := pg_remaining g - 1\<rparr>)) ?I" for g
    by (rule triple_pre [OF put_group_keeps [where D = "{?i}" and g = g]])
      (auto simp: entered_def dest: waits [OF serves_ok])
  have enter: "triple (\<lambda>s. serves H q L K {} {?i} {} s \<and> open_request ?i (pc_delete_check p) (sv_api s)) (the_group ?i)
      (\<lambda>g s. (serves H q L K {} {?i} {} s \<and> entered ?i g (sv_api s)) \<and>
         (pg_remaining g \<noteq> 0 \<and> (pc_delete_check p \<longrightarrow> names_param (pg_args g)))) ?I"
    by (rule triple_post [OF triple_pre [OF triple_the_group
      [where P = "\<lambda>s. serves H q L K {} {?i} {} s \<and> open_request ?i (pc_delete_check p) (sv_api s)"]]])
      (auto simp: open_request_def entered_def dest: waits [OF serves_ok])
  show ?thesis
    unfolding parameter_response_def Let_def
    apply (rule triple_bind [OF enter])
    apply (rule triple_assume)
    apply (rule triple_if)
     apply simp
    apply (rule triple_bind [OF counted])
    apply (rule triple_if)
     apply (rule triple_if)
      apply (rule fin)
     apply (split option.split, intro conjI allI impI)
      apply (simp add: names_param_def)
     apply (split prod.split, intro allI impI)
     apply (rule delete_found [OF refl])
     apply (simp add: names_param_def)
    apply (rule triple_if)
     apply (rule bind_getApi)
     apply (rule triple_weaken)
     apply (rule names; simp split: option.split)
    apply (rule triple_if)
     apply (rule fin)
    apply (rule fin)
    done
qed

end

section \<open>The replies\<close>

lemma ends_mapA: "(\<And>x. ends P (\<lambda>_. True) (f x)) \<Longrightarrow> ends P (\<lambda>_. True) (mapA f xs)"
  by (induction xs) (auto intro!: ends_bind ends_ret)

lemma ends_cached:
  assumes "\<And>w d. fst (f w d) \<noteq> Panic"
  shows "ends (serves H q L K X D F) (\<lambda>_. True) (cached f)"
proof -
  have "serves H q L K X D F (s\<lparr>sv_api := (sv_api s)\<lparr>api_definitions := d\<rparr>\<rparr>)" if "serves H q L K X D F s" for s d
    by (rule serves_api [OF that]) (simp_all add: api_ok_definitions serves_ok [OF that])
  then have keep: "serves H q L K X D F t" if "serves H q L K X D F s" "cached f s = (r, t)" for s r t
    using that by (auto simp: cached_def split: prod.splits)
  have "fst (cached f s) \<noteq> Panic" for s
    using assms by (simp add: cached_def split: prod.split) (metis fst_conv)
  then show ?thesis
    unfolding ends_def using keep by (intro tripleI) (blast, blast, metis fst_conv)
qed

context host_contract
begin

lemma definitions_raw_total: "fst (definitions_raw (w_types W) H w t d) \<noteq> Panic"
  by (simp add: raw_definition_no_panic [OF loads finitely_many] definitions_raw_def action_defs split: option.split outcome.split)

lemma definitions_details_total: "fst (definitions_details (w_types W) H w t d) \<noteq> Panic"
proof -
  have "bindO (load_message (w_types W) t) (typedefs (w_types W) H w) \<noteq> Panic"
    using yields_no_panic [OF load_message_ok] yields_Ok [OF load_message_ok]
    by (auto simp: bindO_Panic typedefs_no_panic [OF loads finitely_many])
  then show ?thesis
    by (simp add: definitions_details_def action_defs split: option.split outcome.split)
qed

lemmas on_ros = ends_bind [OF onR_steady [OF steady_ops(1)]] ends_bind [OF onR_steady [OF steady_nodes]]
  ends_bind [OF onR_steady [OF steady_node_graph]]

lemmas reply_rules = on_ros ends_getApi ends_ret ends_err

lemma topics_reply_ends: "ends (serves H q L K X D F) (\<lambda>_. True) (topics_reply W H op args)"
  unfolding topics_reply_def Let_def
  by (auto intro!: reply_rules ends_bind [OF ends_mapA] ends_cached definitions_raw_total)

lemma services_reply_ends: "ends (serves H q L K X D F) (\<lambda>_. True) (services_reply W H op args)"
  unfolding services_reply_def Let_def by (auto intro!: reply_rules)

lemma node_details_reply_ends: "ends (serves H q L K X D F) (\<lambda>_. True) (node_details_reply W H args)"
  unfolding node_details_reply_def Let_def by (intro reply_rules TrueI)

lemma nodes_with_ends: "ends (serves H q L K X D F) (\<lambda>_. True) (nodes_with W H op query ns)"
proof (induction ns)
  case (Cons n ns)
  show ?case
    unfolding nodes_with.simps
    by (intro ends_try [OF onR_steady [OF steady_node_graph]] ends_bind [OF Cons.IH] ends_ret TrueI)
qed (simp add: ends_ret)

lemma providers_reply_ends: "ends (serves H q L K X D F) (\<lambda>_. True) (providers_reply W H op args)"
proof -
  have "ends (serves H q L K X D F) (\<lambda>_. True)
      (if b then bindA (onR (ros_nodes H)) (nodes_with W H op query) else retA [])" for b query
    by (auto intro!: ends_ret on_ros nodes_with_ends)
  then show ?thesis
    unfolding providers_reply_def Let_def by (intro ends_getApi ends_bind [where R = "\<lambda>_. True"] ends_ret TrueI)
qed

lemma action_servers_reply_ends: "ends (serves H q L K X D F) (\<lambda>_. True) (action_servers_reply W H)"
  unfolding action_servers_reply_def by (intro reply_rules TrueI)

lemma action_type_reply_ends: "ends (serves H q L K X D F) (\<lambda>_. True) (action_type_reply W args)"
  unfolding action_type_reply_def by (intro reply_rules TrueI)

lemma details_reply_ends: "ends (serves H q L K X D F) (\<lambda>_. True) (details_reply W H kind suf args)"
  unfolding details_reply_def
  by (rule ends_bind [where R = "\<lambda>_. True"])
    (auto intro!: ends_ret ends_cached definitions_details_total split: outcome.split)

lemma other_reply_ends:
  "ends (serves H q L K X D F) (\<lambda>_. True) (case details_kind op of
     Some (kind, suf) \<Rightarrow> details_reply W H kind suf args
   | None \<Rightarrow>
       if op = ''get_time'' then
         bindA (getA (\<lambda>s. ros_now W (sv_ros s))) (\<lambda>(sec, nanosec).
         retA (JObj [(''time'', JObj [(''sec'', jint sec), (''nanosec'', jnat nanosec)])]))
       else if op = ''get_ros_version'' then
         retA (JObj [(''version'', jnat 2), (''distro'', JStr (h_distro H))])
       else errA (''unknown rosapi operation '' @ op))"
  by (split option.split, intro conjI allI impI ends_if ends_get ends_err ends_ret)
    (simp_all only: prod.split details_reply_ends ends_ret split: prod.split, simp_all add: details_reply_ends)

lemma reply_value_ends: "ends (serves H q L K X D F) (\<lambda>_. True) (api_reply_value W H op args)"
  unfolding api_reply_value_def
  by (intro ends_if topics_reply_ends services_reply_ends node_details_reply_ends
      providers_reply_ends action_servers_reply_ends action_type_reply_ends other_reply_ends
      ends_get on_ros ends_ret TrueI)

lemma reply_serves:
  assumes "i \<notin> K"
  shows "triple (serves H q L K {} {} {}) (api_reply W H e i op args)
     (\<lambda>_. serves H q L (insert i K) {} {} {}) (serves H q L (insert i K) {} {} {})"
proof -
  have more: "serves H q L (insert i K) {} {} {} s" if "serves H q L K {} {} {} s" for s
    using that api_ok_mono [OF serves_ok [OF that], of "insert i K"] by (auto simp: serves_def)
  have "ends (serves H q L K {} {} {}) (\<lambda>_. True) (bindA (api_reply_value W H op args) (\<lambda>v. onR (ros_respond W e i v)))"
    by (intro ends_bind [OF reply_value_ends] onR_steady steady_ops)
  then have "triple (serves H q L K {} {} {}) (bindA (api_reply_value W H op args) (\<lambda>v. onR (ros_respond W e i v)))
     (\<lambda>_. serves H q L (insert i K) {} {} {}) (serves H q L (insert i K) {} {} {})"
    unfolding ends_def by (rule triple_post) (auto intro: more)
  with parameter_request_serves [OF assms] show ?thesis
    unfolding api_reply_def by (auto intro!: triple_if)
qed

end

section \<open>Processing events\<close>

lemma bindA_assoc: "bindA (bindA m f) g = bindA m (\<lambda>a. bindA (f a) g)"
  by (rule ext) (simp add: bindA_def split: outcome.splits prod.splits)

lemma serves_mono: "serves H q L K X D F s \<Longrightarrow> K \<subseteq> K' \<Longrightarrow> serves H q L K' X D F s"
  by (auto simp: serves_def intro: api_ok_mono)

context host_contract
begin

lemma process_request_serves:
  assumes "i \<notin> K"
  shows "triple (serves H q L K {} {} {}) (process_one W H (EvRequest e i args))
     (\<lambda>out s. serves H q L (insert i K) {} {} {} s \<and> set out \<subseteq> {EvRequest e i args}) (serves H q L (insert i K) {} {} {})"
  unfolding process_one_def event.case
proof (rule bind_getApi)
  fix found
  let ?I = "serves H q L (insert i K) {} {} {}"
  have skip: "triple ?I (bindA (onR (ros_discard_request e i)) (\<lambda>_. retA [])) (\<lambda>out s. ?I s \<and> set out \<subseteq> {EvRequest e i args}) ?I"
    by (rule triple_bind [OF onR_keep [OF steady_ops(6)]]) (simp add: triple_retI)
  have found: "triple (serves H q L K {} {} {}) (bindA (tryA (api_reply W H e i op args)) (\<lambda>answered. case answered of
      Inl _ \<Rightarrow> bindA (onR (ros_discard_request e i)) (\<lambda>_. retA []) | Inr _ \<Rightarrow> retA []))
     (\<lambda>out s. ?I s \<and> set out \<subseteq> {EvRequest e i args}) ?I" for op
    by (rule bind_try [OF reply_serves [OF assms]]) (simp_all add: skip triple_retI)
  show "triple (\<lambda>s. serves H q L K {} {} {} s \<and> found = map_of (operations (sv_api s)) e)
      (case found of None \<Rightarrow> retA [EvRequest e i args]
       | Some op \<Rightarrow> bindA (tryA (api_reply W H e i op args)) (\<lambda>answered. case answered of
           Inl _ \<Rightarrow> bindA (onR (ros_discard_request e i)) (\<lambda>_. retA []) | Inr _ \<Rightarrow> retA []))
      (\<lambda>out s. ?I s \<and> set out \<subseteq> {EvRequest e i args}) ?I"
    by (cases found) (auto intro: triple_retI serves_mono triple_weaken found)
qed

lemma process_response_serves:
  "triple (serves H q L K {} {} {}) (process_one W H (EvResponse e n v))
     (\<lambda>out s. serves H q L K {} {} {} s \<and> set out \<subseteq> {EvResponse e n v}) (serves H q L K {} {} {})"
  unfolding process_one_def event.case
proof (rule bind_getApi)
  fix found
  let ?I = "serves H q L K {} {} {}"
  show "triple (\<lambda>s. ?I s \<and> found = map_of (api_pending (sv_api s)) (e, n))
      (case found of None \<Rightarrow> retA [EvResponse e n v]
       | Some p \<Rightarrow>
           bindA (modApi (\<lambda>a. a\<lparr>api_pending := AList.delete (e, n) (api_pending a)\<rparr>)) (\<lambda>_.
           bindA (onR (ros_destroy W e)) (\<lambda>_.
           bindA (parameter_response W H p v) (\<lambda>_. retA []))))
      (\<lambda>out s. ?I s \<and> set out \<subseteq> {EvResponse e n v}) ?I"
  proof (cases found)
    case None
    then show ?thesis by (auto intro: triple_retI)
  next
    case (Some p)
    let ?P = "\<lambda>s. ?I s \<and> map_of (api_pending (sv_api s)) (e, n) = Some p"
    have pre: "serves H q L K {} {} {} s \<and> (e, n) \<in> set (keys (api_pending (sv_api s))) \<and>
        api_ok H K {pc_group p} {} ((sv_api s)\<lparr>api_pending := AList.delete (e, n) (api_pending (sv_api s))\<rparr>)" if "?P s" for s
      using that api_ok_answer [OF serves_ok] by (force dest: map_of_SomeD)
    have "open_request (pc_group p) (pc_delete_check p) (sv_api s)" if "?P s" for s
      using that entries_lookup [of "\<lambda>_. call_ok {} (sv_api s)"]
      by (fastforce simp: serves_def api_ok_def call_ok_def open_request_def)
    then have dropped: "triple ?P (bindA (modApi (\<lambda>a. a\<lparr>api_pending := AList.delete (e, n) (api_pending a)\<rparr>))
        (\<lambda>_. onR (ros_destroy W e)))
      (\<lambda>_ s. serves H q L K {} {pc_group p} {} s \<and> open_request (pc_group p) (pc_delete_check p) (sv_api s)) ?I"
      by (intro triple_post [OF drop_call [where k = "(e, n)" and P = ?P, OF pre, unfolded fst_conv]])
        (auto simp: open_request_def)
    have "triple ?P (bindA (bindA (modApi (\<lambda>a. a\<lparr>api_pending := AList.delete (e, n) (api_pending a)\<rparr>)) (\<lambda>_. onR (ros_destroy W e)))
        (\<lambda>_. bindA (parameter_response W H p v) (\<lambda>_. retA []))) (\<lambda>out s. ?I s \<and> set out \<subseteq> {EvResponse e n v}) ?I"
      by (rule triple_bind [OF dropped triple_bind [OF parameter_response_serves]]) (simp add: triple_retI)
    then show ?thesis unfolding Some option.case bindA_assoc by (rule triple_pre) auto
  qed
qed

lemma process_one_serves:
  assumes "set (request_ids [ev]) \<inter> K = {}"
  shows "triple (serves H q L K {} {} {}) (process_one W H ev)
     (\<lambda>out s. serves H q L (K \<union> set (request_ids [ev])) {} {} {} s \<and> set out \<subseteq> {ev})
     (serves H q L (K \<union> set (request_ids [ev])) {} {} {})"
proof (cases ev)
  case (EvMessage e m)
  then show ?thesis by (auto simp: process_one_def intro: triple_retI)
next
  case (EvRequest e i args)
  then show ?thesis using process_request_serves [of i K q L e args] assms by simp
next
  case (EvResponse e n v)
  then show ?thesis using process_response_serves [of q L K e n v] by simp
qed

lemma process_events_serves:
  "distinct (request_ids evs) \<Longrightarrow> set (request_ids evs) \<inter> K = {} \<Longrightarrow>
   triple (serves H q L K {} {} {}) (process_events W H evs)
     (\<lambda>out s. serves H q L (K \<union> set (request_ids evs)) {} {} {} s \<and> set out \<subseteq> set evs)
     (serves H q L (K \<union> set (request_ids evs)) {} {} {})"
proof (induction evs arbitrary: K)
  case Nil
  then show ?case by (auto intro: triple_retI)
next
  case (Cons ev evs)
  let ?K = "K \<union> set (request_ids [ev])"
  have ids: "request_ids (ev # evs) = request_ids [ev] @ request_ids evs"
    by (cases ev) simp_all
  let ?I = "serves H q L (?K \<union> set (request_ids evs)) {} {} {}"
  have one: "triple (serves H q L K {} {} {}) (process_one W H ev)
      (\<lambda>out s. serves H q L ?K {} {} {} s \<and> set out \<subseteq> {ev}) ?I"
    by (rule triple_post [OF process_one_serves]) (use Cons.prems ids in \<open>auto intro: serves_mono\<close>)
  have rest: "triple (serves H q L ?K {} {} {}) (process_events W H evs) (\<lambda>out s. ?I s \<and> set out \<subseteq> set evs) ?I"
    by (rule Cons.IH) (use Cons.prems ids in auto)
  have "triple (\<lambda>s. serves H q L ?K {} {} {} s \<and> set out \<subseteq> {ev}) (bindA (process_events W H evs) (\<lambda>more. retA (out @ more)))
      (\<lambda>out s. ?I s \<and> set out \<subseteq> set (ev # evs)) ?I" for out
    by (rule triple_assume, rule triple_bind [OF rest]) (auto intro!: triple_retI)
  moreover have "K \<union> set (request_ids (ev # evs)) = ?K \<union> set (request_ids evs)" unfolding ids by auto
  ultimately show ?case unfolding process_events.simps by (auto intro: triple_bind [OF one])
qed

lemma process_serves:
  assumes "distinct (request_ids evs)" "set (request_ids evs) \<inter> K = {}"
  shows "triple (serves H q L K {} {} {}) (process W H evs)
     (\<lambda>out s. serves H q L (K \<union> set (request_ids evs)) {} {} {} s \<and> set out \<subseteq> set evs)
     (serves H q L (K \<union> set (request_ids evs)) {} {} {})"
proof -
  let ?I = "serves H q L (K \<union> set (request_ids evs)) {} {} {}"
  have expire: "triple (\<lambda>s. ?I s \<and> set out \<subseteq> set evs)
      (bindA (forA ids (\<lambda>i. finish_request W H i None (Some e))) (\<lambda>_. retA out))
      (\<lambda>out s. ?I s \<and> set out \<subseteq> set evs) ?I" for out ids e
    by (rule triple_assume, rule triple_bind [OF triple_for [OF finish_serves]]) (auto intro: triple_retI)
  show ?thesis
    unfolding process_def
    by (rule triple_bind [OF process_events_serves [OF assms]], rule bind_get, rule triple_weaken, rule expire)
qed

end

end
