(* ===== verification/Node.thy ===== *)
theory Node
  imports Rosapi_Safety
begin

text \<open>
  The backend with its rosapi services keeps the contract of \<^verbatim>\<open>src/backend.rs\<close>: its clients cannot
  tell that the services share it. Starting the services, and what they promise.
\<close>

section \<open>The backend with the services\<close>

text \<open>Consistent, with the rosapi services or without; its clients hold what the services do not.\<close>

definition node_valid :: "'w host \<Rightarrow> 'w node \<Rightarrow> bool" where
  "node_valid H s \<longleftrightarrow> (case node_api s of
     None \<Rightarrow> ros_valid (node_ros s)
   | Some a \<Rightarrow> serves H (next_request (node_ros s)) (ros_live (node_ros s) - held a)
       {..next_request (node_ros s)} {} {} {} \<lparr>sv_ros = node_ros s, sv_api = a\<rparr>)"

definition node_live :: "'w node \<Rightarrow> nat set" where
  "node_live s = ros_live (node_ros s) - (case node_api s of None \<Rightarrow> {} | Some a \<Rightarrow> held a)"

definition node_holds :: "'w host \<Rightarrow> nat set \<Rightarrow> 'w node \<Rightarrow> bool" where
  "node_holds H L s \<longleftrightarrow> node_valid H s \<and> node_live s = L"

lemma node_plain: "node_api s = None \<Longrightarrow> node_holds H L s \<longleftrightarrow> holds L (node_ros s)"
  by (simp add: node_holds_def node_valid_def node_live_def holds_def)

lemma node_serves:
  assumes "node_api s = Some a"
  shows "node_holds H L s \<longleftrightarrow> (\<exists>q. serves H q L {..q} {} {} {} \<lparr>sv_ros = node_ros s, sv_api = a\<rparr>)"
proof
  assume "node_holds H L s"
  then show "\<exists>q. serves H q L {..q} {} {} {} \<lparr>sv_ros = node_ros s, sv_api = a\<rparr>"
    using assms by (auto simp: node_holds_def node_valid_def node_live_def)
next
  assume "\<exists>q. serves H q L {..q} {} {} {} \<lparr>sv_ros = node_ros s, sv_api = a\<rparr>"
  then show "node_holds H L s"
    using assms by (auto simp: node_holds_def node_valid_def node_live_def serves_def holding_def)
qed

lemma onN_triple:
  assumes plain: "triple (holds L) m (\<lambda>x r. Q x \<and> holds (L' x) r) (holds L)"
    and served: "\<And>q. triple (serves H q L {..q} {} {} {}) (onR m)
      (\<lambda>x s. Q x \<and> serves H q (L' x) {..q} {} {} {} s) (serves H q L {..q} {} {} {})"
  shows "triple (node_holds H L) (onN m) (\<lambda>x s. Q x \<and> node_holds H (L' x) s) (node_holds H L)"
proof -
  have "case onN m s of (Ok x, t) \<Rightarrow> Q x \<and> node_holds H (L' x) t | (Err e, t) \<Rightarrow> node_holds H L t | (Panic, t) \<Rightarrow> False"
    if h: "node_holds H L s" for s
  proof -
    obtain r u where u: "m (node_ros s) = (r, u)" by (cases "m (node_ros s)")
    then have run: "onN m s = (r, s\<lparr>node_ros := u\<rparr>)" by (simp add: onN_def)
    show ?thesis
    proof (cases "node_api s")
      case None
      with h have "holds L (node_ros s)" by (simp add: node_plain)
      with plain u show ?thesis
        unfolding run by (auto simp: triple_def node_plain None split: outcome.splits)
    next
      case (Some a)
      with h obtain q where q: "serves H q L {..q} {} {} {} \<lparr>sv_ros = node_ros s, sv_api = a\<rparr>" by (auto simp: node_serves)
      have "onR m \<lparr>sv_ros = node_ros s, sv_api = a\<rparr> = (r, \<lparr>sv_ros = u, sv_api = a\<rparr>)" using u by (simp add: onR_def)
      with served [of q] q show ?thesis
        unfolding run triple_def by (cases r) (auto simp: node_serves Some dest!: spec split: outcome.splits)
    qed
  qed
  then show ?thesis by (simp add: triple_def)
qed

lemma node_keepsI: "(\<And>L. triple (node_holds H L) m (\<lambda>_. node_holds H L) (node_holds H L)) \<Longrightarrow> keeps (node_valid H) node_live m"
  unfolding keeps_def node_holds_def by blast

lemma onN_steady: "steady m \<Longrightarrow> keeps (node_valid H) node_live (onN m)"
  by (rule node_keepsI, rule triple_post [OF onN_triple [where Q = "\<lambda>_. True" and L' = "\<lambda>_. L" for L]])
    (auto simp: steady_def ends_def intro: triple_post [OF onR_steady [unfolded ends_def]])

lemma onN_create:
  assumes m: "creates ros_valid ros_live m" "counts m"
  shows "creates (node_valid H) node_live (onN m)"
proof -
  have "serves H q L {..q} {e} {} {} s \<Longrightarrow> e \<in> ros_live (sv_ros s) \<Longrightarrow> e \<notin> L \<and> serves H q (insert e L) {..q} {} {} {} s" for q L e s
    by (auto simp: serves_def holding_def)
  then have served: "triple (serves H q L {..q} {} {} {}) (onR m)
      (\<lambda>e s. e \<notin> L \<and> serves H q (insert e L) {..q} {} {} {} s) (serves H q L {..q} {} {} {})" for q L
    by (intro triple_post [OF onR_create [OF m]]) auto
  show ?thesis
    unfolding creates_def
    by (intro allI triple_post [OF onN_triple [OF creates_triple [OF m(1)] served, unfolded node_holds_def]]) auto
qed

lemma triple_succeeds: "triple P m Q (\<lambda>_. False) \<Longrightarrow> P s \<Longrightarrow> \<exists>a t. m s = (Ok a, t) \<and> Q a t"
  by (cases "m s"; cases "fst (m s)") (force simp: triple_def)+

lemma onN_run: "onR m \<lparr>sv_ros = node_ros s, sv_api = a\<rparr> = (r, t) \<Longrightarrow> onN m s = (r, s\<lparr>node_ros := sv_ros t\<rparr>) \<and> sv_api t = a"
  by (auto simp: onR_def onN_def split: prod.splits)

context host_contract
begin

lemma onN_destroy: "destroys (node_valid H) node_live e (onN (ros_destroy W e))"
proof -
  have served: "triple (serves H q L {..q} {} {} {}) (onR (ros_destroy W e)) (\<lambda>_. serves H q (L - {e}) {..q} {} {} {}) (\<lambda>_. False)"
    if e: "e \<in> L" for q L
  proof (rule triple_total)
    fix s :: "'w served" assume s: "serves H q L {..q} {} {} {} s"
    obtain u where u: "onR (ros_destroy W e) s = (Ok (), s\<lparr>sv_ros := u\<rparr>)" "holds (ros_live (sv_ros s) - {e}) u"
      "counters u = counters (sv_ros s)" using destroy_run [OF s] by blast
    have "holding q (L - {e}) {} (s\<lparr>sv_ros := u\<rparr>)"
      using s u e by (auto simp: serves_def holding_def holds_def counters_def)
    then show "\<exists>t. onR (ros_destroy W e) s = (Ok (), t) \<and> serves H q (L - {e}) {..q} {} {} {} t"
      using u(1) serves_ros [OF s] by blast
  qed
  have plain: "triple (holds L) (ros_destroy W e) (\<lambda>_. holds (L - {e})) (\<lambda>_. False)" for L
    by (rule triple_total) (rule destroy_holds)
  have "triple (node_holds H L) (onN (ros_destroy W e)) (\<lambda>_. node_holds H (L - {e})) (\<lambda>_. False)" if e: "e \<in> L" for L
  proof (rule triple_total)
    fix s assume h: "node_holds H L s"
    show "\<exists>t. onN (ros_destroy W e) s = (Ok (), t) \<and> node_holds H (L - {e}) t"
    proof (cases "node_api s")
      case None
      with h triple_succeeds [OF plain, of L "node_ros s"] show ?thesis by (auto simp: node_plain onN_def)
    next
      case (Some a)
      with h obtain q where q: "serves H q L {..q} {} {} {} \<lparr>sv_ros = node_ros s, sv_api = a\<rparr>" by (auto simp: node_serves)
      from triple_succeeds [OF served [OF e] q] obtain t where t: "onR (ros_destroy W e) \<lparr>sv_ros = node_ros s, sv_api = a\<rparr> = (Ok (), t)"
        "serves H q (L - {e}) {..q} {} {} {} t" by auto
      with onN_run [OF t(1)] have "onN (ros_destroy W e) s = (Ok (), s\<lparr>node_ros := sv_ros t\<rparr>)" "t = \<lparr>sv_ros = sv_ros t, sv_api = a\<rparr>"
        by auto
      then show ?thesis using t(2) Some by (auto simp: node_serves)
    qed
  qed
  then show ?thesis unfolding destroys_def node_holds_def by blast
qed

lemma poll_serves:
  "triple (serves H q L {..q} {} {} {}) (onR (ros_poll W))
     (\<lambda>evs s. \<exists>q'. serves H q' L {..q} {} {} {} s \<and> q \<le> q' \<and> request_ids evs = [q + 1..<q' + 1] \<and> list_all event_ok evs)
     (\<lambda>s. \<exists>q'. serves H q' L {..q'} {} {} {} s)"
proof (rule tripleI)
  fix s :: "'w served" assume s: "serves H q L {..q} {} {} {} s"
  have e: "triple (holds (ros_live (sv_ros s))) (ros_poll W) (\<lambda>evs r. holds (ros_live (sv_ros s)) r \<and> list_all event_ok evs)
      (holds (ros_live (sv_ros s)))" using poll_ends by (simp add: ends_def)
  have q: "next_request (sv_ros s) = q" using s by (simp add: serves_def holding_def)
  have go: "serves H (next_request u) L {..q} {} {} {} (s\<lparr>sv_ros := u\<rparr>)"
    if "holds (ros_live (sv_ros s)) u" "ros_next u = ros_next (sv_ros s)" for u
    using s that by (simp add: serves_def holding_def holds_def)
  {
    fix evs t assume "onR (ros_poll W) s = (Ok evs, t)"
    then obtain u where u: "ros_poll W (sv_ros s) = (Ok evs, u)" "t = s\<lparr>sv_ros := u\<rparr>" by (auto simp: onR_result)
    with go triple_Ok [OF e serves_holds [OF s] u(1)] numbersD [OF numbers_poll u(1)] q
    show "\<exists>q'. serves H q' L {..q} {} {} {} t \<and> q \<le> q' \<and> request_ids evs = [q + 1..<q' + 1] \<and> list_all event_ok evs"
      by auto
  next
    fix x t assume "onR (ros_poll W) s = (Err x, t)"
    then obtain u where u: "ros_poll W (sv_ros s) = (Err x, u)" "t = s\<lparr>sv_ros := u\<rparr>" by (auto simp: onR_result)
    have n: "ros_next u = ros_next (sv_ros s)" "q \<le> next_request u" using numbersD [OF numbers_poll u(1)] q by auto
    have "serves H (next_request u) L {..next_request u} {} {} {} t"
      unfolding u(2)
      by (rule serves_mono [OF go]) (use triple_Err [OF e serves_holds [OF s] u(1)] n in auto)
    then show "\<exists>q'. serves H q' L {..q'} {} {} {} t" by blast
  next
    fix t assume "onR (ros_poll W) s = (Panic, t)"
    then show False using triple_no_panic [OF e serves_holds [OF s]] by (auto simp: onR_result)
  }
qed

lemma poll_process:
  "triple (serves H q L {..q} {} {} {}) (bindA (onR (ros_poll W)) (process W H))
     (\<lambda>out s. (\<exists>q'. serves H q' L {..q'} {} {} {} s) \<and> list_all event_ok out) (\<lambda>s. \<exists>q'. serves H q' L {..q'} {} {} {} s)"
proof (rule triple_bind [OF poll_serves], rule tripleI)
  fix evs and s :: "'w served"
  assume "\<exists>q'. serves H q' L {..q} {} {} {} s \<and> q \<le> q' \<and> request_ids evs = [q + 1..<q' + 1] \<and> list_all event_ok evs"
  then obtain q' where s: "serves H q' L {..q} {} {} {} s" and q': "q \<le> q'" "request_ids evs = [q + 1..<q' + 1]"
    and ok: "list_all event_ok evs" by blast
  have "{..q} \<union> set (request_ids evs) = {..q'}" using q' by auto
  moreover have "distinct (request_ids evs)" "set (request_ids evs) \<inter> {..q} = {}" using q' by auto
  ultimately have p: "triple (serves H q' L {..q} {} {} {}) (process W H evs)
     (\<lambda>out s. serves H q' L {..q'} {} {} {} s \<and> set out \<subseteq> set evs) (serves H q' L {..q'} {} {} {})"
    using process_serves [of evs "{..q}"] by simp
  {
    fix out t assume "process W H evs s = (Ok out, t)"
    from triple_Ok [OF p s this] ok show "(\<exists>q'. serves H q' L {..q'} {} {} {} t) \<and> list_all event_ok out"
      by (auto simp: list_all_iff)
  next
    fix x t assume "process W H evs s = (Err x, t)"
    from triple_Err [OF p s this] show "\<exists>q'. serves H q' L {..q'} {} {} {} t" by blast
  next
    fix t assume "process W H evs s = (Panic, t)"
    with triple_no_panic [OF p s] show False by simp
  }
qed

lemma node_poll_served:
  assumes "node_api s = Some a"
  shows "node_poll W H s = (case bindA (onR (ros_poll W)) (process W H) \<lparr>sv_ros = node_ros s, sv_api = a\<rparr> of
     (res, t) \<Rightarrow> (res, s\<lparr>node_ros := sv_ros t, node_api := Some (sv_api t)\<rparr>))"
  using assms
  by (auto simp: node_poll_def bindA_def onN_def onR_def node_process_def split: prod.splits outcome.splits)

lemma node_poll_triple:
  "triple (node_holds H L) (node_poll W H) (\<lambda>out s. node_holds H L s \<and> list_all event_ok out) (node_holds H L)"
proof (rule tripleI)
  fix s assume h: "node_holds H L s"
  have "case node_poll W H s of (Ok out, t) \<Rightarrow> node_holds H L t \<and> list_all event_ok out | (Err e, t) \<Rightarrow> node_holds H L t
    | (Panic, t) \<Rightarrow> False"
  proof (cases "node_api s")
    case None
    with h have "holds L (node_ros s)" by (simp add: node_plain)
    with poll_ends [of L] show ?thesis
      unfolding ends_def triple_def node_poll_def bindA_def onN_def
      by (auto simp: node_process_def None node_plain dest!: spec split: prod.splits outcome.splits)
  next
    case (Some a)
    with h obtain q where q: "serves H q L {..q} {} {} {} \<lparr>sv_ros = node_ros s, sv_api = a\<rparr>" by (auto simp: node_serves)
    obtain r t where t: "bindA (onR (ros_poll W)) (process W H) \<lparr>sv_ros = node_ros s, sv_api = a\<rparr> = (r, t)" by fastforce
    have again: "node_holds H L (s\<lparr>node_ros := sv_ros t, node_api := Some (sv_api t)\<rparr>)" if "\<exists>q'. serves H q' L {..q'} {} {} {} t"
      using that by (cases t) (simp add: node_serves)
    show ?thesis
      unfolding node_poll_served [OF Some] t
      using poll_process [of q L] q t again by (cases r) (auto dest: triple_Ok triple_Err triple_no_panic)
  qed
  then show "node_poll W H s = (Ok out, t) \<Longrightarrow> node_holds H L t \<and> list_all event_ok out"
    and "node_poll W H s = (Err e, t) \<Longrightarrow> node_holds H L t" and "node_poll W H s = (Panic, t) \<Longrightarrow> False"
    for out t and e :: error
    by simp_all
qed

end

sublocale host_contract \<subseteq> node: backend_contract "node_backend W H" "node_valid H" node_live
proof
  show "finite (node_live r)" for r
    by (simp add: node_live_def ros_live_def)
  show "triple (node_valid H) (be_poll (node_backend W H)) (\<lambda>evs _. list_all event_ok evs) (\<lambda>_. True)"
    using node_poll_triple unfolding triple_def node_holds_def node_backend_def
    by (fastforce split: outcome.splits prod.splits)
  show "keeps (node_valid H) node_live (be_poll (node_backend W H))"
    unfolding node_backend_def by (simp, rule node_keepsI, rule triple_post [OF node_poll_triple]) simp_all
  show "infallible (node_valid H) (be_discard_request (node_backend W H) e n)" for e n
    by (simp add: node_backend_def onN_def ros_discard_request_def infallible_def triple_def modA_def)
qed (simp_all add: node_backend_def onN_steady steady_ops onN_destroy onN_create counts_creations publisher_creates
    subscription_creates client_creates service_creates)

section \<open>Starting the services\<close>

definition opened_to :: "nat set \<Rightarrow> (nat \<times> string) list \<Rightarrow> 'w ros \<Rightarrow> bool" where
  "opened_to L ops r \<longleftrightarrow> holds (L \<union> set (keys ops)) r \<and> distinct (keys ops) \<and> set (keys ops) \<inter> L = {} \<and> set (keys ops) \<subseteq> {..ros_next r}"

text \<open>The entity \<open>e\<close> is the service that was created for the operation \<open>n\<close>, under its name and with its
  type.\<close>

definition offers :: "'w world \<Rightarrow> 'w ros \<Rightarrow> nat \<times> string \<Rightarrow> string \<times> string \<Rightarrow> bool" where
  "offers W r = (\<lambda>(e, op) (n, t). op = n \<and>
     (\<exists>h request resp. map_of (handles r) e = Some (HService h request resp) \<and>
        load_service W (''rosapi_msgs/srv/'' @ t) = Ok (request, resp)) \<and>
     (\<exists>s u. ros_service W (''/rosapi/'' @ n) (''rosapi_msgs/srv/'' @ t) s = (Ok e, u)))"

lemma service_handle:
  assumes "ros_service W n t s = (Ok e, u)"
  shows "e = ros_next s + 1 \<and> ros_next u = e \<and> (\<exists>h request resp. load_service W t = Ok (request, resp) \<and>
    handles u = AList.update e (HService h request resp) (handles s))"
  using assms
  by (auto simp: ros_service_def bindA_Ok liftA_def checked_def ros_insert_def Let_def split: prod.splits outcome.splits)

lemma open_offers:
  assumes "open_services W todo ops s = (Ok ops', u)" "list_all2 (offers W s) ops opened" "set (keys ops) \<subseteq> {..ros_next s}"
  shows "list_all2 (offers W u) ops' (opened @ todo)"
  using assms
proof (induction todo arbitrary: ops s opened)
  case Nil
  then show ?case by (simp add: retA_def)
next
  case (Cons x todo)
  obtain n t where x: "x = (n, t)" by (cases x)
  obtain e r where e: "ros_service W (''/rosapi/'' @ n) (''rosapi_msgs/srv/'' @ t) s = (Ok e, r)"
    "open_services W todo (AList.update e n ops) r = (Ok ops', u)"
    using Cons.prems(1) by (auto simp: x bindA_Ok)
  from service_handle [OF e(1)] obtain h request resp where r: "e = ros_next s + 1" "ros_next r = e"
    "load_service W (''rosapi_msgs/srv/'' @ t) = Ok (request, resp)" "handles r = AList.update e (HService h request resp) (handles s)" by blast
  have fresh: "e \<notin> set (keys ops)" using Cons.prems(3) r(1) by auto
  have "offers W r p q" if "offers W s p q" "p \<in> set ops" for p q
  proof -
    have "fst p \<noteq> e" using fresh that(2) by auto
    then show ?thesis using that(1) by (auto simp: offers_def r(4) split: prod.splits)
  qed
  then have "list_all2 (offers W r) ops opened" using Cons.prems(2) by (auto simp: list_all2_conv_all_nth)
  moreover have "offers W r (e, n) (n, t)" using e(1) r(3,4) by (auto simp: offers_def)
  ultimately have "list_all2 (offers W r) (AList.update e n ops) (opened @ [x])"
    by (simp add: update_fresh [OF fresh] x list_all2_appendI)
  moreover have "set (keys (AList.update e n ops)) \<subseteq> {..ros_next r}" using Cons.prems(3) r(1,2) by auto
  ultimately show ?case using Cons.IH [OF e(2), of "opened @ [x]"] by simp
qed

lemma opened_start: "holds L r \<Longrightarrow> opened_to L [] r"
  by (simp add: opened_to_def)

context host_contract
begin

lemma open_one: "triple (opened_to L ops) (ros_service W n t)
    (\<lambda>e r. opened_to L (AList.update e x ops) r \<and> e \<notin> set (keys ops)) ros_valid"
proof (rule tripleI)
  fix s :: "'w ros" assume s: "opened_to L ops s"
  let ?M = "L \<union> set (keys ops)"
  note e = creates_triple [OF service_creates [of n t]]
  have h: "holds ?M s" using s by (simp add: opened_to_def)
  {
    fix a u assume u: "ros_service W n t s = (Ok a, u)"
    have "a = ros_next s + 1" "counters u = (a, next_request s)"
      using counts_creations(4) [of W n t] u unfolding counts_def by (auto dest: spec [of _ s])
    with triple_Ok [OF e h u] s show "opened_to L (AList.update a x ops) u \<and> a \<notin> set (keys ops)"
      by (auto simp: opened_to_def counters_def)
  next
    fix m u assume "ros_service W n t s = (Err m, u)"
    from triple_Err [OF e h this] show "ros_valid u" by (simp add: holds_def)
  next
    fix u assume "ros_service W n t s = (Panic, u)"
    with triple_no_panic [OF e h] show False by simp
  }
qed

lemma open_all: "triple (opened_to L ops) (open_services W todo ops)
    (\<lambda>ops' r. opened_to L ops' r \<and> vals ops' = vals ops @ map fst todo) ros_valid"
proof (induction todo arbitrary: ops)
  case Nil
  then show ?case by (auto intro: triple_retI)
next
  case (Cons x todo)
  obtain n t where x: "x = (n, t)" by (cases x)
  have "triple (\<lambda>r. opened_to L (AList.update e n ops) r \<and> e \<notin> set (keys ops)) (open_services W todo (AList.update e n ops))
      (\<lambda>ops' r. opened_to L ops' r \<and> vals ops' = vals ops @ map fst (x # todo)) ros_valid" for e
    by (rule triple_assume, rule triple_post [OF Cons.IH]) (auto simp: update_fresh x)
  then show ?case unfolding x open_services.simps by (intro triple_bind [OF open_one]) (simp_all add: x)
qed

text \<open>The services are started on a backend without them.\<close>

lemma api_new_triple:
  assumes "params_timeout H args = Ok d" "from_ros_args (h_globs H) (h_toml H) args = Ok config"
  shows "triple (holds L) (api_new W H args) (\<lambda>a r. opened_to L (operations a) r \<and> vals (operations a) = map fst SERVICES \<and>
     api_pending a = [] \<and> api_groups a = [] \<and> api_timeout a = d) ros_valid"
proof -
  have "triple (holds L) (bindA (open_services W SERVICES []) (\<lambda>ops. retA \<lparr>operations = ops,
      api_definitions = no_definitions, api_pending = [], api_groups = [], api_config = config, api_timeout = d\<rparr>))
    (\<lambda>a r. opened_to L (operations a) r \<and> vals (operations a) = map fst SERVICES \<and>
     api_pending a = [] \<and> api_groups a = [] \<and> api_timeout a = d) ros_valid"
    by (rule triple_bind [OF triple_pre [OF open_all [of L "[]"]]]) (auto intro!: triple_retI opened_start)
  then show ?thesis unfolding api_new_def assms bindA_simps .
qed

lemma started:
  assumes "node_holds H L s" "node_api s = None" "params_timeout H args = Ok d" "\<And>w. instant_ok (h_instant H w + d)"
    and run: "enable_rosapi W H args s = (Ok (), t)"
  shows "node_holds H L t \<and> (\<exists>a. node_api t = Some a \<and> list_all2 (offers W (node_ros t)) (operations a) SERVICES)"
proof -
  obtain a r where a: "api_new W H args (node_ros s) = (Ok a, r)" "t = s\<lparr>node_ros := r, node_api := Some a\<rparr>"
    using run by (auto simp: enable_rosapi_def bindA_def onN_def modA_def split: prod.splits outcome.splits)
  have h: "holds L (node_ros s)" using assms(1,2) by (simp add: node_plain)
  obtain config where "from_ros_args (h_globs H) (h_toml H) args = Ok config"
    using a(1) unfolding api_new_def assms(3) bindA_simps by (auto simp: bindA_Ok liftA_def)
  from triple_Ok [OF api_new_triple [OF assms(3) this] h a(1)]
  have o: "opened_to L (operations a) r" "vals (operations a) = map fst SERVICES" "api_pending a = []" "api_groups a = []"
    "api_timeout a = d" by auto
  have "serves H (next_request r) L {..next_request r} {} {} {} \<lparr>sv_ros = r, sv_api = a\<rparr>"
    using o assms(4) by (auto simp: serves_def holding_def own_def api_ok_def held_def opened_to_def holds_def)
  moreover have "open_services W SERVICES [] (node_ros s) = (Ok (operations a), r)"
    using a(1) by (auto simp: api_new_def bindA_Ok liftA_def retA_def)
  then have "list_all2 (offers W r) (operations a) SERVICES" using open_offers [of W SERVICES "[]"] by simp
  ultimately show ?thesis using a(2) by (auto simp: node_serves)
qed

end

end
