(* ===== verification/Topic_Safety.thy ===== *)
theory Topic_Safety
  imports Ownership
begin

text \<open>
  The operations of \<^verbatim>\<open>src/bridge/topics.rs\<close> keep the ownership invariant of the bridge,
  whichever way they end, and do not panic; a complete unadvertise or unsubscribe removes the
  connection from its topic.
\<close>

context bridge_env
begin

lemma add_owner_ok:
  assumes "publisher_ok h p" "h owner"
  shows "publisher_ok h (add_owner owner r p)"
proof -
  let ?ids = "case map_of (pub_owners p) owner of None \<Rightarrow> [] | Some ids \<Rightarrow> ids"
  have "distinct ?ids" using assms(1) by (auto simp: publisher_ok_def split: option.split dest!: map_of_SomeD)
  then have new: "List.insert r ?ids \<noteq> [] \<and> distinct (List.insert r ?ids)"
    by (metis List.distinct_insert in_set_insert not_in_set_insert list.distinct(1) length_greater_0_conv length_pos_if_in_set)
  have "\<forall>x \<in> set (AList.update owner (List.insert r ?ids) (pub_owners p)).
      case x of (owner, ids) \<Rightarrow> ids \<noteq> [] \<and> distinct ids \<and> h owner"
    using assms new set_update_subset [of owner "List.insert r ?ids" "pub_owners p"]
    by (auto simp: publisher_ok_def)
  then show ?thesis
    using assms(1) by (simp add: publisher_ok_def add_owner_def Let_def AList.update_nonempty)
qed

lemma add_owner_entity [simp]: "pub_entity (add_owner owner r p) = pub_entity p"
  by (simp add: add_owner_def Let_def)

lemma publisher_at:
  "inv D X K F s \<Longrightarrow> map_of (publishers s) t = Some p \<Longrightarrow> publisher_ok (present D KPub (outputs s)) p"
  using inv_tables by (force simp: tables_ok_def dest: entries_lookup)

lemma subscription_at:
  "inv D X K F s \<Longrightarrow> map_of (subscriptions s) t = Some x \<Longrightarrow> subscription_ok (present D KSub (outputs s)) x"
  using inv_tables by (force simp: tables_ok_def dest: entries_lookup)

lemma advertise_inv:
  "triple (\<lambda>s. I D s \<and> here owner s) (advertise E owner v)
    (\<lambda>_ s. I D s \<and> (\<forall>t. ros_name v ''topic'' = Ok t \<longrightarrow> map_of (publishers s) t \<noteq> None)) (I D)"
  unfolding advertise_def
  apply (rule bind_lift, simp, simp)
  apply (rule bind_lift, simp, simp)
  apply (rule bind_read)
  subgoal for topic r found
  proof (cases found)
    case None
    assume t: "ros_name v ''topic'' = Ok topic"
    show ?thesis
      unfolding None option.case
      apply (rule bind_resolve, simp, simp)
      apply (rule bind_lift, simp, simp)
      apply (rule bind_create, rule publisher, simp, simp)
      apply (rule triple_modI)
      using t by (auto intro!: inv_publisher_new simp: publisher_ok_def here_present)
         (auto simp: put_publisher_def)
  next
    case (Some p)
    assume t: "ros_name v ''topic'' = Ok topic"
    show ?thesis
      unfolding Some option.case
      apply (rule bind_lift)
        apply (auto simp: bindO_Panic split: option.split) [1]
       apply simp
      apply (rule triple_modI)
      using t by (auto intro!: inv_publisher_same [where q = p] add_owner_ok here_present intro: publisher_at)
         (auto simp: put_publisher_def)
  qed
  done

end

text \<open>The topics a connection advertises.\<close>

definition advertised_by :: "nat \<Rightarrow> 'b bridge \<Rightarrow> string set" where
  "advertised_by owner s = {t. \<exists>p. map_of (publishers s) t = Some p \<and> owner \<in> set (keys (pub_owners p))}"

lemma advertised_del:
  "advertised_by owner s \<subseteq> insert t T \<Longrightarrow> advertised_by owner (del_publisher t s) \<subseteq> T"
  by (auto simp: advertised_by_def del_publisher_def)

lemma advertised_put:
  "advertised_by owner s \<subseteq> insert t T \<Longrightarrow> owner \<notin> set (keys (pub_owners p)) \<Longrightarrow>
   advertised_by owner (put_publisher t p s) \<subseteq> T"
  by (auto simp: advertised_by_def put_publisher_def)

lemma advertised_none:
  assumes "advertised_by owner s \<subseteq> insert t T" "x \<in> advertised_by owner s"
    and "case map_of (publishers s) t of None \<Rightarrow> True | Some p \<Rightarrow> map_of (pub_owners p) owner = None"
  shows "x \<in> T"
proof -
  have "x \<noteq> t"
  proof (cases "map_of (publishers s) t")
    case None
    with assms(2) show ?thesis by (auto simp: advertised_by_def)
  next
    case (Some p)
    with assms(2,3) show ?thesis by (auto simp: advertised_by_def map_of_eq_None_iff)
  qed
  with assms(1,2) show ?thesis by blast
qed

lemma remaining_ids_Err: "remaining_ids i ids = Err e \<Longrightarrow> i \<noteq> None"
  by (cases i) (auto simp: remaining_ids_def)

lemma remaining_ids_Ok:
  "remaining_ids i ids = Ok ids' \<Longrightarrow> (i = None \<longrightarrow> ids' = []) \<and> (distinct ids \<longrightarrow> distinct ids')"
  by (auto simp: remaining_ids_def bindO_eq_Ok split: option.splits)

context bridge_env
begin

lemma unadvertise_inv:
  "triple (\<lambda>s. I D s \<and> advertised_by owner s \<subseteq> insert t T) (unadvertise E owner t i)
    (\<lambda>_ s. I D s \<and> (i = None \<longrightarrow> advertised_by owner s \<subseteq> T))
    (\<lambda>s. I D s \<and> (i = None \<longrightarrow> advertised_by owner s \<subseteq> T))"
  unfolding unadvertise_def
proof (rule bind_read)
  fix found
  show "triple (\<lambda>s. I D s \<and> advertised_by owner s \<subseteq> insert t T \<and> map_of (publishers s) t = found)
    (bindA (liftA (context_of found ''topic is not advertised'')) (\<lambda>p.
     bindA (liftA (context_of (map_of (pub_owners p) owner) ''topic is not advertised by this client'')) (\<lambda>ids.
     bindA (liftA (remaining_ids i ids)) (\<lambda>ids.
     let owners = (if ids = [] then AList.delete owner (pub_owners p)
                   else AList.update owner ids (pub_owners p))
     in if owners = []
        then bindA (modA (del_publisher t)) (\<lambda>_. onB (be_destroy (e_backend E) (pub_entity p)))
        else modA (put_publisher t (p\<lparr>pub_owners := owners\<rparr>))))))
    (\<lambda>_ s. I D s \<and> (i = None \<longrightarrow> advertised_by owner s \<subseteq> T))
    (\<lambda>s. I D s \<and> (i = None \<longrightarrow> advertised_by owner s \<subseteq> T))"
  proof (intro bind_lift)
    fix p ids ids'
    assume p: "context_of found ''topic is not advertised'' = Ok p"
      and ids: "context_of (map_of (pub_owners p) owner) ''topic is not advertised by this client'' = Ok ids"
      and ids': "remaining_ids i ids = Ok ids'"
    define owners where "owners = (if ids' = [] then AList.delete owner (pub_owners p)
                   else AList.update owner ids' (pub_owners p))"
    have gone: "owner \<notin> set (keys owners)" if "i = None"
      using that remaining_ids_Ok [OF ids'] by (simp add: owners_def)
    have ok: "publisher_ok h (p\<lparr>pub_owners := owners\<rparr>)" if "publisher_ok h p" "owners \<noteq> []" for h
    proof -
      have d: "distinct ids" "h owner" using that(1) ids by (auto simp: publisher_ok_def dest!: map_of_SomeD)
      show ?thesis
        using that d remaining_ids_Ok [OF ids'] set_update_subset [of owner ids' "pub_owners p"]
        by (auto simp: publisher_ok_def owners_def split: if_splits)
    qed
    show "triple (\<lambda>s. I D s \<and> advertised_by owner s \<subseteq> insert t T \<and> map_of (publishers s) t = found)
      (let owners = (if ids' = [] then AList.delete owner (pub_owners p)
                   else AList.update owner ids' (pub_owners p))
       in if owners = []
        then bindA (modA (del_publisher t)) (\<lambda>_. onB (be_destroy (e_backend E) (pub_entity p)))
        else modA (put_publisher t (p\<lparr>pub_owners := owners\<rparr>)))
      (\<lambda>_ s. I D s \<and> (i = None \<longrightarrow> advertised_by owner s \<subseteq> T))
      (\<lambda>s. I D s \<and> (i = None \<longrightarrow> advertised_by owner s \<subseteq> T))"
      unfolding Let_def owners_def [symmetric]
    proof (rule triple_if)
      assume "owners = []"
      show "triple (\<lambda>s. I D s \<and> advertised_by owner s \<subseteq> insert t T \<and> map_of (publishers s) t = found)
        (bindA (modA (del_publisher t)) (\<lambda>_. onB (be_destroy (e_backend E) (pub_entity p))))
        (\<lambda>_ s. I D s \<and> (i = None \<longrightarrow> advertised_by owner s \<subseteq> T))
        (\<lambda>s. I D s \<and> (i = None \<longrightarrow> advertised_by owner s \<subseteq> T))"
      proof (rule triple_bind)
        show "triple (\<lambda>s. I D s \<and> advertised_by owner s \<subseteq> insert t T \<and> map_of (publishers s) t = found)
            (modA (del_publisher t))
            (\<lambda>_ s. inv D {} {} {#pub_entity p#} s \<and> advertised_by owner s \<subseteq> T)
            (\<lambda>s. I D s \<and> (i = None \<longrightarrow> advertised_by owner s \<subseteq> T))"
          using p by (intro triple_modI)
            (auto intro: inv_publisher_del dest!: advertised_del)
      qed (rule destroy_end, auto simp: advertised_by_def)
    next
      assume "owners \<noteq> []"
      show "triple (\<lambda>s. I D s \<and> advertised_by owner s \<subseteq> insert t T \<and> map_of (publishers s) t = found)
        (modA (put_publisher t (p\<lparr>pub_owners := owners\<rparr>)))
        (\<lambda>_ s. I D s \<and> (i = None \<longrightarrow> advertised_by owner s \<subseteq> T))
        (\<lambda>s. I D s \<and> (i = None \<longrightarrow> advertised_by owner s \<subseteq> T))"
      proof (intro triple_modI conjI impI)
        fix s assume P: "I D s \<and> advertised_by owner s \<subseteq> insert t T \<and> map_of (publishers s) t = found"
        show "I D (put_publisher t (p\<lparr>pub_owners := owners\<rparr>) s)"
          by (rule inv_publisher_same [where q = p])
            (use P p \<open>owners \<noteq> []\<close> in \<open>auto intro: ok publisher_at\<close>)
        assume "i = None"
        then show "advertised_by owner (put_publisher t (p\<lparr>pub_owners := owners\<rparr>) s) \<subseteq> T"
          using P gone by (intro advertised_put) auto
      qed
    qed
  qed (auto dest: remaining_ids_Err advertised_none)
qed

end

context bridge_env
begin

lemma deliver_topic_inv:
  assumes "\<And>s q n f. R s \<Longrightarrow> R (s\<lparr>queues := q, next_id := n, failed := f\<rparr>)"
    and "\<And>s a. inv D X K F s \<Longrightarrow> R s \<Longrightarrow> Q a s"
  shows "triple (\<lambda>s. inv D X K F s \<and> R s) (deliver_topic E owner topic msg options) Q E'"
  unfolding deliver_topic_def
  by (intro triple_if send_end) (use assms in \<open>auto simp: publish_value_def is_object_def\<close>)

text \<open>While it is created, a subscription has no client yet.\<close>

definition joinable :: "(kind \<Rightarrow> nat set) \<Rightarrow> nat \<Rightarrow> string \<Rightarrow> subscription \<Rightarrow> 'b bridge \<Rightarrow> bool" where
  "joinable D owner topic x s \<longleftrightarrow> here owner s \<and>
     (I D s \<and> map_of (subscriptions s) topic = Some x \<or>
      sub_clients x = [] \<and> (\<exists>t. s = put_subscription topic x t \<and>
        inv D {} {} {#sub_entity x#} t \<and> map_of (subscriptions t) topic = None))"

lemma join_put:
  assumes "joinable D owner topic x s" "registrations c \<noteq> []" "distinct (keys (registrations c))"
  shows "I D (put_subscription topic (x\<lparr>sub_clients := AList.update owner c (sub_clients x)\<rparr>) s)"
proof -
  let ?x = "x\<lparr>sub_clients := AList.update owner c (sub_clients x)\<rparr>"
  have here: "present D KSub (outputs s) owner" using assms(1) by (simp add: joinable_def here_present)
  have ok: "subscription_ok h ?x" if "sub_clients x = [] \<or> subscription_ok h x" "h owner" for h
    using that assms(2,3) set_update_subset [of owner c "sub_clients x"]
    by (auto simp: subscription_ok_def AList.update_nonempty intro: distinct_keys_update)
  from assms(1) consider "I D s" "map_of (subscriptions s) topic = Some x"
    | t where "sub_clients x = []" "s = put_subscription topic x t" "inv D {} {} {#sub_entity x#} t"
      "map_of (subscriptions t) topic = None" by (auto simp: joinable_def)
  then show ?thesis
  proof cases
    case 1
    then show ?thesis
      by (intro inv_subscription_same [OF 1] ok) (auto intro: subscription_at here)
  next
    case 2
    have "subscription_ok (present D KSub (outputs t)) ?x"
      by (rule ok) (use 2 here in \<open>auto simp: put_subscription_def\<close>)
    then have "I D (put_subscription topic ?x t)"
      by (intro inv_subscription_new) (use 2 in auto)
    with 2(2) show ?thesis by (simp add: put_subscription_def)
  qed
qed

lemma subscribed_client_ok:
  assumes "joinable D owner topic x s"
  shows "registrations (subscribed_client owner i options x) \<noteq> []"
    and "distinct (keys (registrations (subscribed_client owner i options x)))"
proof -
  have "distinct (keys (registrations c))" if "map_of (sub_clients x) owner = Some c" for c
  proof -
    have "map_of (subscriptions s) topic = Some x" "I D s" using assms that by (auto simp: joinable_def)
    from subscription_at [OF this(2,1)] that show ?thesis
      by (auto simp: subscription_ok_def dest!: map_of_SomeD)
  qed
  then show "registrations (subscribed_client owner i options x) \<noteq> []"
    "distinct (keys (registrations (subscribed_client owner i options x)))"
    by (auto simp: subscribed_client_def Let_def AList.update_nonempty split: option.split
        intro!: distinct_keys_update)
qed

lemma join_inv:
  "triple (joinable D owner topic x) (join_subscription E owner topic i options x) (\<lambda>_. I D) (I D)"
proof -
  let ?c = "subscribed_client owner i options x"
  show ?thesis
  proof (cases "if \<not> has (sub_clients x) owner then retained x else None")
    case None
    then show ?thesis
      unfolding join_subscription_def Let_def
      by (auto intro!: triple_modI join_put dest: subscribed_client_ok simp del: has_keys)
  next
    case (Some msg)
    have "triple (joinable D owner topic x)
      (bindA (getA clock) (\<lambda>now.
       bindA (modA (put_subscription topic
          (x\<lparr>sub_clients := AList.update owner (?c\<lparr>sub_last := Some now\<rparr>) (sub_clients x)\<rparr>))) (\<lambda>_.
       deliver_topic E owner topic msg options))) (\<lambda>_. I D) (I D)"
    proof (intro bind_get triple_bind)
      fix now
      show "triple (\<lambda>s. joinable D owner topic x s \<and> now = clock s)
          (modA (put_subscription topic (x\<lparr>sub_clients := AList.update owner (?c\<lparr>sub_last := Some now\<rparr>) (sub_clients x)\<rparr>)))
          (\<lambda>_ s. I D s \<and> True) (I D)"
        by (rule triple_modI) (auto intro!: join_put dest: subscribed_client_ok)
    qed (rule deliver_topic_inv, auto)
    with Some show ?thesis unfolding join_subscription_def Let_def by simp
  qed
qed

lemma subscription_qos_inv:
  "(\<And>s b. R s \<Longrightarrow> R (s\<lparr>backend := b\<rparr>)) \<Longrightarrow>
   triple (\<lambda>s. inv D X K F s \<and> R s) (subscription_qos E topic v) (\<lambda>_ s. inv D X K F s \<and> R s) (inv D X K F)"
  unfolding subscription_qos_def
  by (cases "jget v ''qos''")
    (auto intro!: triple_liftI bind_keep triple_retI simp: publisher_qos split: option.split)

lemma subscribe_inv:
  assumes "request_id v = Ok i"
  shows "triple (\<lambda>s. I D s \<and> here owner s) (subscribe E owner v) (\<lambda>_. I D) (I D)"
  unfolding subscribe_def
proof (intro bind_lift)
  fix topic options
  show "triple (\<lambda>s. I D s \<and> here owner s)
    (bindA (resolve E v ''topic'' ''msg'') (\<lambda>ty.
     bindA (getA (\<lambda>s. map_of (subscriptions s) topic)) (\<lambda>found.
     bindA (case found of
         Some x \<Rightarrow> bindA (liftA (ensure (sub_typ x = ty) ''topic type mismatch'')) (\<lambda>_. retA x)
       | None \<Rightarrow>
           bindA (subscription_qos E topic v) (\<lambda>q.
           bindA (onB (be_subscription (e_backend E) topic ty q)) (\<lambda>entity.
           let x = \<lparr>transient_local = (q_durability q = 1), retained = None, sub_entity = entity,
                    sub_typ = ty, sub_clients = []\<rparr>
           in bindA (modA (put_subscription topic x)) (\<lambda>_. retA x)))) (\<lambda>x.
     bindA (liftA (request_id v)) (\<lambda>i.
     join_subscription E owner topic i options x))))) (\<lambda>_. I D) (I D)"
  proof (rule bind_resolve)
    fix ty
    let ?find = "\<lambda>found. case found of
         Some x \<Rightarrow> bindA (liftA (ensure (sub_typ x = ty) ''topic type mismatch'')) (\<lambda>_. retA x)
       | None \<Rightarrow>
           bindA (subscription_qos E topic v) (\<lambda>q.
           bindA (onB (be_subscription (e_backend E) topic ty q)) (\<lambda>entity.
           let x = \<lparr>transient_local = (q_durability q = 1), retained = None, sub_entity = entity,
                    sub_typ = ty, sub_clients = []\<rparr>
           in bindA (modA (put_subscription topic x)) (\<lambda>_. retA x)))"
    have found: "triple (\<lambda>s. I D s \<and> here owner s \<and> map_of (subscriptions s) topic = found) (?find found)
        (\<lambda>x. joinable D owner topic x) (I D)" for found
    proof (cases found)
      case (Some x)
      then show ?thesis by (auto intro!: bind_lift triple_retI simp: joinable_def)
    next
      case None
      show ?thesis
        unfolding None option.case Let_def
      proof (rule triple_bind [OF subscription_qos_inv])
        fix q
        show "triple (\<lambda>s. I D s \<and> here owner s \<and> map_of (subscriptions s) topic = None)
          (bindA (onB (be_subscription (e_backend E) topic ty q)) (\<lambda>entity.
           bindA (modA (put_subscription topic \<lparr>transient_local = (q_durability q = 1), retained = None,
                sub_entity = entity, sub_typ = ty, sub_clients = []\<rparr>))
             (\<lambda>_. retA \<lparr>transient_local = (q_durability q = 1), retained = None, sub_entity = entity,
                sub_typ = ty, sub_clients = []\<rparr>)))
          (\<lambda>x. joinable D owner topic x) (I D)"
        proof (rule bind_create [OF subscription])
          fix entity
          let ?x = "\<lparr>transient_local = (q_durability q = 1), retained = None, sub_entity = entity,
                sub_typ = ty, sub_clients = []\<rparr>"
          show "triple (\<lambda>s. inv D {} {} {#entity#} s \<and> here owner s \<and> map_of (subscriptions s) topic = None)
            (bindA (modA (put_subscription topic ?x)) (\<lambda>_. retA ?x)) (\<lambda>x. joinable D owner topic x) (I D)"
          proof (rule triple_bind)
            show "triple (\<lambda>s. inv D {} {} {#entity#} s \<and> here owner s \<and> map_of (subscriptions s) topic = None)
              (modA (put_subscription topic ?x)) (\<lambda>_. joinable D owner topic ?x) (I D)"
              by (rule triple_modI) (auto simp: joinable_def here_def put_subscription_def)
          qed (rule triple_retI)
        qed auto
      qed simp
    qed
    show "triple (\<lambda>s. I D s \<and> here owner s)
     (bindA (getA (\<lambda>s. map_of (subscriptions s) topic)) (\<lambda>found. bindA (?find found) (\<lambda>x.
     bindA (liftA (request_id v)) (\<lambda>i. join_subscription E owner topic i options x)))) (\<lambda>_. I D) (I D)"
      by (intro bind_read triple_bind [OF found] bind_lift join_inv) (simp_all add: assms)
  qed auto
qed auto

end

text \<open>The topics a connection subscribes to.\<close>

definition subscribed_by :: "nat \<Rightarrow> 'b bridge \<Rightarrow> string set" where
  "subscribed_by owner s = {t. \<exists>x. map_of (subscriptions s) t = Some x \<and> owner \<in> set (keys (sub_clients x))}"

lemma subscribed_backend [simp]: "subscribed_by owner (s\<lparr>backend := b\<rparr>) = subscribed_by owner s"
  by (simp add: subscribed_by_def)

lemma subscribed_del:
  "subscribed_by owner s \<subseteq> insert t T \<Longrightarrow> subscribed_by owner (del_subscription t s) \<subseteq> T"
  by (auto simp: subscribed_by_def del_subscription_def)

lemma subscribed_put:
  "subscribed_by owner s \<subseteq> insert t T \<Longrightarrow> owner \<notin> set (keys (sub_clients x)) \<Longrightarrow>
   subscribed_by owner (put_subscription t x s) \<subseteq> T"
  by (auto simp: subscribed_by_def put_subscription_def)

lemma subscribed_none:
  assumes "subscribed_by owner s \<subseteq> insert t T" "y \<in> subscribed_by owner s"
    and "case map_of (subscriptions s) t of None \<Rightarrow> True | Some x \<Rightarrow> map_of (sub_clients x) owner = None"
  shows "y \<in> T"
proof -
  have "y \<noteq> t"
  proof (cases "map_of (subscriptions s) t")
    case None
    with assms(2) show ?thesis by (auto simp: subscribed_by_def)
  next
    case (Some x)
    with assms(2,3) show ?thesis by (auto simp: subscribed_by_def map_of_eq_None_iff)
  qed
  with assms(1,2) show ?thesis by blast
qed

lemma remaining_registrations_Err: "remaining_registrations i rs = Err e \<Longrightarrow> i \<noteq> None"
  by (cases i) (auto simp: remaining_registrations_def)

lemma remaining_registrations_Ok:
  "remaining_registrations i rs = Ok rs' \<Longrightarrow>
   (i = None \<longrightarrow> rs' = []) \<and> (distinct (keys rs) \<longrightarrow> distinct (keys rs'))"
  by (auto simp: remaining_registrations_def bindO_eq_Ok simp del: has_keys split: option.splits)

context bridge_env
begin

lemma unsubscribe_inv:
  "triple (\<lambda>s. I D s \<and> subscribed_by owner s \<subseteq> insert t T) (unsubscribe E owner t i)
    (\<lambda>_ s. I D s \<and> (i = None \<longrightarrow> subscribed_by owner s \<subseteq> T))
    (\<lambda>s. I D s \<and> (i = None \<longrightarrow> subscribed_by owner s \<subseteq> T))"
  (is "triple ?P _ ?Q ?E")
  unfolding unsubscribe_def
proof (rule bind_read)
  fix found
  let ?P' = "\<lambda>s. I D s \<and> subscribed_by owner s \<subseteq> insert t T \<and> map_of (subscriptions s) t = found"
  show "triple ?P'
    (bindA (liftA (context_of found ''topic is not subscribed'')) (\<lambda>x.
     bindA (liftA (context_of (map_of (sub_clients x) owner) ''topic is not subscribed by this client'')) (\<lambda>c.
     bindA (liftA (remaining_registrations i (registrations c))) (\<lambda>rs.
     let cs = (if rs = [] then AList.delete owner (sub_clients x)
               else AList.update owner (c\<lparr>registrations := rs\<rparr>) (sub_clients x))
     in if cs = []
        then bindA (modA (del_subscription t)) (\<lambda>_. onB (be_destroy (e_backend E) (sub_entity x)))
        else modA (put_subscription t (x\<lparr>sub_clients := cs\<rparr>)))))) ?Q ?E"
  proof (intro bind_lift)
    fix x c rs
    assume x: "context_of found ''topic is not subscribed'' = Ok x"
      and c: "context_of (map_of (sub_clients x) owner) ''topic is not subscribed by this client'' = Ok c"
      and rs: "remaining_registrations i (registrations c) = Ok rs"
    define cs where "cs = (if rs = [] then AList.delete owner (sub_clients x)
               else AList.update owner (c\<lparr>registrations := rs\<rparr>) (sub_clients x))"
    have gone: "owner \<notin> set (keys cs)" if "i = None"
      using that remaining_registrations_Ok [OF rs] by (simp add: cs_def)
    have ok: "subscription_ok h (x\<lparr>sub_clients := cs\<rparr>)" if "subscription_ok h x" "cs \<noteq> []" for h
    proof -
      have d: "distinct (keys (registrations c))" "h owner"
        using that(1) c by (auto simp: subscription_ok_def dest!: map_of_SomeD)
      show ?thesis
        using that d remaining_registrations_Ok [OF rs]
          set_update_subset [of owner "c\<lparr>registrations := rs\<rparr>" "sub_clients x"]
        by (auto simp: subscription_ok_def cs_def split: if_splits)
    qed
    show "triple ?P'
      (let cs = (if rs = [] then AList.delete owner (sub_clients x)
               else AList.update owner (c\<lparr>registrations := rs\<rparr>) (sub_clients x))
       in if cs = []
        then bindA (modA (del_subscription t)) (\<lambda>_. onB (be_destroy (e_backend E) (sub_entity x)))
        else modA (put_subscription t (x\<lparr>sub_clients := cs\<rparr>))) ?Q ?E"
      unfolding Let_def cs_def [symmetric]
    proof (rule triple_if)
      show "triple ?P'
        (bindA (modA (del_subscription t)) (\<lambda>_. onB (be_destroy (e_backend E) (sub_entity x)))) ?Q ?E"
      proof (rule triple_bind)
        show "triple ?P' (modA (del_subscription t))
            (\<lambda>_ s. inv D {} {} {#sub_entity x#} s \<and> subscribed_by owner s \<subseteq> T) ?E"
          using x by (intro triple_modI) (auto intro: inv_subscription_del dest!: subscribed_del)
      qed (rule destroy_end, auto)
    next
      assume "cs \<noteq> []"
      show "triple ?P' (modA (put_subscription t (x\<lparr>sub_clients := cs\<rparr>))) ?Q ?E"
      proof (intro triple_modI conjI impI)
        fix s assume P: "?P' s"
        show "I D (put_subscription t (x\<lparr>sub_clients := cs\<rparr>) s)"
          by (rule inv_subscription_same [where q = x])
            (use P x \<open>cs \<noteq> []\<close> in \<open>auto intro: ok subscription_at\<close>)
        assume "i = None"
        then show "subscribed_by owner (put_subscription t (x\<lparr>sub_clients := cs\<rparr>) s) \<subseteq> T"
          using P gone by (intro subscribed_put) auto
      qed
    qed
  qed (auto dest: remaining_registrations_Err subscribed_none)
qed

text \<open>Offering a message changes no client's registrations.\<close>

lemma offer_registrations [simp]: "registrations (fst (offer now msg c)) = registrations c"
  by (simp add: offer_def Let_def)

lemma due_registrations [simp]: "registrations (fst (due now c)) = registrations c"
  by (simp add: due_def Let_def split: list.split)

lemma subscription_ok_map:
  assumes "subscription_ok h x" "\<And>c. registrations (f c) = registrations c"
    and "sub_clients y = map (\<lambda>(owner, c). (owner, f c)) (sub_clients x)"
  shows "subscription_ok h y"
proof -
  have "keys (sub_clients y) = keys (sub_clients x)"
    unfolding assms(3) by (simp add: comp_def case_prod_unfold)
  moreover have "sub_clients y \<noteq> []" using assms(1,3) by (simp add: subscription_ok_def)
  moreover have "registrations d \<noteq> [] \<and> distinct (keys (registrations d)) \<and> h owner"
    if "(owner, d) \<in> set (sub_clients y)" for owner d
  proof -
    from that obtain c where "(owner, c) \<in> set (sub_clients x)" "d = f c" unfolding assms(3) by auto
    with assms(1,2) show ?thesis by (auto simp: subscription_ok_def)
  qed
  ultimately show ?thesis using assms(1) unfolding subscription_ok_def by auto
qed

lemma topic_message_inv: "triple (I D) (topic_message E entity msg) (\<lambda>_. I D) (I D)"
  unfolding topic_message_def
  apply (rule bind_get)
  apply (split option.split, intro conjI allI impI)
   apply (rule bind_get, split option.split, intro conjI allI impI)
    apply (rule triple_retI, simp)
   apply (split prod.split, intro allI impI, rule bind_get, split prod.split, intro allI impI)
   subgoal premises prems for goal found tx topic x now cs deliveries
   proof (rule triple_bind)
     let ?y = "x\<lparr>retained := (if transient_local x then Some msg else retained x), sub_clients := cs\<rparr>"
     from prems show "triple (\<lambda>s. ((I D s \<and> goal = find (\<lambda>g. goal_feedback_sub g = entity) (vals (goals s))) \<and>
           found = find (\<lambda>(_, x). sub_entity x = entity) (subscriptions s)) \<and> now = clock s)
         (modA (put_subscription topic ?y)) (\<lambda>_ s. I D s \<and> True) (I D)"
     proof (intro triple_modI, elim conjE, intro conjI TrueI)
       fix s assume s: "I D s" and f: "found = find (\<lambda>(_, x). sub_entity x = entity) (subscriptions s)"
       then have "(topic, x) \<in> set (subscriptions s)" using prems find_in by metis
       with s have m: "map_of (subscriptions s) topic = Some x"
         by (auto simp: tables_ok_def dest!: inv_tables intro: entries_in)
       have "cs = map (\<lambda>(owner, c). (owner, fst (offer now msg c))) (sub_clients x)"
         using prems by (simp add: offers_def)
       then have "subscription_ok (present D KSub (outputs s)) ?y"
         by (intro subscription_ok_map [OF subscription_at [OF s m], of "\<lambda>c. fst (offer now msg c)"]) simp_all
       with s m show "I D (put_subscription topic ?y s)" by (intro inv_subscription_same [where q = x]) simp_all
     qed
   next
     show "triple (\<lambda>s. I D s \<and> True) (forA deliveries (\<lambda>(owner, options). deliver_topic E owner topic msg options))
        (\<lambda>_. I D) (I D)"
       by (simp, rule triple_for) (auto intro: alone deliver_topic_inv)
   qed
  apply (intro triple_if bind_lift send_end triple_retI)
       apply (simp_all add: is_object_def)
  done

end

end
