(* ===== verification/Service_Safety.thy ===== *)
theory Service_Safety
  imports Topic_Safety
begin

text \<open>
  The operations of \<^verbatim>\<open>src/bridge/services.rs\<close> keep the ownership invariant and do not
  panic, given that the expiry of a call is an instant the clock can represent; removing a
  service removes the requests that wait for it.
\<close>

text \<open>The services a connection advertises.\<close>

definition services_of :: "nat \<Rightarrow> 'b bridge \<Rightarrow> string set" where
  "services_of owner s = {n. \<exists>x. map_of (svcs s) n = Some x \<and> svc_owner x = owner}"

lemma services_of_simps [simp]:
  "services_of owner (s\<lparr>backend := b\<rparr>) = services_of owner s"
  "services_of owner (drop_requests e s) = services_of owner s"
  by (simp_all add: services_of_def drop_requests_def)

lemma services_of_del: "services_of owner (del_service n s) = services_of owner s - {n}"
  by (auto simp: services_of_def del_service_def)

lemma drop_requests_svcs [simp]: "svcs (drop_requests e s) = svcs s"
  by (simp add: drop_requests_def)

lemma del_service_lookup [simp]: "map_of (svcs (del_service n s)) n = None"
  by (simp add: del_service_def)

context bridge_env
begin

lemma fresh_call:
  assumes "inv D X K (add_mset e F) s"
  shows "map_of (calls s) (e, q) = None"
proof (rule ccontr)
  assume "map_of (calls s) (e, q) \<noteq> None"
  then have "e \<in> (fst \<circ> fst) ` set (calls s)" by (force dest: map_of_SomeD)
  then have "e \<in># owned s" by (simp add: owned_def)
  then obtain M where M: "owned s = add_mset e M" by (metis multi_member_split)
  have "owned s + add_mset e F = mset_set (live (backend s))" using assms by (simp add: bridge_inv_def)
  then have "count (mset_set (live (backend s))) e = count (owned s + add_mset e F) e" by simp
  then have "1 < count (mset_set (live (backend s))) e" by (simp add: M)
  moreover have "count (mset_set (live (backend s))) e \<le> 1"
    by (cases "finite (live (backend s))"; cases "e \<in> live (backend s)") simp_all
  ultimately show False by simp
qed

lemma bind_instant:
  assumes "\<And>s. P s \<Longrightarrow> instant_ok (t + d)" "triple P (g (t + d)) Q E'"
  shows "triple P (bindA (liftA (instant_add t d)) g) Q E'"
proof (cases "instant_ok (t + d)")
  case True
  with assms(2) show ?thesis by (simp add: instant_add_def triple_def)
next
  case False
  with assms(1) show ?thesis by (auto simp: triple_def)
qed

lemma call_timeout_no_panic: "call_timeout v n \<noteq> Panic"
  by (auto simp: call_timeout_def bindO_Panic split: option.split)

lemma call_service_inv:
  "triple (\<lambda>s. I D s \<and> here owner s \<and> (\<forall>n. call_timeout v (timeout s) = Ok n \<longrightarrow> instant_ok (clock s + n)))
     (call_service E owner v) (\<lambda>_. I D) (I D)"
  unfolding call_service_def
  apply (rule bind_read)
  apply (rule bind_lift, simp, simp)
  apply (rule bind_lift, simp, simp)
  apply (rule bind_lift, simp, simp)
  apply (rule bind_resolve, simp, simp)
  apply (rule bind_read)
  apply (rule bind_lift, simp, simp)
  apply (rule bind_read)
  apply (rule bind_lift, rule call_timeout_no_panic, simp)
  subgoal for started i service options ty a u standard limit
    apply (rule triple_pre [where P' = "\<lambda>s. I D s \<and> (here owner s \<and> instant_ok (clock s + limit))"])
     apply (rule bind_create, rule client, simp, simp)
    subgoal for e
      apply (rule bind_try, rule onB_keep, rule request, simp)
      subgoal for sequence
        unfolding sum.case
        apply (rule bind_read)
        apply (rule bind_instant, simp)
        apply (rule triple_modI)
        apply (rule inv_call_new)
          apply (auto simp: fresh_call here_present)
        done
      unfolding sum.case
      apply (rule triple_bind, rule destroy_end [where Q = "\<lambda>_. I D"], simp, simp, rule triple_errI, simp)
      done
    apply auto
    done
  done

lemma remove_service_inv:
  "triple (\<lambda>s. I D s \<and> services_of owner s \<subseteq> insert n T) (remove_service E owner n)
    (\<lambda>_ s. I D s \<and> services_of owner s \<subseteq> T \<and> map_of (svcs s) n = None)
    (\<lambda>s. I D s \<and> services_of owner s \<subseteq> T)"
  unfolding remove_service_def
  apply (rule bind_read)
  apply (split option.split, intro conjI allI impI)
   apply (rule triple_errI, auto simp: services_of_def) [1]
  apply (rule triple_if)
   apply (rule triple_errI, auto simp: services_of_def) [1]
  subgoal for found x
    apply (rule triple_bind [where R = "\<lambda>_ s. inv D {svc_entity x} {} {#svc_entity x#} s \<and>
        services_of owner s \<subseteq> T \<and> map_of (svcs s) n = None"])
     apply (rule triple_modI)
    subgoal for s
      using inv_service_del [of D "{}" "{}" "{#}" s n x] by (auto simp: services_of_del)
    apply (rule triple_bind [where R = "\<lambda>_ s. inv D {svc_entity x} {} {#} s \<and>
        services_of owner s \<subseteq> T \<and> map_of (svcs s) n = None"])
     apply (rule destroy_end, simp, simp)
    apply (rule triple_modI)
    apply (auto simp: inv_requests_drop)
    done
  done

end

lemma same_remove_service: "same outputs (remove_service E owner n)"
  unfolding remove_service_def
  by (auto intro!: same_rules simp: table_ops split: option.split)

context bridge_env
begin

lemma advertise_service_inv:
  "triple (\<lambda>s. I D s \<and> here owner s) (advertise_service E owner v) (\<lambda>_. I D) (I D)"
  unfolding advertise_service_def
  apply (rule bind_lift, simp, simp)
  apply (rule bind_lift, simp add: bindO_Panic, simp)
  apply (rule bind_read)
  apply (rule bind_lift, simp, simp)
  apply (rule bind_read)
  subgoal for n ty a u found
    apply (rule triple_bind [where R = "\<lambda>d s. I D s \<and> here owner s \<and> (\<not> d \<longrightarrow> map_of (svcs s) n = None)"])
     apply (split option.split, intro conjI allI impI)
      apply (rule triple_retI, simp)
     apply (rule bind_lift, simp, simp)
     apply (rule triple_if, rule triple_retI, simp)
    subgoal for x
      apply (rule triple_bind [where R = "\<lambda>_ s. I D s \<and> here owner s \<and> map_of (svcs s) n = None"])
       apply (rule triple_pre, rule triple_post,
          rule triple_same [OF remove_service_inv [where T = UNIV] same_remove_service, where C = "\<lambda>o'. owner \<in> set (keys o')"])
         apply (auto simp: here_def intro!: triple_retI)
      done
    apply (rule triple_if, rule triple_retI, simp)
    apply (rule triple_pre [where P' = "\<lambda>s. I D s \<and> (here owner s \<and> map_of (svcs s) n = None)"])
     apply (rule bind_create, rule service, simp, simp)
     apply (rule triple_modI)
    apply (auto intro!: inv_service_new here_present)
    done
  done

lemma external_at:
  "inv D X K F s \<Longrightarrow> map_of (external s) i = Some r \<Longrightarrow> external_ok X (svcs s) r"
  using inv_tables by (force simp: tables_ok_def dest: entries_lookup)

lemma service_response_inv: "triple (I D) (service_response E owner v) (\<lambda>_. I D) (I D)"
  unfolding service_response_def
  apply (rule bind_lift, simp, simp)
  apply (rule bind_lift, simp, simp)
  apply (rule bind_get)
  apply (rule bind_lift, simp, simp)
  apply (rule bind_lift, simp, simp)
  apply (rule bind_lift, simp add: bindO_Panic, simp)
  apply (rule bind_keep, rule respond)
  apply auto
  apply (rule triple_modI)
  apply (simp add: inv_external_del)
  done

lemma find_holds: "find P xs = Some x \<Longrightarrow> P x"
  by (auto simp: find_Some_iff)

lemma service_found:
  assumes "inv D X K F s" "find P (svcs s) = Some (n, x)"
  shows "map_of (svcs s) n = Some x"
  using inv_tables [OF assms(1)] find_in [OF assms(2)] by (auto simp: tables_ok_def intro: entries_in)

lemma forward_request_inv: "triple (I D) (forward_request E entity request args) (\<lambda>_. I D) (I D)"
  unfolding forward_request_def Let_def
  apply (rule bind_get)
  apply (split option.split, intro conjI allI impI)
   apply (rule triple_retI, simp)
  apply (split prod.split, intro allI impI)
  subgoal for found nx n x
    apply (rule triple_bind [where R = "\<lambda>_ s. I D s \<and> svc_entity x = entity \<and>
        map_of (svcs s) n = Some (x\<lparr>svc_next := svc_next x + 1\<rparr>)"])
     apply (rule triple_modI)
    subgoal for s
      using inv_service_same [of D "{}" "{}" "{#}" s n x "x\<lparr>svc_next := svc_next x + 1\<rparr>"]
        service_found [of D "{}" "{}" "{#}" s _ n x]
        find_holds [of "\<lambda>(_, x). svc_entity x = entity" "svcs s" "(n, x)"]
      by (auto simp: put_service_def)
    apply (rule bind_read, rule bind_read, rule bind_instant)
     apply (auto dest!: inv_tables simp: tables_ok_def) [1]
    apply (rule triple_bind [where R = "\<lambda>_ s. I D s \<and> True"])
     apply (rule triple_modI)
     apply (auto intro!: inv_external_put simp: external_ok_def) [1]
    apply (rule send_end)
      apply (auto simp: is_object_def)
    done
  done

end

end
