(* ===== verification/Goal_Safety.thy ===== *)
theory Goal_Safety
  imports Service_Safety
begin

text \<open>
  The first half of \<^verbatim>\<open>src/bridge/actions.rs\<close>, the goals that connections send: each goal
  holds five entities from its creation to its end, a failed creation gives back what it
  created, and goals never share a key, since their random identifiers differ.
\<close>

section \<open>Random goal identifiers\<close>

lemma byte_lt: "unat (b :: byte) < 256"
proof -
  have "unat b < 2 ^ LENGTH(8)" by (rule unsigned_less)
  then show ?thesis by simp
qed

lemma hex_pair_inj:
  assumes "[hex_digit (unat a div 16), hex_digit (unat a mod 16)] = [hex_digit (unat b div 16), hex_digit (unat b mod 16)]"
  shows "(a :: byte) = b"
proof -
  have digit: "hex_digit m = hex_digit n \<Longrightarrow> m = n" if "m < 16" "n < 16" for m n
  proof -
    have "distinct ''0123456789abcdef''" by simp
    then show "hex_digit m = hex_digit n \<Longrightarrow> m = n"
      using that by (simp add: hex_digit_def nth_eq_iff_index_eq)
  qed
  have "unat x div 16 < 16" for x :: byte using byte_lt [of x] by simp
  then have "unat a div 16 = unat b div 16" "unat a mod 16 = unat b mod 16"
    using assms digit by simp_all
  then have "unat a = unat b" by (metis div_mult_mod_eq)
  then show ?thesis by (rule word_unat_eq_iff [THEN iffD2])
qed

lemma hex_inj: "length a = length b \<Longrightarrow> hex a = hex b \<Longrightarrow> a = b"
proof (induction a b rule: list_induct2)
  case (Cons x xs y ys)
  then show ?case using hex_pair_inj [of x y] by (simp add: hex_def)
qed simp

lemma uuid_bytes: "mapO uuid_byte (map (\<lambda>b. jnat (unat b)) bs) = Ok bs"
proof -
  have "uuid_byte (jnat (unat b)) = Ok b" for b :: byte
    using byte_lt [of b] by (simp add: uuid_byte_def)
  then show ?thesis by (induction bs) simp_all
qed

lemma uuid_key_fresh:
  "length bs = 16 \<Longrightarrow> uuid_key E (JObj [(''uuid'', JArr (map (\<lambda>b. jnat (unat b)) bs))]) = Ok (hex bs)"
  by (simp add: uuid_key_def uuid_bytes)

section \<open>Groups of entities\<close>

context bridge_env
begin

lemma create_all_inv:
  assumes R: "\<And>s b. R s \<Longrightarrow> R (s\<lparr>backend := b\<rparr>)"
  shows "list_all (\<lambda>m. \<exists>c. m = onB c \<and> creates valid live c) ms \<Longrightarrow>
    triple (\<lambda>s. inv D X K F s \<and> R s) (create_all ms)
      (\<lambda>(r, created) s. inv D X K (mset created + F) s \<and> R s \<and>
         (\<forall>es. r = Inr es \<longrightarrow> es = created \<and> length es = length ms)) (\<lambda>_. False)"
proof (induction ms arbitrary: F)
  case Nil
  show ?case by (simp add: triple_retI)
next
  case (Cons m ms)
  then obtain c where c: "m = onB c" "creates valid live c" by auto
  show ?case
    unfolding create_all.simps c(1)
    apply (rule bind_try, rule onB_create [OF c(2)], rule R, assumption)
     apply (simp only: sum.case, rule triple_bind, rule Cons.IH)
    using Cons.prems apply simp
     apply (split prod.split, intro allI impI, rule triple_retI)
     apply (auto split: sum.splits) [1]
    apply (simp add: triple_retI)
    done
qed

lemma destroy_all_inv:
  assumes "\<And>s b. R s \<Longrightarrow> R (s\<lparr>backend := b\<rparr>)" "\<And>s a. inv D X K F s \<Longrightarrow> R s \<Longrightarrow> Q a s"
  shows "triple (\<lambda>s. inv D X K (mset es + F) s \<and> R s) (destroy_all E es) Q E'"
  unfolding destroy_all_def
proof (induction es)
  case Nil
  show ?case by (auto intro: triple_retI assms(2))
next
  case (Cons e es)
  have "triple (\<lambda>s. inv D X K (add_mset e (mset es + F)) s \<and> R s) (onB (be_destroy (e_backend E) e))
      (\<lambda>_ s. inv D X K (mset es + F) s \<and> R s) E'"
    by (rule destroy_end) (use assms(1) in auto)
  from triple_bind [OF this Cons.IH] show ?case by simp
qed

end

section \<open>Goals of connections\<close>

definition goals_of :: "nat \<Rightarrow> 'b bridge \<Rightarrow> string set" where
  "goals_of owner s = {k. \<exists>g. map_of (goals s) k = Some g \<and> goal_owner g = owner}"

lemma goals_of_simps [simp]:
  "goals_of owner (s\<lparr>backend := b\<rparr>) = goals_of owner s"
  "goals_of owner (s\<lparr>queues := q, next_id := n, failed := f\<rparr>) = goals_of owner s"
  "goals_of owner (drop_calls k s) = goals_of owner s"
  "goals_of owner (del_goal k s) = goals_of owner s - {k}"
  by (auto simp: goals_of_def drop_calls_def del_goal_def)

lemma action_result_object [simp]: "is_object (action_result_value a v st b)"
  by (simp add: action_result_value_def is_object_def)

definition unused_key :: "'b env \<Rightarrow> string \<Rightarrow> 'b bridge \<Rightarrow> bool" where
  "unused_key E key s \<longleftrightarrow> (\<exists>n < uuid_count s. key = hex (e_uuid E n)) \<and> map_of (goals s) key = None"

lemma unused_key_simps [simp]:
  "unused_key E key (s\<lparr>backend := b\<rparr>) = unused_key E key s"
  by (simp add: unused_key_def)

context bridge_env
begin

lemma finish_goal_inv:
  "triple (\<lambda>s. I D s \<and> goals_of owner s \<subseteq> insert key T) (finish_goal E key values status success)
     (\<lambda>_ s. I D s \<and> goals_of owner s \<subseteq> T) (\<lambda>_. False)"
  unfolding finish_goal_def
  apply (rule bind_read)
  apply (split option.split, intro conjI allI impI)
   apply (rule triple_retI, auto simp: goals_of_def) [1]
  subgoal for found g
    apply (rule triple_bind [where R = "\<lambda>_ s. inv D {} {key} (mset (goal_entities g) + {#}) s \<and> goals_of owner s \<subseteq> T"])
     apply (rule triple_modI)
    subgoal for s
      using inv_goal_del [of D "{}" "{}" "{#}" s key g] by auto
    apply (rule bind_send, simp, simp)
    apply (rule triple_bind [where R = "\<lambda>_ s. inv D {} {key} {#} s \<and> goals_of owner s \<subseteq> T"])
     apply (rule destroy_all_inv, simp, simp)
    apply (rule triple_modI)
    apply (simp add: inv_calls_drop)
    done
  done

lemma fresh_uuid_inv:
  "triple (\<lambda>s. I D s \<and> here owner s \<and> uuid_count s < UUIDS) (fresh_uuid E)
     (\<lambda>u s. I D s \<and> here owner s \<and> (\<exists>k. uuid_key E u = Ok k \<and> unused_key E k s)) (\<lambda>_. False)"
proof (rule tripleI)
  fix s u t assume P: "I D s \<and> here owner s \<and> uuid_count s < UUIDS" and r: "fresh_uuid E s = (Ok u, t)"
  let ?n = "uuid_count s" and ?k = "hex (e_uuid E (uuid_count s))"
  have t: "t = s\<lparr>uuid_count := ?n + 1\<rparr>" and u: "uuid_key E u = Ok ?k"
    using r uuids P by (auto simp: fresh_uuid_def uuid_key_fresh uuids_ok_def)
  have gs: "entries (goal_ok E (present D KGoal (outputs s)) ?n) (goals s)"
    using P inv_tables by (auto simp: tables_ok_def)
  then have "entries (goal_ok E (present D KGoal (outputs s)) (?n + 1)) (goals s)"
    by (rule entries_mono) (auto simp: goal_ok_def intro: less_SucI)
  then have "I D t" using P t by (simp add: bridge_inv_def tables_ok_def owned_def)
  moreover have "map_of (goals s) ?k = None"
  proof (rule ccontr)
    assume "map_of (goals s) ?k \<noteq> None"
    then obtain m where m: "m < ?n" "?k = hex (e_uuid E m)"
      using entries_lookup [OF gs] unfolding goal_ok_def by blast
    with P uuids have "e_uuid E ?n = e_uuid E m" by (intro hex_inj) (simp_all add: uuids_ok_def)
    with m P uuids show False by (auto simp: uuids_ok_def dest: inj_onD)
  qed
  ultimately show "I D t \<and> here owner t \<and> (\<exists>k. uuid_key E u = Ok k \<and> unused_key E k t)"
    using P t u by (auto simp: here_def unused_key_def)
qed (simp_all add: fresh_uuid_def)

lemma goal_creations_length: "length (goal_creations E action ty) = 5"
  by (simp add: goal_creations_def Let_def)

lemma goal_creations_create:
  "list_all (\<lambda>m. \<exists>c. m = onB c \<and> creates valid live c) (goal_creations E action ty)"
  using client subscription by (auto simp: goal_creations_def Let_def)

lemma goal_found:
  assumes "inv D X K F s" "find P (goals s) = Some (k, g)"
  shows "map_of (goals s) k = Some g"
  using inv_tables [OF assms(1)] find_in [OF assms(2)] by (auto simp: tables_ok_def intro: entries_in)

lemma cancel_goal_inv: "triple (I D) (cancel_goal E owner v) (\<lambda>_. I D) (I D)"
  unfolding cancel_goal_def
  apply (rule bind_lift, simp, simp)
  apply (rule bind_lift, simp, simp)
  apply (rule bind_get)
  apply (rule bind_lift, simp, simp)
  apply (split prod.split, intro allI impI)
  apply (rule bind_lift, simp, simp)
  apply (rule bind_lift, simp, simp)
  subgoal for action i found kg key g
    apply (rule triple_pre [where P' = "\<lambda>s. I D s \<and> map_of (goals s) key = Some g"])
     apply (rule bind_keep, rule request, simp, simp)
     apply (rule triple_bind [where R = "\<lambda>_ s. I D s \<and> map_of (goals s) key = Some (g\<lparr>goal_cancelling := True\<rparr>)"])
      apply (rule triple_modI)
    subgoal for n s
      using inv_goal_same [of D "{}" "{}" "{#}" s key g "g\<lparr>goal_cancelling := True\<rparr>"]
      by (auto simp: goal_entities_def put_goal_def)
     apply (rule triple_modI)
     apply (auto intro!: inv_action_call_put simp: call_entity_def) [1]
    apply (auto intro: goal_found)
    done
  done

lemma instant_timeout: "inv D X K F s \<Longrightarrow> instant_ok (clock s + timeout s)"
  using inv_tables by (auto simp: tables_ok_def)

lemma triple_pure: "(\<And>s. P s \<Longrightarrow> A) \<Longrightarrow> (A \<Longrightarrow> triple P m Q E') \<Longrightarrow> triple P m Q E'"
  by (cases A) (simp, unfold triple_def, blast)

lemma register_goal_inv:
  assumes v: "\<And>t. goal_owner (G t) = owner" "\<And>t. goal_entities (G t) = es"
  shows "triple (\<lambda>s. inv D {} {} (mset es + {#}) s \<and> (here owner s \<and> unused_key E key s))
    (bindA (tryA (onB (be_request (e_backend E) (es ! 0) args))) (\<lambda>r. case r of
             Inl e \<Rightarrow> retA (Inl e)
           | Inr sequence \<Rightarrow>
               bindA (modA (put_action_call (es ! 0, sequence) (CallSend key))) (\<lambda>_.
               bindA (getA clock) (\<lambda>now.
               bindA (getA timeout) (\<lambda>limit.
               bindA (liftA (instant_add now limit)) (\<lambda>deadline.
               bindA (modA (put_goal key (G deadline))) (\<lambda>_. retA (Inr ()))))))))
    (\<lambda>r s. case r of Inl e \<Rightarrow> inv D {} {} (mset es + {#}) s | Inr _ \<Rightarrow> I D s) (I D)"
  apply (rule bind_try, rule onB_keep, rule request, simp)
   apply (simp only: sum.case)
  subgoal for sequence
  proof (rule bind_mod, rule bind_get, rule bind_get, rule bind_instant)
    let ?k = "(es ! 0, sequence)"
    let ?P = "\<lambda>t. inv D {} {} (mset es + {#}) t \<and> here owner t \<and> unused_key E key t"
    fix now limit
    let ?J = "\<lambda>s. ((\<exists>t. s = put_action_call ?k (CallSend key) t \<and> ?P t) \<and> now = clock s) \<and> limit = timeout s"
    show "instant_ok (now + limit)" if J: "?J s" for s
    proof -
      from J obtain t where "?P t" "s = put_action_call ?k (CallSend key) t" by blast
      with J instant_timeout [of D "{}" "{}" _ t] show ?thesis by (auto simp: put_action_call_def)
    qed
    show "triple ?J (bindA (modA (put_goal key (G (now + limit)))) (\<lambda>_. retA (Inr ())))
      (\<lambda>r s. case r of Inl e \<Rightarrow> inv D {} {} (mset es + {#}) s | Inr _ \<Rightarrow> I D s) (I D)"
    proof (rule bind_mod, rule triple_retI)
      let ?g = "G (now + limit)"
      fix s assume "\<exists>u. s = put_goal key ?g u \<and> ?J u"
      then obtain t where t: "?P t" "s = put_goal key ?g (put_action_call ?k (CallSend key) t)" by blast
      have g: "goal_entities ?g = es" "goal_send ?g = es ! 0"
        using v(2) [of "now + limit"] by (auto simp: goal_entities_def)
      have "I D (put_goal key ?g (put_action_call (goal_send ?g, sequence) (CallSend key) t))"
        by (rule inv_goal_new) (use t(1) g v(1) [of "now + limit"] in \<open>auto simp: unused_key_def goal_ok_def here_present\<close>)
      with t(2) g(2) show "case Inr () of Inl e \<Rightarrow> inv D {} {} (mset es + {#}) s | Inr _ \<Rightarrow> I D s" by simp
    qed
  qed
  apply (simp only: sum.case)
  apply (rule triple_retI, simp)
  done

lemma list_of_five: "length es = 5 \<Longrightarrow> [es ! 0, es ! 1, es ! 2, es ! 3, es ! 4] = es"
  by (auto simp: list_eq_iff_nth_eq numeral_nat less_Suc_eq)

lemma settle_goal_inv:
  assumes v: "\<And>es t. goal_owner (G es t) = owner" "\<And>es t. length es = 5 \<Longrightarrow> goal_entities (G es t) = es"
  shows "triple (\<lambda>s. inv D {} {} (mset made + {#}) s \<and> (here owner s \<and> unused_key E key s) \<and>
       (\<forall>es. r = Inr es \<longrightarrow> es = made \<and> length es = 5))
    (bindA (case r of
         Inl e \<Rightarrow> retA (Inl e)
       | Inr es \<Rightarrow>
           bindA (tryA (onB (be_request (e_backend E) (es ! 0) args))) (\<lambda>r. case r of
             Inl e \<Rightarrow> retA (Inl e)
           | Inr sequence \<Rightarrow>
               bindA (modA (put_action_call (es ! 0, sequence) (CallSend key))) (\<lambda>_.
               bindA (getA clock) (\<lambda>now.
               bindA (getA timeout) (\<lambda>limit.
               bindA (liftA (instant_add now limit)) (\<lambda>deadline.
               bindA (modA (put_goal key (G es deadline))) (\<lambda>_. retA (Inr ())))))))) (\<lambda>result.
     case result of
       Inl e \<Rightarrow> bindA (destroy_all E made) (\<lambda>_. errA e)
     | Inr u \<Rightarrow> retA ())) (\<lambda>_. I D) (I D)"
proof (rule triple_bind [where R = "\<lambda>r s. case r of Inl e \<Rightarrow> inv D {} {} (mset made + {#}) s | Inr _ \<Rightarrow> I D s"])
  show "triple (\<lambda>s. inv D {} {} (mset made + {#}) s \<and> (here owner s \<and> unused_key E key s) \<and> (\<forall>es. r = Inr es \<longrightarrow> es = made \<and> length es = 5)) (case r of
         Inl e \<Rightarrow> retA (Inl e)
       | Inr es \<Rightarrow>
           bindA (tryA (onB (be_request (e_backend E) (es ! 0) args))) (\<lambda>r. case r of
             Inl e \<Rightarrow> retA (Inl e)
           | Inr sequence \<Rightarrow>
               bindA (modA (put_action_call (es ! 0, sequence) (CallSend key))) (\<lambda>_.
               bindA (getA clock) (\<lambda>now.
               bindA (getA timeout) (\<lambda>limit.
               bindA (liftA (instant_add now limit)) (\<lambda>deadline.
               bindA (modA (put_goal key (G es deadline))) (\<lambda>_. retA (Inr ()))))))))
    (\<lambda>r s. case r of Inl e \<Rightarrow> inv D {} {} (mset made + {#}) s | Inr _ \<Rightarrow> I D s) (I D)"
  proof (cases r)
    case (Inl e)
    then show ?thesis by (auto intro: triple_retI)
  next
    case (Inr es)
    show ?thesis
    proof (cases "es = made \<and> length es = 5")
      case True
      with Inr have r: "r = Inr made" "length made = 5" by auto
      show ?thesis
        unfolding r(1) sum.case
        by (rule triple_pre [OF register_goal_inv [where G = "G made" and owner = owner]])
          (use r v in auto)
    next
      case False
      with Inr show ?thesis by (auto simp: triple_def)
    qed
  qed
next
  fix result :: "error + unit"
  show "triple (\<lambda>s. case result of Inl e \<Rightarrow> inv D {} {} (mset made + {#}) s | Inr _ \<Rightarrow> I D s)
    (case result of Inl e \<Rightarrow> bindA (destroy_all E made) (\<lambda>_. errA e) | Inr u \<Rightarrow> retA ()) (\<lambda>_. I D) (I D)"
  proof (cases result)
    case (Inl e)
    show ?thesis
      unfolding Inl sum.case
      by (rule triple_bind [OF alone [OF destroy_all_inv [where R = "\<lambda>_. True" and Q = "\<lambda>_. I D"]]])
        (auto intro: triple_errI)
  qed (simp add: triple_retI)
qed

lemma send_goal_inv:
  "triple (\<lambda>s. I D s \<and> here owner s \<and> uuid_count s < UUIDS) (send_goal E owner v) (\<lambda>_. I D) (I D)"
  unfolding send_goal_def
  apply (rule bind_lift, simp, simp)
  apply (rule bind_lift, simp add: bindO_Panic, simp)
  apply (rule bind_lift, simp, simp)
  apply (rule bind_lift, simp, simp)
  apply (rule bind_get)
  apply (rule bind_lift, simp, simp)
  apply (rule bind_lift, simp split: option.split, simp)
  subgoal for action ty i options active u feedback
    apply (rule triple_bind [where R = "\<lambda>u s. I D s \<and> here owner s \<and> (\<exists>k. uuid_key E u = Ok k \<and> unused_key E k s)"])
     apply (rule triple_pre, rule triple_post, rule fresh_uuid_inv, simp, simp, simp)
    apply (rule bind_lift, simp, simp)
    subgoal for uuid key
      apply (rule triple_pre [where P' = "\<lambda>s. I D s \<and> (here owner s \<and> unused_key E key s)"])
       apply (rule triple_bind [where R = "\<lambda>(r, created) s. inv D {} {} (mset created + {#}) s \<and>
           (here owner s \<and> unused_key E key s) \<and>
           (\<forall>es. r = Inr es \<longrightarrow> es = created \<and> length es = 5)"])
        apply (rule triple_post, rule create_all_inv [where R = "\<lambda>s. here owner s \<and> unused_key E key s"], simp)
          apply (rule goal_creations_create)
         apply (simp add: goal_creations_length split: prod.splits)
        apply simp
       apply (split prod.split, intro allI impI)
      subgoal for rc r created
        apply hypsubst
        apply (simp only: prod.case)
        apply (rule settle_goal_inv)
         apply (simp_all add: goal_entities_def list_of_five [simplified])
        done
      apply auto
      done
    done
  done

end

end
