(* ===== verification/Server_Safety.thy ===== *)
theory Server_Safety
  imports Goal_Safety
begin

text \<open>
  The second half of \<^verbatim>\<open>src/bridge/actions.rs\<close>, the action servers that connections advertise:
  every goal names an advertised server of its owner, so the index
  \<^verbatim>\<open>self.action_servers[action]\<close> cannot panic; a removed server first answers the requests
  that wait for its goals.
\<close>

definition servers_of :: "nat \<Rightarrow> 'b bridge \<Rightarrow> string set" where
  "servers_of owner s = {n. \<exists>a. map_of (action_servers s) n = Some a \<and> srv_owner a = owner}"

lemma servers_of_simps [simp]:
  "servers_of owner (s\<lparr>backend := b\<rparr>) = servers_of owner s"
  "servers_of owner (s\<lparr>queues := q, next_id := n, failed := f\<rparr>) = servers_of owner s"
  "servers_of owner (del_server_goal k s) = servers_of owner s"
  "servers_of owner (del_server k s) = servers_of owner s - {k}"
  by (auto simp: servers_of_def del_server_goal_def del_server_def)

lemma server_lookup_simps [simp]:
  "action_servers (del_server_goal k s) = action_servers s"
  "action_servers (put_server_goal k g s) = action_servers s"
  "map_of (action_servers (del_server k s)) k = None"
  by (simp_all add: del_server_goal_def put_server_goal_def del_server_def)

lemma server_goals_del [simp]: "server_goals (del_server_goal k s) = AList.delete k (server_goals s)"
  by (simp add: del_server_goal_def)

text \<open>The goals an action server holds.\<close>

definition goals_on :: "string \<Rightarrow> 'b bridge \<Rightarrow> string set" where
  "goals_on action s = {k. \<exists>g. map_of (server_goals s) k = Some g \<and> sg_action g = action}"

lemma goals_on_simps [simp]:
  "goals_on n (s\<lparr>backend := b\<rparr>) = goals_on n s"
  "goals_on n (del_server_goal k s) = goals_on n s - {k}"
  by (auto simp: goals_on_def)

lemma in_keys_with: "map_of t k = Some v \<Longrightarrow> p v \<Longrightarrow> k \<in> set (keys_with p t)"
  by (force dest: map_of_SomeD)

lemma goals_on_keys: "goals_on n s \<subseteq> set (keys_with (\<lambda>g. sg_action g = n) (server_goals s))"
  unfolding goals_on_def by (blast intro: in_keys_with)

text \<open>A loop that takes its elements out of a set.\<close>

lemma triple_drain:
  assumes "\<And>x T. triple (\<lambda>s. J s \<and> f s \<subseteq> insert x T) (m x) (\<lambda>_ s. J s \<and> f s \<subseteq> T) (\<lambda>_. False)"
  shows "triple (\<lambda>s. J s \<and> f s \<subseteq> set xs \<union> T) (forA xs m) (\<lambda>_ s. J s \<and> f s \<subseteq> T) E'"
proof (induction xs)
  case Nil
  show ?case by (auto intro: triple_retI)
next
  case (Cons x xs)
  have "triple (\<lambda>s. J s \<and> f s \<subseteq> set (x # xs) \<union> T) (m x) (\<lambda>_ s. J s \<and> f s \<subseteq> set xs \<union> T) E'"
    by (rule triple_pre [OF triple_post [OF assms [of x "set xs \<union> T"]]]) auto
  from triple_bind [OF this Cons.IH] show ?case by simp
qed

lemma quietly_triple:
  "triple P m (\<lambda>_. Q) Q \<Longrightarrow> triple P (quietly m) (\<lambda>_. Q) E'"
  unfolding quietly_def by (rule bind_try, assumption) (auto intro: triple_retI)

context bridge_env
begin

lemma goals_on_none:
  assumes "inv D X K F s" "goals_on n s = {}"
  shows "\<forall>(i, g) \<in> set (server_goals s). sg_action g \<noteq> n"
proof (intro ballI, split prod.split, intro allI impI notI)
  fix x i g assume x: "x \<in> set (server_goals s)" "x = (i, g)" "sg_action g = n"
  have "entries (\<lambda>_. server_goal_ok (action_servers s)) (server_goals s)"
    using inv_tables [OF assms(1)] by (simp add: tables_ok_def)
  with x have "i \<in> goals_on n s" by (auto simp: goals_on_def dest: entries_in)
  with assms(2) show False by simp
qed

lemma abort_goal_inv:
  "triple (\<lambda>s. (I D s \<and> servers_of owner s \<subseteq> S \<and> map_of (action_servers s) n = Some a) \<and> goals_on n s \<subseteq> insert key T)
    (bindA (getA (\<lambda>s. map_of (server_goals s) key)) (\<lambda>g. case g of
       None \<Rightarrow> retA ()
     | Some g \<Rightarrow>
         bindA (modA (del_server_goal key)) (\<lambda>_.
         forA (sg_requests g) (\<lambda>(entity, request).
           bindA (tryA (onB (be_respond (e_backend E) entity request aborted_result))) (\<lambda>_. retA ())))))
    (\<lambda>_ s. (I D s \<and> servers_of owner s \<subseteq> S \<and> map_of (action_servers s) n = Some a) \<and> goals_on n s \<subseteq> T)
    (\<lambda>_. False)"
  apply (rule bind_get)
  apply (split option.split, intro conjI allI impI)
   apply (rule triple_retI, auto simp: goals_on_def) [1]
  subgoal for found g
    apply (rule triple_bind [where R = "\<lambda>_ s. I D s \<and> (servers_of owner s \<subseteq> S \<and>
        map_of (action_servers s) n = Some a \<and> goals_on n s \<subseteq> T)"])
     apply (rule triple_modI)
     apply (auto simp: inv_server_goal_del) [1]
    apply (rule triple_post, rule triple_for [where E = "\<lambda>_. False"])
      apply (split prod.split, intro allI impI)
      apply (rule bind_try, rule onB_keep, rule respond, simp, rule triple_retI, simp, rule triple_retI, simp)
    apply auto
    done
  done

lemma remove_action_inv:
  "triple (\<lambda>s. I D s \<and> servers_of owner s \<subseteq> insert n T) (remove_action E owner n)
    (\<lambda>_ s. I D s \<and> servers_of owner s \<subseteq> T \<and> map_of (action_servers s) n = None)
    (\<lambda>s. I D s \<and> servers_of owner s \<subseteq> T)"
  unfolding remove_action_def
  apply (rule bind_read)
  apply (split option.split, intro conjI allI impI)
   apply (rule triple_errI, auto simp: servers_of_def) [1]
  apply (rule triple_if)
   apply (rule triple_errI, auto simp: servers_of_def) [1]
  apply (rule bind_get)
  subgoal for found a ks
    apply (rule triple_pre [where P' = "\<lambda>s. (I D s \<and> servers_of owner s \<subseteq> insert n T \<and>
        map_of (action_servers s) n = Some a) \<and> goals_on n s \<subseteq> set ks \<union> {}"])
     apply (rule triple_bind, rule triple_drain [where T = "{}" and f = "goals_on n" and
         J = "\<lambda>s. I D s \<and> servers_of owner s \<subseteq> insert n T \<and> map_of (action_servers s) n = Some a"])
      apply (rule abort_goal_inv)
     apply (rule triple_bind [where R = "\<lambda>_ s. inv D {} {} (mset (server_entities a) + {#}) s \<and>
         (servers_of owner s \<subseteq> T \<and> map_of (action_servers s) n = None)"])
      apply (rule triple_modI)
    subgoal for u s
      by (intro conjI inv_server_del goals_on_none) auto
     apply (fold server_entities_def)
     apply (rule destroy_all_inv, simp, simp)
    apply (simp del: set_map add: goals_on_keys [simplified])
    done
  done

end

lemma same_servers:
  "same outputs (remove_action E owner n)"
  unfolding remove_action_def destroy_all_def
  by (auto intro!: same_rules simp: table_ops split: option.split)

lemma server_creations_length: "length (server_creations E action ty) = 5"
  by (simp add: server_creations_def Let_def)

definition served :: "string \<Rightarrow> nat \<Rightarrow> 'b bridge \<Rightarrow> bool" where
  "served n owner s \<longleftrightarrow> (\<exists>a. map_of (action_servers s) n = Some a \<and> srv_owner a = owner)"

lemma served_simps [simp]:
  "served n owner (s\<lparr>backend := b\<rparr>) = served n owner s"
  "served n owner (s\<lparr>queues := q, next_id := i, failed := f\<rparr>) = served n owner s"
  "served n owner (put_server_goal k g s) = served n owner s"
  "served n owner (s\<lparr>next_id := i\<rparr>) = served n owner s"
  by (simp_all add: served_def)

lemma server_goal_ok_iff: "server_goal_ok (action_servers s) g \<longleftrightarrow> served (sg_action g) (sg_owner g) s"
  by (simp add: server_goal_ok_def served_def)

context bridge_env
begin

lemma server_creations_create:
  "list_all (\<lambda>m. \<exists>c. m = onB c \<and> creates valid live c) (server_creations E action ty)"
  using service publisher by (auto simp: server_creations_def Let_def)

lemma mset_of_five: "length es = 5 \<Longrightarrow> {#es ! 0, es ! Suc 0, es ! 2, es ! 3, es ! 4#} = mset es"
  using arg_cong [OF list_of_five, of es mset] by simp

lemma advertise_action_inv:
  "triple (\<lambda>s. I D s \<and> here owner s) (advertise_action E owner v) (\<lambda>_. I D) (I D)"
  unfolding advertise_action_def
  apply (rule bind_lift, simp, simp)
  apply (rule bind_lift, simp, simp)
  apply (rule bind_lift, simp, simp)
  apply (rule bind_read)
  subgoal for n adv ty found
    apply (rule triple_bind [where R = "\<lambda>d s. I D s \<and> here owner s \<and> (\<not> d \<longrightarrow> map_of (action_servers s) n = None)"])
     apply (split option.split, intro conjI allI impI)
      apply (rule triple_retI, simp)
     apply (rule bind_lift, simp, simp)
     apply (rule triple_if, rule triple_retI, simp)
    subgoal for x
      apply (rule triple_bind [where R = "\<lambda>_ s. I D s \<and> here owner s \<and> map_of (action_servers s) n = None"])
       apply (rule triple_pre, rule triple_post,
          rule triple_same [OF remove_action_inv [where T = UNIV] same_servers, where C = "\<lambda>o'. owner \<in> set (keys o')"])
         apply (auto simp: here_def intro!: triple_retI)
      done
    apply (rule triple_if, rule triple_retI, simp)
    apply (rule triple_pre [where P' = "\<lambda>s. I D s \<and> (here owner s \<and> map_of (action_servers s) n = None)"])
     apply (rule triple_bind [where R = "\<lambda>(r, made) s. inv D {} {} (mset made + {#}) s \<and>
           (here owner s \<and> map_of (action_servers s) n = None) \<and>
           (\<forall>es. r = Inr es \<longrightarrow> es = made \<and> length es = 5)"])
      apply (rule triple_post, rule create_all_inv [where R = "\<lambda>s. here owner s \<and> map_of (action_servers s) n = None"], simp)
        apply (rule server_creations_create)
       apply (simp add: server_creations_length split: prod.splits)
      apply simp
     apply (split prod.split, intro allI impI)
     apply (split sum.split, intro conjI allI impI)
    subgoal for d rm r made e
      apply (rule triple_bind, rule destroy_all_inv [where R = "\<lambda>_. True" and Q = "\<lambda>_. I D", THEN triple_pre])
      apply (auto intro: triple_errI)
      done
    subgoal for d rm r made es
      apply (rule triple_modI)
      apply (rule inv_server_new)
        apply (auto simp: server_entities_def here_present mset_of_five)
      done
    apply auto
    done
  done

lemma server_of_inv:
  assumes "\<And>s a. inv D X K F s \<Longrightarrow> R s \<Longrightarrow> map_of (action_servers s) n \<noteq> None"
    and "\<And>a. triple (\<lambda>s. inv D X K F s \<and> R s) (g a) Q E'"
  shows "triple (\<lambda>s. inv D X K F s \<and> R s) (bindA (server_of n) g) Q E'"
  unfolding triple_def
proof (intro allI impI, elim conjE)
  fix s assume s: "inv D X K F s" "R s"
  with assms(1) obtain a where "map_of (action_servers s) n = Some a" by blast
  then have "bindA (server_of n) g s = g a s" by (simp add: bindA_def server_of_def)
  with assms(2) [of a] s show "case bindA (server_of n) g s of
      (Ok a, t) \<Rightarrow> Q a t | (Err e, t) \<Rightarrow> E' t | (Panic, t) \<Rightarrow> False" by (simp add: triple_def)
qed

lemma publish_status_inv:
  "triple (\<lambda>s. I D s \<and> served n owner s) (publish_status E n) (\<lambda>_. I D) (I D)"
  unfolding publish_status_def
  apply (rule bind_read)
  apply (rule server_of_inv, auto simp: served_def) [1]
  apply (rule keep_end, rule publish, auto)
  done

lemma served_goal:
  "inv D X K F s \<Longrightarrow> find P (server_goals s) = Some (k, g) \<Longrightarrow> served (sg_action g) (sg_owner g) s"
  using inv_server_goal_at find_in unfolding served_def by metis

lemma find_goal_inv:
  assumes "\<And>k g. sg_owner g = owner \<Longrightarrow> sg_action g = n \<Longrightarrow> triple (\<lambda>s. I D s \<and> served n owner s) (h (k, g)) Q (I D)"
  shows "triple (I D) (bindA (find_goal owner i n) h) Q (I D)"
proof (rule triple_bind [where R = "\<lambda>kg s. (sg_owner (snd kg) = owner \<and> sg_action (snd kg) = n) \<and> I D s \<and> served n owner s"])
  show "triple (I D) (find_goal owner i n)
    (\<lambda>kg s. (sg_owner (snd kg) = owner \<and> sg_action (snd kg) = n) \<and> I D s \<and> served n owner s) (I D)"
    unfolding find_goal_def
  proof (rule bind_get, rule triple_liftI)
    fix found s a
    assume s: "I D s \<and> found = find (\<lambda>(_, g). sg_owner g = owner \<and> sg_id g = i \<and> sg_action g = n) (server_goals s)"
      and a: "context_of found ''unknown goal'' = Ok a"
    obtain k g where kg: "a = (k, g)" by (cases a)
    from s a kg have f: "find (\<lambda>(_, g). sg_owner g = owner \<and> sg_id g = i \<and> sg_action g = n) (server_goals s) = Some (k, g)"
      by simp
    from find_holds [OF f] have og: "sg_owner g = owner" "sg_action g = n" by simp_all
    have "served n owner s" using served_goal [OF conjunct1 [OF s] f] og by simp
    with s og show "(sg_owner (snd a) = owner \<and> sg_action (snd a) = n) \<and> I D s \<and> served n owner s"
      unfolding kg by simp
  qed simp_all
next
  fix kg
  show "triple (\<lambda>s. (sg_owner (snd kg) = owner \<and> sg_action (snd kg) = n) \<and> I D s \<and> served n owner s) (h kg) Q (I D)"
  proof (cases "sg_owner (snd kg) = owner \<and> sg_action (snd kg) = n")
    case True
    with assms [of "snd kg" "fst kg"] show ?thesis by simp
  next
    case False
    then show ?thesis unfolding triple_def by blast
  qed
qed

lemma action_feedback_inv: "triple (I D) (action_feedback E owner v) (\<lambda>_. I D) (I D)"
  unfolding action_feedback_def
  apply (rule bind_lift, simp, simp)
  apply (rule bind_lift, simp, simp)
  apply (rule find_goal_inv, unfold prod.case)
  apply (rule bind_lift, simp, simp)
  apply (rule bind_lift, simp, simp)
  apply (rule server_of_inv, simp add: served_def, fast)
  apply (rule keep_end, rule publish, auto)
  done

lemma answer_waiting_inv:
  assumes "sg_action g = n" "sg_owner g = owner"
  shows "triple (\<lambda>s. I D s \<and> served n owner s) (answer_waiting E key g resp rs)
    (\<lambda>_ s. I D s \<and> served n owner s) (I D)"
proof (induction rs)
  case (Cons r rs)
  obtain entity req where r: "r = (entity, req)" by (cases r)
  show ?case
    unfolding r answer_waiting.simps
    apply (rule bind_keep, rule respond, simp, simp)
    apply (rule triple_bind [OF triple_modI Cons.IH])
    using assms by (auto intro!: inv_server_goal_put simp: server_goal_ok_iff)
qed (simp add: triple_retI)

lemma action_result_inv: "triple (I D) (action_result E owner v) (\<lambda>_. I D) (I D)"
  unfolding action_result_def
  apply (rule bind_lift, simp, simp)
  apply (rule bind_lift, simp, simp)
  apply (rule find_goal_inv, unfold prod.case Let_def)
  apply (rule bind_lift, simp, simp)
  apply (rule bind_lift, simp, simp)
  apply (rule bind_lift, simp, simp)
  apply (rule bind_lift, simp, simp)
  apply (rule bind_lift, simp add: bindO_Panic, simp)
  apply (rule server_of_inv, simp add: served_def, fast)
  apply (rule bind_keep, rule validate_response, simp, simp)
  apply (rule triple_bind, rule answer_waiting_inv, assumption, assumption)
  apply (rule bind_read)
  subgoal for i n k g
    apply (rule triple_bind [where R = "\<lambda>_ s. I D s \<and> served n owner s"])
     apply (rule triple_modI)
     apply (auto intro!: inv_server_goal_put simp: server_goal_ok_iff) [1]
    apply (rule publish_status_inv)
    done
  done

end

context bridge_env
begin

lemma keep_plain:
  assumes "keeps valid live m" "\<And>s. P s \<Longrightarrow> inv D X K F s"
  shows "triple P (onB m) (\<lambda>_. inv D X K F) (inv D X K F)"
  by (rule triple_pre [OF triple_post [OF onB_keep [where R = "\<lambda>_. True", OF assms(1)]]]) (use assms(2) in auto)

lemma unique_inv:
  assumes "\<And>s i. R s \<Longrightarrow> R (s\<lparr>next_id := i\<rparr>)"
  shows "triple (\<lambda>s. inv D X K F s \<and> R s) unique (\<lambda>_ s. inv D X K F s \<and> R s) E'"
  using assms by (auto simp: triple_def unique_def Let_def bridge_inv_def tables_ok_def owned_def)

lemma server_goal_at:
  "inv D X K F s \<Longrightarrow> map_of (server_goals s) k = Some g \<Longrightarrow> server_goal_ok (action_servers s) g"
  using inv_tables by (force simp: tables_ok_def dest: entries_lookup)

lemma request_goal_inv:
  "triple (\<lambda>s. I D s \<and> served n (srv_owner a) s) (request_goal E n a entity req args) (\<lambda>_. I D) (I D)"
  unfolding request_goal_def Let_def
  apply (rule bind_lift, simp, simp)
  apply (rule bind_read)
  apply (rule bind_read)
  apply (rule triple_if)
   apply (rule keep_plain, rule respond, simp)
  subgoal for u stamp dup
    apply (rule triple_pre [where P' = "\<lambda>s. I D s \<and> served n (srv_owner a) s"])
     apply (rule triple_bind, rule unique_inv, simp)
     apply (rule bind_keep, rule respond, simp, simp)
    subgoal for i w
      apply (rule triple_bind [where R = "\<lambda>_ s. I D s \<and> served n (srv_owner a) s"])
       apply (rule triple_modI)
       apply (auto intro!: inv_server_goal_put simp: server_goal_ok_iff) [1]
      apply (rule bind_send, simp add: is_object_def, simp)
      apply (rule publish_status_inv)
      done
    apply simp
    done
  done

lemma request_result_inv: "triple (I D) (request_result E n entity req args) (\<lambda>_. I D) (I D)"
  unfolding request_result_def Let_def
  apply (rule bind_lift, simp, simp)
  apply (rule alone, rule bind_read)
  apply (split option.split, intro conjI allI impI)
   apply (rule keep_plain, rule respond, simp)
  apply (split option.split, intro conjI allI impI)
  subgoal for u found g
    apply (rule triple_modI)
    by (auto intro!: inv_server_goal_put dest: server_goal_at simp: server_goal_ok_iff) 
  apply (rule keep_plain, rule respond, simp)
  done

lemma cancel_each_inv:
  assumes "\<forall>(k, g) \<in> set gs. sg_action g = n \<and> sg_owner g = owner"
  shows "triple (\<lambda>s. I D s \<and> served n owner s) (cancel_each E requested stamp gs r)
    (\<lambda>_ s. I D s \<and> served n owner s) (I D)"
  using assms
proof (induction gs arbitrary: r)
  case (Cons kg gs)
  obtain k g where kg: "kg = (k, g)" by (cases kg)
  have g: "sg_action g = n" "sg_owner g = owner" using Cons.prems kg by auto
  have "triple (\<lambda>s. I D s \<and> served n owner s) (cancel_one E requested stamp k g r)
    (\<lambda>_ s. I D s \<and> served n owner s) (I D)"
    unfolding cancel_one_def Let_def
    apply (rule bind_lift, simp, simp)
    apply (rule triple_if)
     apply (rule triple_bind [where R = "\<lambda>_ s. I D s \<and> served n owner s"])
      apply (rule triple_modI)
    using g apply (auto intro!: inv_server_goal_put triple_retI simp: server_goal_ok_iff)
    done
  moreover have "triple (\<lambda>s. I D s \<and> served n owner s) (cancel_each E requested stamp gs r')
    (\<lambda>_ s. I D s \<and> served n owner s) (I D)" for r'
    using Cons by auto
  ultimately show ?case unfolding kg cancel_each.simps by (rule triple_bind)
qed (simp add: triple_retI)

lemma goals_served:
  assumes "I D s" "served n owner s"
  shows "\<forall>(k, g) \<in> set (filter (\<lambda>(_, g). sg_action g = n) (server_goals s)). sg_action g = n \<and> sg_owner g = owner"
proof -
  have "sg_owner g = owner" if "(k, g) \<in> set (server_goals s)" "sg_action g = n" for k g
    using inv_server_goal_at [OF assms(1) that(1)] assms(2) that(2) by (auto simp: served_def)
  then show ?thesis by auto
qed

lemma request_cancel_inv:
  "triple (\<lambda>s. I D s \<and> served n (srv_owner a) s) (request_cancel E n a entity req args) (\<lambda>_. I D) (I D)"
  unfolding request_cancel_def Let_def
  apply (rule bind_lift, simp, simp)
  apply (rule bind_read)
  subgoal for u gs
    apply (rule triple_pure [where A = "\<forall>(k, g) \<in> set gs. sg_action g = n \<and> sg_owner g = srv_owner a"])
    subgoal for s
      using goals_served [of D s n "srv_owner a"] by blast
    apply (rule triple_pre [where P' = "\<lambda>s. I D s \<and> served n (srv_owner a) s"])
     apply (rule triple_bind, rule cancel_each_inv, assumption)
     apply (rule bind_keep, rule respond, simp, simp)
     apply (rule triple_bind [where R = "\<lambda>_ s. I D s \<and> served n (srv_owner a) s"])
      apply (rule triple_for, rule send_end, simp add: is_object_def, simp, simp)
     apply (rule publish_status_inv)
    apply simp
    done
  done

lemma server_found:
  assumes "inv D X K F s" "find P (action_servers s) = Some (n, x)"
  shows "map_of (action_servers s) n = Some x"
  using inv_tables [OF assms(1)] find_in [OF assms(2)] by (auto simp: tables_ok_def intro: entries_in)

lemma action_request_inv: "triple (I D) (action_request E entity req args) (\<lambda>_. I D) (I D)"
  unfolding action_request_def
  apply (rule bind_get)
  apply (split option.split, intro conjI allI impI)
   apply (rule triple_retI, simp)
  apply (split prod.split, intro allI impI)
  subgoal for found na n a
    apply (rule triple_pre [where P' = "\<lambda>s. I D s \<and> served n (srv_owner a) s"])
     apply (rule triple_bind [where R = "\<lambda>_. I D"])
      apply (intro triple_if request_goal_inv request_cancel_inv)
      apply (rule triple_pre, rule request_result_inv, simp)
     apply (rule triple_retI, simp)
    apply (use server_found in \<open>auto simp: served_def\<close>)
    done
  done

end

end
