(* ===== verification/Dispatch_Safety.thy ===== *)
theory Dispatch_Safety
  imports Server_Safety
begin

text \<open>
  The dispatch of \<^verbatim>\<open>src/bridge/mod.rs\<close>: an operation of a connection and an event of the
  backend keep the ownership invariant. Neither panics nor returns an error: the failure of an
  operation is a message to its connection, that of an event is only logged.
\<close>

lemma filter_names_object: "is_object v \<Longrightarrow> \<exists>w. filter_names G a v = Ok w"
proof -
  assume "is_object v"
  then obtain fs where v: "v = JObj fs" by (auto simp: is_object_iff)
  obtain gs where "index_mut v ''names'' = Ok (JObj gs)"
    by (cases "''names'' \<in> fst ` set fs") (auto simp: v)
  then show ?thesis by (cases "jix (JObj gs) ''names''") (simp_all add: filter_names_def)
qed

lemma filter_names_total:
  assumes "is_object v"
  shows "filter_names G a v \<noteq> Panic" "filter_names G a v \<noteq> Err e"
proof -
  obtain w where "filter_names G a v = Ok w" using filter_names_object [OF assms] by blast
  then show "filter_names G a v \<noteq> Panic" "filter_names G a v \<noteq> Err e" by simp_all
qed

text \<open>What an operation needs of the machine: a clock that reaches the expiry of a call, and an
  unused identifier for a goal.\<close>

definition in_range :: "json \<Rightarrow> 'b bridge \<Rightarrow> bool" where
  "in_range v s \<longleftrightarrow> (required v ''op'' = Ok ''call_service'' \<longrightarrow>
     (\<forall>n. call_timeout v (timeout s) = Ok n \<longrightarrow> instant_ok (clock s + n))) \<and>
     (required v ''op'' = Ok ''send_action_goal'' \<longrightarrow> uuid_count s < UUIDS)"

context bridge_env
begin

lemma publish_inv: "triple (\<lambda>s. I D s \<and> here owner s) (publish E owner v) (\<lambda>_. I D) (I D)"
  unfolding publish_def
  apply (rule bind_lift, simp, simp)
  apply (rule bind_lift, simp, simp)
  apply (rule triple_bind, rule advertise_inv)
  apply (rule bind_get)
  apply (split option.split, intro conjI allI impI)
   apply (auto simp: triple_def) [1]
  apply (rule keep_plain, rule Backend.backend_contract.publish, rule backend_contract_axioms, simp)
  done

lemma advertise_inv': "triple (\<lambda>s. I D s \<and> here owner s) (advertise E owner v) (\<lambda>_. I D) (I D)"
  by (rule triple_post [OF advertise_inv]) simp_all

lemma operate_inv:
  assumes "request_id v = Ok i" "required v ''op'' = Ok operation"
  shows "triple (\<lambda>s. I D s \<and> here owner s \<and> in_range v s) (operate E owner v operation) (\<lambda>_. I D) (I D)"
proof -
  have weak: "triple (I D) m (\<lambda>_. I D) (I D) \<Longrightarrow>
      triple (\<lambda>s. I D s \<and> here owner s \<and> in_range v s) m (\<lambda>_. I D) (I D)"
    "triple (\<lambda>s. I D s \<and> here owner s) m (\<lambda>_. I D) (I D) \<Longrightarrow>
      triple (\<lambda>s. I D s \<and> here owner s \<and> in_range v s) m (\<lambda>_. I D) (I D)" for m :: "('b bridge, unit) action"
    by (auto elim: triple_pre)
  have call: "triple (\<lambda>s. I D s \<and> here owner s \<and> in_range v s) (call_service E owner v) (\<lambda>_. I D) (I D)"
    if "operation = ''call_service''"
    by (rule triple_pre [OF call_service_inv]) (use that assms(2) in \<open>simp add: in_range_def\<close>)
  have goal: "triple (\<lambda>s. I D s \<and> here owner s \<and> in_range v s) (send_goal E owner v) (\<lambda>_. I D) (I D)"
    if "operation = ''send_action_goal''"
    by (rule triple_pre [OF send_goal_inv]) (use that assms(2) in \<open>simp add: in_range_def\<close>)
  have un: "triple (I D) (unadvertise E owner t j) (\<lambda>_. I D) (I D)"
    "triple (I D) (unsubscribe E owner t j) (\<lambda>_. I D) (I D)"
    "triple (I D) (remove_service E owner t) (\<lambda>_. I D) (I D)"
    "triple (I D) (remove_action E owner t) (\<lambda>_. I D) (I D)" for t j
    using unadvertise_inv [where T = UNIV] unsubscribe_inv [where T = UNIV] remove_service_inv [where T = UNIV]
      remove_action_inv [where T = UNIV] by (fastforce elim: triple_pre [OF triple_post])+
  have lifted: "triple (I D) (bindA (liftA (ros_name v k)) (\<lambda>n. bindA (liftA (request_id v)) (unadvertise E owner n))) (\<lambda>_. I D) (I D)"
    "triple (I D) (bindA (liftA (ros_name v k)) (\<lambda>n. bindA (liftA (request_id v)) (unsubscribe E owner n))) (\<lambda>_. I D) (I D)"
    "triple (I D) (bindA (liftA (ros_name v k)) (remove_service E owner)) (\<lambda>_. I D) (I D)"
    "triple (I D) (bindA (liftA (ros_name v k)) (remove_action E owner)) (\<lambda>_. I D) (I D)" for k
    by (intro bind_lift un; simp)+
  note anyone = lifted service_response_inv cancel_goal_inv action_feedback_inv action_result_inv
  note connected = advertise_inv' publish_inv subscribe_inv [OF assms(1)] advertise_service_inv advertise_action_inv
  show ?thesis
    unfolding operate_def
    by (intro triple_if call goal anyone [THEN weak(1)] connected [THEN weak(2)] weak(1) triple_errI)
qed

lemma execute_inv:
  "triple (\<lambda>s. I D s \<and> here owner s \<and> in_range v s) (execute E owner v) (\<lambda>_. I D) (I D)"
  unfolding execute_def
  apply (rule bind_lift, simp, simp)
  apply (rule bind_lift, simp, simp)
  apply (rule bind_get)
  apply (rule bind_lift, simp, simp)
  apply (rule triple_pre, rule operate_inv, assumption, assumption, simp)
  done

lemma error_inv: "triple (I D) (error E owner v e) (\<lambda>_. I D) E'"
  unfolding error_def
  by (rule alone, rule send_end) (simp_all add: error_reply_def Let_def is_object_def)

lemma command_inv:
  "triple (\<lambda>s. I D s \<and> in_range v s) (command E owner v) (\<lambda>_. I D) (\<lambda>_. False)"
  unfolding command_def
  apply (rule bind_get)
  apply (rule triple_if, rule triple_retI, simp)
  apply (rule bind_try [where R = "\<lambda>_. I D" and E' = "I D"])
    apply (rule triple_pre [OF execute_inv], simp add: here_def)
   apply (simp_all add: triple_retI error_inv)
  done

lemma finish_inv: "triple (I D) (finish_goal E key values status success) (\<lambda>_. I D) E'"
  by (rule triple_pre [OF triple_post [OF finish_goal_inv [where T = UNIV]]]) auto

lemma action_response_inv: "triple (I D) (action_response E c values) (\<lambda>_. I D) (I D)"
proof (cases c)
  case (CallSend key)
  show ?thesis
    unfolding action_response_def CallSend action_call.case
    apply (rule triple_if, rule finish_inv)
    apply (rule alone, rule bind_read)
    apply (split option.split, intro conjI allI impI)
     apply (rule triple_retI, simp)
    subgoal for found g
      apply (rule triple_bind [where R = "\<lambda>_ s. I D s \<and> map_of (goals s) key = Some (g\<lparr>goal_accepted := True\<rparr>)"])
       apply (rule triple_modI)
      subgoal for s
        using inv_goal_same [of D "{}" "{}" "{#}" s key g "g\<lparr>goal_accepted := True\<rparr>"]
        by (auto simp: goal_entities_def put_goal_def)
      apply (rule bind_keep, rule request, simp, simp)
      apply (rule triple_modI)
      apply (auto intro!: inv_action_call_put simp: call_entity_def)
      done
    done
next
  case (CallResult key)
  show ?thesis unfolding action_response_def CallResult action_call.case Let_def by (rule finish_inv)
next
  case (CallCancel key)
  show ?thesis
    unfolding action_response_def CallCancel action_call.case
    apply (rule triple_if)
     apply (rule alone, rule bind_read)
     apply (split option.split, intro conjI allI impI)
      apply (rule triple_retI, simp)
    subgoal for found g
      apply (rule triple_bind [where R = "\<lambda>_ s. I D s \<and> True"])
       apply (rule triple_modI)
      subgoal for s
        using inv_goal_same [of D "{}" "{}" "{#}" s key g "g\<lparr>goal_cancelling := False\<rparr>"]
        by (auto simp: goal_entities_def)
      apply (rule send_end, simp add: is_object_def, simp_all)
      done
    apply (rule triple_retI, simp)
    done
qed

lemma response_inv:
  assumes "is_object values"
  shows "triple (I D) (response E entity n values) (\<lambda>_. I D) (I D)"
  unfolding response_def
  apply (rule alone, rule bind_read)
  apply (split option.split, intro conjI allI impI)
   apply (rule bind_get)
    apply (split option.split, intro conjI allI impI)
     apply (rule triple_retI, simp)
    apply (rule triple_bind [where R = "\<lambda>_. I D"])
     apply (rule triple_modI, simp add: inv_action_call_del)
    apply (rule action_response_inv)
  subgoal for found c
    apply (rule triple_bind [where R = "\<lambda>_ s. inv D {} {} {#entity#} s \<and> True"])
     apply (rule triple_modI)
     apply (use inv_call_del in fastforce) [1]
    apply (rule bind_get)
    apply (rule bind_lift)
      apply (auto simp: filter_names_total [OF assms] split: if_splits) [2]
    apply (rule triple_pre [where P' = "\<lambda>s. inv D {} {} {#entity#} s \<and> True"])
     apply (rule bind_send, simp add: service_reply_def is_object_def, simp)
     apply (rule destroy_end, simp, simp)
    apply simp
    done
  done

lemma service_request_inv: "triple (I D) (service_request E entity request args) (\<lambda>_. I D) (I D)"
  unfolding service_request_def
  by (rule triple_bind, rule action_request_inv) (auto intro: triple_if triple_retI forward_request_inv)

lemma discard_inv: "triple (I D) (onB (be_discard_request (e_backend E) e r)) (\<lambda>_. I D) E'"
proof -
  have "triple (I D) (onB (be_discard_request (e_backend E) e r)) (\<lambda>_. I D) (I D)"
    by (rule keep_plain [OF discard_request])
  note keep = triple_Ok [OF this]
  have total: "\<exists>u t. onB (be_discard_request (e_backend E) e r) s = (Ok u, t)" if "valid (backend s)" for s
  proof -
    obtain q b where q: "be_discard_request (e_backend E) e r (backend s) = (q, b)" by (cases rule: prod.exhaust)
    with discard_total [of e r] that show ?thesis
      by (cases q) (auto simp: infallible_def onB_def dest: triple_no_panic triple_Err)
  qed
  show ?thesis
  proof (rule tripleI)
    fix s u t assume "I D s" "onB (be_discard_request (e_backend E) e r) s = (Ok u, t)"
    then show "I D t" by (rule keep)
  next
    fix s x t assume "I D s" "onB (be_discard_request (e_backend E) e r) s = (Err x, t)"
    with total [of s] show "E' t" by (simp add: bridge_inv_def)
  next
    fix s t assume "I D s" "onB (be_discard_request (e_backend E) e r) s = (Panic, t)"
    with total [of s] show False by (simp add: bridge_inv_def)
  qed
qed

lemma handle_inv: "event_ok ev \<Longrightarrow> triple (I D) (handle E ev) (\<lambda>_. I D) E'"
proof (cases ev)
  case (EvMessage e m)
  show ?thesis
    unfolding EvMessage handle_def event.case
    by (rule bind_try, rule topic_message_inv) (simp_all add: triple_retI)
next
  case (EvRequest e r a)
  show ?thesis
    unfolding EvRequest handle_def event.case
    by (rule bind_try, rule service_request_inv) (simp_all add: triple_retI discard_inv)
next
  case (EvResponse e n v)
  assume "event_ok ev"
  then show ?thesis
    unfolding EvResponse handle_def event.case
    by (intro bind_try [OF response_inv]) (simp_all add: triple_retI)
qed

end

end
