(* ===== verification/Lifecycle_Safety.thy ===== *)
theory Lifecycle_Safety
  imports Dispatch_Safety
begin

text \<open>
  The life of a connection in \<^verbatim>\<open>src/bridge/mod.rs\<close>: connecting, the periodic work, disconnecting
  and shutting down keep the ownership invariant; a disconnect takes a connection out of every
  table, and after a shutdown the backend holds nothing.
\<close>

section \<open>Departing connections\<close>

text \<open>The tables that may still mention the connection being removed.\<close>

definition leaving :: "nat \<Rightarrow> kind set \<Rightarrow> kind \<Rightarrow> nat set" where
  "leaving owner ks k = (if k \<in> ks then {owner} else {})"

lemma leaving_none: "leaving owner {} = (\<lambda>_. {})"
  by (simp add: leaving_def fun_eq_iff)

definition calls_of :: "nat \<Rightarrow> 'b bridge \<Rightarrow> (nat \<times> int) set" where
  "calls_of owner s = {k. \<exists>c. map_of (calls s) k = Some c \<and> call_owner c = owner}"

lemma present_other:
  "k \<noteq> k' \<Longrightarrow> present (leaving owner (insert k ks)) k' outs = present (leaving owner ks) k' outs"
  by (auto simp: present_def leaving_def fun_eq_iff)

lemma present_left:
  "present (leaving owner (insert k ks)) k' outs other \<Longrightarrow> other \<noteq> owner \<Longrightarrow>
   present (leaving owner ks) k' outs other"
  by (auto simp: present_def leaving_def split: if_splits)

lemma publisher_left:
  "publisher_ok (present (leaving owner (insert KPub ks)) KPub outs) p \<Longrightarrow> owner \<notin> set (keys (pub_owners p)) \<Longrightarrow>
   publisher_ok (present (leaving owner ks) KPub outs) p"
  unfolding publisher_ok_def by (force intro: present_left)

lemma subscription_left:
  "subscription_ok (present (leaving owner (insert KSub ks)) KSub outs) x \<Longrightarrow> owner \<notin> set (keys (sub_clients x)) \<Longrightarrow>
   subscription_ok (present (leaving owner ks) KSub outs) x"
  unfolding subscription_ok_def by (force intro: present_left)

lemma entries_refine:
  assumes "entries P t" "\<And>k v. map_of t k = Some v \<Longrightarrow> P k v \<Longrightarrow> Q k v"
  shows "entries Q t"
  using assms(1) by (rule entries_mono) (rule assms(2), rule entries_in [OF assms(1)])

text \<open>A connection that is gone from a table no longer has to be counted there.\<close>

lemma tables_left:
  assumes "tables_ok E (leaving owner (insert k ks)) X K s"
    and "case k of KPub \<Rightarrow> advertised_by owner s = {} | KSub \<Rightarrow> subscribed_by owner s = {}
      | KSvc \<Rightarrow> services_of owner s = {} | KSrv \<Rightarrow> servers_of owner s = {}
      | KGoal \<Rightarrow> goals_of owner s = {} | KCall \<Rightarrow> calls_of owner s = {}"
  shows "tables_ok E (leaving owner ks) X K s"
proof (cases k)
  case KPub
  have "entries (\<lambda>_. publisher_ok (present (leaving owner (insert k ks)) KPub (outputs s))) (publishers s)"
    using assms(1) KPub unfolding tables_ok_def by simp
  then have "entries (\<lambda>_. publisher_ok (present (leaving owner ks) KPub (outputs s))) (publishers s)"
    by (rule entries_refine) (use assms(2) KPub in \<open>auto simp: advertised_by_def intro!: publisher_left\<close>)
  with assms(1) KPub show ?thesis unfolding tables_ok_def by (simp add: present_other)
next
  case KSub
  have "entries (\<lambda>_. subscription_ok (present (leaving owner (insert k ks)) KSub (outputs s))) (subscriptions s)"
    using assms(1) KSub unfolding tables_ok_def by simp
  then have "entries (\<lambda>_. subscription_ok (present (leaving owner ks) KSub (outputs s))) (subscriptions s)"
    by (rule entries_refine) (use assms(2) KSub in \<open>auto simp: subscribed_by_def intro!: subscription_left\<close>)
  with assms(1) KSub show ?thesis unfolding tables_ok_def by (simp add: present_other)
next
  case KSvc
  have "entries (\<lambda>_ x. present (leaving owner (insert k ks)) KSvc (outputs s) (svc_owner x)) (svcs s)"
    using assms(1) KSvc unfolding tables_ok_def by simp
  then have "entries (\<lambda>_ x. present (leaving owner ks) KSvc (outputs s) (svc_owner x)) (svcs s)"
    by (rule entries_refine) (use assms(2) KSvc in \<open>auto simp: services_of_def elim!: present_left\<close>)
  with assms(1) KSvc show ?thesis unfolding tables_ok_def by (simp add: present_other)
next
  case KSrv
  have "entries (\<lambda>_ x. present (leaving owner (insert k ks)) KSrv (outputs s) (srv_owner x)) (action_servers s)"
    using assms(1) KSrv unfolding tables_ok_def by simp
  then have "entries (\<lambda>_ x. present (leaving owner ks) KSrv (outputs s) (srv_owner x)) (action_servers s)"
    by (rule entries_refine) (use assms(2) KSrv in \<open>auto simp: servers_of_def elim!: present_left\<close>)
  with assms(1) KSrv show ?thesis unfolding tables_ok_def by (simp add: present_other)
next
  case KGoal
  have "entries (goal_ok E (present (leaving owner (insert k ks)) KGoal (outputs s)) (uuid_count s)) (goals s)"
    using assms(1) KGoal unfolding tables_ok_def by simp
  then have "entries (goal_ok E (present (leaving owner ks) KGoal (outputs s)) (uuid_count s)) (goals s)"
    by (rule entries_refine) (use assms(2) KGoal in \<open>auto simp: goals_of_def goal_ok_def elim!: present_left\<close>)
  with assms(1) KGoal show ?thesis unfolding tables_ok_def by (simp add: present_other)
next
  case KCall
  have "entries (\<lambda>_ x. present (leaving owner (insert k ks)) KCall (outputs s) (call_owner x)) (calls s)"
    using assms(1) KCall unfolding tables_ok_def by simp
  then have "entries (\<lambda>_ x. present (leaving owner ks) KCall (outputs s) (call_owner x)) (calls s)"
    by (rule entries_refine) (use assms(2) KCall in \<open>auto simp: calls_of_def elim!: present_left\<close>)
  with assms(1) KCall show ?thesis unfolding tables_ok_def by (simp add: present_other)
qed

lemma same_unique: "same outputs unique"
  by (simp add: same_def unique_def Let_def)

lemma same_deliver: "same outputs (modA (deliver E owner a v options binary key))"
  by (rule same_mod)
    (simp add: deliver_def put_queue_def mark_failed_def Let_def split: sum.split prod.split)

lemma same_send: "same outputs (send E owner v rid options binary)"
  unfolding send_def
  by (auto intro!: same_bind same_basic same_unique same_deliver split: option.split)

lemma calls_of_del [simp]: "calls_of owner (del_call k s) = calls_of owner s - {k}"
  by (auto simp: calls_of_def del_call_def)

lemma calls_of_backend [simp]: "calls_of owner (s\<lparr>backend := b\<rparr>) = calls_of owner s"
  by (simp add: calls_of_def)

lemma covers:
  "advertised_by owner s \<subseteq> set (keys_with (\<lambda>p. has (pub_owners p) owner) (publishers s))"
  "subscribed_by owner s \<subseteq> set (keys_with (\<lambda>x. has (sub_clients x) owner) (subscriptions s))"
  "services_of owner s \<subseteq> set (keys_with (\<lambda>x. svc_owner x = owner) (svcs s))"
  "servers_of owner s \<subseteq> set (keys_with (\<lambda>x. srv_owner x = owner) (action_servers s))"
  "goals_of owner s \<subseteq> set (keys_with (\<lambda>x. goal_owner x = owner) (goals s))"
  "calls_of owner s \<subseteq> set (keys_with (\<lambda>x. call_owner x = owner) (calls s))"
  unfolding advertised_by_def subscribed_by_def services_of_def servers_of_def goals_of_def calls_of_def
  by (auto intro!: in_keys_with simp del: set_map)

lemma keys_with_map:
  "distinct (keys t) \<Longrightarrow> set (keys_with p t) = {k. \<exists>v. map_of t k = Some v \<and> p v}"
  by (auto simp: image_iff dest: map_of_SomeD intro!: in_keys_with)

context bridge_env
begin

lemma calls_of_keys:
  "inv D X K F s \<Longrightarrow> calls_of owner s = set (keys_with (\<lambda>c. call_owner c = owner) (calls s))"
  using inv_tables [of D X K F s] keys_with_map [of "calls s"]
  by (simp add: calls_of_def tables_ok_def entries_def del: set_map)

lemma inv_left:
  assumes "I (leaving owner (insert k ks)) s"
    and "case k of KPub \<Rightarrow> advertised_by owner s = {} | KSub \<Rightarrow> subscribed_by owner s = {}
      | KSvc \<Rightarrow> services_of owner s = {} | KSrv \<Rightarrow> servers_of owner s = {}
      | KGoal \<Rightarrow> goals_of owner s = {} | KCall \<Rightarrow> calls_of owner s = {}"
  shows "I (leaving owner ks) s"
  using assms tables_left [of E owner k ks] by (simp add: bridge_inv_def)

lemma depart:
  assumes step: "\<And>x T. triple (\<lambda>s. I (leaving owner (insert k ks)) s \<and> f s \<subseteq> insert x T) (m x)
      (\<lambda>_ s. I (leaving owner (insert k ks)) s \<and> f s \<subseteq> T) (\<lambda>_. False)"
    and cover: "\<And>s. f s \<subseteq> set (g s)"
    and gone: "\<And>s. I (leaving owner (insert k ks)) s \<Longrightarrow> f s = {} \<Longrightarrow> I (leaving owner ks) s"
    and last: "triple (I (leaving owner ks)) n Q E'"
  shows "triple (I (leaving owner (insert k ks))) (bindA (getA g) (\<lambda>xs. bindA (forA xs m) (\<lambda>_. n))) Q E'"
proof (rule bind_get)
  fix xs
  have "triple (\<lambda>s. I (leaving owner (insert k ks)) s \<and> f s \<subseteq> set xs \<union> {}) (forA xs m)
      (\<lambda>_ s. I (leaving owner (insert k ks)) s \<and> f s \<subseteq> {}) E'"
    by (rule triple_drain) (rule step)
  then have "triple (\<lambda>s. I (leaving owner (insert k ks)) s \<and> xs = g s) (forA xs m)
      (\<lambda>_ s. I (leaving owner ks) s) E'"
    by (rule triple_pre [OF triple_post]) (use cover gone in auto)
  then show "triple (\<lambda>s. I (leaving owner (insert k ks)) s \<and> xs = g s) (bindA (forA xs m) (\<lambda>_. n)) Q E'"
    by (rule triple_bind) (rule last)
qed

lemma abandon_goal_inv:
  "triple (\<lambda>s. I D s \<and> goals_of owner s \<subseteq> insert key T) (abandon_goal E key)
     (\<lambda>_ s. I D s \<and> goals_of owner s \<subseteq> T) (\<lambda>_. False)"
  unfolding abandon_goal_def
  apply (rule bind_read)
  apply (rule triple_bind [where R = "\<lambda>_ s. I D s \<and> goals_of owner s \<subseteq> insert key T"])
   apply (split option.split, intro conjI allI impI)
    apply (rule triple_retI, simp)
   apply (rule triple_if)
    apply (rule triple_pre, rule quietly_triple, rule onB_keep [where R = "\<lambda>s. goals_of owner s \<subseteq> insert key T"], rule request, simp, simp)
   apply (rule triple_retI, simp)
  apply (rule finish_goal_inv)
  done

lemma abandon_call_inv:
  assumes "key \<notin> T"
  shows "triple (\<lambda>s. I D s \<and> calls_of owner s = insert key T) (abandon_call E key)
     (\<lambda>_ s. I D s \<and> calls_of owner s = T) (\<lambda>_. False)"
  unfolding abandon_call_def
proof (rule triple_bind)
  show "triple (\<lambda>s. I D s \<and> calls_of owner s = insert key T) (modA (del_call key))
      (\<lambda>_ s. inv D {} {} {#fst key#} s \<and> calls_of owner s = T) (\<lambda>_. False)"
  proof (rule triple_modI, elim conjE)
    fix s assume I: "I D s" and c: "calls_of owner s = insert key T"
    then obtain d where "map_of (calls s) key = Some d" by (auto simp: calls_of_def)
    with inv_call_del [OF I] c assms
    show "inv D {} {} {#fst key#} (del_call key s) \<and> calls_of owner (del_call key s) = T" by simp
  qed
qed (rule destroy_end, simp, simp)

lemma depart_calls:
  assumes last: "triple (I (leaving owner ks)) n Q E'"
  shows "triple (I (leaving owner (insert KCall ks)))
    (bindA (getA (\<lambda>s. keys_with (\<lambda>c. call_owner c = owner) (calls s))) (\<lambda>xs. bindA (forA xs (abandon_call E)) (\<lambda>_. n))) Q E'"
proof (rule bind_get)
  fix xs
  let ?J = "\<lambda>s. I (leaving owner (insert KCall ks)) s"
  have loop: "distinct xs \<Longrightarrow> triple (\<lambda>s. ?J s \<and> calls_of owner s = set xs) (forA xs (abandon_call E))
      (\<lambda>_ s. I (leaving owner ks) s) E'" for xs
  proof (induction xs)
    case Nil
    show ?case by (auto intro!: triple_retI inv_left [where k = KCall])
  next
    case (Cons x xs)
    then have "x \<notin> set xs" by simp
    have "triple (\<lambda>s. ?J s \<and> calls_of owner s = set (x # xs)) (abandon_call E x)
        (\<lambda>_ s. ?J s \<and> calls_of owner s = set xs) E'"
      by (rule triple_pre [OF triple_post [OF abandon_call_inv [OF \<open>x \<notin> set xs\<close>]]]) auto
    from triple_bind [OF this Cons.IH] Cons.prems show ?case by simp
  qed
  have "triple (\<lambda>s. ?J s \<and> xs = keys_with (\<lambda>c. call_owner c = owner) (calls s)) (forA xs (abandon_call E))
      (\<lambda>_ s. I (leaving owner ks) s) E'"
  proof (cases "distinct xs")
    case True
    show ?thesis
    proof (rule triple_pre [OF loop [OF True]], elim conjE, intro conjI)
      fix s assume "?J s" "xs = keys_with (\<lambda>c. call_owner c = owner) (calls s)"
      then show "calls_of owner s = set xs" by (simp only: calls_of_keys)
    qed
  next
    case False
    have "distinct (keys_with p (calls s))" if "?J s" for s p
      using inv_tables [OF that] by (auto simp: tables_ok_def dest: entries_distinct)
    with False show ?thesis unfolding triple_def by blast
  qed
  then show "triple (\<lambda>s. ?J s \<and> xs = keys_with (\<lambda>c. call_owner c = owner) (calls s))
      (bindA (forA xs (abandon_call E)) (\<lambda>_. n)) Q E'"
    by (rule triple_bind) (rule last)
qed

lemma release_inv:
  "triple (I (leaving owner {KPub, KSub, KSvc, KSrv, KGoal, KCall})) (release E owner) (\<lambda>_. I (\<lambda>_. {})) E'"
proof -
  have pub: "triple (\<lambda>s. I D s \<and> advertised_by owner s \<subseteq> insert t T) (quietly (unadvertise E owner t None))
     (\<lambda>_ s. I D s \<and> advertised_by owner s \<subseteq> T) (\<lambda>_. False)" for D t T
    by (rule quietly_triple) (rule triple_post [OF unadvertise_inv]; simp)
  have sub: "triple (\<lambda>s. I D s \<and> subscribed_by owner s \<subseteq> insert t T) (quietly (unsubscribe E owner t None))
     (\<lambda>_ s. I D s \<and> subscribed_by owner s \<subseteq> T) (\<lambda>_. False)" for D t T
    by (rule quietly_triple) (rule triple_post [OF unsubscribe_inv]; simp)
  have svc: "triple (\<lambda>s. I D s \<and> services_of owner s \<subseteq> insert t T) (quietly (remove_service E owner t))
     (\<lambda>_ s. I D s \<and> services_of owner s \<subseteq> T) (\<lambda>_. False)" for D t T
    by (rule quietly_triple) (rule triple_post [OF remove_service_inv]; simp)
  have srv: "triple (\<lambda>s. I D s \<and> servers_of owner s \<subseteq> insert t T) (quietly (remove_action E owner t))
     (\<lambda>_ s. I D s \<and> servers_of owner s \<subseteq> T) (\<lambda>_. False)" for D t T
    by (rule quietly_triple) (rule triple_post [OF remove_action_inv]; simp)
  show ?thesis
    unfolding release_def
    apply (rule depart [where f = "advertised_by owner", OF pub covers(1)], erule inv_left, simp)
    apply (rule depart [where f = "subscribed_by owner", OF sub covers(2)], erule inv_left, simp)
    apply (rule depart [where f = "services_of owner", OF svc covers(3)], erule inv_left, simp)
    apply (rule depart [where f = "servers_of owner", OF srv covers(4)], erule inv_left, simp)
    apply (rule depart [where f = "goals_of owner", OF abandon_goal_inv covers(5)], erule inv_left, simp)
    apply (rule depart_calls)
    apply (rule triple_modI)
    apply (simp add: leaving_none inv_external_drop)
    done
qed

end

lemma same_finish_goal: "same outputs (finish_goal E key values status success)"
  unfolding finish_goal_def destroy_all_def
  by (auto intro!: same_rules same_send simp: table_ops split: option.split)

lemma same_topics:
  "same outputs (unadvertise E owner t i)" "same outputs (unsubscribe E owner t i)"
  unfolding unadvertise_def unsubscribe_def
  by (auto intro!: same_rules simp: table_ops Let_def split: option.split)

lemma same_quietly: "same f m \<Longrightarrow> same f (quietly m)"
  unfolding quietly_def by (intro same_rules)

lemma same_abandon: "same outputs (abandon_goal E key)" "same outputs (abandon_call E k)"
  unfolding abandon_goal_def abandon_call_def
  by (auto intro!: same_rules same_quietly same_finish_goal simp: table_ops split: option.split)

lemma same_release: "same outputs (release E owner)"
  unfolding release_def
  by (intro same_rules same_quietly same_topics same_remove_service same_servers same_abandon)
    (simp add: table_ops)

lemma entries_empty: "entries P t \<Longrightarrow> (\<And>k v. \<not> P k v) \<Longrightarrow> t = []"
  by (cases t) (auto simp: entries_def)

lemma publisher_ok_mono: "publisher_ok h p \<Longrightarrow> (\<And>n. h n \<Longrightarrow> h' n) \<Longrightarrow> publisher_ok h' p"
  by (fastforce simp: publisher_ok_def)

lemma subscription_ok_mono: "subscription_ok h p \<Longrightarrow> (\<And>n. h n \<Longrightarrow> h' n) \<Longrightarrow> subscription_ok h' p"
  by (fastforce simp: subscription_ok_def)

text \<open>A change of the connections that loses none of those the tables mention.\<close>

lemma tables_outputs:
  assumes t: "tables_ok E D X K s" and q: "outputs_ok q outs"
    and p: "\<And>k n. present D k (outputs s) n \<Longrightarrow> present D' k outs n"
  shows "tables_ok E D' X K (s\<lparr>queues := q, outputs := outs\<rparr>)"
proof -
  have "entries (\<lambda>_. publisher_ok (present D' KPub outs)) (publishers s)"
    "entries (\<lambda>_. subscription_ok (present D' KSub outs)) (subscriptions s)"
    "entries (\<lambda>_ x. present D' KSvc outs (svc_owner x)) (svcs s)"
    "entries (\<lambda>_ c. present D' KCall outs (call_owner c)) (calls s)"
    "entries (\<lambda>_ a. present D' KSrv outs (srv_owner a)) (action_servers s)"
    "entries (goal_ok E (present D' KGoal outs) (uuid_count s)) (goals s)"
    using t unfolding tables_ok_def goal_ok_def
    by (blast intro: entries_mono publisher_ok_mono subscription_ok_mono p)+
  with t q show ?thesis by (simp add: tables_ok_def)
qed

context bridge_env
begin

lemma inv_outputs:
  assumes "inv D X K F s" "outputs_ok q outs" "\<And>k n. present D k (outputs s) n \<Longrightarrow> present D' k outs n"
  shows "inv D' X K F (s\<lparr>queues := q, outputs := outs\<rparr>)"
  using assms tables_outputs [of E D X K s q outs D'] by (simp add: bridge_inv_def owned_def)

lemma drop_connection_inv:
  assumes "I (\<lambda>_. {}) s"
  shows "I (leaving owner {KPub, KSub, KSvc, KSrv, KGoal, KCall}) (drop_connection owner s)"
proof -
  let ?ks = "{KPub, KSub, KSvc, KSrv, KGoal, KCall}"
  have ok: "outputs_ok (queues s) (outputs s)" using inv_tables [OF assms] by (simp add: tables_ok_def)
  have k: "k \<in> ?ks" for k by (cases k) simp_all
  show ?thesis
  proof (cases "map_of (outputs s) owner")
    case None
    have "I (leaving owner ?ks) (s\<lparr>queues := queues s, outputs := outputs s\<rparr>)"
      by (rule inv_outputs [OF assms ok]) (simp add: present_def)
    with None show ?thesis by (simp add: drop_connection_def)
  next
    case (Some a)
    let ?q = "(queues s)(a := drop_output (queues s a))"
    have v: "set (vals (AList.delete owner (outputs s))) \<subseteq> set (vals (outputs s))"
      "distinct (vals (AList.delete owner (outputs s)))"
      using ok by (auto simp: outputs_ok_def remove_filter distinct_map_filter)
    have "outputs_ok ?q (AList.delete owner (outputs s))"
      using ok v by (auto simp: outputs_ok_def intro: drop_ok)
    then have "I (leaving owner ?ks) (s\<lparr>queues := ?q, outputs := AList.delete owner (outputs s)\<rparr>)"
      by (rule inv_outputs [OF assms]) (use k in \<open>auto simp: present_def leaving_def\<close>)
    with Some show ?thesis by (simp add: drop_connection_def close_output_def)
  qed
qed

lemma disconnect_inv:
  "triple (\<lambda>s. I (\<lambda>_. {}) s \<and> set (keys (outputs s)) \<subseteq> insert owner T) (disconnect E owner)
    (\<lambda>_ s. I (\<lambda>_. {}) s \<and> set (keys (outputs s)) \<subseteq> T - {owner}) (\<lambda>_. False)"
  unfolding disconnect_def
proof (rule triple_bind)
  show "triple (\<lambda>s. I (\<lambda>_. {}) s \<and> set (keys (outputs s)) \<subseteq> insert owner T) (modA (drop_connection owner))
    (\<lambda>_ s. I (leaving owner {KPub, KSub, KSvc, KSrv, KGoal, KCall}) s \<and> set (keys (outputs s)) \<subseteq> T - {owner}) (\<lambda>_. False)"
  proof (rule triple_modI, elim conjE, intro conjI)
    fix s assume "I (\<lambda>_. {}) s" "set (keys (outputs s)) \<subseteq> insert owner T"
    then show "I (leaving owner {KPub, KSub, KSvc, KSrv, KGoal, KCall}) (drop_connection owner s)"
      and "set (keys (outputs (drop_connection owner s))) \<subseteq> T - {owner}"
      using drop_connection_inv [of s owner]
      by (simp, auto simp: drop_connection_def close_output_def map_of_eq_None_iff image_iff split: option.split)
  qed
qed (rule triple_post, rule triple_same [where C = "\<lambda>x. set (keys x) \<subseteq> T - {owner}",
  OF release_inv [where E' = "\<lambda>_. False"] same_release], simp_all)

lemma disconnect_plain: "triple (I (\<lambda>_. {})) (disconnect E owner) (\<lambda>_. I (\<lambda>_. {})) E'"
  by (rule triple_pre [OF triple_post [OF disconnect_inv [where T = UNIV]]]) auto

lemma shutdown_inv:
  "triple (I (\<lambda>_. {})) (shutdown E) (\<lambda>_ s. I (\<lambda>_. {}) s \<and> outputs s = []) (\<lambda>_. False)"
  unfolding shutdown_def
proof (rule bind_get)
  fix owners
  have "triple (\<lambda>s. I (\<lambda>_. {}) s \<and> set (keys (outputs s)) \<subseteq> set owners \<union> {}) (forA owners (disconnect E))
      (\<lambda>_ s. I (\<lambda>_. {}) s \<and> set (keys (outputs s)) \<subseteq> {}) (\<lambda>_. False)"
    by (rule triple_drain [where f = "\<lambda>s. set (keys (outputs s))"], rule triple_post [OF disconnect_inv]) auto
  then show "triple (\<lambda>s. I (\<lambda>_. {}) s \<and> owners = keys (outputs s)) (forA owners (disconnect E))
      (\<lambda>_ s. I (\<lambda>_. {}) s \<and> outputs s = []) (\<lambda>_. False)"
    by (rule triple_pre [OF triple_post]) auto
qed

text \<open>With no connection left, nothing is held.\<close>

lemma nothing_owned:
  assumes "I (\<lambda>_. {}) s" "outputs s = []"
  shows "live (backend s) = {}" "publishers s = []" "subscriptions s = []" "svcs s = []" "calls s = []"
    "goals s = []" "action_servers s = []" "external s = []" "action_calls s = []" "server_goals s = []"
proof -
  have t: "tables_ok E (\<lambda>_. {}) {} {} s" using assms(1) by (rule inv_tables)
  have none: "present (\<lambda>_. {}) k (outputs s) = (\<lambda>_. False)" for k by (simp add: present_def assms(2) fun_eq_iff)
  have no: "\<not> publisher_ok (\<lambda>_. False) p" "\<not> subscription_ok (\<lambda>_. False) x" for p x
    by (cases "pub_owners p"; force simp: publisher_ok_def) (cases "sub_clients x"; force simp: subscription_ok_def)
  from t show e: "publishers s = []" "subscriptions s = []" "svcs s = []" "calls s = []"
    "goals s = []" "action_servers s = []"
    unfolding tables_ok_def none by (auto elim!: entries_empty simp: no goal_ok_def)
  show "external s = []" "action_calls s = []" "server_goals s = []"
    using t e unfolding tables_ok_def
    by (auto elim!: entries_empty simp: external_ok_def action_call_ok_def server_goal_ok_def)
  have "owned s = {#}" by (simp add: owned_def e)
  then have "mset_set (live (backend s)) = {#}" "valid (backend s)"
    using assms(1) by (simp_all add: bridge_inv_def)
  then show "live (backend s) = {}" using finite_live by (metis mset_set_empty_iff)
qed

end

lemma entries_map:
  assumes "entries P t" "\<And>k v. P k v \<Longrightarrow> Q k (f v)"
  shows "entries Q (map (\<lambda>(k, v). (k, f v)) t)"
proof -
  have k: "keys (map (\<lambda>(k, v). (k, f v)) t) = keys t" by (simp add: comp_def case_prod_unfold)
  show ?thesis unfolding entries_def k using assms by (auto simp: entries_def)
qed

lemma due_client:
  "sub_clients (due_clients now x) = map (\<lambda>(owner, c). (owner, fst (due now c))) (sub_clients x)"
  "sub_entity (due_clients now x) = sub_entity x"
  by (simp_all add: due_clients_def)

lemma vals_update_distinct:
  "distinct (vals t) \<Longrightarrow> a \<notin> set (vals t) \<Longrightarrow> distinct (vals (AList.update k a t))"
proof (induction t)
  case (Cons p t)
  have "set (vals (AList.update k a t)) \<subseteq> insert a (set (vals t))"
    using set_update_subset [of k a t] by auto
  with Cons show ?case by (cases p) auto
qed simp

context bridge_env
begin

lemma take_due_inv: "triple (I D) take_due (\<lambda>_. I D) E'"
proof (rule tripleI)
  fix s a t assume s: "I D s" and r: "take_due s = (Ok a, t)"
  let ?m = "map (\<lambda>(topic, x). (topic, due_clients (clock s) x)) (subscriptions s)"
  have "entries (\<lambda>_. subscription_ok (present D KSub (outputs s))) (subscriptions s)"
    using inv_tables [OF s] by (simp add: tables_ok_def)
  then have e: "entries (\<lambda>_. subscription_ok (present D KSub (outputs s))) ?m"
    by (rule entries_map) (rule subscription_ok_map [OF _ _ due_client(1)], simp_all)
  have o: "map (sub_entity \<circ> snd) ?m = map (sub_entity \<circ> snd) (subscriptions s)"
    by (simp add: comp_def case_prod_unfold due_client(2))
  have t: "t = s\<lparr>subscriptions := ?m\<rparr>" using r by (simp add: take_due_def)
  have "owned t = owned s" unfolding t owned_def by (simp add: o del: map_map mset_map)
  moreover have "tables_ok E D {} {} t" using inv_tables [OF s] e unfolding t tables_ok_def by simp
  ultimately show "I D t" using s by (simp add: bridge_inv_def t)
qed (simp_all add: take_due_def)

lemma deliveries_inv:
  "triple (I D) (forA ds (\<lambda>(owner, topic, msg, options). deliver_topic E owner topic msg options)) (\<lambda>_. I D) E'"
  by (rule triple_for) (auto intro: alone deliver_topic_inv)

end

text \<open>A loop over the keys of a table, each of which is taken out.\<close>

lemma triple_keys:
  assumes "\<And>x T. x \<notin> T \<Longrightarrow> triple (\<lambda>s. J s \<and> insert x T \<subseteq> f s) (m x) (\<lambda>_ s. J s \<and> T \<subseteq> f s) (\<lambda>_. False)"
  shows "distinct xs \<Longrightarrow> triple (\<lambda>s. J s \<and> set xs \<subseteq> f s) (forA xs m) (\<lambda>_. J) E'"
proof (induction xs)
  case Nil
  show ?case by (simp add: triple_retI)
next
  case (Cons x xs)
  then have x: "x \<notin> set xs" and d: "distinct xs" by simp_all
  have "triple (\<lambda>s. J s \<and> set (x # xs) \<subseteq> f s) (m x) (\<lambda>_ s. J s \<and> set xs \<subseteq> f s) E'"
    by (rule triple_pre [OF triple_post [OF assms [OF x]]]) auto
  from triple_bind [OF this Cons.IH [OF d]] show ?case by simp
qed

context bridge_env
begin

lemma expire_call_inv:
  assumes "key \<notin> T"
  shows "triple (\<lambda>s. I D s \<and> insert key T \<subseteq> set (keys (calls s))) (expire_call E key)
     (\<lambda>_ s. I D s \<and> T \<subseteq> set (keys (calls s))) (\<lambda>_. False)"
  unfolding expire_call_def
  apply (rule bind_read)
  apply (split option.split, intro conjI allI impI)
   apply (auto simp: triple_def map_of_eq_None_iff) [1]
  subgoal for found c
    apply (rule triple_bind [where R = "\<lambda>_ s. inv D {} {} {#fst key#} s \<and> T \<subseteq> set (keys (calls s))"])
     apply (rule triple_modI)
    subgoal for s
      using inv_call_del [of D "{}" "{}" "{#}" s key c] assms by (auto simp: del_call_def)
    apply (rule bind_send, simp add: timeout_reply_def is_object_def, simp)
    apply (rule destroy_end, simp, simp)
    done
  done

lemma discard_frame:
  assumes "\<And>s b. R s \<Longrightarrow> R (s\<lparr>backend := b\<rparr>)"
  shows "triple (\<lambda>s. I D s \<and> R s) (onB (be_discard_request (e_backend E) e r)) (\<lambda>_ s. I D s \<and> R s) E'"
proof (rule tripleI)
  let ?m = "onB (be_discard_request (e_backend E) e r)"
  note keep = onB_keep [where R = R, OF discard_request assms]
  note total = discard_inv [where E' = "\<lambda>_. False"]
  fix s assume s: "I D s \<and> R s"
  {
    fix u t assume "?m s = (Ok u, t)"
    from triple_Ok [OF keep s this] show "I D t \<and> R t" .
  next
    fix x t assume "?m s = (Err x, t)"
    from triple_Err [OF total conjunct1 [OF s] this] show "E' t" ..
  next
    fix t assume "?m s = (Panic, t)"
    with triple_no_panic [OF total conjunct1 [OF s], of e r] show False by simp
  }
qed

lemma expire_external_inv:
  assumes "i \<notin> T"
  shows "triple (\<lambda>s. I D s \<and> insert i T \<subseteq> set (keys (external s))) (expire_external E i)
     (\<lambda>_ s. I D s \<and> T \<subseteq> set (keys (external s))) (\<lambda>_. False)"
  unfolding expire_external_def
  apply (rule bind_read)
  apply (split option.split, intro conjI allI impI)
   apply (auto simp: triple_def map_of_eq_None_iff) [1]
  subgoal for found r
    apply (rule triple_bind [where R = "\<lambda>_ s. I D s \<and> T \<subseteq> set (keys (external s))"])
     apply (rule triple_modI)
    subgoal for s
      using inv_external_del [of D "{}" "{}" "{#}" s i] assms by (auto simp: del_external_def)
    apply (rule discard_frame, simp)
    done
  done

lemma poll_inv: "triple (I D) (onB (be_poll (e_backend E))) (\<lambda>evs s. I D s \<and> list_all event_ok evs) (I D)"
proof (rule tripleI)
  note keep = onB_keep [where R = "\<lambda>_. True" and D = D and X = "{}" and K = "{}" and F = "{#}", OF poll]
  let ?m = "onB (be_poll (e_backend E))"
  fix s assume s: "I D s"
  then have s': "I D s \<and> True" and v: "valid (backend s)" by (simp_all add: bridge_inv_def)
  {
    fix evs t assume r: "?m s = (Ok evs, t)"
    then obtain b where "be_poll (e_backend E) (backend s) = (Ok evs, b)" by (auto simp: onB_def split: prod.splits)
    from triple_Ok [OF poll_events v this] triple_Ok [OF keep s' r] show "I D t \<and> list_all event_ok evs" by simp
  next
    fix e t assume "?m s = (Err e, t)"
    from triple_Err [OF keep s' this] show "I D t" by simp
  next
    fix t assume "?m s = (Panic, t)"
    with triple_no_panic [OF keep s'] show False by simp
  }
qed

lemma handle_all_inv: "list_all event_ok evs \<Longrightarrow> triple (I D) (forA evs (handle E)) (\<lambda>_. I D) E'"
  by (rule triple_for) (auto simp: list_all_iff intro: handle_inv)

lemma keys_distinct:
  "I D s \<Longrightarrow> distinct (keys_with p (calls s))" "I D s \<Longrightarrow> distinct (keys_with q (external s))"
  using inv_tables [of D "{}" "{}" "{#}" s] by (auto simp: tables_ok_def dest: entries_distinct)

lemma expire_calls_inv:
  assumes "triple (I D) n Q E'"
  shows "triple (I D) (bindA (getA (\<lambda>s. keys_with (\<lambda>c. call_expires c \<le> clock s) (calls s)))
    (\<lambda>ks. bindA (forA ks (expire_call E)) (\<lambda>_. n))) Q E'"
proof (rule bind_get, rule triple_bind [OF _ assms])
  fix ks
  show "triple (\<lambda>s. I D s \<and> ks = keys_with (\<lambda>c. call_expires c \<le> clock s) (calls s)) (forA ks (expire_call E))
    (\<lambda>_. I D) E'"
  proof (cases "distinct ks")
    case True
    show ?thesis
      by (rule triple_pre [OF triple_keys [OF expire_call_inv True]]) auto
  next
    case False
    then show ?thesis using keys_distinct(1) unfolding triple_def by blast
  qed
qed

lemma expire_externals_inv:
  assumes "triple (I D) n Q E'"
  shows "triple (I D) (bindA (getA (\<lambda>s. keys_with (\<lambda>r. ext_expires r \<le> clock s) (external s)))
    (\<lambda>ks. bindA (forA ks (expire_external E)) (\<lambda>_. n))) Q E'"
proof (rule bind_get, rule triple_bind [OF _ assms])
  fix ks
  show "triple (\<lambda>s. I D s \<and> ks = keys_with (\<lambda>r. ext_expires r \<le> clock s) (external s)) (forA ks (expire_external E))
    (\<lambda>_. I D) E'"
  proof (cases "distinct ks")
    case True
    show ?thesis
      by (rule triple_pre [OF triple_keys [OF expire_external_inv True]]) auto
  next
    case False
    then show ?thesis using keys_distinct(2) unfolding triple_def by blast
  qed
qed

lemma advance_inv: "list_all event_ok evs \<Longrightarrow> triple (I (\<lambda>_. {})) (advance E evs) (\<lambda>_. I (\<lambda>_. {})) E'"
  unfolding advance_def
  apply (rule triple_bind, erule handle_all_inv)
  apply (rule bind_get, rule triple_bind [where R = "\<lambda>_. I (\<lambda>_. {})"])
   apply (rule triple_pre, rule triple_for [where I = "I (\<lambda>_. {})"], rule finish_inv, simp)
  apply (rule triple_bind, rule take_due_inv)
  apply (rule triple_bind, rule deliveries_inv)
  apply (rule expire_calls_inv)
  apply (rule expire_externals_inv)
  apply (rule triple_bind [where R = "\<lambda>_. I (\<lambda>_. {})"], rule triple_modI, erule inv_forget)
  apply (rule triple_bind [where R = "\<lambda>_. I (\<lambda>_. {})"])
   apply (simp add: triple_def drain_failed_def bridge_inv_def tables_ok_def owned_def)
  apply (rule triple_bind [where R = "\<lambda>_. I (\<lambda>_. {})"], rule triple_for, rule disconnect_plain)
  apply (rule bind_get)
  apply (rule triple_pre, rule triple_for [where I = "I (\<lambda>_. {})"], rule disconnect_plain, simp)
  done

lemma tick_inv: "triple (I (\<lambda>_. {})) (tick E) (\<lambda>_. I (\<lambda>_. {})) (I (\<lambda>_. {}))"
  unfolding tick_def
  by (rule triple_bind, rule poll_inv, rule triple_pure, erule conjunct2) (rule triple_pre, erule advance_inv, simp)

lemma tick_error:
  assumes "I (\<lambda>_. {}) s" "tick E s = (Err e, t)"
  shows "onB (be_poll (e_backend E)) s = (Err e, t)"
proof -
  obtain r u where p: "onB (be_poll (e_backend E)) s = (r, u)" by (cases rule: prod.exhaust)
  show ?thesis
  proof (cases r)
    case (Ok evs)
    from triple_Ok [OF poll_inv assms(1) p [unfolded Ok]] have u: "I (\<lambda>_. {}) u" and evs: "list_all event_ok evs"
      by simp_all
    have "advance E evs u = (Err e, t)" using assms(2) p Ok by (simp add: tick_def bindA_def)
    from triple_Err [OF advance_inv [OF evs, where E' = "\<lambda>_. False"] u this] show ?thesis by simp
  qed (use assms(2) p in \<open>simp_all add: tick_def bindA_def\<close>)
qed

lemma connect_inv:
  assumes "I (\<lambda>_. {}) s" "queue_ok (queues s a)" "a \<notin> set (vals (outputs s))"
  shows "I (\<lambda>_. {}) (connect n a s)"
proof -
  let ?q = "case map_of (outputs s) n of None \<Rightarrow> queues s | Some old \<Rightarrow> (queues s)(old := drop_output (queues s old))"
  have ok: "outputs_ok (queues s) (outputs s)" using inv_tables [OF assms(1)] by (simp add: tables_ok_def)
  have q: "queue_ok (?q b)" if "queue_ok (queues s b)" for b
    using that by (auto simp: drop_ok split: option.split)
  have "set (vals (AList.update n a (outputs s))) \<subseteq> insert a (set (vals (outputs s)))"
    using set_update_subset [of n a "outputs s"] by auto
  then have "\<forall>b \<in> set (vals (AList.update n a (outputs s))). queue_ok (?q b)"
    using ok assms(2) by (intro ballI q) (fastforce simp: outputs_ok_def)
  then have "outputs_ok ?q (AList.update n a (outputs s))"
    using ok vals_update_distinct [OF _ assms(3), of n] by (simp add: outputs_ok_def)
  then have "I (\<lambda>_. {}) (s\<lparr>queues := ?q, outputs := AList.update n a (outputs s)\<rparr>)"
    by (rule inv_outputs [OF assms(1)]) (auto simp: present_def)
  then show ?thesis by (simp add: connect_def Let_def close_output_def split: option.splits)
qed

lemma new_inv:
  assumes "valid b" "live b = {}" "instant_ok t"
  shows "I (\<lambda>_. {}) (bridge_new b t qs)"
  using assms by (simp add: bridge_inv_def bridge_new_def owned_def tables_ok_def outputs_ok_def)

end

end
