(* ===== verification/System.thy ===== *)
theory System
  imports Node Lifecycle_Safety Exact
begin

text \<open>
The composition: the bridge on the ROS backend, driven by the events of its worker thread.
  The invariant of the bridge holds in every reachable state. A loopback world shows that the
  contract of the native layer and the assumption on random identifiers can be met.
\<close>

section \<open>The worker\<close>

text \<open>What happens to the bridge, one event at a time: the operations its worker calls, time
  passing, and the WebSocket tasks taking from the queues.\<close>

datatype worker_event =
    Connected nat nat
  | Commanded nat json
  | Ticked
  | Disconnected nat
  | Elapsed nat
  | Drained nat queue

definition worker_step :: "'b env \<Rightarrow> worker_event \<Rightarrow> 'b bridge \<Rightarrow> 'b bridge" where
  "worker_step E ev s = (case ev of
     Connected n a \<Rightarrow> connect n a s
   | Commanded n v \<Rightarrow> snd (command E n v s)
   | Ticked \<Rightarrow> snd (tick E s)
   | Disconnected n \<Rightarrow> snd (disconnect E n s)
   | Elapsed t \<Rightarrow> s\<lparr>clock := clock s + t\<rparr>
   | Drained a q \<Rightarrow> put_queue a q s)"

text \<open>A connection brings a queue of its own; operations are in range of the clock; tasks leave
  queues consistent.\<close>

definition worker_allowed :: "worker_event \<Rightarrow> 'b bridge \<Rightarrow> bool" where
  "worker_allowed ev s \<longleftrightarrow> (case ev of
     Connected n a \<Rightarrow> queue_ok (queues s a) \<and> a \<notin> set (vals (outputs s))
   | Commanded n v \<Rightarrow> in_range v s
   | Elapsed t \<Rightarrow> instant_ok (clock s + t + timeout s)
   | Drained a q \<Rightarrow> queue_ok q
   | _ \<Rightarrow> True)"

primrec worker_run :: "'b env \<Rightarrow> worker_event list \<Rightarrow> 'b bridge \<Rightarrow> 'b bridge" where
  "worker_run E [] s = s"
| "worker_run E (ev # evs) s = worker_run E evs (worker_step E ev s)"

primrec worker_admissible :: "'b env \<Rightarrow> worker_event list \<Rightarrow> 'b bridge \<Rightarrow> bool" where
  "worker_admissible E [] s = True"
| "worker_admissible E (ev # evs) s = (worker_allowed ev s \<and> worker_admissible E evs (worker_step E ev s))"

lemma triple_snd: "triple P m (\<lambda>_. Q) Q \<Longrightarrow> P s \<Longrightarrow> Q (snd (m s))"
  by (cases "m s"; cases "fst (m s)") (auto simp: triple_def)

lemma triple_weak: "triple P m (\<lambda>_. Q) (\<lambda>_. False) \<Longrightarrow> triple P m (\<lambda>_. Q) Q"
  by (erule triple_post) auto

context bridge_env
begin

lemma disconnect_keeps: "triple (I (\<lambda>_. {})) (disconnect E n) (\<lambda>_. I (\<lambda>_. {})) (\<lambda>_. False)"
  by (rule triple_pre [OF triple_post [OF disconnect_inv [where T = UNIV]]]) auto

lemma inv_elapse: "I D s \<Longrightarrow> instant_ok (clock s + t + timeout s) \<Longrightarrow> I D (s\<lparr>clock := clock s + t\<rparr>)"
  by (simp add: bridge_inv_def tables_ok_def owned_def add.commute add.left_commute)

lemma inv_drained: "I D s \<Longrightarrow> queue_ok q \<Longrightarrow> I D (put_queue a q s)"
  by (simp add: bridge_inv_def tables_ok_def owned_def put_queue_def outputs_ok_def)

lemma worker_step_inv:
  assumes "I (\<lambda>_. {}) s" "worker_allowed ev s"
  shows "I (\<lambda>_. {}) (worker_step E ev s)"
  using assms triple_snd [OF triple_weak [OF command_inv]] triple_snd [OF triple_weak [OF disconnect_keeps]]
    triple_snd [OF tick_inv]
  by (cases ev) (auto simp: worker_step_def worker_allowed_def connect_inv inv_elapse inv_drained)

end

sublocale bridge_env \<subseteq> worker: machine "bridge_inv valid live E (\<lambda>_. {}) {} {} {#}" "worker_step E" worker_allowed
  by unfold_locales (rule worker_step_inv)

context bridge_env
begin

lemma worker_run_inv: "I (\<lambda>_. {}) s \<Longrightarrow> worker_admissible E evs s \<Longrightarrow> I (\<lambda>_. {}) (worker_run E evs s)"
proof -
  have "worker_run E evs s = worker.run evs s" "worker_admissible E evs s = worker.admissible evs s" for s
    by (induction evs arbitrary: s) simp_all
  then show "I (\<lambda>_. {}) s \<Longrightarrow> worker_admissible E evs s \<Longrightarrow> I (\<lambda>_. {}) (worker_run E evs s)"
    by (simp add: worker.run_inv)
qed

end

section \<open>The bridge on the ROS backend\<close>

locale ros_bridge = host_contract W H for W :: "'w world" and H :: "'w host" +
  fixes E :: "'w node env"
  assumes backend_is: "e_backend E = node_backend W H"
    and uuids: "uuids_ok E"

sublocale ros_bridge \<subseteq> bridge: bridge_env E "node_valid H" node_live
  by (intro bridge_env.intro bridge_env_axioms.intro)
    (simp_all add: backend_is uuids node.backend_contract_axioms)

context ros_bridge
begin

lemma env: "bridge_env E (node_valid H) node_live"
  by unfold_locales

end

definition consistent :: "'w host \<Rightarrow> 'w node env \<Rightarrow> 'w node bridge \<Rightarrow> bool" where
  "consistent H E = bridge_inv (node_valid H) node_live E (\<lambda>_. {}) {} {} {#}"

lemma ros_commands:
  assumes "ros_bridge W H E"
  shows "triple (\<lambda>s. consistent H E s \<and> in_range v s) (command E n v) (\<lambda>_. consistent H E) (\<lambda>_. False)"
    and "triple (consistent H E) (tick E) (\<lambda>_. consistent H E) (consistent H E)"
    and "triple (\<lambda>s. consistent H E s \<and> set (keys (outputs s)) \<subseteq> insert n T) (disconnect E n)
      (\<lambda>_ s. consistent H E s \<and> set (keys (outputs s)) \<subseteq> T - {n}) (\<lambda>_. False)"
    and "triple (consistent H E) (shutdown E) (\<lambda>_ s. consistent H E s \<and> outputs s = []) (\<lambda>_. False)"
  unfolding consistent_def
  using bridge_env.command_inv bridge_env.tick_inv bridge_env.disconnect_inv bridge_env.shutdown_inv
    ros_bridge.env [OF assms] by blast+

lemma consistent_new:
  "ros_bridge W H E \<Longrightarrow> node_valid H b \<Longrightarrow> node_live b = {} \<Longrightarrow> instant_ok t \<Longrightarrow> consistent H E (bridge_new b t qs)"
  unfolding consistent_def by (rule bridge_env.new_inv [OF ros_bridge.env])

section \<open>A loopback world\<close>

text \<open>A native layer with one message type that hands every published message to the next
  take: its state counts the objects made and keeps the messages.\<close>

type_synonym loop = "nat \<times> slot list list"

definition loop_string :: members where
  "loop_string = Members ''std_msgs__msg'' ''String'' [Member ''data'' 16 0 None False 0 False (SStr [])] [SStr []]"

definition loop_make :: "(loop, nat) native" where
  "loop_make w = (case w of (n, ms) \<Rightarrow> ((0, [], n), (Suc n, ms)))"

definition loop_ok :: "'a \<Rightarrow> (loop, 'a) native" where
  "loop_ok x w = ((0, [], x), w)"

definition loop_publish :: "slot list \<Rightarrow> (loop, unit) native" where
  "loop_publish m w = (case w of (n, ms) \<Rightarrow> ((0, [], ()), (n, ms @ [m])))"

definition loop_take :: "int \<Rightarrow> (slot list \<Rightarrow> 'a) \<Rightarrow> members \<Rightarrow> (loop, 'a) native" where
  "loop_take none f ty w = (case w of
     (n, m # ms) \<Rightarrow> if typed_object ty m then ((0, [], f m), (n, ms)) else ((1, ''bad message'', f []), w)
   | (n, []) \<Rightarrow> ((none, [], f []), w))"

definition loop_rcl :: "loop rcl" where
  "loop_rcl = \<lparr>rcl_init_options_init = loop_ok (), rcl_init = (\<lambda>_. loop_ok ()), rcl_init_options_fini = loop_ok (),
     rcl_node_init = (\<lambda>_ _. loop_ok ()), rcl_shutdown = loop_ok (), rcl_context_fini = loop_ok (),
     rcl_node_fini = loop_ok (), rcl_publisher_init = (\<lambda>_ _ _. loop_make), rcl_subscription_init = (\<lambda>_ _ _. loop_make),
     rcl_client_init = (\<lambda>_ _. loop_make), rcl_service_init = (\<lambda>_ _. loop_make),
     rcl_publisher_fini = (\<lambda>_. loop_ok ()), rcl_subscription_fini = (\<lambda>_. loop_ok ()),
     rcl_client_fini = (\<lambda>_. loop_ok ()), rcl_service_fini = (\<lambda>_. loop_ok ()),
     rcl_publish = (\<lambda>_ m. loop_publish m), rcl_send_request = (\<lambda>_ _. loop_ok 1),
     rcl_send_response = (\<lambda>_ _ _. loop_ok ()),
     rcl_take = (\<lambda>_. loop_take SUBSCRIPTION_TAKE_FAILED id),
     rcl_take_response = (\<lambda>_. loop_take CLIENT_TAKE_FAILED (Pair 1)),
     rcl_take_request = (\<lambda>_. loop_take SERVICE_TAKE_FAILED (Pair 1)),
     rcutils_array_init = loop_ok (), rmw_serialize = (\<lambda>_ _. loop_ok []), rcutils_array_fini = loop_ok (),
     rcl_topic_names_and_types = loop_ok [], rcl_service_names_and_types = loop_ok [],
     rcl_names_and_types_fini = loop_ok (), rcl_publishers_info = (\<lambda>_. loop_ok []),
     rmw_endpoint_info_fini = loop_ok (), rcl_guard_init = loop_ok (), rcl_guard_fini = loop_ok (),
     rcl_guard_trigger = loop_ok (), rcl_wait_set_init = loop_ok (), rcl_wait_set_fini = loop_ok (),
     rcl_wait_set_resize = (\<lambda>_ _ _. loop_ok ()), rcl_wait_set_clear = loop_ok (), rcl_wait_set_add_guard = loop_ok (),
     rcl_wait_set_add_subscription = (\<lambda>n. loop_ok n), rcl_wait_set_add_client = (\<lambda>n. loop_ok n),
     rcl_wait_set_add_service = (\<lambda>n. loop_ok n),
     rcl_wait = (\<lambda>_ w. ((0, [], ([0..<fst w], [], [])), w)), system_time = (\<lambda>_. (0, 0))\<rparr>"

text \<open>The types that are installed: one message, and the services of rosapi.\<close>

definition loop_names :: "string list" where
  "loop_names = ''std_msgs/msg/String'' # concat (map (\<lambda>(_, t).
     [''rosapi_msgs/srv/'' @ t @ ''_Request'', ''rosapi_msgs/srv/'' @ t @ ''_Response'']) SERVICES)"

definition loop_types :: typesupport where
  "loop_types = \<lparr>ts_load = (\<lambda>n. if n \<in> set loop_names then Ok loop_string else Err ''unknown''),
     ts_base64 = (\<lambda>_. []), ts_unbase64 = (\<lambda>_. Err ''invalid base64'')\<rparr>"

definition loop_world :: "loop world" where
  "loop_world = \<lparr>w_rcl = loop_rcl, w_types = loop_types, w_humble = False\<rparr>"

interpretation loop_native: native_contract loop_world
proof
  show "yields members_wf (ts_load (w_types loop_world) n)" for n
    by (simp add: loop_world_def loop_types_def loop_string_def basic_ok_def Let_def)
  show "ts_unbase64 (w_types loop_world) s \<noteq> Panic" for s
    by (simp add: loop_world_def loop_types_def)
qed (auto simp: loop_world_def loop_rcl_def takes_typed_def loop_take_def SUBSCRIPTION_TAKE_FAILED_def
    CLIENT_TAKE_FAILED_def SERVICE_TAKE_FAILED_def simp del: typed_object.simps split: list.splits if_splits)

text \<open>A host without files; instants do not move.\<close>

definition loop_host :: "loop host" where
  "loop_host = \<lparr>rcl_node_names = loop_ok ([], []), rcutils_strings_fini = loop_ok (),
     rcl_publishers_by_node = (\<lambda>_ _. loop_ok []), rcl_subscribers_by_node = (\<lambda>_ _. loop_ok []),
     rcl_services_by_node = (\<lambda>_ _. loop_ok []), h_instant = (\<lambda>_. 0), h_distro = ''jazzy'', h_prefixes = [],
     h_is_file = (\<lambda>_ _. False), h_read_dir = (\<lambda>_ _. None), h_read_file = (\<lambda>_ _. Inl ''not found''),
     h_codec = \<lparr>json_print = (\<lambda>_. []), json_parse = (\<lambda>_. Ok JNull), cbor_write = (\<lambda>_. Ok []),
       cbor_read = (\<lambda>_. Ok CNull), base64 = ts_base64 loop_types, png_encode = (\<lambda>_ _ _. Ok [])\<rparr>,
     h_globs = \<lparr>pattern_new = (\<lambda>_. None), pattern_matches = (\<lambda>p s. p = s)\<rparr>, h_toml = (\<lambda>_. None),
     h_parse_f64 = (\<lambda>_. Inl ''invalid float literal'')\<rparr>"

interpretation loop_node: host_contract loop_world loop_host
proof
  show "json_parse (h_codec loop_host) s \<noteq> Panic" for s by (simp add: loop_host_def)
  have "loadable (w_types loop_world) \<subseteq> set loop_names"
    by (auto simp: loadable_def load_message_def loop_world_def loop_types_def bindO_eq_Ok split: if_splits)
  then show "finite (loadable (w_types loop_world))" by (rule finite_subset) simp
qed

definition loop_env :: "loop node env" where
  "loop_env = \<lparr>e_backend = node_backend loop_world loop_host,
     e_globs = \<lparr>pattern_new = (\<lambda>_. None), pattern_matches = (\<lambda>p s. p = s)\<rparr>,
     e_storage = sample_storage,
     e_unbase64 = (\<lambda>_. Err ''invalid base64''), e_uuid = le_bytes 16\<rparr>"

lemma UUIDS_le: "UUIDS \<le> 256 ^ 16"
  unfolding UUIDS_def by simp

lemma uuids_loop: "uuids_ok loop_env"
proof -
  have u: "e_uuid loop_env = le_bytes 16" "e_unbase64 loop_env s = Err ''invalid base64''" for s
    by (simp_all add: loop_env_def)
  have "inj_on (le_bytes 16) {..<UUIDS}"
    by (rule inj_onI) (use UUIDS_le in \<open>auto intro!: le_bytes_inj [of _ 16] elim: less_le_trans\<close>)
  moreover have "length (le_bytes 16 n) = 16" for n by (simp only: le_bytes_def length_map length_upt)
  ultimately show ?thesis unfolding uuids_ok_def u by simp
qed

interpretation loop: ros_bridge loop_world loop_host loop_env
  by unfold_locales (simp add: loop_env_def, rule uuids_loop)

text \<open>The state of the backend after it was opened on the loopback world.\<close>

definition loop_ros :: "loop ros" where
  "loop_ros = (ros_initial (0, []) False)\<lparr>waiter := Some \<lparr>wake = True, dimensions = (0, 0, 0), ready_set = []\<rparr>\<rparr>"

definition loop_node :: "loop node" where
  "loop_node = \<lparr>node_ros = loop_ros, node_api = None\<rparr>"

lemma loop_open_run: "ros_new loop_world ''rosbridge'' ''/'' False [] (0, []) = (Ok loop_ros, (0, []))"
  by (simp add: ros_new_def ros_open_def ros_initial_def loop_ros_def c_string_def wait_new_def or_drop_def
      action_defs checked_def check_def loop_world_def loop_rcl_def loop_ok_def)

lemma loop_start: "node_valid loop_host loop_node" "node_live loop_node = {}" "instant_ok (secs 5)"
  by (simp_all add: loop_node_def node_valid_def node_live_def loop_ros_def ros_initial_def ros_valid_def ros_live_def instant_ok_def secs_def NANOS_def)

end
