(* ===== verification/Deadline.thy ===== *)
theory Deadline
  imports System
begin

text \<open>
A service call whose deadline the clock cannot represent: adding it to the instant of the call is the
  only point where an operation of a client can panic.
\<close>

section \<open>Up to a panic\<close>

text \<open>\<open>m\<close> does what \<open>n\<close> does, except where it panics.\<close>

definition upto_panic :: "('s, 'a) action \<Rightarrow> ('s, 'a) action \<Rightarrow> bool" where
  "upto_panic m n \<longleftrightarrow> (\<forall>s. m s = n s \<or> fst (m s) = Panic)"

lemma upto_same: "upto_panic m m"
  by (simp add: upto_panic_def)

lemma upto_bind: "(\<And>a. upto_panic (f a) (g a)) \<Longrightarrow> upto_panic (bindA m f) (bindA m g)"
  unfolding upto_panic_def by (auto simp: bindA_def split: prod.split outcome.split)

lemma upto_try:
  assumes "upto_panic m n"
  shows "upto_panic (bindA (tryA m) f) (bindA (tryA n) f)"
  unfolding upto_panic_def
proof
  fix s
  from assms have "m s = n s \<or> fst (m s) = Panic" by (simp add: upto_panic_def)
  then show "bindA (tryA m) f s = bindA (tryA n) f s \<or> fst (bindA (tryA m) f s) = Panic"
  proof
    assume "m s = n s"
    then show ?thesis by (simp add: bindA_def tryA_def)
  next
    assume "fst (m s) = Panic"
    then show ?thesis by (cases "m s") (simp add: bindA_def tryA_def)
  qed
qed

lemma upto_if: "upto_panic m n \<Longrightarrow> upto_panic m' n' \<Longrightarrow> upto_panic (if b then m else m') (if b then n else n')"
  by simp

lemma upto_sum: "(\<And>e. upto_panic (f e) (f' e)) \<Longrightarrow> (\<And>x. upto_panic (g x) (g' x)) \<Longrightarrow> upto_panic (case_sum f g r) (case_sum f' g' r)"
  by (cases r) simp_all

section \<open>A call whose deadline the clock cannot represent\<close>

text \<open>The call as it would be if such a deadline were an error.\<close>

definition careful_call :: "'b env \<Rightarrow> nat \<Rightarrow> json \<Rightarrow> ('b bridge, unit) action" where
  "careful_call E owner v =
     bindA (getA clock) (\<lambda>started.
     bindA (liftA (request_id v)) (\<lambda>i.
     bindA (liftA (ros_name v ''service'')) (\<lambda>service.
     bindA (liftA (options_parse v)) (\<lambda>options.
     bindA (resolve E v ''service'' ''srv'') (\<lambda>typ.
     bindA (getA acc) (\<lambda>access.
     bindA (liftA (parameter_service (e_globs E) access typ (jix v ''args''))) (\<lambda>_.
     bindA (getA timeout) (\<lambda>standard.
     bindA (liftA (call_timeout v standard)) (\<lambda>limit.
     bindA (onB (be_client (e_backend E) service typ)) (\<lambda>entity.
     bindA (tryA (onB (be_request (e_backend E) entity (args_or_empty v)))) (\<lambda>r. case r of
       Inl e \<Rightarrow> bindA (onB (be_destroy (e_backend E) entity)) (\<lambda>_. errA e)
     | Inr sequence \<Rightarrow>
         bindA (getA clock) (\<lambda>now.
         if instant_ok (now + limit) then
           modA (put_call (entity, sequence)
             \<lparr>call_started = started, call_parameter_names = (typ = ''rosapi_msgs/srv/GetParamNames''),
              call_owner = owner, call_id = i, call_service_name = service, call_options = options,
              call_expires = now + limit\<rparr>)
         else bindA (onB (be_destroy (e_backend E) entity)) (\<lambda>_. errA ''deadline'')))))))))))))"

lemma upto_instant:
  assumes "g = f (now + limit)"
  shows "upto_panic (bindA (liftA (instant_add now limit)) f) (if instant_ok (now + limit) then g else m)"
  using assms by (auto simp: upto_panic_def bindA_def liftA_def instant_add_def)

lemma upto_careful: "upto_panic (call_service E owner v) (careful_call E owner v)"
  unfolding call_service_def careful_call_def
  apply (rule upto_bind)+
  apply (rule upto_sum)
   apply (rule upto_same)
  apply (rule upto_bind)
  apply (rule upto_instant)
  apply (rule refl)
  done

context bridge_env
begin

lemma careful_call_inv: "triple (\<lambda>s. I D s \<and> here owner s) (careful_call E owner v) (\<lambda>_. I D) (I D)"
  unfolding careful_call_def
  apply (rule bind_read)
  apply (rule bind_lift, simp, simp)
  apply (rule bind_lift, simp, simp)
  apply (rule bind_lift, simp, simp)
  apply (rule bind_resolve, simp, simp)
  apply (rule bind_read)
  apply (rule bind_lift, simp, simp)
  apply (rule bind_read)
  apply (rule bind_lift, rule call_timeout_no_panic, simp)
  subgoal for started i service options ty a u standard limit
    apply (rule triple_pre [where P' = "\<lambda>s. I D s \<and> here owner s"])
     apply (rule bind_create, rule client, simp, simp)
    subgoal for e
      apply (rule bind_try, rule onB_keep, rule request, simp)
      subgoal for sequence
        unfolding sum.case
        apply (rule bind_read)
        apply (rule triple_if)
         apply (rule triple_modI)
         apply (rule inv_call_new)
            apply (auto simp: fresh_call here_present) [3]
        apply (rule triple_bind, rule destroy_end [where Q = "\<lambda>_. I D"], simp, simp, rule triple_errI, simp)
        done
      unfolding sum.case
      apply (rule triple_bind, rule destroy_end [where Q = "\<lambda>_. I D"], simp, simp, rule triple_errI, simp)
      done
    apply auto
    done
  done

lemma careful_execute_inv:
  assumes "required v ''op'' = Ok ''call_service''"
  shows "triple (\<lambda>s. I D s \<and> here owner s)
    (bindA (liftA (request_id v)) (\<lambda>_. bindA (liftA (required v ''op'')) (\<lambda>operation. bindA (getA acc) (\<lambda>a.
      bindA (liftA (authorize (e_globs E) a v operation)) (\<lambda>_. careful_call E owner v))))) (\<lambda>_. I D) (I D)"
  apply (rule bind_lift, simp, simp)
  apply (rule bind_lift, simp, simp)
  apply (rule bind_get)
  apply (rule bind_lift, simp, simp)
  apply (rule triple_pre [OF careful_call_inv], simp)
  done

text \<open>A service call panics, or leaves the bridge consistent without an error.\<close>

lemma call_command:
  assumes "required v ''op'' = Ok ''call_service''" "I D s"
  shows "fst (command E owner v s) = Panic \<or> (\<exists>t. command E owner v s = (Ok (), t) \<and> I D t)"
proof -
  let ?x = "bindA (liftA (request_id v)) (\<lambda>_. bindA (liftA (required v ''op'')) (\<lambda>operation. bindA (getA acc) (\<lambda>a.
      bindA (liftA (authorize (e_globs E) a v operation)) (\<lambda>_. careful_call E owner v))))"
  let ?c = "bindA (getA (\<lambda>s. has (outputs s) owner)) (\<lambda>known. if \<not> known then retA ()
     else bindA (tryA ?x) (\<lambda>r. case r of Inl e \<Rightarrow> error E owner v e | Inr _ \<Rightarrow> retA ()))"
  have "execute E owner v = bindA (liftA (request_id v)) (\<lambda>_. bindA (liftA (required v ''op'')) (\<lambda>operation. bindA (getA acc) (\<lambda>a.
      bindA (liftA (authorize (e_globs E) a v operation)) (\<lambda>_. call_service E owner v))))"
    using assms(1) by (simp add: execute_def operate_def)
  then have "upto_panic (execute E owner v) ?x"
    by (simp only:) (intro upto_bind upto_careful)
  then have "upto_panic (command E owner v) ?c"
    unfolding command_def by (intro upto_bind upto_if upto_same upto_try)
  then have same: "command E owner v s = ?c s \<or> fst (command E owner v s) = Panic" by (simp add: upto_panic_def)
  have "triple (I D) ?c (\<lambda>_. I D) (\<lambda>_. False)"
    apply (rule bind_get)
    apply (rule triple_if, rule triple_retI, simp)
    apply (rule bind_try [where R = "\<lambda>_. I D" and E' = "I D"])
      apply (rule triple_pre [OF careful_execute_inv [OF assms(1)]], simp add: here_def)
     apply (simp_all add: triple_retI error_inv)
    done
  with assms(2) obtain t where "?c s = (Ok (), t)" "I D t" using triple_succeeds [of "I D" ?c "\<lambda>_. I D" s] by auto
  with same show ?thesis by auto
qed

end

end
