(* ===== verification/Waiting.thy ===== *)
theory Waiting
  imports Node
begin

text \<open>
The waiting of \<^verbatim>\<open>src/ros/wait.rs\<close> keeps the backend and the services consistent; dropping the
  backend gives every entity back.
\<close>

section \<open>Waiting keeps the backend\<close>

lemma holds_waiter: "holds L r \<Longrightarrow> w \<noteq> None \<Longrightarrow> holds L (r\<lparr>waiter := w\<rparr>)"
  by (simp add: holds_def ros_valid_def ros_live_def)

lemma ends_modW: "ends (holds L) (\<lambda>_. True) (modW f)"
  unfolding modW_def by (rule ends_mod_end) (auto simp: holds_def ros_valid_def ros_live_def)

lemma ends_add: "ends (holds L) (\<lambda>_. True) (add_handle W h)"
  unfolding add_handle_def by (cases h) (auto intro!: ends_bind [OF ends_any] ends_ret)

lemma ends_adds: "ends (holds L) (\<lambda>_. True) (add_handles W hs)"
  by (induction W hs rule: add_handles.induct) (auto intro!: ends_bind [OF ends_add] ends_bind [where R = "\<lambda>_. True"] ends_ret)

lemma ends_taken_any: "native_free P \<Longrightarrow> ends P (\<lambda>_. True) (taken k m)"
  by (rule ends_mono [OF ends_taken [OF _ takes_any]]) simp_all

lemma ends_wait: "ends (holds L) (\<lambda>_. True) (ros_wait W d)"
proof -
  have body: "ends (holds L) (\<lambda>_. True)
      (bindA (getA handles) (\<lambda>hs.
        bindA (if count_dimensions hs = dimensions w then retA () else
             case count_dimensions hs of (s, c, v) \<Rightarrow>
               bindA (checked (rcl_wait_set_resize (w_rcl W) s c v)) (\<lambda>_.
               modW (\<lambda>w. w\<lparr>dimensions := (s, c, v)\<rparr>))) (\<lambda>_.
         bindA (checked (rcl_wait_set_clear (w_rcl W))) (\<lambda>_.
         bindA (checked (rcl_wait_set_add_guard (w_rcl W))) (\<lambda>_.
         bindA (add_handles W hs) (\<lambda>indices.
         bindA (modW (\<lambda>w. w\<lparr>ready_set := []\<rparr>)) (\<lambda>_.
         bindA (taken RCL_TIMEOUT (rcl_wait (w_rcl W) (int (min d (2 ^ 63 - 1))))) (\<lambda>found. case found of
           None \<Rightarrow> retA ()
         | Some found \<Rightarrow>
             modW (\<lambda>w. w\<lparr>ready_set := map fst (filter (is_ready found) indices)\<rparr>)))))))))" for w
    by (intro ends_get ends_bind [OF ends_any] ends_bind [OF ends_adds] ends_bind [OF ends_modW] ends_bind [OF ends_taken_any]
        ends_bind [where R = "\<lambda>_. True" and m = "if _ then _ else _"])
      (auto intro!: ends_ret ends_bind [OF ends_any] ends_modW split: option.split prod.split)
  then show ?thesis
    unfolding ros_wait_def by (intro ends_get) (auto simp: holds_def ros_valid_def split: option.split)
qed

lemma same_modW: "same counters (modW f)"
  unfolding modW_def by (rule same_counters_mod) simp

lemma same_adds: "same counters (add_handles W hs)"
proof (induction W hs rule: add_handles.induct)
  case (2 W i h hs)
  moreover have "same counters (add_handle W h)"
    unfolding add_handle_def by (cases h) (auto intro!: same_bind same_checked)
  ultimately show ?case by (auto intro!: same_bind)
qed auto

lemma same_wait: "same counters (ros_wait W d)"
  unfolding ros_wait_def
  by (auto intro!: same_bind same_basic same_checked same_modW same_adds same_taken split: option.split prod.split)

lemma wait_steady: "steady (ros_wait W d)"
  by (simp add: steady_def ends_wait same_wait)

lemma wake_steady: "steady (wake_trigger W)"
  unfolding steady_def wake_trigger_def
  by (auto intro!: ends_get ends_ret ends_ignored same_bind same_basic same_ignored split: option.split)

section \<open>Dropping the backend\<close>

lemma destroy_total: "\<exists>t. ros_destroy W e r = (Ok (), t) \<and> handles t = AList.delete e (handles r) \<and> waiter t = waiter r"
  by (cases "map_of (handles r) e")
    (auto simp: ros_destroy_def bindA_def modA_def getA_def retA_def ignored_def delete_idem split: prod.split
      dest!: map_of_eq_None_iff [THEN iffD1])

lemma destroy_all_total:
  "\<exists>t. forA es (ros_destroy W) r = (Ok (), t) \<and> handles t = filter (\<lambda>(k, _). k \<notin> set es) (handles r) \<and> waiter t = waiter r"
proof (induction es arbitrary: r)
  case (Cons e es)
  obtain t where t: "ros_destroy W e r = (Ok (), t)" "handles t = AList.delete e (handles r)" "waiter t = waiter r"
    using destroy_total by blast
  from Cons.IH [of t] t show ?case
    by (auto simp: bindA_def remove_filter split_def intro!: filter_cong)
qed (simp add: retA_def)

lemma drop_total: "\<exists>t. ros_drop W r = (Ok (), t) \<and> handles t = [] \<and> waiter t = None"
proof -
  define free where "free r = bindA (getA (\<lambda>r. keys (handles r))) (\<lambda>ids.
     bindA (forA ids (ros_destroy W)) (\<lambda>_.
     bindA (ignored (rcl_node_fini (w_rcl W))) (\<lambda>_.
     bindA (ignored (rcl_shutdown (w_rcl W))) (\<lambda>_. ignored (rcl_context_fini (w_rcl W)))))) r" for r
  have free: "\<exists>t. free r = (Ok (), t) \<and> handles t = [] \<and> waiter t = None" if "waiter r = None" for r
  proof -
    obtain u where "forA (keys (handles r)) (ros_destroy W) r = (Ok (), u)" "handles u = []" "waiter u = waiter r"
    proof -
      have "filter (\<lambda>(k, _). k \<notin> set (keys (handles r))) (handles r) = []" by (force simp: filter_empty_conv)
      with destroy_all_total [of "keys (handles r)" W r] that show ?thesis by metis
    qed
    then show ?thesis
      using that by (auto simp: free_def bindA_def getA_def ignored_def split: prod.split)
  qed
  show ?thesis
  proof (cases "waiter r")
    case None
    then have "ros_drop W r = free r" by (simp add: ros_drop_def free_def bindA_def getA_def retA_def)
    with free [OF None] show ?thesis by simp
  next
    case (Some w)
    have "\<exists>u. wait_drop W r = (Ok (), u) \<and> waiter u = None"
      by (simp add: wait_drop_def bindA_def modA_def ignored_def split: prod.split)
    then obtain u where u: "wait_drop W r = (Ok (), u)" "waiter u = None" by blast
    have "ros_drop W r = free u" using Some u by (simp add: ros_drop_def free_def bindA_def getA_def)
    with free [OF u(2)] show ?thesis by simp
  qed
qed

end
