(* ===== verification/Frame.thy ===== *)
theory Frame
  imports Dispatch
begin

text \<open>
The frame of the operations of the bridge: what none of them changes, whatever its result. The
  server needs it for the queues of connections that are still on their way to the bridge.
\<close>

section \<open>The frame of the bridge's operations\<close>

text \<open>No operation adds a connection, moves the clock, changes the default timeout, leaves a
  queue inconsistent or opens a closed one, whatever its result; a connection that is dropped has
  its queue closed. Here the queue of connection \<open>i\<close> is at address \<open>i\<close>.\<close>

definition frame :: "nat set \<Rightarrow> nat \<Rightarrow> nat \<Rightarrow> 'b bridge \<Rightarrow> bool" where
  "frame C now limit s \<longleftrightarrow> set (outputs s) \<subseteq> Id_on C \<and>
     (\<forall>a \<in> C. (a, a) \<in> set (outputs s) \<or> sender_closed (queues s a)) \<and>
     clock s = now \<and> timeout s = limit \<and> (\<forall>a. queue_ok (queues s a))"

definition framed :: "('b bridge, 'a) action \<Rightarrow> bool" where
  "framed m \<longleftrightarrow> (\<forall>C now limit s. frame C now limit s \<longrightarrow> frame C now limit (snd (m s)))"

named_theorems framing

lemma framedI: "(\<And>C now limit s. frame C now limit s \<Longrightarrow> frame C now limit (snd (m s))) \<Longrightarrow> framed m"
  by (simp add: framed_def)

lemma framed_bind [framing]:
  assumes "framed m" "\<And>a. framed (f a)"
  shows "framed (bindA m f)"
proof (rule framedI)
  fix C now limit and s :: "'a bridge" assume s: "frame C now limit s"
  obtain r t where m: "m s = (r, t)" by (cases "m s")
  with assms(1) s have "frame C now limit t" unfolding framed_def by (metis snd_conv)
  then show "frame C now limit (snd (bindA m f s))"
    using assms(2) m by (cases r) (auto simp: bindA_def framed_def)
qed

lemma framed_basic [framing]:
  "framed (retA a)" "framed (errA e)" "framed panicA" "framed (liftA r)" "framed (getA g)"
  by (simp_all add: framed_def action_defs split: outcome.split)

lemma framed_mod [framing]: "(\<And>C now limit s. frame C now limit s \<Longrightarrow> frame C now limit (h s)) \<Longrightarrow> framed (modA h)"
  by (simp add: framed_def modA_def)

lemma framed_try [framing]: "framed m \<Longrightarrow> framed (tryA m)"
  unfolding framed_def tryA_def by (auto split: prod.splits outcome.splits) (metis snd_conv)+

lemma framed_for [framing]: "(\<And>x. x \<in> set xs \<Longrightarrow> framed (m x)) \<Longrightarrow> framed (forA xs m)"
  by (induction xs) (auto intro: framing)

lemma framed_onB [framing]: "framed (onB m)"
  by (simp add: framed_def onB_def frame_def split: prod.split)

lemma framed_if [framing]: "(c \<Longrightarrow> framed m) \<Longrightarrow> (\<not> c \<Longrightarrow> framed n) \<Longrightarrow> framed (if c then m else n)"
  by simp

lemma framed_option [framing]: "framed m \<Longrightarrow> (\<And>x. framed (f x)) \<Longrightarrow> framed (case v of None \<Rightarrow> m | Some x \<Rightarrow> f x)"
  by (cases v) auto

lemma framed_sum [framing]: "(\<And>x. framed (f x)) \<Longrightarrow> (\<And>x. framed (g x)) \<Longrightarrow> framed (case v of Inl x \<Rightarrow> f x | Inr x \<Rightarrow> g x)"
  by (cases v) auto

lemma framed_prod [framing]: "(\<And>x y. framed (f x y)) \<Longrightarrow> framed (case v of (x, y) \<Rightarrow> f x y)"
  by (cases v) auto

lemma framed_let [framing]: "(\<And>x. framed (f x)) \<Longrightarrow> framed (let x = v in f x)"
  by (simp add: Let_def)


lemma framed_unique [framing]: "framed unique"
  by (simp add: framed_def unique_def frame_def Let_def)

lemma framed_uuid [framing]: "framed (fresh_uuid E)"
  by (simp add: framed_def fresh_uuid_def frame_def)

lemmas table_updates = put_publisher_def del_publisher_def put_subscription_def del_subscription_def put_call_def
  del_call_def put_service_def del_service_def drop_requests_def put_external_def del_external_def put_goal_def
  put_action_call_def del_goal_def drop_calls_def put_server_def del_server_def put_server_goal_def
  del_server_goal_def del_action_call_def forget_goals_def drop_external_def

lemma framed_tables [framing]:
  "framed (modA (put_publisher n p))" "framed (modA (del_publisher n))" "framed (modA (put_subscription n x))"
  "framed (modA (del_subscription n))" "framed (modA (put_call k c))" "framed (modA (del_call k))"
  "framed (modA (put_service n y))" "framed (modA (del_service n))" "framed (modA (drop_requests e))"
  "framed (modA (put_external i r))" "framed (modA (del_external i))" "framed (modA (put_goal i g))"
  "framed (modA (put_action_call k ac))" "framed (modA (del_goal i))" "framed (modA (drop_calls i))"
  "framed (modA (put_server n a))" "framed (modA (del_server n))" "framed (modA (put_server_goal i sg))"
  "framed (modA (del_server_goal i))" "framed (modA (del_action_call k))" "framed (modA forget_goals)"
  "framed (modA (drop_external e))"
  by (simp_all add: framed_def modA_def frame_def table_updates)

lemma frame_close: "frame C now limit s \<Longrightarrow> frame C now limit (close_output a s)"
  by (auto simp: frame_def close_output_def drop_ok) (auto simp: drop_output_def)

lemma frame_drop_connection: "frame C now limit s \<Longrightarrow> frame C now limit (drop_connection n s)"
proof (cases "map_of (outputs s) n")
  case (Some a)
  assume s: "frame C now limit s"
  with Some have "(n, a) \<in> set (outputs s)" by (simp add: map_of_SomeD)
  with s have "a = n" unfolding frame_def by auto
  with frame_close [OF s, of n] Some show ?thesis
    unfolding frame_def drop_connection_def
    by (auto simp: close_output_def drop_output_def)
qed (simp add: drop_connection_def)

lemma framed_drop_connection [framing]: "framed (modA (drop_connection n))"
  by (simp add: framed_def modA_def frame_drop_connection)

lemma enqueue_closed: "sender_closed s \<Longrightarrow> sender_closed (snd (enqueue Z now c topic L p s))"
  by (simp add: enqueue_def Let_def)

lemma frame_put_queue: "frame C now limit s \<Longrightarrow> queue_ok q \<Longrightarrow> (sender_closed (queues s a) \<Longrightarrow> sender_closed q) \<Longrightarrow>
  frame C now limit (put_queue a q s)"
  by (auto simp: frame_def put_queue_def)

lemma frame_failed: "frame C now limit (mark_failed n s) = frame C now limit s"
  by (simp add: frame_def mark_failed_def)

lemma frame_queue: "frame C now limit s \<Longrightarrow> queue_ok (queues s a)"
  by (simp add: frame_def)

lemma framed_deliver [framing]: "framed (modA (deliver E n a v options binary key))"
proof (rule framedI)
  fix C now limit and s :: "'a bridge" assume s: "frame C now limit s"
  obtain r q where q: "Outgoing.send_request (e_storage E) (clock s) n (if jix v ''op'' = JStr ''publish'' then as_str (jix v ''topic'') else None)
      (opt_queue options) (request_new v binary options key) (queues s a) = (r, q)" by fastforce
  then have "queue_ok q" "sender_closed (queues s a) \<Longrightarrow> sender_closed q"
    using enqueue_ok [OF frame_queue [OF s]] enqueue_closed unfolding Outgoing.send_request_def by (metis snd_conv)+
  then have "frame C now limit (put_queue a q s)" by (rule frame_put_queue [OF s])
  then show "frame C now limit (snd (modA (deliver E n a v options binary key) s))"
    using q by (cases r) (simp_all add: modA_def deliver_def Let_def frame_failed)
qed

lemma framed_drain [framing]: "framed drain_failed" "framed take_due"
  by (simp_all add: framed_def drain_failed_def take_due_def frame_def)

lemma framed_send [framing]: "framed (send E n v i options binary)"
  unfolding send_def by (intro framing)

lemma framed_error [framing]: "framed (error E n v e)"
  unfolding error_def by (intro framing)

lemma framed_resolve [framing]: "framed (resolve E v k kind)"
  unfolding resolve_def by (intro framing)

lemma framed_topics [framing]:
  "framed (advertise E n v)" "framed (unadvertise E n topic i)" "framed (subscription_qos E topic v)"
  "framed (deliver_topic E n topic m options)" 
  unfolding advertise_def unadvertise_def subscription_qos_def deliver_topic_def
  by (intro framing)+

lemma framed_join [framing]: "framed (join_subscription E n topic i options x)"
  unfolding join_subscription_def by (intro framing)

lemma framed_subscriptions [framing]:
  "framed (subscribe E n v)" "framed (unsubscribe E n topic i)" "framed (topic_message E e m)"
  unfolding subscribe_def unsubscribe_def topic_message_def by (intro framing)+

lemma framed_services [framing]:
  "framed (call_service E n v)" "framed (remove_service E n m)" "framed (service_response E n v)"
  "framed (forward_request E e r v)"
  unfolding call_service_def remove_service_def service_response_def forward_request_def
  by (intro framing)+

lemma framed_advertise_service [framing]: "framed (advertise_service E n v)"
  unfolding advertise_service_def by (intro framing)

lemma framed_create [framing]: "(\<And>m. m \<in> set ms \<Longrightarrow> framed m) \<Longrightarrow> framed (create_all ms)"
  by (induction ms) (auto intro!: framing)

lemma framed_destroy [framing]: "framed (destroy_all E es)"
  unfolding destroy_all_def by (intro framing)

lemma framed_creations: "m \<in> set (goal_creations E a t) \<Longrightarrow> framed m" "m \<in> set (server_creations E a t) \<Longrightarrow> framed m"
  by (auto simp: goal_creations_def server_creations_def Let_def intro: framing)

lemma framed_finish_goal [framing]: "framed (finish_goal E key values status success)"
  unfolding finish_goal_def by (intro framing)

lemma framed_server [framing]: "framed (server_of a)"
  by (simp add: framed_def server_of_def split: option.split)

lemma framed_find [framing]: "framed (find_goal n i a)"
  unfolding find_goal_def by (intro framing)

lemma framed_publish_status [framing]: "framed (publish_status E a)"
  unfolding publish_status_def by (intro framing)

lemma framed_answer [framing]: "framed (answer_waiting E key g r rs)"
  by (induction rs) (auto intro!: framing)

lemma framed_goals [framing]: "framed (send_goal E n v)" "framed (cancel_goal E n v)"
  unfolding send_goal_def cancel_goal_def by (intro framing framed_creations; assumption)+

lemma framed_remove_action [framing]: "framed (remove_action E n a)"
  unfolding remove_action_def by (intro framing)

lemma framed_advertise_action [framing]: "framed (advertise_action E n v)"
  unfolding advertise_action_def by (intro framing framed_creations; assumption)

lemma framed_results [framing]: "framed (action_feedback E n v)" "framed (action_result E n v)"
  unfolding action_feedback_def action_result_def by (intro framing)+

lemma framed_cancel [framing]: "framed (cancel_each E u t gs r)"
proof (induction gs arbitrary: r)
  case (Cons x gs)
  obtain k g where "x = (k, g)" by (cases x)
  with Cons show ?case by (simp, intro framing Cons.IH) (unfold cancel_one_def, intro framing)
qed (simp add: framing)

lemma framed_requests [framing]:
  "framed (request_goal E a srv e r v)" "framed (request_result E a e r v)" "framed (request_cancel E a srv e r v)"
  unfolding request_goal_def request_result_def request_cancel_def by (intro framing)+

lemma framed_action_request [framing]: "framed (action_request E e r v)"
  unfolding action_request_def by (intro framing)

lemma framed_publish [framing]: "framed (publish E n v)"
  unfolding publish_def by (intro framing)

lemma framed_operate [framing]: "framed (operate E n v operation)"
  unfolding operate_def by (intro framing)

lemma framed_command: "framed (command E n v)"
  unfolding command_def execute_def by (intro framing)

lemma framed_action_response [framing]: "framed (action_response E c v)"
  unfolding action_response_def by (cases c) (simp_all add: Let_def framing)

lemma framed_response [framing]: "framed (response E e i v)" "framed (service_request E e r v)"
  unfolding response_def service_request_def by (intro framing)+

lemma framed_handle [framing]: "framed (handle E ev)"
  unfolding handle_def by (cases ev) (simp_all add: framing)

lemma framed_expire [framing]: "framed (expire_call E k)" "framed (expire_external E i)"
  unfolding expire_call_def expire_external_def by (intro framing)+

lemma framed_quietly [framing]: "framed m \<Longrightarrow> framed (quietly m)"
  unfolding quietly_def by (intro framing)

lemma framed_abandon [framing]: "framed (abandon_goal E key)" "framed (abandon_call E k)"
  unfolding abandon_goal_def abandon_call_def by (intro framing)+

lemma framed_disconnect [framing]: "framed (disconnect E n)"
  unfolding disconnect_def release_def by (intro framing)

lemma framed_shutdown: "framed (shutdown E)"
  unfolding shutdown_def by (intro framing)

lemma framed_tick: "framed (tick E)"
  unfolding tick_def advance_def by (intro framing)

end
