(* ===== verification/Incoming.thy ===== *)
theory Incoming
  imports Values
begin

text \<open>
  \<^verbatim>\<open>src/incoming.rs\<close>: the command queues between the WebSocket tasks and the ROS worker, one
  FIFO per connection, served round-robin. Every operation holds the mutex, so it is an
  action on the shared state. An \<^verbatim>\<open>Output\<close> is the address of its queue; an operation that
  drops outputs returns them, and a failed \<^verbatim>\<open>connect\<close> drops the one it was given.
\<close>

section \<open>State and operations\<close>

datatype command =
    Connect nat nat
  | Message nat json
  | Disconnect nat
  | Shutdown

record client =
  c_output :: "nat option"
  c_messages :: "json list"
  c_disconnect :: bool
  c_scheduled :: bool

record scheduler =
  clients :: "(nat \<times> client) list"
  ready :: "nat list"
  in_capacity :: nat
  closed :: bool

definition queue_full :: error where
  "queue_full = ''client incoming queue full''"

definition in_channel :: "nat \<Rightarrow> scheduler outcome" where
  "in_channel cap =
     (if cap > 0 then Ok \<lparr>clients = [], ready = [], in_capacity = cap, closed = False\<rparr> else Panic)"

definition put_client :: "nat \<Rightarrow> client \<Rightarrow> scheduler \<Rightarrow> scheduler" where
  "put_client i c s = s\<lparr>clients := AList.update i c (clients s)\<rparr>"

definition schedule :: "nat \<Rightarrow> (scheduler, unit) action" where
  "schedule i s =
     (case map_of (clients s) i of
        None \<Rightarrow> (Panic, s)
      | Some c \<Rightarrow>
          if \<not> c_scheduled c
          then (Ok (), (put_client i (c\<lparr>c_scheduled := True\<rparr>) s)\<lparr>ready := ready s @ [i]\<rparr>)
          else (Ok (), s))"

definition in_connect :: "nat \<Rightarrow> nat \<Rightarrow> (scheduler, unit) action" where
  "in_connect i output s =
     (if closed s then (Err ''ROS command receiver closed'', s)
      else if has (clients s) i then (Err ''duplicate connection'', s)
      else schedule i (put_client i \<lparr>c_output = Some output, c_messages = [],
        c_disconnect = False, c_scheduled = False\<rparr> s))"

definition in_message :: "nat \<Rightarrow> json \<Rightarrow> (scheduler, unit) action" where
  "in_message i v s =
     (if closed s then (Err ''ROS command receiver closed'', s)
      else case map_of (clients s) i of
        None \<Rightarrow> (Err ''connection is not registered'', s)
      | Some c \<Rightarrow>
          if c_disconnect c then (Err ''connection is closing'', s)
          else if length (c_messages c) \<ge> in_capacity s then (Err queue_full, s)
          else schedule i (put_client i (c\<lparr>c_messages := c_messages c @ [v]\<rparr>) s))"

definition in_disconnect :: "nat \<Rightarrow> (scheduler, unit) action" where
  "in_disconnect i s =
     (case map_of (clients s) i of
        None \<Rightarrow> (Ok (), s)
      | Some c \<Rightarrow> schedule i (put_client i (c\<lparr>c_messages := [], c_disconnect := True\<rparr>) s))"

definition held :: "scheduler \<Rightarrow> nat list" where
  "held s = List.map_filter c_output (vals (clients s))"

definition in_shutdown :: "(scheduler, nat list) action" where
  "in_shutdown s = (Ok (held s), s\<lparr>closed := True, clients := [], ready := []\<rparr>)"

definition has_pending :: "scheduler \<Rightarrow> bool" where
  "has_pending s \<longleftrightarrow> closed s \<or> ready s \<noteq> []"

definition in_try_recv :: "(scheduler, command option \<times> nat list) action" where
  "in_try_recv s =
     (if closed s then (Ok (Some Shutdown, []), s)
      else case ready s of
        [] \<Rightarrow> (Ok (None, []), s)
      | i # rest \<Rightarrow>
          (let s1 = s\<lparr>ready := rest\<rparr> in
           case map_of (clients s) i of
             None \<Rightarrow> (Panic, s1)
           | Some c \<Rightarrow>
               if c_disconnect c
               then (Ok (Some (Disconnect i), (case c_output c of None \<Rightarrow> [] | Some q \<Rightarrow> [q])),
                     s1\<lparr>clients := AList.delete i (clients s)\<rparr>)
               else
                 let c1 = c\<lparr>c_scheduled := False\<rparr> in
                 case c_output c of
                   Some q \<Rightarrow>
                     bindA (if c_messages c \<noteq> [] then schedule i else retA ())
                       (\<lambda>_. retA (Some (Connect i q), []))
                       (put_client i (c1\<lparr>c_output := None\<rparr>) s1)
                 | None \<Rightarrow> (case c_messages c of
                     [] \<Rightarrow> (Panic, put_client i c1 s1)
                   | v # vs \<Rightarrow>
                       bindA (if vs \<noteq> [] then schedule i else retA ())
                         (\<lambda>_. retA (Some (Message i v), []))
                         (put_client i (c1\<lparr>c_messages := vs\<rparr>) s1))))"

definition in_drop_receiver :: "(scheduler, nat list) action" where
  "in_drop_receiver s = (Ok (held s), s\<lparr>closed := True, clients := [], ready := []\<rparr>)"

section \<open>The invariant\<close>

text \<open>A client is in the ready queue, once, exactly when it has something to serve.\<close>

definition client_ok :: "nat \<Rightarrow> client \<Rightarrow> bool" where
  "client_ok cap c \<longleftrightarrow> length (c_messages c) \<le> cap \<and> (c_disconnect c \<longrightarrow> c_messages c = []) \<and>
     (c_scheduled c \<longleftrightarrow> c_output c \<noteq> None \<or> c_messages c \<noteq> [] \<or> c_disconnect c)"

definition sched_ok :: "scheduler \<Rightarrow> bool" where
  "sched_ok s \<longleftrightarrow> distinct (keys (clients s)) \<and> distinct (ready s) \<and>
     (\<forall>i. i \<in> set (ready s) \<longleftrightarrow> (\<exists>c. map_of (clients s) i = Some c \<and> c_scheduled c)) \<and>
     (\<forall>i c. map_of (clients s) i = Some c \<longrightarrow> client_ok (in_capacity s) c) \<and>
     (closed s \<longrightarrow> clients s = [] \<and> ready s = [])"

datatype sched_event =
    EConnect nat nat | EMessage nat json | EDisconnect nat | EShutdown | ERecv | EDropReceiver

fun sched_act :: "sched_event \<Rightarrow> (scheduler, command option) action" where
  "sched_act (EConnect i q) = bindA (in_connect i q) (\<lambda>_. retA None)"
| "sched_act (EMessage i v) = bindA (in_message i v) (\<lambda>_. retA None)"
| "sched_act (EDisconnect i) = bindA (in_disconnect i) (\<lambda>_. retA None)"
| "sched_act EShutdown = bindA in_shutdown (\<lambda>_. retA None)"
| "sched_act ERecv = bindA in_try_recv (\<lambda>(c, _). retA c)"
| "sched_act EDropReceiver = bindA in_drop_receiver (\<lambda>_. retA None)"

text \<open>Giving client \<open>i\<close> a value that has work to serve, and scheduling it.\<close>

lemma schedule_put:
  assumes s: "sched_ok s" "\<not> closed s" and c: "client_ok (in_capacity s) (c\<lparr>c_scheduled := True\<rparr>)"
    and i: "i \<in> set (ready s) \<longleftrightarrow> c_scheduled c"
  shows "schedule i (put_client i c s) = (Ok (),
      (put_client i (c\<lparr>c_scheduled := True\<rparr>) s)\<lparr>ready := (if c_scheduled c then ready s else ready s @ [i])\<rparr>)"
    and "sched_ok ((put_client i (c\<lparr>c_scheduled := True\<rparr>) s)
      \<lparr>ready := (if c_scheduled c then ready s else ready s @ [i])\<rparr>)"
proof -
  have eq: "c\<lparr>c_scheduled := True\<rparr> = c" if "c_scheduled c" using that by (cases c) simp
  show "schedule i (put_client i c s) = (Ok (),
      (put_client i (c\<lparr>c_scheduled := True\<rparr>) s)\<lparr>ready := (if c_scheduled c then ready s else ready s @ [i])\<rparr>)"
    by (cases "c_scheduled c") (simp_all add: schedule_def put_client_def eq)
  show "sched_ok ((put_client i (c\<lparr>c_scheduled := True\<rparr>) s)
      \<lparr>ready := (if c_scheduled c then ready s else ready s @ [i])\<rparr>)"
    using assms by (auto simp: sched_ok_def put_client_def)
qed

lemma sched_ok_client: "sched_ok s \<Longrightarrow> map_of (clients s) i = Some c \<Longrightarrow> client_ok (in_capacity s) c"
  by (simp add: sched_ok_def)

lemma sched_ok_ready:
  "sched_ok s \<Longrightarrow> i \<in> set (ready s) \<longleftrightarrow> (\<exists>c. map_of (clients s) i = Some c \<and> c_scheduled c)"
  by (simp add: sched_ok_def)

text \<open>The three senders, on an open queue.\<close>

lemma in_connect_open:
  assumes "sched_ok s" "\<not> closed s" "map_of (clients s) i = None"
  shows "\<exists>t. in_connect i q s = (Ok (), t) \<and> sched_ok t \<and> ready t = ready s @ [i] \<and>
    in_capacity t = in_capacity s \<and> clients t = AList.update i \<lparr>c_output = Some q, c_messages = [],
      c_disconnect = False, c_scheduled = True\<rparr> (clients s)"
proof -
  let ?c = "\<lparr>c_output = Some q, c_messages = [], c_disconnect = False, c_scheduled = False\<rparr>"
  have "client_ok (in_capacity s) (?c\<lparr>c_scheduled := True\<rparr>)" by (simp add: client_ok_def)
  moreover have "i \<in> set (ready s) \<longleftrightarrow> c_scheduled ?c" using assms sched_ok_ready [OF assms(1)] by simp
  ultimately show ?thesis
    using schedule_put [OF assms(1,2), of ?c i] assms by (simp add: in_connect_def has_def put_client_def del: has_keys)
qed

lemma in_message_open:
  assumes "sched_ok s" "\<not> closed s" "map_of (clients s) i = Some c" "\<not> c_disconnect c"
    and "length (c_messages c) < in_capacity s"
  shows "\<exists>t. in_message i v s = (Ok (), t) \<and> sched_ok t \<and> in_capacity t = in_capacity s \<and>
    ready t = (if c_scheduled c then ready s else ready s @ [i]) \<and>
    clients t = AList.update i (c\<lparr>c_messages := c_messages c @ [v], c_scheduled := True\<rparr>) (clients s)"
proof -
  let ?c = "c\<lparr>c_messages := c_messages c @ [v]\<rparr>"
  have "client_ok (in_capacity s) (?c\<lparr>c_scheduled := True\<rparr>)" using assms by (simp add: client_ok_def)
  moreover have "i \<in> set (ready s) \<longleftrightarrow> c_scheduled ?c" using assms sched_ok_ready [OF assms(1)] by simp
  ultimately show ?thesis
    using schedule_put [OF assms(1,2), of ?c i] assms by (simp add: in_message_def put_client_def)
qed

lemma in_disconnect_open:
  assumes "sched_ok s" "map_of (clients s) i = Some c"
  shows "\<exists>t. in_disconnect i s = (Ok (), t) \<and> sched_ok t \<and> in_capacity t = in_capacity s \<and>
    ready t = (if c_scheduled c then ready s else ready s @ [i]) \<and>
    clients t = AList.update i (c\<lparr>c_messages := [], c_disconnect := True, c_scheduled := True\<rparr>) (clients s)"
proof -
  let ?c = "c\<lparr>c_messages := [], c_disconnect := True\<rparr>"
  have "client_ok (in_capacity s) (?c\<lparr>c_scheduled := True\<rparr>)" by (simp add: client_ok_def)
  moreover have "i \<in> set (ready s) \<longleftrightarrow> c_scheduled ?c" using assms sched_ok_ready [OF assms(1)] by simp
  moreover have "\<not> closed s" using assms by (auto simp: sched_ok_def)
  ultimately show ?thesis
    using schedule_put [OF assms(1), of ?c i] assms by (simp add: in_disconnect_def put_client_def)
qed

fun command_conn :: "command \<Rightarrow> nat option" where
  "command_conn (Connect i q) = Some i"
| "command_conn (Message i v) = Some i"
| "command_conn (Disconnect i) = Some i"
| "command_conn Shutdown = None"

lemma sched_ok_served:
  assumes "sched_ok s" "\<not> closed s" "ready s = i # rest" "client_ok (in_capacity s) c"
  shows "sched_ok (s\<lparr>clients := AList.update i c (clients s),
    ready := (if c_scheduled c then rest @ [i] else rest)\<rparr>)"
  using assms unfolding sched_ok_def by (auto; metis set_ConsD list.set_intros)

lemma sched_ok_removed:
  assumes "sched_ok s" "ready s = i # rest"
  shows "sched_ok (s\<lparr>clients := AList.delete i (clients s), ready := rest\<rparr>)"
  using assms unfolding sched_ok_def by (auto; metis set_ConsD list.set_intros)

text \<open>Serving the client at the head of the ready queue.\<close>

definition after_serving :: "nat \<Rightarrow> client \<Rightarrow> nat list \<Rightarrow> scheduler \<Rightarrow> scheduler" where
  "after_serving i c rest s = s\<lparr>clients := AList.update i c (clients s),
     ready := (if c_scheduled c then rest @ [i] else rest)\<rparr>"

lemma serve_bind:
  assumes "\<not> c_scheduled c"
  shows "bindA (if b then schedule i else retA ()) (\<lambda>_. retA x) (put_client i c (s\<lparr>ready := rest\<rparr>)) =
    (Ok x, after_serving i (c\<lparr>c_scheduled := b\<rparr>) rest s)"
proof (cases b)
  case True
  with assms show ?thesis by (simp add: bindA_def schedule_def put_client_def after_serving_def retA_def)
next
  case False
  have eq: "c\<lparr>c_scheduled := False\<rparr> = c" using assms by (cases c) simp
  from False assms show ?thesis by (simp add: retA_def put_client_def after_serving_def eq)
qed

lemma in_try_recv_ready:
  assumes s: "sched_ok s" "\<not> closed s" "ready s = i # rest"
  obtains (disconnect) c where "map_of (clients s) i = Some c" "c_disconnect c"
      "in_try_recv s = (Ok (Some (Disconnect i), (case c_output c of None \<Rightarrow> [] | Some q \<Rightarrow> [q])),
         s\<lparr>clients := AList.delete i (clients s), ready := rest\<rparr>)"
  | (connect) c q where "map_of (clients s) i = Some c" "\<not> c_disconnect c" "c_output c = Some q"
      "in_try_recv s = (Ok (Some (Connect i q), []),
         after_serving i (c\<lparr>c_output := None, c_scheduled := c_messages c \<noteq> []\<rparr>) rest s)"
  | (message) c v vs where "map_of (clients s) i = Some c" "\<not> c_disconnect c" "c_output c = None"
      "c_messages c = v # vs"
      "in_try_recv s = (Ok (Some (Message i v), []),
         after_serving i (c\<lparr>c_messages := vs, c_scheduled := vs \<noteq> []\<rparr>) rest s)"
proof -
  obtain c where c: "map_of (clients s) i = Some c" "c_scheduled c"
    using sched_ok_ready [OF s(1), of i] s(3) by auto
  have ok: "client_ok (in_capacity s) c" by (rule sched_ok_client [OF s(1) c(1)])
  show ?thesis
  proof (cases "c_disconnect c")
    case True
    with c s show ?thesis by (intro disconnect) (simp_all add: in_try_recv_def)
  next
    case nd: False
    show ?thesis
    proof (cases "c_output c")
      case (Some q)
      with c s nd show ?thesis
        by (intro connect [OF c(1) nd Some])
          (simp add: in_try_recv_def Let_def serve_bind)
    next
      case None
      with ok c(2) nd obtain v vs where "c_messages c = v # vs"
        by (cases "c_messages c") (auto simp: client_ok_def)
      with c s nd None show ?thesis
        by (intro message [OF c(1) nd None])
          (simp_all add: in_try_recv_def Let_def serve_bind)
    qed
  qed
qed

lemma after_serving_ok:
  "sched_ok s \<Longrightarrow> \<not> closed s \<Longrightarrow> ready s = i # rest \<Longrightarrow> client_ok (in_capacity s) c \<Longrightarrow>
   sched_ok (after_serving i c rest s)"
  unfolding after_serving_def by (rule sched_ok_served)

lemma after_serving_ready:
  "ready (after_serving i c rest s) = rest @ (if c_scheduled c then [i] else [])"
  "closed (after_serving i c rest s) = closed s"
  by (simp_all add: after_serving_def)

lemma in_try_recv_ok:
  assumes s: "sched_ok s" "\<not> closed s" "ready s = i # rest"
  shows "\<exists>cmd ds t zs. in_try_recv s = (Ok (Some cmd, ds), t) \<and> command_conn cmd = Some i \<and>
    sched_ok t \<and> \<not> closed t \<and> ready t = rest @ zs"
  using s
proof (cases rule: in_try_recv_ready)
  case (disconnect c)
  with sched_ok_removed [OF s(1,3)] s(2) show ?thesis by auto
next
  case (connect c q)
  have "client_ok (in_capacity s) (c\<lparr>c_output := None, c_scheduled := c_messages c \<noteq> []\<rparr>)"
    using sched_ok_client [OF s(1) connect(1)] connect by (simp add: client_ok_def)
  then show ?thesis using after_serving_ok [OF s] connect(4) s(2) by (simp add: after_serving_ready)
next
  case (message c v vs)
  have "client_ok (in_capacity s) (c\<lparr>c_messages := vs, c_scheduled := vs \<noteq> []\<rparr>)"
    using sched_ok_client [OF s(1) message(1)] message by (simp add: client_ok_def)
  then show ?thesis using after_serving_ok [OF s] message(5) s(2) by (simp add: after_serving_ready)
qed

text \<open>A stopped queue stays empty.\<close>

lemma sched_closed:
  assumes "sched_ok s" "closed s"
  shows "\<exists>r. sched_act e s = (r, s) \<and> r \<noteq> Panic"
proof -
  have "clients s = []" "ready s = []" "s\<lparr>closed := True, clients := [], ready := []\<rparr> = s"
    using assms by (cases s, simp add: sched_ok_def)+
  with assms show ?thesis
    by (cases e) (simp_all add: bindA_def retA_def in_connect_def in_message_def in_disconnect_def
        in_shutdown_def in_drop_receiver_def in_try_recv_def)
qed

text \<open>What an event leaves of the ready queue of an open scheduler: serving takes its head,
  the senders only append, stopping empties it.\<close>

lemma sched_act_open:
  assumes s: "sched_ok s" "\<not> closed s" and e: "e \<noteq> EShutdown" "e \<noteq> EDropReceiver"
  shows "\<exists>r t zs. sched_act e s = (r, t) \<and> r \<noteq> Panic \<and> sched_ok t \<and> \<not> closed t \<and>
    ready t = (if e = ERecv then tl (ready s) else ready s) @ zs \<and>
    (case r of Ok (Some cmd) \<Rightarrow> e = ERecv \<and> ready s \<noteq> [] \<and> command_conn cmd = Some (hd (ready s))
             | _ \<Rightarrow> e = ERecv \<longrightarrow> ready s = [])"
proof (cases e)
  case (EConnect i q)
  show ?thesis
  proof (cases "map_of (clients s) i")
    case None
    from in_connect_open [OF s None, of q] obtain t where "in_connect i q s = (Ok (), t)" "sched_ok t" "ready t = ready s @ [i]"
      by blast
    moreover from this s(2) have "\<not> closed t" by (auto simp: sched_ok_def)
    ultimately show ?thesis using EConnect by (auto simp: bindA_def retA_def)
  next
    case (Some c)
    then have "has (clients s) i" by (simp add: has_def del: has_keys)
    with EConnect s show ?thesis by (auto simp: bindA_def in_connect_def simp del: has_keys)
  qed
next
  case (EMessage i v)
  show ?thesis
  proof (cases "\<exists>c. map_of (clients s) i = Some c \<and> \<not> c_disconnect c \<and> length (c_messages c) < in_capacity s")
    case True
    then obtain c where "map_of (clients s) i = Some c" "\<not> c_disconnect c" "length (c_messages c) < in_capacity s" by blast
    from in_message_open [OF s this, of v] obtain t where t: "in_message i v s = (Ok (), t)" "sched_ok t"
      "ready t = (if c_scheduled c then ready s else ready s @ [i])"
      "clients t = AList.update i (c\<lparr>c_messages := c_messages c @ [v], c_scheduled := True\<rparr>) (clients s)" by blast
    then have "clients t \<noteq> []" by (metis AList.update_nonempty)
    with t have "\<not> closed t" by (auto simp: sched_ok_def)
    with t EMessage show ?thesis by (auto simp: bindA_def retA_def)
  next
    case False
    then have "\<exists>m. in_message i v s = (Err m, s)"
      using s by (auto simp: in_message_def split: option.splits)
    with EMessage s show ?thesis by (auto simp: bindA_def)
  qed
next
  case (EDisconnect i)
  show ?thesis
  proof (cases "map_of (clients s) i")
    case None
    with EDisconnect s show ?thesis by (auto simp: bindA_def retA_def in_disconnect_def)
  next
    case (Some c)
    from in_disconnect_open [OF s(1) Some] obtain t where t: "in_disconnect i s = (Ok (), t)" "sched_ok t"
      "ready t = (if c_scheduled c then ready s else ready s @ [i])"
      "clients t = AList.update i (c\<lparr>c_messages := [], c_disconnect := True, c_scheduled := True\<rparr>) (clients s)" by blast
    then have "clients t \<noteq> []" by (metis AList.update_nonempty)
    with t have "\<not> closed t" by (auto simp: sched_ok_def)
    with t EDisconnect show ?thesis by (auto simp: bindA_def retA_def)
  qed
next
  case ERecv
  show ?thesis
  proof (cases "ready s")
    case Nil
    with ERecv s show ?thesis by (auto simp: bindA_def retA_def in_try_recv_def)
  next
    case (Cons i rest)
    from in_try_recv_ok [OF s Cons] obtain cmd ds t zs where "in_try_recv s = (Ok (Some cmd, ds), t)"
      "command_conn cmd = Some i" "sched_ok t" "\<not> closed t" "ready t = rest @ zs" by blast
    with ERecv Cons show ?thesis by (auto simp: bindA_def retA_def)
  qed
qed (use e in auto)

lemma sched_act_ok:
  assumes "sched_ok s"
  shows "fst (sched_act e s) \<noteq> Panic \<and> sched_ok (snd (sched_act e s))"
proof (cases "closed s \<or> e = EShutdown \<or> e = EDropReceiver")
  case True
  with assms sched_closed [OF assms, of e] show ?thesis
    by (auto simp: bindA_def retA_def in_shutdown_def in_drop_receiver_def sched_ok_def)
next
  case False
  with sched_act_open [OF assms, of e] show ?thesis by auto
qed

interpretation incoming: machine sched_ok "\<lambda>e s. snd (sched_act e s)" "\<lambda>_ _. True"
  by unfold_locales (simp add: sched_act_ok)


section \<open>Traces\<close>

text \<open>The commands a run serves, the messages of one connection it accepts and delivers.\<close>

fun served :: "sched_event list \<Rightarrow> scheduler \<Rightarrow> command list" where
  "served [] s = []"
| "served (e # es) s = (case sched_act e s of
     (Ok (Some cmd), t) \<Rightarrow> cmd # served es t
   | (r, t) \<Rightarrow> served es t)"

definition taken_in :: "nat \<Rightarrow> sched_event \<Rightarrow> scheduler \<Rightarrow> json list" where
  "taken_in i e s = (case e of
     EMessage j v \<Rightarrow> if j = i \<and> is_ok (fst (sched_act e s)) then [v] else [] | _ \<Rightarrow> [])"

definition given_out :: "nat \<Rightarrow> sched_event \<Rightarrow> scheduler \<Rightarrow> json list" where
  "given_out i e s = (case fst (sched_act e s) of
     Ok (Some (Message j v)) \<Rightarrow> if j = i then [v] else [] | _ \<Rightarrow> [])"

fun accepted :: "nat \<Rightarrow> sched_event list \<Rightarrow> scheduler \<Rightarrow> json list" where
  "accepted i [] s = []"
| "accepted i (e # es) s = taken_in i e s @ accepted i es (snd (sched_act e s))"

fun delivered :: "nat \<Rightarrow> sched_event list \<Rightarrow> scheduler \<Rightarrow> json list" where
  "delivered i [] s = []"
| "delivered i (e # es) s = given_out i e s @ delivered i es (snd (sched_act e s))"

definition stops :: "sched_event \<Rightarrow> bool" where
  "stops e \<longleftrightarrow> e = EShutdown \<or> e = EDropReceiver"

lemma step_client:
  assumes s: "sched_ok s" "\<not> closed s" and c: "map_of (clients s) i = Some c" "\<not> c_disconnect c"
    and e: "\<not> stops e" "e \<noteq> EDisconnect i"
  shows "\<exists>c'. map_of (clients (snd (sched_act e s))) i = Some c' \<and> \<not> c_disconnect c' \<and>
    c_messages c @ taken_in i e s = given_out i e s @ c_messages c'"
proof (cases e)
  case (EConnect j q)
  show ?thesis
  proof (cases "map_of (clients s) j")
    case None
    with in_connect_open [OF s None, of q] EConnect c show ?thesis
      by (auto simp: bindA_def retA_def taken_in_def given_out_def)
  next
    case (Some d)
    then have "has (clients s) j" by (simp add: has_def del: has_keys)
    with EConnect s c show ?thesis
      by (auto simp: bindA_def in_connect_def taken_in_def given_out_def simp del: has_keys)
  qed
next
  case (EMessage j v)
  show ?thesis
  proof (cases "\<exists>d. map_of (clients s) j = Some d \<and> \<not> c_disconnect d \<and> length (c_messages d) < in_capacity s")
    case True
    then obtain d where d: "map_of (clients s) j = Some d" "\<not> c_disconnect d" "length (c_messages d) < in_capacity s" by blast
    with in_message_open [OF s d, of v] EMessage c show ?thesis
      by (auto simp: bindA_def retA_def taken_in_def given_out_def)
  next
    case False
    then have "\<exists>m. in_message j v s = (Err m, s)"
      using s by (auto simp: in_message_def split: option.splits)
    with EMessage c show ?thesis by (auto simp: bindA_def taken_in_def given_out_def)
  qed
next
  case (EDisconnect j)
  show ?thesis
  proof (cases "map_of (clients s) j")
    case None
    with EDisconnect c show ?thesis
      by (auto simp: bindA_def retA_def in_disconnect_def taken_in_def given_out_def)
  next
    case (Some d)
    with in_disconnect_open [OF s(1) Some] EDisconnect c e(2) show ?thesis
      by (auto simp: bindA_def retA_def taken_in_def given_out_def)
  qed
next
  case ERecv
  show ?thesis
  proof (cases "ready s")
    case Nil
    with ERecv s c show ?thesis
      by (auto simp: bindA_def retA_def in_try_recv_def taken_in_def given_out_def)
  next
    case (Cons j rest)
    from s Cons show ?thesis
      by (cases rule: in_try_recv_ready)
        (use ERecv c in \<open>auto simp: bindA_def retA_def taken_in_def given_out_def after_serving_def\<close>)
  qed
qed (use e in \<open>auto simp: stops_def\<close>)

lemma run_client:
  assumes "sched_ok s" "\<not> closed s" "map_of (clients s) i = Some c" "\<not> c_disconnect c"
    and "\<forall>e \<in> set es. \<not> stops e \<and> e \<noteq> EDisconnect i"
  shows "\<exists>c'. map_of (clients (fold (\<lambda>e s. snd (sched_act e s)) es s)) i = Some c' \<and> \<not> c_disconnect c' \<and>
    c_messages c @ accepted i es s = delivered i es s @ c_messages c'"
  using assms
proof (induction es arbitrary: s c)
  case (Cons e es)
  let ?t = "snd (sched_act e s)"
  have "\<not> stops e" "e \<noteq> EDisconnect i" using Cons.prems(5) by simp_all
  from step_client [OF Cons.prems(1-4) this] obtain d where d: "map_of (clients ?t) i = Some d" "\<not> c_disconnect d"
    "c_messages c @ taken_in i e s = given_out i e s @ c_messages d" by blast
  have t: "sched_ok ?t" using Cons.prems by (simp add: sched_act_ok)
  have "\<not> closed ?t" using sched_act_open [of s e] Cons.prems by (auto simp: stops_def)
  from Cons.IH [OF t this d(1,2)] Cons.prems obtain c' where
    c': "map_of (clients (fold (\<lambda>e s. snd (sched_act e s)) es ?t)) i = Some c'" "\<not> c_disconnect c'"
      "c_messages d @ accepted i es ?t = delivered i es ?t @ c_messages c'" by auto
  then show ?case using d(3) by (intro exI [of _ c']) (simp, metis append_assoc)
qed simp


lemma round_robin_run:
  assumes "sched_ok s" "\<not> closed s" "ready s = xs @ i # ys" "\<forall>e \<in> set es. \<not> stops e"
    and "length xs < length (filter (\<lambda>e. e = ERecv) es)"
  shows "length xs < length (served es s) \<and> command_conn (served es s ! length xs) = Some i"
  using assms
proof (induction es arbitrary: s xs ys)
  case (Cons e es)
  from Cons.prems sched_act_open [of s e] obtain r t zs where st: "sched_act e s = (r, t)" "r \<noteq> Panic" "sched_ok t"
    "\<not> closed t" "ready t = (if e = ERecv then tl (ready s) else ready s) @ zs"
    and r: "case r of Ok (Some cmd) \<Rightarrow> e = ERecv \<and> ready s \<noteq> [] \<and> command_conn cmd = Some (hd (ready s))
             | _ \<Rightarrow> e = ERecv \<longrightarrow> ready s = []"
    by (auto simp: stops_def)
  show ?case
  proof (cases "e = ERecv")
    case True
    with r Cons.prems(3) obtain cmd where cmd: "r = Ok (Some cmd)" "command_conn cmd = Some (hd (xs @ i # ys))"
      by (auto split: outcome.splits option.splits)
    show ?thesis
    proof (cases xs)
      case Nil
      with cmd st show ?thesis by simp
    next
      case (Cons x xs')
      then have "ready t = xs' @ i # ys @ zs" using st(5) True Cons.prems(3) by simp
      from Cons.IH [OF st(3,4) this] Cons.prems(4,5) True Cons st(1) cmd(1) show ?thesis by simp
    qed
  next
    case False
    then have "ready t = xs @ i # ys @ zs" using st(5) Cons.prems(3) by simp
    moreover have "served (e # es) s = served es t"
      using st(1) r False by (auto split: outcome.splits option.splits)
    ultimately show ?thesis using Cons.IH [OF st(3,4)] Cons.prems(4,5) False by simp
  qed
qed simp

text \<open>The commands of one connection.\<close>

definition mine :: "nat \<Rightarrow> command list \<Rightarrow> command list" where
  "mine i cs = filter (\<lambda>c. command_conn c = Some i) cs"

lemma served_step: "mine i (served (e # es) s) =
    (case fst (sched_act e s) of Ok (Some cmd) \<Rightarrow> if command_conn cmd = Some i then [cmd] else [] | _ \<Rightarrow> []) @
    mine i (served es (snd (sched_act e s)))"
  by (cases "sched_act e s") (auto simp: mine_def split: outcome.split option.split)

lemma closing_step:
  assumes s: "sched_ok s" "\<not> closed s" and d: "map_of (clients s) i = Some d" "c_disconnect d" and e: "\<not> stops e"
  shows "if e = ERecv \<and> ready s \<noteq> [] \<and> hd (ready s) = i
    then fst (sched_act e s) = Ok (Some (Disconnect i)) \<and> map_of (clients (snd (sched_act e s))) i = None
    else map_of (clients (snd (sched_act e s))) i = Some d \<and>
      (\<forall>cmd. fst (sched_act e s) = Ok (Some cmd) \<longrightarrow> command_conn cmd \<noteq> Some i)"
proof (cases e)
  case (EConnect j q)
  show ?thesis
  proof (cases "map_of (clients s) j")
    case None
    with in_connect_open [OF s None, of q] EConnect d show ?thesis by (auto simp: bindA_def retA_def)
  next
    case (Some c)
    then have "has (clients s) j" by (simp add: has_def del: has_keys)
    with EConnect s d show ?thesis by (auto simp: bindA_def in_connect_def simp del: has_keys)
  qed
next
  case (EMessage j v)
  show ?thesis
  proof (cases "\<exists>c. map_of (clients s) j = Some c \<and> \<not> c_disconnect c \<and> length (c_messages c) < in_capacity s")
    case True
    then obtain c where c: "map_of (clients s) j = Some c" "\<not> c_disconnect c" "length (c_messages c) < in_capacity s" by blast
    with in_message_open [OF s c, of v] EMessage d show ?thesis by (auto simp: bindA_def retA_def)
  next
    case False
    then have "\<exists>m. in_message j v s = (Err m, s)" using s by (auto simp: in_message_def split: option.splits)
    with EMessage d show ?thesis by (auto simp: bindA_def)
  qed
next
  case (EDisconnect j)
  have same: "d\<lparr>c_messages := [], c_disconnect := True, c_scheduled := True\<rparr> = d"
    using sched_ok_client [OF s(1) d(1)] d(2) by (cases d) (simp add: client_ok_def)
  show ?thesis
  proof (cases "map_of (clients s) j")
    case None
    with EDisconnect d show ?thesis by (auto simp: bindA_def retA_def in_disconnect_def)
  next
    case (Some c)
    with in_disconnect_open [OF s(1) Some] EDisconnect d same show ?thesis by (auto simp: bindA_def retA_def)
  qed
next
  case ERecv
  show ?thesis
  proof (cases "ready s")
    case Nil
    with ERecv s d show ?thesis by (auto simp: bindA_def retA_def in_try_recv_def)
  next
    case (Cons j rest)
    from s Cons show ?thesis
      by (cases rule: in_try_recv_ready) (use ERecv Cons d in \<open>auto simp: bindA_def retA_def after_serving_def\<close>)
  qed
qed (use e in \<open>auto simp: stops_def\<close>)

lemma gone_step:
  assumes s: "sched_ok s" "\<not> closed s" and d: "map_of (clients s) i = None" and e: "\<not> stops e" "\<And>q. e \<noteq> EConnect i q"
  shows "map_of (clients (snd (sched_act e s))) i = None \<and>
    (\<forall>cmd. fst (sched_act e s) = Ok (Some cmd) \<longrightarrow> command_conn cmd \<noteq> Some i)"
proof (cases e)
  case (EConnect j q)
  show ?thesis
  proof (cases "map_of (clients s) j")
    case None
    with in_connect_open [OF s None, of q] EConnect d e(2) [of q] show ?thesis by (auto simp: bindA_def retA_def)
  next
    case (Some c)
    then have "has (clients s) j" by (simp add: has_def del: has_keys)
    with EConnect s d show ?thesis by (auto simp: bindA_def in_connect_def simp del: has_keys)
  qed
next
  case (EMessage j v)
  show ?thesis
  proof (cases "\<exists>c. map_of (clients s) j = Some c \<and> \<not> c_disconnect c \<and> length (c_messages c) < in_capacity s")
    case True
    then obtain c where c: "map_of (clients s) j = Some c" "\<not> c_disconnect c" "length (c_messages c) < in_capacity s" by blast
    with in_message_open [OF s c, of v] EMessage d show ?thesis by (auto simp: bindA_def retA_def)
  next
    case False
    then have "\<exists>m. in_message j v s = (Err m, s)" using s by (auto simp: in_message_def split: option.splits)
    with EMessage d show ?thesis by (auto simp: bindA_def)
  qed
next
  case (EDisconnect j)
  show ?thesis
  proof (cases "map_of (clients s) j")
    case None
    with EDisconnect d show ?thesis by (auto simp: bindA_def retA_def in_disconnect_def)
  next
    case (Some c)
    with in_disconnect_open [OF s(1) Some] EDisconnect d show ?thesis by (auto simp: bindA_def retA_def)
  qed
next
  case ERecv
  show ?thesis
  proof (cases "ready s")
    case Nil
    with ERecv s d show ?thesis by (auto simp: bindA_def retA_def in_try_recv_def)
  next
    case (Cons j rest)
    from s Cons show ?thesis
      by (cases rule: in_try_recv_ready) (use ERecv Cons d in \<open>auto simp: bindA_def retA_def after_serving_def\<close>)
  qed
qed (use e in \<open>auto simp: stops_def\<close>)

lemma step_open: "sched_ok s \<Longrightarrow> \<not> closed s \<Longrightarrow> \<not> stops e \<Longrightarrow> sched_ok (snd (sched_act e s)) \<and> \<not> closed (snd (sched_act e s))"
  using sched_act_open [of s e] by (auto simp: stops_def)

lemma gone_run:
  assumes "sched_ok s" "\<not> closed s" "map_of (clients s) i = None" "\<forall>e \<in> set es. \<not> stops e \<and> (\<forall>q. e \<noteq> EConnect i q)"
  shows "mine i (served es s) = [] \<and> map_of (clients (fold (\<lambda>e s. snd (sched_act e s)) es s)) i = None"
  using assms
proof (induction es arbitrary: s)
  case Nil
  then show ?case by (simp add: mine_def)
next
  case (Cons e es)
  from Cons.prems have e: "\<not> stops e" "e \<noteq> EConnect i q" for q by auto
  note st = gone_step [OF Cons.prems(1-3) e] and op = step_open [OF Cons.prems(1,2) e(1)]
  from Cons.IH [of "snd (sched_act e s)"] op st Cons.prems(4) show ?case
    by (auto simp: served_step simp del: served.simps split: outcome.split option.split)
qed

lemma closing_run:
  assumes "sched_ok s" "\<not> closed s" "map_of (clients s) i = Some d" "c_disconnect d"
    and "\<forall>e \<in> set es. \<not> stops e \<and> (\<forall>q. e \<noteq> EConnect i q)"
  shows "let u = fold (\<lambda>e s. snd (sched_act e s)) es s in sched_ok u \<and> \<not> closed u \<and>
    (mine i (served es s) = [] \<and> map_of (clients u) i = Some d \<or> mine i (served es s) = [Disconnect i] \<and> map_of (clients u) i = None)"
  using assms
proof (induction es arbitrary: s)
  case Nil
  then show ?case by (simp add: mine_def)
next
  case (Cons e es)
  from Cons.prems have e: "\<not> stops e" "e \<noteq> EConnect i q" for q by auto
  note st = closing_step [OF Cons.prems(1-4) e(1)] and op = step_open [OF Cons.prems(1,2) e(1)]
  let ?t = "snd (sched_act e s)"
  have ops: "sched_ok u \<Longrightarrow> \<not> closed u \<Longrightarrow> \<forall>e \<in> set es. \<not> stops e \<Longrightarrow>
      sched_ok (fold (\<lambda>e s. snd (sched_act e s)) es u) \<and> \<not> closed (fold (\<lambda>e s. snd (sched_act e s)) es u)" for es u
    by (induction es arbitrary: u) (auto simp: step_open)
  show ?case
  proof (cases "e = ERecv \<and> ready s \<noteq> [] \<and> hd (ready s) = i")
    case True
    with st have r: "fst (sched_act e s) = Ok (Some (Disconnect i))" "map_of (clients ?t) i = None" by auto
    with gone_run [of ?t i es] op ops [of ?t es] Cons.prems(5) show ?thesis
      by (simp add: served_step Let_def del: served.simps)
  next
    case False
    with st have r: "map_of (clients ?t) i = Some d" "\<And>cmd. fst (sched_act e s) = Ok (Some cmd) \<Longrightarrow> command_conn cmd \<noteq> Some i"
      by auto
    have "mine i (served (e # es) s) = mine i (served es ?t)"
      using r(2) by (auto simp: served_step simp del: served.simps split: outcome.split option.split)
    with Cons.IH [of ?t] op r(1) Cons.prems(4,5) show ?thesis by simp
  qed
qed

text \<open>An instance: one connection to announce, one with a message.\<close>

definition sample_scheduler :: scheduler where
  "sample_scheduler = \<lparr>clients =
       [(7, \<lparr>c_output = None, c_messages = [JNull], c_disconnect = False, c_scheduled = True\<rparr>),
        (8, \<lparr>c_output = Some 3, c_messages = [], c_disconnect = False, c_scheduled = True\<rparr>)],
     ready = [7, 8], in_capacity = 2, closed = False\<rparr>"

lemma sample_scheduler_ok: "sched_ok sample_scheduler" "\<not> closed sample_scheduler"
  by (auto simp: sample_scheduler_def sched_ok_def client_ok_def)

section \<open>Properties\<close>

text \<open>
  C17. The scheduler never panics, and whatever the sockets and the worker do, a connection is in
  the ready queue exactly once when it has something to serve and never otherwise, with at
  most \<open>capacity\<close> messages waiting.
\<close>

theorem scheduler_sound:
  assumes "in_channel cap = Ok s"
  shows "sched_ok (fold (\<lambda>e s. snd (sched_act e s)) es s) \<and>
    fst (sched_act e (fold (\<lambda>e s. snd (sched_act e s)) es s)) \<noteq> Panic"
proof -
  have s: "sched_ok s" using assms by (auto simp: in_channel_def sched_ok_def split: if_splits)
  have "incoming.admissible es t" for t by (induction es arbitrary: t) auto
  from incoming.run_inv [OF s this] show ?thesis
    by (simp add: incoming.run_fold sched_act_ok)
qed

theorem scheduler_sound_witness:
  "\<exists>s. in_channel 2 = Ok s \<and>
    sched_ok (fold (\<lambda>e s. snd (sched_act e s)) [EConnect 1 0, EMessage 1 JNull, ERecv] s) \<and>
    fst (sched_act ERecv (fold (\<lambda>e s. snd (sched_act e s)) [EConnect 1 0, EMessage 1 JNull, ERecv] s)) \<noteq> Panic"
proof -
  obtain s where s: "in_channel 2 = Ok s" by (simp add: in_channel_def)
  from scheduler_sound [OF this] s show ?thesis by blast
qed

text \<open>
  C16. Round robin: a connection behind \<open>k\<close> others in the ready queue is served by the
  \<open>(k + 1)\<close>-th receive, whatever is connected, sent and disconnected in between.
\<close>

theorem round_robin:
  assumes "sched_ok s" "\<not> closed s" "ready s = xs @ i # ys" "\<forall>e \<in> set es. \<not> stops e"
    and "length xs < length (filter (\<lambda>e. e = ERecv) es)"
  shows "length xs < length (served es s) \<and> command_conn (served es s ! length xs) = Some i"
  by (rule round_robin_run [OF assms])

theorem round_robin_witness:
  "length [7::nat] < length (served [ERecv, EMessage 7 JNull, ERecv] sample_scheduler) \<and>
   command_conn (served [ERecv, EMessage 7 JNull, ERecv] sample_scheduler ! length [7::nat]) = Some 8"
  by (rule round_robin [OF sample_scheduler_ok]) (simp_all add: sample_scheduler_def stops_def)

text \<open>
  C15. First in, first out, and nothing lost: until a connection is disconnected or the queue
  stopped, the messages waiting and accepted are, in order, those delivered and those still
  waiting.
\<close>

theorem connection_fifo:
  assumes "sched_ok s" "\<not> closed s" "map_of (clients s) i = Some c" "\<not> c_disconnect c"
    and "\<forall>e \<in> set es. \<not> stops e \<and> e \<noteq> EDisconnect i"
  shows "\<exists>c'. map_of (clients (fold (\<lambda>e s. snd (sched_act e s)) es s)) i = Some c' \<and>
    c_messages c @ accepted i es s = delivered i es s @ c_messages c'"
  using run_client [OF assms] by blast

theorem connection_fifo_witness:
  "\<exists>c'. map_of (clients (fold (\<lambda>e s. snd (sched_act e s)) [EMessage 7 (JBool True), ERecv, EDisconnect 8] sample_scheduler)) 7 = Some c' \<and>
    [JNull] @ accepted 7 [EMessage 7 (JBool True), ERecv, EDisconnect 8] sample_scheduler =
      delivered 7 [EMessage 7 (JBool True), ERecv, EDisconnect 8] sample_scheduler @ c_messages c'"
proof -
  let ?c = "\<lparr>c_output = None, c_messages = [JNull], c_disconnect = False, c_scheduled = True\<rparr>"
  have c: "map_of (clients sample_scheduler) 7 = Some ?c" by (simp add: sample_scheduler_def)
  have es: "\<forall>e \<in> set [EMessage 7 (JBool True), ERecv, EDisconnect 8]. \<not> stops e \<and> e \<noteq> EDisconnect 7"
    by (simp add: stops_def)
  have "\<not> c_disconnect ?c" by simp
  from connection_fifo [OF sample_scheduler_ok c this es] show ?thesis
    unfolding client.select_convs .
qed

text \<open>
  C18. After a disconnect the messages the connection had queued are gone, and whatever the sockets and
  the worker do next, the only command served for it is its \<open>Disconnect\<close>: once, and not later than its
  place in the ready queue says. If it was never announced, its output is dropped by that receive. The
  connection numbers of the server are never used again, so no later event connects it.
\<close>

theorem disconnect_last:
  assumes s: "sched_ok s" "map_of (clients s) i = Some c"
    and t: "in_disconnect i s = (r, t)" and es: "\<forall>e \<in> set es. \<not> stops e \<and> (\<forall>q. e \<noteq> EConnect i q)"
  shows "r = Ok () \<and> (let u = fold (\<lambda>e s. snd (sched_act e s)) es t; n = length (filter (\<lambda>e. e = ERecv) es) in
    (\<exists>k < length (ready t). ready t ! k = i \<and> (k < n \<longrightarrow> mine i (served es t) = [Disconnect i])) \<and>
    (mine i (served es t) = [Disconnect i] \<and> map_of (clients u) i = None \<or>
     mine i (served es t) = [] \<and> (\<exists>d. map_of (clients u) i = Some d \<and> c_messages d = []) \<and>
     (\<forall>rest. ready u = i # rest \<longrightarrow> (\<exists>v. in_try_recv u =
       (Ok (Some (Disconnect i), case c_output c of None \<Rightarrow> [] | Some q \<Rightarrow> [q]), v) \<and> map_of (clients v) i = None))))"
proof -
  let ?d = "c\<lparr>c_messages := [], c_disconnect := True, c_scheduled := True\<rparr>"
  let ?u = "fold (\<lambda>e s. snd (sched_act e s)) es t"
  from in_disconnect_open [OF s] t have t': "r = Ok ()" "sched_ok t" "clients t = AList.update i ?d (clients s)" by auto
  then have d: "map_of (clients t) i = Some ?d" by simp
  have "clients t \<noteq> []" using t'(3) by (metis AList.update_nonempty)
  with t'(2) have o: "\<not> closed t" by (auto simp: sched_ok_def)
  have "i \<in> set (ready t)" using sched_ok_ready [OF t'(2)] d by auto
  then obtain k where k: "k < length (ready t)" "ready t ! k = i" by (auto simp: in_set_conv_nth)
  have run: "sched_ok ?u" "\<not> closed ?u" "mine i (served es t) = [] \<and> map_of (clients ?u) i = Some ?d \<or>
      mine i (served es t) = [Disconnect i] \<and> map_of (clients ?u) i = None"
    using closing_run [OF t'(2) o d _ es] by (simp_all add: Let_def)
  have "mine i (served es t) = [Disconnect i]" if n: "k < length (filter (\<lambda>e. e = ERecv) es)"
  proof -
    have split: "ready t = take k (ready t) @ i # drop (Suc k) (ready t)" using k by (metis id_take_nth_drop)
    have "\<forall>e \<in> set es. \<not> stops e" using es by blast
    from round_robin_run [OF t'(2) o split this] n k(1)
    have "command_conn (served es t ! k) = Some i" "k < length (served es t)" by auto
    then have "served es t ! k \<in> set (mine i (served es t))" by (simp add: mine_def)
    then have "mine i (served es t) \<noteq> []" by auto
    with run(3) show ?thesis by blast
  qed
  moreover have "\<exists>v. in_try_recv ?u = (Ok (Some (Disconnect i), case c_output c of None \<Rightarrow> [] | Some q \<Rightarrow> [q]), v) \<and> map_of (clients v) i = None"
    if "map_of (clients ?u) i = Some ?d" "ready ?u = i # rest" for rest
    using run(1,2) that(2) by (cases rule: in_try_recv_ready) (use that(1) in auto)
  ultimately show ?thesis using t'(1) k run(3) unfolding Let_def by fastforce
qed

theorem disconnect_last_witness:
  "\<exists>t. in_disconnect 8 sample_scheduler = (Ok (), t) \<and>
    mine 8 (served [EMessage 8 JNull, ERecv, ERecv, ERecv] t) = [Disconnect 8]"
proof -
  let ?c = "\<lparr>c_output = Some 3, c_messages = [], c_disconnect = False, c_scheduled = True\<rparr>"
  have c: "map_of (clients sample_scheduler) 8 = Some ?c" by (simp add: sample_scheduler_def)
  obtain r t where t: "in_disconnect 8 sample_scheduler = (r, t)" by (cases "in_disconnect 8 sample_scheduler")
  then have "ready t = [7, 8]"
    by (auto simp: in_disconnect_def sample_scheduler_def schedule_def put_client_def)
  moreover have "\<forall>e \<in> set [EMessage 8 JNull, ERecv, ERecv, ERecv]. \<not> stops e \<and> (\<forall>q. e \<noteq> EConnect 8 q)" by (simp add: stops_def)
  ultimately show ?thesis
    using disconnect_last [OF sample_scheduler_ok(1) c t, of "[EMessage 8 JNull, ERecv, ERecv, ERecv]"] t
    by (auto simp: Let_def)
qed

end
