(* ===== verification/Server.thy ===== *)
theory Server
  imports System Waiting Frame Incoming
begin

text \<open>
\<^verbatim>\<open>src/server.rs\<close>: the worker thread that owns the bridge, the tasks of the connections that send it
  commands and take from their queues, and the server that starts and stops them. The tasks share the
  command queues, the send queues and the wake-up of the backend, each behind a lock; one action here
  is what a task does between two points where others may run.
\<close>

section \<open>State\<close>

text \<open>Where the worker thread is: in \<^verbatim>\<open>backend.wait\<close>, at the \<open>n\<close>-th command of a round, in
  \<^verbatim>\<open>bridge.tick\<close>, or gone with its result. A connection is in its handshake, in its session, in its
  closing handshake, or over.\<close>

datatype phase = Waits | Receives nat | Ticks | Gone "error option"

datatype stage = Unknown | Handshake | Session | Closing | Over

record 'w server =
  the_bridge :: "'w node bridge"
  incoming :: scheduler
  phase :: phase
  accepted :: nat
  stages :: "nat \<Rightarrow> stage"
  accepting :: bool

definition on_bridge :: "('w node bridge, 'a) action \<Rightarrow> ('w server, 'a) action" where
  "on_bridge m s = (case m (the_bridge s) of (r, b) \<Rightarrow> (r, s\<lparr>the_bridge := b\<rparr>))"

definition on_incoming :: "(scheduler, 'a) action \<Rightarrow> ('w server, 'a) action" where
  "on_incoming m s = (case m (incoming s) of (r, q) \<Rightarrow> (r, s\<lparr>incoming := q\<rparr>))"

section \<open>Sending to the worker\<close>

definition wake_worker :: "'w world \<Rightarrow> ('w server, unit) action" where
  "wake_worker W = on_bridge (onB (onN (wake_trigger W)))"

definition drop_outputs :: "nat list \<Rightarrow> ('w server, unit) action" where
  "drop_outputs qs = on_bridge (modA (fold close_output qs))"

text \<open>\<^verbatim>\<open>Sender::try_send\<close>. The queue of connection \<open>i\<close> is at address \<open>i\<close>; a refused \<^verbatim>\<open>Connect\<close>
  drops its output.\<close>

fun try_send :: "'w world \<Rightarrow> command \<Rightarrow> ('w server, unit) action" where
  "try_send W (Connect i q) = bindA (tryA (on_incoming (in_connect i q))) (\<lambda>r. case r of
     Inl e \<Rightarrow> bindA (drop_outputs [q]) (\<lambda>_. errA e)
   | Inr _ \<Rightarrow> wake_worker W)"
| "try_send W (Message i v) = bindA (on_incoming (in_message i v)) (\<lambda>_. wake_worker W)"
| "try_send W (Disconnect i) = bindA (on_incoming (in_disconnect i)) (\<lambda>_. wake_worker W)"
| "try_send W Shutdown = bindA (on_incoming in_shutdown) (\<lambda>qs. bindA (drop_outputs qs) (\<lambda>_. wake_worker W))"

section \<open>The worker\<close>

definition wait_time :: "'w server \<Rightarrow> nat" where
  "wait_time s = (if has_pending (incoming s) then 0 else next_wakeup (the_bridge s))"

definition worker_wait :: "'w world \<Rightarrow> ('w server, unit) action" where
  "worker_wait W = bindA (getA wait_time) (\<lambda>d. on_bridge (onB (onN (ros_wait W d))))"

text \<open>One command; the result is where the worker goes next. The wake-up before the last command of a
  round keeps the next wait from sleeping over what is still queued.\<close>

fun obey :: "'w node env \<Rightarrow> nat \<Rightarrow> command \<Rightarrow> ('w server, phase) action" where
  "obey E k (Connect i q) = bindA (on_bridge (modA (connect i q))) (\<lambda>_. retA (Receives (k + 1)))"
| "obey E k (Message i v) = bindA (on_bridge (command E i v)) (\<lambda>_. retA (Receives (k + 1)))"
| "obey E k (Disconnect i) = bindA (on_bridge (disconnect E i)) (\<lambda>_. retA (Receives (k + 1)))"
| "obey E k Shutdown = bindA (on_bridge (shutdown E)) (\<lambda>_. retA (Gone None))"

definition worker_receive :: "'w world \<Rightarrow> 'w node env \<Rightarrow> nat \<Rightarrow> ('w server, phase) action" where
  "worker_receive W E k =
     (if k \<ge> 64 then retA Ticks
      else
        bindA (if k = 63 then wake_worker W else retA ()) (\<lambda>_.
        bindA (on_incoming in_try_recv) (\<lambda>(c, qs).
        bindA (drop_outputs qs) (\<lambda>_. case c of None \<Rightarrow> retA Ticks | Some c \<Rightarrow> obey E k c))))"

text \<open>The end of the thread: the bridge is dropped with its backend and its outputs, then the receiver
  of the commands.\<close>

definition drop_bridge :: "'w world \<Rightarrow> ('w node bridge, unit) action" where
  "drop_bridge W = bindA (onB (onN (ros_drop W))) (\<lambda>_.
     modA (\<lambda>s. (fold close_output (vals (outputs s)) s)\<lparr>outputs := []\<rparr>))"

definition worker_end :: "'w world \<Rightarrow> ('w server, unit) action" where
  "worker_end W = bindA (on_bridge (drop_bridge W)) (\<lambda>_. bindA (on_incoming in_drop_receiver) drop_outputs)"

definition go_on :: "'w world \<Rightarrow> phase \<Rightarrow> ('w server, unit) action" where
  "go_on W p = bindA (case p of Gone _ \<Rightarrow> worker_end W | _ \<Rightarrow> retA ()) (\<lambda>_. modA (\<lambda>s. s\<lparr>phase := p\<rparr>))"

definition worker_turn :: "'w world \<Rightarrow> 'w node env \<Rightarrow> ('w server, unit) action" where
  "worker_turn W E = bindA (getA phase) (\<lambda>p. case p of
     Waits \<Rightarrow> bindA (tryA (worker_wait W)) (\<lambda>r. go_on W (case r of Inl e \<Rightarrow> Gone (Some e) | Inr _ \<Rightarrow> Receives 0))
   | Receives k \<Rightarrow> bindA (worker_receive W E k) (go_on W)
   | Ticks \<Rightarrow> bindA (tryA (on_bridge (tick E))) (\<lambda>r. go_on W (case r of Inl e \<Rightarrow> Gone (Some e) | Inr _ \<Rightarrow> Waits))
   | Gone _ \<Rightarrow> retA ())"

section \<open>The connections\<close>

definition set_stage :: "nat \<Rightarrow> stage \<Rightarrow> ('w server, unit) action" where
  "set_stage i g = modA (\<lambda>s. s\<lparr>stages := (stages s)(i := g)\<rparr>)"

definition accept :: "('w server, unit) action" where
  "accept = bindA (modA (\<lambda>s. s\<lparr>accepted := accepted s + 1\<rparr>)) (\<lambda>_.
     bindA (getA accepted) (\<lambda>i. set_stage i Handshake))"

text \<open>What \<^verbatim>\<open>connection\<close> does after the handshake, up to its session; a refused registration leaves
  a session whose output is closed.\<close>

definition register :: "'w world \<Rightarrow> nat \<Rightarrow> nat \<Rightarrow> nat \<Rightarrow> ('w server, unit) action" where
  "register W cap limit i =
     bindA (liftA (channel_with_limits cap limit)) (\<lambda>q.
     bindA (on_bridge (modA (put_queue i q))) (\<lambda>_.
     bindA (tryA (try_send W (Connect i i))) (\<lambda>_. set_stage i Session)))"

text \<open>What the session does with the receiving side of its queue.\<close>

definition transmit :: "storage \<Rightarrow> queue_event \<Rightarrow> nat \<Rightarrow> ('w server, unit) action" where
  "transmit Z ev i = on_bridge (modA (\<lambda>s. put_queue i (queue_step Z ev (queues s i)) s))"

definition end_session :: "nat \<Rightarrow> ('w server, unit) action" where
  "end_session i = bindA (on_bridge (modA (\<lambda>s. put_queue i (drop_receiver (queues s i)) s))) (\<lambda>_. set_stage i Closing)"

text \<open>The end of \<^verbatim>\<open>connection\<close>: its own \<^verbatim>\<open>Disconnect\<close>, and that of the registration guard.\<close>

definition leave :: "'w world \<Rightarrow> nat \<Rightarrow> ('w server, unit) action" where
  "leave W i = bindA (tryA (try_send W (Disconnect i))) (\<lambda>_.
     bindA (tryA (try_send W (Disconnect i))) (\<lambda>_. set_stage i Over))"

section \<open>The tasks together\<close>

datatype server_event =
    Work
  | Accept
  | Refuse nat
  | Register nat
  | Arrive nat json
  | Transmit nat queue_event
  | End nat
  | Leave nat
  | Stop
  | Elapse nat

record limits =
  write_queue :: nat
  write_bytes :: nat

fun server_act :: "'w world \<Rightarrow> 'w node env \<Rightarrow> limits \<Rightarrow> server_event \<Rightarrow> ('w server, unit) action" where
  "server_act W E l Work = worker_turn W E"
| "server_act W E l Accept = accept"
| "server_act W E l (Refuse i) = set_stage i Over"
| "server_act W E l (Register i) = register W (write_queue l) (write_bytes l) i"
| "server_act W E l (Arrive i v) = try_send W (Message i v)"
| "server_act W E l (Transmit i ev) = transmit (e_storage E) ev i"
| "server_act W E l (End i) = end_session i"
| "server_act W E l (Leave i) = leave W i"
| "server_act W E l Stop = bindA (modA (\<lambda>s. s\<lparr>accepting := False\<rparr>)) (\<lambda>_. try_send W Shutdown)"
| "server_act W E l (Elapse t) = on_bridge (modA (\<lambda>s. s\<lparr>clock := clock s + t\<rparr>))"

end
