(* ===== verification/Server_Tasks.thy ===== *)
theory Server_Tasks
  imports Server
begin

text \<open>
Every reachable state of the server: what the tasks of the connections and the worker keep, in
  whatever order they run.
\<close>

section \<open>The command queues\<close>

text \<open>The connections whose output has not reached the bridge.\<close>

definition in_transit :: "scheduler \<Rightarrow> nat set" where
  "in_transit q = {i. \<exists>c. map_of (clients q) i = Some c \<and> c_output c \<noteq> None}"

text \<open>Every client is known, holds its own output and messages that are in range.\<close>

definition carries :: "nat set \<Rightarrow> (json \<Rightarrow> bool) \<Rightarrow> scheduler \<Rightarrow> bool" where
  "carries K M q \<longleftrightarrow> sched_ok q \<and> (\<forall>i c. map_of (clients q) i = Some c \<longrightarrow>
     i \<in> K \<and> (\<forall>a. c_output c = Some a \<longrightarrow> a = i) \<and> (\<forall>v \<in> set (c_messages c). M v))"

lemma carries_mono: "carries K M q \<Longrightarrow> K \<subseteq> K' \<Longrightarrow> carries K' M q"
  by (auto simp: carries_def)

lemma carries_update:
  assumes "carries K M q" "sched_ok t" "clients t = AList.update i c (clients q)" "i \<in> K"
    "\<And>a. c_output c = Some a \<Longrightarrow> a = i" "\<And>v. v \<in> set (c_messages c) \<Longrightarrow> M v"
  shows "carries K M t" "in_transit t = (if c_output c = None then in_transit q - {i} else insert i (in_transit q))"
  using assms by (auto simp: carries_def in_transit_def split: if_splits)

lemma connect_carries:
  assumes "carries K M q" "i \<in> K"
  shows "\<exists>r t. in_connect i i q = (r, t) \<and> carries K M t \<and>
    (r = Ok () \<and> i \<notin> in_transit q \<and> in_transit t = insert i (in_transit q) \<or> (\<exists>e. r = Err e) \<and> t = q)"
proof (cases "closed q \<or> has (clients q) i")
  case True
  then show ?thesis using assms by (auto simp: in_connect_def simp del: has_keys)
next
  case False
  then have n: "map_of (clients q) i = None" by (simp add: has_def del: has_keys)
  obtain t where t: "in_connect i i q = (Ok (), t)" "sched_ok t"
    "clients t = AList.update i \<lparr>c_output = Some i, c_messages = [], c_disconnect = False, c_scheduled = True\<rparr> (clients q)"
    using in_connect_open [OF _ _ n, of i] assms(1) False unfolding carries_def by blast
  from carries_update [OF assms(1) t(2,3) assms(2)] t(1) n show ?thesis by (auto simp: in_transit_def)
qed

lemma message_carries:
  assumes "carries K M q" "M v"
  shows "\<exists>r t. in_message i v q = (r, t) \<and> r \<noteq> Panic \<and> carries K M t \<and> in_transit t = in_transit q"
proof (cases "closed q \<or> \<not> (\<exists>c. map_of (clients q) i = Some c \<and> \<not> c_disconnect c \<and> length (c_messages c) < in_capacity q)")
  case True
  then have "\<exists>e. in_message i v q = (Err e, q)" by (auto simp: in_message_def split: option.splits)
  then show ?thesis using assms by auto
next
  case False
  then obtain c where c: "map_of (clients q) i = Some c" "\<not> c_disconnect c" "length (c_messages c) < in_capacity q" by blast
  have k: "i \<in> K" "\<And>a. c_output c = Some a \<Longrightarrow> a = i" "\<And>x. x \<in> set (c_messages c) \<Longrightarrow> M x"
    using assms(1) c(1) unfolding carries_def by blast+
  obtain t where t: "in_message i v q = (Ok (), t)" "sched_ok t"
    "clients t = AList.update i (c\<lparr>c_messages := c_messages c @ [v], c_scheduled := True\<rparr>) (clients q)"
    using in_message_open [OF _ _ c, of v] assms(1) False unfolding carries_def by blast
  have "M x" if "x \<in> set (c_messages (c\<lparr>c_messages := c_messages c @ [v], c_scheduled := True\<rparr>))" for x
    using that k(3) assms(2) by auto
  from carries_update [OF assms(1) t(2,3) k(1) _ this] k(2) t(1) c(1)
  have "carries K M t" "in_transit t = (if c_output c = None then in_transit q - {i} else insert i (in_transit q))" by auto
  moreover from this(2) c(1) have "in_transit t = in_transit q" by (cases "c_output c") (auto simp: in_transit_def)
  ultimately show ?thesis using t(1) by blast
qed

lemma disconnect_carries:
  assumes "carries K M q"
  shows "\<exists>t. in_disconnect i q = (Ok (), t) \<and> carries K M t \<and> in_transit t = in_transit q"
proof (cases "map_of (clients q) i")
  case None
  then show ?thesis using assms by (simp add: in_disconnect_def)
next
  case (Some c)
  have k: "i \<in> K" "\<And>a. c_output c = Some a \<Longrightarrow> a = i" using assms Some unfolding carries_def by blast+
  obtain t where t: "in_disconnect i q = (Ok (), t)" "sched_ok t"
    "clients t = AList.update i (c\<lparr>c_messages := [], c_disconnect := True, c_scheduled := True\<rparr>) (clients q)"
    using in_disconnect_open [OF _ Some] assms unfolding carries_def by blast
  from carries_update [OF assms t(2,3) k(1)] k(2) t(1) Some show ?thesis by (auto simp: in_transit_def)
qed

lemma held_transit: "carries K M q \<Longrightarrow> set (Incoming.held q) = in_transit q"
proof -
  assume q: "carries K M q"
  have lookup: "(i, c) \<in> set (clients q) \<longleftrightarrow> map_of (clients q) i = Some c" for i c
    using q by (simp add: carries_def sched_ok_def map_of_eq_Some_iff)
  have held: "a \<in> set (Incoming.held q) \<longleftrightarrow> (\<exists>i c. map_of (clients q) i = Some c \<and> c_output c = Some a)" for a
    unfolding lookup [symmetric] Incoming.held_def List.map_filter_def by force
  have own: "a = i" if "map_of (clients q) i = Some c" "c_output c = Some a" for i c a
    using q that unfolding carries_def by blast
  show "set (Incoming.held q) = in_transit q"
  proof (rule set_eqI)
    fix a
    show "a \<in> set (Incoming.held q) \<longleftrightarrow> a \<in> in_transit q"
    proof
      assume "a \<in> set (Incoming.held q)"
      then obtain i c where "map_of (clients q) i = Some c" "c_output c = Some a" using held by auto
      with own [OF this] show "a \<in> in_transit q" by (simp add: in_transit_def)
    next
      assume "a \<in> in_transit q"
      then obtain c b where c: "map_of (clients q) a = Some c" "c_output c = Some b" by (auto simp: in_transit_def)
      with own [OF this] show "a \<in> set (Incoming.held q)" using held by auto
    qed
  qed
qed

lemma closing_carries:
  assumes "carries K M q"
  shows "in_shutdown q = (Ok (Incoming.held q), q\<lparr>closed := True, clients := [], ready := []\<rparr>)"
    and "in_drop_receiver q = (Ok (Incoming.held q), q\<lparr>closed := True, clients := [], ready := []\<rparr>)"
    and "carries K M (q\<lparr>closed := True, clients := [], ready := []\<rparr>)"
    and "in_transit (q\<lparr>closed := True, clients := [], ready := []\<rparr>) = {}"
  by (simp_all add: in_shutdown_def in_drop_receiver_def carries_def in_transit_def sched_ok_def)

lemma recv_carries:
  assumes "carries K M q"
  shows "\<exists>c qs t. in_try_recv q = (Ok (c, qs), t) \<and> carries K M t \<and> closed t = closed q \<and> (case c of
     None \<Rightarrow> qs = [] \<and> t = q \<and> \<not> closed q
   | Some (Connect i a) \<Rightarrow> qs = [] \<and> a = i \<and> i \<in> K \<and> i \<in> in_transit q \<and> in_transit t = in_transit q - {i}
   | Some (Message i v) \<Rightarrow> qs = [] \<and> M v \<and> in_transit t = in_transit q
   | Some (Disconnect i) \<Rightarrow> set qs = in_transit q \<inter> {i} \<and> in_transit t = in_transit q - {i}
   | Some Shutdown \<Rightarrow> qs = [] \<and> t = q \<and> closed q)"
proof (cases "closed q \<or> ready q = []")
  case True
  then show ?thesis using assms by (auto simp: in_try_recv_def)
next
  case False
  then obtain i rest where r: "\<not> closed q" "ready q = i # rest" by (cases "ready q") auto
  have s: "sched_ok q" using assms by (simp add: carries_def)
  have keep: "carries K M (after_serving i d rest q)" "in_transit (after_serving i d rest q) =
      (if c_output d = None then in_transit q - {i} else insert i (in_transit q))"
    if "client_ok (in_capacity q) d" "\<And>a. c_output d = Some a \<Longrightarrow> a = i" "\<And>v. v \<in> set (c_messages d) \<Longrightarrow> M v" "i \<in> K" for d
    using carries_update [OF assms after_serving_ok [OF s r that(1)]] that by (simp_all add: after_serving_def)
  from s r show ?thesis
  proof (cases rule: in_try_recv_ready)
    case (disconnect c)
    let ?t = "q\<lparr>clients := AList.delete i (clients q), ready := rest\<rparr>"
    have "carries K M ?t" using assms sched_ok_removed [OF s r(2)] by (auto simp: carries_def)
    moreover have "in_transit ?t = in_transit q - {i}" by (auto simp: in_transit_def)
    moreover have "set (case c_output c of None \<Rightarrow> [] | Some a \<Rightarrow> [a]) = in_transit q \<inter> {i}"
    proof (cases "c_output c")
      case None
      with disconnect(1) show ?thesis by (auto simp: in_transit_def)
    next
      case (Some a)
      then have "a = i" using assms disconnect(1) unfolding carries_def by blast
      with Some disconnect(1) show ?thesis by (auto simp: in_transit_def)
    qed
    ultimately show ?thesis using disconnect r(1) by auto
  next
    case (connect c a)
    let ?d = "c\<lparr>c_output := None, c_scheduled := c_messages c \<noteq> []\<rparr>"
    have "client_ok (in_capacity q) ?d" using sched_ok_client [OF s connect(1)] connect by (simp add: client_ok_def)
    moreover have "i \<in> K" "a = i" "\<And>v. v \<in> set (c_messages c) \<Longrightarrow> M v" "i \<in> in_transit q"
      using assms connect(1,3) by (auto simp: carries_def in_transit_def)
    ultimately show ?thesis using keep [of ?d] connect(4) r(1) by (simp add: after_serving_ready)
  next
    case (message c v vs)
    let ?d = "c\<lparr>c_messages := vs, c_scheduled := vs \<noteq> []\<rparr>"
    have "client_ok (in_capacity q) ?d" using sched_ok_client [OF s message(1)] message by (simp add: client_ok_def)
    moreover have "i \<in> K" "M v" "\<And>v. v \<in> set vs \<Longrightarrow> M v" "i \<notin> in_transit q"
      using assms message(1,3,4) by (auto simp: carries_def in_transit_def)
    ultimately show ?thesis using keep [of ?d] message(3,5) r(1) by (simp add: after_serving_ready)
  qed
qed


section \<open>The bridge between two commands\<close>

text \<open>What an operation of the bridge may do, as the other tasks see it.\<close>

definition settles :: "'b bridge \<Rightarrow> 'b bridge \<Rightarrow> bool" where
  "settles b t \<longleftrightarrow> set (outputs t) \<subseteq> set (outputs b) \<and> clock t = clock b \<and> timeout t = timeout b \<and>
     (\<forall>a. queue_ok (queues t a)) \<and>
     (\<forall>a. (a, a) \<in> set (outputs b) \<or> sender_closed (queues b a) \<longrightarrow> (a, a) \<in> set (outputs t) \<or> sender_closed (queues t a))"

lemma framed_settles:
  assumes "framed m" "set (outputs b) \<subseteq> Id" "\<And>a. queue_ok (queues b a)"
  shows "settles b (snd (m b))"
proof -
  let ?t = "snd (m b)"
  have "frame (fst ` set (outputs b)) (clock b) (timeout b) b" using assms(2,3) by (force simp: frame_def)
  with assms(1) have t: "frame (fst ` set (outputs b)) (clock b) (timeout b) ?t" by (simp add: framed_def)
  moreover have "frame ({a. (a, a) \<in> set (outputs b) \<or> sender_closed (queues b a)}) (clock b) (timeout b) b"
    using assms(2,3) by (force simp: frame_def)
  with assms(1) have "frame ({a. (a, a) \<in> set (outputs b) \<or> sender_closed (queues b a)}) (clock b) (timeout b) ?t"
    by (simp add: framed_def)
  moreover have "set (outputs ?t) \<subseteq> set (outputs b)" using t assms(2) by (force simp: frame_def)
  ultimately show ?thesis unfolding settles_def by (auto simp: frame_def)
qed

lemma settles_close: "(\<And>a. queue_ok (queues b a)) \<Longrightarrow> settles b (close_output i b)"
  by (auto simp: settles_def close_output_def drop_ok) (simp_all add: drop_output_def)

lemma settles_trans: "settles a b \<Longrightarrow> settles b c \<Longrightarrow> settles a c"
  unfolding settles_def by (metis subset_trans)

lemma settles_queues: "settles b t \<Longrightarrow> queue_ok (queues t a)"
  by (simp add: settles_def)

lemma close_all:
  assumes "\<And>a. queue_ok (queues b a)"
  shows "settles b (fold close_output qs b)" "\<And>a. a \<in> set qs \<Longrightarrow> sender_closed (queues (fold close_output qs b) a)"
    "outputs (fold close_output qs b) = outputs b" "backend (fold close_output qs b) = backend b"
proof -
  have closed: "sender_closed (queues (fold close_output qs b) a)" if "sender_closed (queues b a)" for a and b :: "'a bridge"
    using that by (induction qs arbitrary: b) (simp_all add: close_output_def drop_output_def)
  show "outputs (fold close_output qs b) = outputs b" "backend (fold close_output qs b) = backend b"
    by (induction qs arbitrary: b) (simp_all add: close_output_def)
  show "settles b (fold close_output qs b)" using assms
  proof (induction qs arbitrary: b)
    case (Cons q qs)
    note c = settles_close [OF Cons.prems]
    from settles_trans [OF c Cons.IH [OF settles_queues [OF c]]] show ?case by simp
  qed (simp add: settles_def)
  show "sender_closed (queues (fold close_output qs b) a)" if "a \<in> set qs" for a
    using that
  proof (induction qs arbitrary: b)
    case (Cons q qs)
    have "sender_closed (queues (close_output q b) q)" by (simp add: close_output_def drop_output_def)
    moreover have "sender_closed (queues (fold close_output qs b) a)" if "sender_closed (queues b a)" for b :: "'a bridge"
      using that by (induction qs arbitrary: b) (simp_all add: close_output_def drop_output_def)
    ultimately show ?case using Cons by (cases "a = q") auto
  qed simp
qed

section \<open>The invariant of the tasks\<close>

text \<open>A message whose time-out can be added to the clock whenever it is handled before \<open>T\<close>.\<close>

definition timely :: "nat \<Rightarrow> nat \<Rightarrow> json \<Rightarrow> bool" where
  "timely T limit v \<longleftrightarrow> (required v ''op'' = Ok ''call_service'' \<longrightarrow>
     (\<forall>n. call_timeout v limit = Ok n \<longrightarrow> instant_ok (T + n)))"

text \<open>Between the queues and the bridge, with \<open>K\<close> the connections that ever registered: an output is on
  its way or in the bridge, never in both, and the connections \<open>S\<close> have one unless theirs is closed.\<close>

definition tasks_ok :: "nat \<Rightarrow> nat \<Rightarrow> nat set \<Rightarrow> nat set \<Rightarrow> scheduler \<Rightarrow> 'b bridge \<Rightarrow> bool" where
  "tasks_ok T limit K S q b \<longleftrightarrow> carries K (timely T limit) q \<and> set (outputs b) \<subseteq> Id_on K \<and>
     (\<forall>i \<in> in_transit q. (i, i) \<notin> set (outputs b)) \<and> (\<forall>a. queue_ok (queues b a)) \<and> timeout b = limit \<and> clock b \<le> T \<and>
     (\<forall>i \<in> S. (i, i) \<in> set (outputs b) \<or> i \<in> in_transit q \<or> sender_closed (queues b i))"

lemma tasks_mono: "tasks_ok T limit K S q b \<Longrightarrow> K \<subseteq> K' \<Longrightarrow> S' \<subseteq> S \<Longrightarrow> tasks_ok T limit K' S' q b"
  unfolding tasks_ok_def by (auto intro: carries_mono)

lemma tasks_settle: "tasks_ok T limit K S q b \<Longrightarrow> settles b t \<Longrightarrow> tasks_ok T limit K S q t"
  unfolding tasks_ok_def settles_def by auto

lemma tasks_closed: "tasks_ok T limit K S q b \<Longrightarrow> (\<And>i. i \<in> R \<Longrightarrow> sender_closed (queues b i)) \<Longrightarrow> tasks_ok T limit K (S \<union> R) q b"
  unfolding tasks_ok_def by auto

definition rest :: "'w server \<Rightarrow> phase \<times> nat \<times> (nat \<Rightarrow> stage) \<times> bool" where
  "rest s = (phase s, accepted s, stages s, accepting s)"

definition running :: "'w host \<Rightarrow> 'w node env \<Rightarrow> nat \<Rightarrow> nat \<Rightarrow> bool \<Rightarrow> nat set \<Rightarrow> nat set \<Rightarrow>
    phase \<times> nat \<times> (nat \<Rightarrow> stage) \<times> bool \<Rightarrow> 'w server \<Rightarrow> bool" where
  "running H E T limit c K S z s \<longleftrightarrow> rest s = z \<and> tasks_ok T limit K S (incoming s) (the_bridge s) \<and>
     (c \<longrightarrow> consistent H E (the_bridge s))"

lemma running_mono: "running H E T limit c K S z s \<Longrightarrow> K \<subseteq> K' \<Longrightarrow> S' \<subseteq> S \<Longrightarrow> running H E T limit c K' S' z s"
  unfolding running_def by (blast intro: tasks_mono)


section \<open>Rules\<close>

text \<open>An operation of the bridge, with what it needs of the bridge.\<close>

lemma bridge_rule:
  assumes m: "triple (\<lambda>b. consistent H E b \<and> R b) m (\<lambda>_. consistent H E) (consistent H E)" and f: "framed m"
  shows "triple (\<lambda>s. running H E T limit True K S z s \<and> R (the_bridge s)) (on_bridge m)
    (\<lambda>_. running H E T limit True K S z) (running H E T limit True K S z)"
proof -
  have go: "running H E T limit True K S z (s\<lparr>the_bridge := t\<rparr>)"
    if s: "running H E T limit True K S z s" and run: "m (the_bridge s) = (r, t)" and t: "consistent H E t" for s r t
  proof -
    have "set (outputs (the_bridge s)) \<subseteq> Id" "\<And>a. queue_ok (queues (the_bridge s) a)"
      using s unfolding running_def tasks_ok_def by auto
    from framed_settles [OF f this] run have "settles (the_bridge s) t" by simp
    then show ?thesis using s t by (auto simp: running_def rest_def intro: tasks_settle)
  qed
  show ?thesis
    unfolding triple_def on_bridge_def
  proof (intro allI impI)
    fix s assume s: "running H E T limit True K S z s \<and> R (the_bridge s)"
    obtain r t where run: "m (the_bridge s) = (r, t)" by (cases "m (the_bridge s)")
    have "consistent H E (the_bridge s) \<and> R (the_bridge s)" using s by (simp add: running_def)
    from m [unfolded triple_def, rule_format, OF this] run go [of s r t] s
    show "case case m (the_bridge s) of (r, b) \<Rightarrow> (r, s\<lparr>the_bridge := b\<rparr>) of
        (Ok a, t) \<Rightarrow> running H E T limit True K S z t
      | (Err e, t) \<Rightarrow> running H E T limit True K S z t | (Panic, t) \<Rightarrow> False"
      by (cases r) auto
  qed
qed

text \<open>A change of queues, with or without the worker.\<close>

lemma consistent_drained:
  "ros_bridge W H E \<Longrightarrow> consistent H E b \<Longrightarrow> queue_ok q \<Longrightarrow> consistent H E (put_queue a q b)"
  unfolding consistent_def by (rule bridge_env.inv_drained [OF ros_bridge.env])

lemma consistent_closed: "ros_bridge W H E \<Longrightarrow> consistent H E b \<Longrightarrow> (\<And>a. queue_ok (queues b a)) \<Longrightarrow> consistent H E (fold close_output qs b)"
proof (induction qs arbitrary: b)
  case (Cons a qs)
  have "close_output a b = put_queue a (drop_output (queues b a)) b" by (simp add: close_output_def put_queue_def)
  with consistent_drained [OF Cons.prems(1,2) drop_ok(1) [OF Cons.prems(3)]] have "consistent H E (close_output a b)" by simp
  from Cons.IH [OF Cons.prems(1) this settles_queues [OF settles_close [OF Cons.prems(3)]]] show ?case by simp
qed simp

lemma drop_rule:
  assumes "ros_bridge W H E" "running H E T limit c K S z s"
  shows "\<exists>t. drop_outputs qs s = (Ok (), t) \<and> running H E T limit c K (S \<union> set qs) z t \<and> incoming t = incoming s \<and>
    outputs (the_bridge t) = outputs (the_bridge s) \<and> backend (the_bridge t) = backend (the_bridge s)"
proof -
  let ?b = "the_bridge s" and ?t = "fold close_output qs (the_bridge s)"
  have q: "\<And>a. queue_ok (queues ?b a)" using assms(2) by (simp add: running_def tasks_ok_def)
  note c = close_all [OF q]
  have "running H E T limit c K (S \<union> set qs) z (s\<lparr>the_bridge := ?t\<rparr>)"
    using assms(2) c(1,2) consistent_closed [OF assms(1) _ q]
    by (auto simp: running_def rest_def intro!: tasks_closed intro: tasks_settle)
  then show ?thesis using c(3,4) by (simp add: drop_outputs_def on_bridge_def modA_def)
qed

text \<open>Waking the worker, also after it has gone.\<close>

lemma wake_total: "\<exists>w. wake_trigger W r = (Ok (), r\<lparr>native := w\<rparr>)" for W :: "'w world" and r :: "'w ros"
  by (cases "waiter r") (auto simp: wake_trigger_def bindA_def getA_def retA_def ignored_def intro: exI [of _ "native r"] split: prod.split)

lemma backend_rule:
  assumes "ros_bridge W H E" "keeps (node_valid H) node_live m"
  shows "triple (consistent H E) (onB m) (\<lambda>_. consistent H E) (consistent H E)"
  using bridge_env.onB_keep [OF ros_bridge.env [OF assms(1)] assms(2), where R = "\<lambda>_. True" and D = "\<lambda>_. {}" and
      X = "{}" and K = "{}" and F = "{#}"]
  by (simp add: consistent_def)

lemma steady_rule:
  assumes "ros_bridge W H E" "steady m"
  shows "triple (consistent H E) (onB (onN m)) (\<lambda>_. consistent H E) (consistent H E)"
  by (rule backend_rule [OF assms(1) onN_steady [OF assms(2)]])

lemma wake_rule:
  assumes "ros_bridge W H E" "running H E T limit c K S z s"
  shows "\<exists>t. wake_worker W s = (Ok (), t) \<and> running H E T limit c K S z t \<and> incoming t = incoming s \<and>
    outputs (the_bridge t) = outputs (the_bridge s) \<and> handles (node_ros (backend (the_bridge t))) = handles (node_ros (backend (the_bridge s))) \<and>
    uuid_count (the_bridge t) = uuid_count (the_bridge s)"
proof -
  let ?m = "onB (onN (wake_trigger W))" and ?b = "the_bridge s"
  obtain w where "wake_trigger W (node_ros (backend ?b)) = (Ok (), node_ros (backend ?b)\<lparr>native := w\<rparr>)"
    using wake_total [of W "node_ros (backend ?b)"] by blast
  then have run: "?m ?b = (Ok (), ?b\<lparr>backend := backend ?b\<lparr>node_ros := node_ros (backend ?b)\<lparr>native := w\<rparr>\<rparr>\<rparr>)" (is "_ = (_, ?t)")
    by (simp add: onB_def onN_def)
  have "consistent H E ?b \<Longrightarrow> consistent H E ?t"
    using triple_Ok [OF steady_rule [OF assms(1) wake_steady] _ run] .
  moreover have "tasks_ok T limit K S (incoming s) ?b \<Longrightarrow> tasks_ok T limit K S (incoming s) ?t" by (simp add: tasks_ok_def)
  ultimately have "running H E T limit c K S z (s\<lparr>the_bridge := ?t\<rparr>)" using assms(2) by (simp add: running_def rest_def)
  then show ?thesis by (simp add: wake_worker_def on_bridge_def run)
qed

text \<open>Taking a command, and obeying it.\<close>

lemma transit_rule:
  assumes s: "running H E T limit c K S z s" and t: "carries K' (timely T limit) t" "in_transit t = in_transit (incoming s) - R" "K \<subseteq> K'"
  shows "running H E T limit c K' (S - R) z (s\<lparr>incoming := t\<rparr>)"
  using s t by (auto simp: running_def rest_def tasks_ok_def)

lemma receive_rule:
  assumes s: "running H E T limit c K S z s"
  shows "\<exists>cmd qs t. on_incoming in_try_recv s = (Ok (cmd, qs), t) \<and> closed (incoming t) = closed (incoming s) \<and>
    the_bridge t = the_bridge s \<and> (case cmd of
     None \<Rightarrow> qs = [] \<and> running H E T limit c K S z t
   | Some (Connect i a) \<Rightarrow> qs = [] \<and> a = i \<and> i \<in> K \<and> i \<notin> in_transit (incoming t) \<and> (i, i) \<notin> set (outputs (the_bridge s)) \<and>
       running H E T limit c K (S - {i}) z t
   | Some (Message i v) \<Rightarrow> qs = [] \<and> timely T limit v \<and> running H E T limit c K S z t
   | Some (Disconnect i) \<Rightarrow> running H E T limit c K (S - set qs) z t
   | Some Shutdown \<Rightarrow> qs = [] \<and> closed (incoming s) \<and> running H E T limit c K S z t)"
proof -
  have q: "carries K (timely T limit) (incoming s)" using s by (simp add: running_def tasks_ok_def)
  obtain cmd qs t where run: "in_try_recv (incoming s) = (Ok (cmd, qs), t)" "carries K (timely T limit) t" "closed t = closed (incoming s)"
    and c: "case cmd of
     None \<Rightarrow> qs = [] \<and> t = incoming s \<and> \<not> closed (incoming s)
   | Some (Connect i a) \<Rightarrow> qs = [] \<and> a = i \<and> i \<in> K \<and> i \<in> in_transit (incoming s) \<and> in_transit t = in_transit (incoming s) - {i}
   | Some (Message i v) \<Rightarrow> qs = [] \<and> timely T limit v \<and> in_transit t = in_transit (incoming s)
   | Some (Disconnect i) \<Rightarrow> set qs = in_transit (incoming s) \<inter> {i} \<and> in_transit t = in_transit (incoming s) - {i}
   | Some Shutdown \<Rightarrow> qs = [] \<and> t = incoming s \<and> closed (incoming s)"
    using recv_carries [OF q] by blast
  have apart: "i \<in> in_transit (incoming s) \<Longrightarrow> (i, i) \<notin> set (outputs (the_bridge s))" for i
    using s by (simp add: running_def tasks_ok_def)
  have go: "running H E T limit c K (S - R) z (s\<lparr>incoming := t\<rparr>)" if "in_transit t = in_transit (incoming s) - R" for R
    by (rule transit_rule [OF s run(2) that]) simp
  show ?thesis
  proof (cases cmd)
    case None
    with run c go [of "{}"] show ?thesis by (simp add: on_incoming_def)
  next
    case (Some d)
    show ?thesis
    proof (cases d)
      case (Connect i a)
      with Some run c go [of "{i}"] apart show ?thesis by (simp add: on_incoming_def)
    next
      case (Message i v)
      with Some run c go [of "{}"] show ?thesis by (simp add: on_incoming_def)
    next
      case (Disconnect i)
      with Some c have "in_transit t = in_transit (incoming s) - set qs" by auto
      with Disconnect Some run go [of "set qs"] show ?thesis by (simp add: on_incoming_def)
    next
      case Shutdown
      with Some run c go [of "{}"] show ?thesis by (simp add: on_incoming_def)
    qed
  qed
qed

lemma bridge_total:
  assumes m: "triple (\<lambda>b. consistent H E b \<and> R b) m (\<lambda>_. consistent H E) (\<lambda>_. False)" and f: "framed m"
    and s: "running H E T limit True K S z s" "R (the_bridge s)"
  shows "\<exists>a t. on_bridge m s = (Ok a, t) \<and> running H E T limit True K S z t \<and> incoming t = incoming s"
proof -
  have "consistent H E (the_bridge s) \<and> R (the_bridge s)" using s by (simp add: running_def)
  from triple_succeeds [OF m this] obtain a b where b: "m (the_bridge s) = (Ok a, b)" by blast
  then have run: "on_bridge m s = (Ok a, s\<lparr>the_bridge := b\<rparr>)" by (simp add: on_bridge_def)
  have "triple (\<lambda>b. consistent H E b \<and> R b) m (\<lambda>_. consistent H E) (consistent H E)"
    by (rule triple_post [OF m]) simp_all
  from triple_Ok [OF bridge_rule [OF this f, where T = T and limit = limit and K = K and S = S and z = z] conjI [OF s] run]
  show ?thesis by (simp add: run)
qed

lemma in_time:
  assumes s: "running H E T limit True K S z s" "timely T limit v" "uuid_count (the_bridge s) < UUIDS"
  shows "in_range v (the_bridge s)"
proof -
  have "clock (the_bridge s) \<le> T" "timeout (the_bridge s) = limit" using s(1) by (simp_all add: running_def tasks_ok_def)
  then have "instant_ok (T + n) \<Longrightarrow> instant_ok (clock (the_bridge s) + n)" for n by (auto elim: instant_ok_mono)
  then show ?thesis using s(2,3) \<open>timeout (the_bridge s) = limit\<close> unfolding in_range_def timely_def by blast
qed

lemma connect_rule:
  assumes W: "ros_bridge W H E" and s: "running H E T limit True K (S - {i}) z s" "i \<in> K" "i \<notin> in_transit (incoming s)"
    "(i, i) \<notin> set (outputs (the_bridge s))"
  shows "running H E T limit True K S z (s\<lparr>the_bridge := connect i i (the_bridge s)\<rparr>)"
proof -
  let ?b = "the_bridge s"
  have o: "set (outputs ?b) \<subseteq> Id_on K" and q: "\<And>a. queue_ok (queues ?b a)" and c: "consistent H E ?b"
    using s(1) by (simp_all add: running_def tasks_ok_def)
  then have fresh: "i \<notin> set (vals (outputs ?b))" "i \<notin> set (keys (outputs ?b))" using s(4) by auto
  then have "map_of (outputs ?b) i = None" by (simp add: map_of_eq_None_iff)
  then have conn: "connect i i ?b = ?b\<lparr>outputs := outputs ?b @ [(i, i)]\<rparr>"
    using fresh by (simp add: connect_def Let_def update_fresh)
  have "consistent H E (connect i i ?b)"
    using bridge_env.connect_inv [OF ros_bridge.env [OF W] _ q fresh(1)] c by (simp add: consistent_def)
  moreover have "tasks_ok T limit K S (incoming s) (connect i i ?b)"
    using s unfolding conn running_def tasks_ok_def by auto
  ultimately show ?thesis using s(1) by (simp add: running_def rest_def)
qed

text \<open>A command that was received is obeyed.\<close>

definition onward :: "'w host \<Rightarrow> 'w node env \<Rightarrow> nat \<Rightarrow> nat \<Rightarrow> nat set \<Rightarrow> nat set \<Rightarrow>
    phase \<times> nat \<times> (nat \<Rightarrow> stage) \<times> bool \<Rightarrow> phase outcome \<times> 'w server \<Rightarrow> bool" where
  "onward H E T limit K S z x \<longleftrightarrow> (\<exists>p t. x = (Ok p, t) \<and> running H E T limit True K S z t \<and>
     (case p of Gone e \<Rightarrow> e = None | _ \<Rightarrow> True))"

lemma obey_disconnect:
  assumes W: "ros_bridge W H E" and s: "running H E T limit True K S z s"
  shows "onward H E T limit K S z (obey E k (Disconnect i) s)"
proof -
  have m: "triple (\<lambda>b. consistent H E b \<and> True) (disconnect E i) (\<lambda>_. consistent H E) (\<lambda>_. False)"
    by (rule triple_pre [OF triple_post [OF ros_commands(3) [OF W, where T = UNIV]]]) auto
  from bridge_total [OF m framed_disconnect s] show ?thesis by (auto simp: onward_def bindA_def retA_def)
qed

lemma obey_message:
  assumes W: "ros_bridge W H E" and s: "running H E T limit True K S z s" "timely T limit v" "uuid_count (the_bridge s) < UUIDS"
  shows "onward H E T limit K S z (obey E k (Message i v) s)"
  using bridge_total [OF ros_commands(1) [OF W] framed_command s(1) in_time [OF s], of i]
  by (auto simp: onward_def bindA_def retA_def)

lemma obey_shutdown:
  assumes W: "ros_bridge W H E" and s: "running H E T limit True K S z s"
  shows "onward H E T limit K S z (obey E k Shutdown s)"
proof -
  have m: "triple (\<lambda>b. consistent H E b \<and> True) (shutdown E) (\<lambda>_. consistent H E) (\<lambda>_. False)"
    by (rule triple_pre [OF triple_post [OF ros_commands(4) [OF W]]]) auto
  from bridge_total [OF m framed_shutdown s] show ?thesis by (auto simp: onward_def bindA_def retA_def)
qed

lemma bind_drop_nil: "running H E T limit c K S z s \<Longrightarrow> bindA (drop_outputs []) f s = f () s"
  by (cases s) (simp add: bindA_def drop_outputs_def on_bridge_def modA_def)

lemma worker_receive_rule:
  assumes W: "ros_bridge W H E" and s: "running H E T limit True K S z s" and u: "closed (incoming s) \<or> uuid_count (the_bridge s) < UUIDS"
  shows "onward H E T limit K S z (worker_receive W E k s)"
proof (cases "k \<ge> 64")
  case True
  with s show ?thesis by (simp add: worker_receive_def onward_def retA_def)
next
  case False
  let ?rest = "bindA (on_incoming in_try_recv) (\<lambda>(c, qs). bindA (drop_outputs qs) (\<lambda>_. case c of None \<Rightarrow> retA Ticks | Some c \<Rightarrow> obey E k c))"
  have go: "onward H E T limit K S z (?rest s)" if s: "running H E T limit True K S z s" and u: "closed (incoming s) \<or> uuid_count (the_bridge s) < UUIDS" for s
  proof -
    obtain cmd qs t where t: "on_incoming in_try_recv s = (Ok (cmd, qs), t)" "the_bridge t = the_bridge s"
      and c: "case cmd of
     None \<Rightarrow> qs = [] \<and> running H E T limit True K S z t
   | Some (Connect i a) \<Rightarrow> qs = [] \<and> a = i \<and> i \<in> K \<and> i \<notin> in_transit (incoming t) \<and> (i, i) \<notin> set (outputs (the_bridge s)) \<and>
       running H E T limit True K (S - {i}) z t
   | Some (Message i v) \<Rightarrow> qs = [] \<and> timely T limit v \<and> running H E T limit True K S z t
   | Some (Disconnect i) \<Rightarrow> running H E T limit True K (S - set qs) z t
   | Some Shutdown \<Rightarrow> qs = [] \<and> closed (incoming s) \<and> running H E T limit True K S z t"
      using receive_rule [OF s] by blast
    have step: "?rest s = bindA (drop_outputs qs) (\<lambda>_. case cmd of None \<Rightarrow> retA Ticks | Some c \<Rightarrow> obey E k c) t"
      using t(1) by (simp add: bindA_def)
    show ?thesis
    proof (cases cmd)
      case None
      with c have e: "qs = []" and r: "running H E T limit True K S z t" by simp_all
      then show ?thesis unfolding step None e bind_drop_nil [OF r] by (simp add: onward_def retA_def)
    next
      case (Some d)
      show ?thesis
      proof (cases d)
        case (Connect i a)
        with Some c have e: "qs = []" "a = i" and r: "running H E T limit True K (S - {i}) z t" "i \<in> K" "i \<notin> in_transit (incoming t)"
          "(i, i) \<notin> set (outputs (the_bridge t))" using t(2) by simp_all
        from connect_rule [OF W r] show ?thesis
          unfolding step Some Connect e bind_drop_nil [OF r(1)]
          by (simp add: onward_def bindA_def on_bridge_def modA_def retA_def)
      next
        case (Message i v)
        with Some c have e: "qs = []" and r: "running H E T limit True K S z t" "timely T limit v" by simp_all
        have "\<not> closed (incoming s)" using t(1) Some Message by (auto simp: on_incoming_def in_try_recv_def)
        with obey_message [OF W r] u t(2) show ?thesis
          unfolding step Some Message e bind_drop_nil [OF r(1)] by simp
      next
        case (Disconnect i)
        with Some c have r: "running H E T limit True K (S - set qs) z t" by simp
        obtain v where v: "drop_outputs qs t = (Ok (), v)" "running H E T limit True K (S - set qs \<union> set qs) z v"
          using drop_rule [OF W r] by blast
        from running_mono [OF v(2), of K S] have "running H E T limit True K S z v" by auto
        from obey_disconnect [OF W this] v(1) show ?thesis unfolding step Some Disconnect by (simp add: bindA_def)
      next
        case Shutdown
        with Some c have e: "qs = []" and r: "running H E T limit True K S z t" by simp_all
        from obey_shutdown [OF W r] show ?thesis unfolding step Some Shutdown e bind_drop_nil [OF r] by simp
      qed
    qed
  qed
  show ?thesis
  proof (cases "k = 63")
    case True
    obtain w where w: "wake_worker W s = (Ok (), w)" "running H E T limit True K S z w"
      "uuid_count (the_bridge w) = uuid_count (the_bridge s)" "incoming w = incoming s" using wake_rule [OF W s] by blast
    with u have "closed (incoming w) \<or> uuid_count (the_bridge w) < UUIDS" by simp
    with go [OF w(2)] have "onward H E T limit K S z (?rest w)" by blast
    moreover have "worker_receive W E k s = ?rest w"
      unfolding True worker_receive_def using w(1) by (simp add: bindA_def)
    ultimately show ?thesis by simp
  next
    case ne: False
    with go [OF s u] False show ?thesis by (simp add: worker_receive_def)
  qed
qed

section \<open>A step of the worker\<close>

definition gone :: "phase \<Rightarrow> bool" where
  "gone p \<longleftrightarrow> (case p of Gone _ \<Rightarrow> True | _ \<Rightarrow> False)"

text \<open>Nothing is left of a worker that has gone: no output, no entity, no command queue.\<close>

definition nothing_left :: "'w server \<Rightarrow> bool" where
  "nothing_left s \<longleftrightarrow> closed (incoming s) \<and> outputs (the_bridge s) = [] \<and> handles (node_ros (backend (the_bridge s))) = []"

lemma drop_bridge_run:
  assumes "\<And>a. queue_ok (queues b a)"
  shows "\<exists>t. drop_bridge W b = (Ok (), t) \<and> outputs t = [] \<and> handles (node_ros (backend t)) = [] \<and>
    clock t = clock b \<and> timeout t = timeout b \<and> (\<forall>a. queue_ok (queues t a)) \<and>
    (\<forall>a. a \<in> set (vals (outputs b)) \<or> sender_closed (queues b a) \<longrightarrow> sender_closed (queues t a))"
proof -
  obtain r where r: "ros_drop W (node_ros (backend b)) = (Ok (), r)" "handles r = []" using drop_total by blast
  let ?c = "b\<lparr>backend := backend b\<lparr>node_ros := r\<rparr>\<rparr>"
  let ?t = "(fold close_output (vals (outputs b)) ?c)\<lparr>outputs := []\<rparr>"
  have run: "drop_bridge W b = (Ok (), ?t)"
    using r(1) by (simp add: drop_bridge_def bindA_def onB_def onN_def modA_def)
  have q: "\<And>a. queue_ok (queues ?c a)" using assms by simp
  note c = close_all [where qs = "vals (outputs b)", OF q]
  have "sender_closed (queues (fold close_output (vals (outputs b)) ?c) a)" if "sender_closed (queues b a)" for a
  proof -
    have "(a, a) \<in> set (outputs (fold close_output (vals (outputs b)) ?c)) \<or> sender_closed (queues (fold close_output (vals (outputs b)) ?c) a)"
      using c(1) that by (simp add: settles_def)
    then show ?thesis using c(2) [of a] c(3) by (force simp: image_iff)
  qed
  then show ?thesis using run c r(2) by (auto simp: settles_def)
qed

lemma worker_end_rule:
  assumes W: "ros_bridge W H E" and s: "running H E T limit True K S z s"
  shows "\<exists>t. worker_end W s = (Ok (), t) \<and> running H E T limit False K S z t \<and> nothing_left t"
proof -
  let ?b = "the_bridge s" and ?q = "(incoming s)\<lparr>closed := True, clients := [], ready := []\<rparr>"
  have q: "carries K (timely T limit) (incoming s)" "\<And>a. queue_ok (queues ?b a)" "set (outputs ?b) \<subseteq> Id_on K"
    using s by (simp_all add: running_def tasks_ok_def)
  obtain b where b: "drop_bridge W ?b = (Ok (), b)" "outputs b = []" "handles (node_ros (backend b)) = []"
    "clock b = clock ?b" "timeout b = timeout ?b" "\<And>a. queue_ok (queues b a)"
    "\<And>a. a \<in> set (vals (outputs ?b)) \<or> sender_closed (queues ?b a) \<Longrightarrow> sender_closed (queues b a)"
    using drop_bridge_run [OF q(2)] by blast
  let ?s = "s\<lparr>the_bridge := b, incoming := ?q\<rparr>"
  have "running H E T limit False K (S - in_transit (incoming s)) z ?s"
  proof -
    have "sender_closed (queues b i)" if "i \<in> S - in_transit (incoming s)" for i
    proof (rule b(7))
      from s that have "(i, i) \<in> set (outputs ?b) \<or> sender_closed (queues ?b i)" by (auto simp: running_def tasks_ok_def)
      then show "i \<in> set (vals (outputs ?b)) \<or> sender_closed (queues ?b i)" by force
    qed
    moreover have "clock ?b \<le> T" "timeout ?b = limit" using s by (simp_all add: running_def tasks_ok_def)
    ultimately have "tasks_ok T limit K (S - in_transit (incoming s)) ?q b"
      using b(2,4-6) closing_carries(3,4) [OF q(1)] by (simp add: tasks_ok_def)
    then show ?thesis using s by (simp add: running_def rest_def)
  qed
  from drop_rule [OF W this, of "Incoming.held (incoming s)"] obtain t where
    t: "drop_outputs (Incoming.held (incoming s)) ?s = (Ok (), t)"
      "running H E T limit False K (S - in_transit (incoming s) \<union> in_transit (incoming s)) z t" "incoming t = ?q"
      "outputs (the_bridge t) = []" "backend (the_bridge t) = backend b" using b(2) held_transit [OF q(1)] by auto
  have "worker_end W s = (Ok (), t)"
    using b(1) t(1) closing_carries(2) [OF q(1)] by (simp add: worker_end_def bindA_def on_bridge_def on_incoming_def)
  moreover have "running H E T limit False K S z t" by (rule running_mono [OF t(2)]) auto
  moreover have "nothing_left t" using t(3-5) b(3) by (simp add: nothing_left_def)
  ultimately show ?thesis by blast
qed

lemma running_weaken: "running H E T limit True K S z s \<Longrightarrow> running H E T limit c K S z s"
  by (simp add: running_def)

lemma go_on_rule:
  assumes W: "ros_bridge W H E" and s: "running H E T limit True K S (p, n, g, a) s"
  shows "\<exists>t. go_on W p' s = (Ok (), t) \<and> running H E T limit (\<not> gone p') K S (p', n, g, a) t \<and> (gone p' \<longrightarrow> nothing_left t)"
proof (cases "gone p'")
  case True
  then obtain e where p: "p' = Gone e" by (auto simp: gone_def split: phase.splits)
  obtain t where t: "worker_end W s = (Ok (), t)" "running H E T limit False K S (p, n, g, a) t" "nothing_left t"
    using worker_end_rule [OF W s] by blast
  let ?t = "t\<lparr>phase := p'\<rparr>"
  have "go_on W p' s = (Ok (), ?t)" using t(1) p by (simp add: go_on_def bindA_def modA_def)
  moreover have "running H E T limit False K S (p', n, g, a) ?t" using t(2) by (simp add: running_def rest_def)
  moreover have "nothing_left ?t" using t(3) by (simp add: nothing_left_def)
  ultimately show ?thesis using True by auto
next
  case False
  then have "go_on W p' s = (Ok (), s\<lparr>phase := p'\<rparr>)"
    by (cases p') (simp_all add: go_on_def gone_def bindA_def modA_def retA_def)
  with False s show ?thesis by (simp add: running_def rest_def)
qed

lemma wait_rule:
  assumes W: "ros_bridge W H E" and s: "running H E T limit True K S z s"
  shows "\<exists>r t. tryA (worker_wait W) s = (Ok r, t) \<and> running H E T limit True K S z t"
proof -
  have m: "triple (\<lambda>b. consistent H E b \<and> True) (onB (onN (ros_wait W d))) (\<lambda>_. consistent H E) (consistent H E)" for d
    using steady_rule [OF W wait_steady] by simp
  note r = bridge_rule [OF m framed_onB, where T = T and limit = limit and K = K and S = S and z = z]
  from r [of "wait_time s"] s show ?thesis
    by (auto simp: tryA_def worker_wait_def bindA_def getA_def triple_def split: prod.splits outcome.splits)
qed

lemma tick_rule:
  assumes W: "ros_bridge W H E" and s: "running H E T limit True K S z s"
  shows "\<exists>r t. tryA (on_bridge (tick E)) s = (Ok r, t) \<and> running H E T limit True K S z t"
proof -
  have m: "triple (\<lambda>b. consistent H E b \<and> True) (tick E) (\<lambda>_. consistent H E) (consistent H E)"
    using ros_commands(2) [OF W] by simp
  from bridge_rule [OF m framed_tick, where T = T and limit = limit and K = K and S = S and z = z] s show ?thesis
    by (auto simp: tryA_def triple_def split: prod.splits outcome.splits)
qed

lemma worker_turn_rule:
  assumes W: "ros_bridge W H E" and s: "running H E T limit True K S (p, n, g, a) s" "closed (incoming s) \<or> uuid_count (the_bridge s) < UUIDS" "\<not> gone p"
  shows "\<exists>t p'. worker_turn W E s = (Ok (), t) \<and> running H E T limit (\<not> gone p') K S (p', n, g, a) t \<and> (gone p' \<longrightarrow> nothing_left t)"
proof -
  have p: "phase s = p" using s(1) by (simp add: running_def rest_def)
  show ?thesis
  proof (cases p)
    case Waits
    obtain r t where t: "tryA (worker_wait W) s = (Ok r, t)" "running H E T limit True K S (p, n, g, a) t"
      using wait_rule [OF W s(1)] by blast
    let ?p = "case r of Inl e \<Rightarrow> Gone (Some e) | Inr _ \<Rightarrow> Receives 0"
    have "worker_turn W E s = go_on W ?p t" using p Waits t(1) by (simp add: worker_turn_def bindA_def getA_def)
    with go_on_rule [OF W t(2), of ?p] show ?thesis by metis
  next
    case (Receives k)
    obtain p' t where t: "worker_receive W E k s = (Ok p', t)" "running H E T limit True K S (p, n, g, a) t"
      using worker_receive_rule [OF W s(1,2), of k] unfolding onward_def by blast
    have "worker_turn W E s = go_on W p' t" using p Receives t(1) by (simp add: worker_turn_def bindA_def getA_def)
    with go_on_rule [OF W t(2), of p'] show ?thesis by metis
  next
    case Ticks
    obtain r t where t: "tryA (on_bridge (tick E)) s = (Ok r, t)" "running H E T limit True K S (p, n, g, a) t"
      using tick_rule [OF W s(1)] by blast
    let ?p = "case r of Inl e \<Rightarrow> Gone (Some e) | Inr _ \<Rightarrow> Waits"
    have "worker_turn W E s = go_on W ?p t" using p Ticks t(1) by (simp add: worker_turn_def bindA_def getA_def)
    with go_on_rule [OF W t(2), of ?p] show ?thesis by metis
  next
    case (Gone e)
    with s(3) show ?thesis by (simp add: gone_def)
  qed
qed

section \<open>The other steps\<close>

text \<open>What a task other than the worker does keeps the running server, and adds nothing to a worker
  that has gone.\<close>

definition aside :: "'w host \<Rightarrow> 'w node env \<Rightarrow> nat \<Rightarrow> nat \<Rightarrow> bool \<Rightarrow> nat set \<Rightarrow> nat set \<Rightarrow>
    phase \<times> nat \<times> (nat \<Rightarrow> stage) \<times> bool \<Rightarrow> 'w server \<Rightarrow> 'a outcome \<times> 'w server \<Rightarrow> bool" where
  "aside H E T limit c K S z s x \<longleftrightarrow> fst x \<noteq> Panic \<and> running H E T limit c K S z (snd x) \<and>
     (nothing_left s \<longrightarrow> nothing_left (snd x))"

lemma aside_wake:
  assumes W: "ros_bridge W H E" and s: "running H E T limit c K S z s" "nothing_left r \<longrightarrow> nothing_left s"
  shows "aside H E T limit c K S z r (wake_worker W s)"
  using wake_rule [OF W s(1)] s(2) by (auto simp: aside_def nothing_left_def)

lemma aside_incoming:
  assumes s: "running H E T limit c K S z s" and t: "m (incoming s) = (r, t)" "carries K (timely T limit) t" "in_transit t = in_transit (incoming s)"
    "closed (incoming s) \<longrightarrow> closed t"
  shows "on_incoming m s = (r, s\<lparr>incoming := t\<rparr>)" "running H E T limit c K S z (s\<lparr>incoming := t\<rparr>)"
    "nothing_left s \<longrightarrow> nothing_left (s\<lparr>incoming := t\<rparr>)"
  using transit_rule [OF s t(2), of "{}"] t by (simp_all add: on_incoming_def nothing_left_def)

lemma running_carries: "running H E T limit c K S z s \<Longrightarrow> carries K (timely T limit) (incoming s)"
  by (simp add: running_def tasks_ok_def)

lemma send_message:
  assumes W: "ros_bridge W H E" and s: "running H E T limit c K S z s" and v: "timely T limit v"
  shows "aside H E T limit c K S z s (try_send W (Message i v) s)"
proof -
  obtain r t where t: "in_message i v (incoming s) = (r, t)" "r \<noteq> Panic" "carries K (timely T limit) t" "in_transit t = in_transit (incoming s)"
    using message_carries [OF running_carries [OF s] v] by blast
  have "closed (incoming s) \<longrightarrow> closed t" using t(1) by (auto simp: in_message_def)
  note i = aside_incoming [where m = "in_message i v", OF s t(1,3,4) this]
  show ?thesis
  proof (cases r)
    case (Ok u)
    with i(1) aside_wake [OF W i(2,3)] show ?thesis by (simp add: bindA_def)
  next
    case (Err e)
    with i show ?thesis by (simp add: bindA_def aside_def)
  qed (use t(2) in simp)
qed

lemma send_disconnect:
  assumes W: "ros_bridge W H E" and s: "running H E T limit c K S z s"
  shows "aside H E T limit c K S z s (try_send W (Disconnect i) s)"
proof -
  obtain t where t: "in_disconnect i (incoming s) = (Ok (), t)" "carries K (timely T limit) t" "in_transit t = in_transit (incoming s)"
    using disconnect_carries [OF running_carries [OF s]] by blast
  have "closed (incoming s) \<longrightarrow> closed t"
    using sched_closed [of "incoming s" "EDisconnect i"] running_carries [OF s] t(1) by (auto simp: carries_def bindA_def retA_def)
  note i = aside_incoming [where m = "in_disconnect i", OF s t this]
  from aside_wake [OF W i(2,3)] i(1) show ?thesis by (simp add: bindA_def)
qed

lemma send_shutdown:
  assumes W: "ros_bridge W H E" and s: "running H E T limit c K S z s"
  shows "aside H E T limit c K S z s (try_send W Shutdown s)"
proof -
  let ?q = "(incoming s)\<lparr>closed := True, clients := [], ready := []\<rparr>" and ?h = "Incoming.held (incoming s)"
  note q = running_carries [OF s]
  have "running H E T limit c K (S - in_transit (incoming s)) z (s\<lparr>incoming := ?q\<rparr>)"
    by (rule transit_rule [OF s closing_carries(3) [OF q]]) (use closing_carries(4) [OF q] in auto)
  from drop_rule [OF W this, of ?h] obtain t where t: "drop_outputs ?h (s\<lparr>incoming := ?q\<rparr>) = (Ok (), t)"
    "running H E T limit c K (S - in_transit (incoming s) \<union> set ?h) z t" "incoming t = ?q"
    "outputs (the_bridge t) = outputs (the_bridge s)" "backend (the_bridge t) = backend (the_bridge s)" by auto
  have "running H E T limit c K S z t" by (rule running_mono [OF t(2)]) (use held_transit [OF q] in auto)
  moreover have "nothing_left s \<longrightarrow> nothing_left t" using t(3-5) by (simp add: nothing_left_def)
  ultimately show ?thesis
    using aside_wake [OF W, where s = t and r = s] t(1) closing_carries(1) [OF q] by (simp add: bindA_def on_incoming_def)
qed

lemma send_connect:
  assumes W: "ros_bridge W H E" and s: "running H E T limit c K S z s" and i: "i \<in> K" "(i, i) \<notin> set (outputs (the_bridge s))"
  shows "aside H E T limit c K (insert i S) z s (try_send W (Connect i i) s)"
proof -
  obtain r t where t: "in_connect i i (incoming s) = (r, t)" "carries K (timely T limit) t"
    and cases: "r = Ok () \<and> in_transit t = insert i (in_transit (incoming s)) \<or> (\<exists>e. r = Err e) \<and> t = incoming s"
    using connect_carries [OF running_carries [OF s] i(1)] by blast
  from cases show ?thesis
  proof
    assume r: "r = Ok () \<and> in_transit t = insert i (in_transit (incoming s))"
    then have "running H E T limit c K (insert i S) z (s\<lparr>incoming := t\<rparr>)"
      using s t(2) i(2) by (auto simp: running_def rest_def tasks_ok_def)
    moreover have "\<not> nothing_left s" using t(1) r by (auto simp: nothing_left_def in_connect_def)
    ultimately show ?thesis
      using aside_wake [OF W, where s = "s\<lparr>incoming := t\<rparr>" and r = s] t(1) r
      by (simp add: bindA_def tryA_def on_incoming_def)
  next
    assume r: "(\<exists>e. r = Err e) \<and> t = incoming s"
    obtain u where u: "drop_outputs [i] s = (Ok (), u)" "running H E T limit c K (S \<union> set [i]) z u" "incoming u = incoming s"
      "outputs (the_bridge u) = outputs (the_bridge s)" "backend (the_bridge u) = backend (the_bridge s)"
      using drop_rule [OF W s, of "[i]"] by blast
    have "nothing_left s \<longrightarrow> nothing_left u" using u(3-5) by (simp add: nothing_left_def)
    moreover have "s\<lparr>incoming := incoming s\<rparr> = s" by simp
    ultimately show ?thesis
      using u(1,2) t(1) r by (auto simp: bindA_def tryA_def on_incoming_def aside_def errA_def)
  qed
qed

text \<open>The receiving side of a queue.\<close>

fun receiving :: "queue_event \<Rightarrow> bool" where
  "receiving (Send _ _ _ _ _) = False"
| "receiving DropOutput = False"
| "receiving ev = True"

lemma receiving_closed: "receiving ev \<Longrightarrow> sender_closed q \<Longrightarrow> sender_closed (queue_step Z ev q)"
  by (cases ev) (auto simp: take_batch_def finish_def drop_receiver_def reject_def Let_def close_full_def
      split: list.splits outcome.splits if_splits)

lemma drop_receiver_step: "drop_receiver q = queue_step Z DropReceiver q"
  by simp

lemma queue_rule:
  assumes W: "ros_bridge W H E" and s: "running H E T limit c K S z s" and q: "queue_ok q"
    "sender_closed (queues (the_bridge s) i) \<Longrightarrow> sender_closed q"
  shows "aside H E T limit c K S z s (on_bridge (modA (put_queue i q)) s)"
proof -
  let ?b = "the_bridge s"
  have "tasks_ok T limit K S (incoming s) (put_queue i q ?b)"
    using s q by (auto simp: running_def tasks_ok_def put_queue_def)
  moreover have "consistent H E ?b \<Longrightarrow> consistent H E (put_queue i q ?b)" by (rule consistent_drained [OF W _ q(1)])
  ultimately show ?thesis
    using s by (simp add: aside_def on_bridge_def modA_def running_def rest_def nothing_left_def put_queue_def)
qed

lemma running_queue: "running H E T limit c K S z s \<Longrightarrow> queue_ok (queues (the_bridge s) i)"
  by (simp add: running_def tasks_ok_def)

lemma transmit_rule:
  assumes W: "ros_bridge W H E" and s: "running H E T limit c K S z s" and ev: "receiving ev"
  shows "aside H E T limit c K S z s (transmit Z ev i s)"
proof -
  let ?q = "queue_step Z ev (queues (the_bridge s) i)"
  have "transmit Z ev i s = on_bridge (modA (put_queue i ?q)) s"
    by (simp add: transmit_def on_bridge_def modA_def)
  then show ?thesis
    using queue_rule [OF W s queue_step_ok [OF running_queue [OF s]] receiving_closed [OF ev], where i = i] by simp
qed

lemma aside_try:
  assumes "aside H E T limit c K S z s (m s)"
  shows "\<exists>u t. tryA m s = (Ok u, t) \<and> running H E T limit c K S z t \<and> (nothing_left s \<longrightarrow> nothing_left t)"
  using assms unfolding aside_def tryA_def by (auto split: prod.splits outcome.splits)

lemma stage_rule:
  assumes "running H E T limit c K S (p, n, g, a) s"
  shows "\<exists>t. set_stage i y s = (Ok (), t) \<and> running H E T limit c K S (p, n, g(i := y), a) t \<and> (nothing_left s \<longrightarrow> nothing_left t)"
  using assms by (simp add: set_stage_def modA_def running_def rest_def nothing_left_def)

text \<open>Every connection that registered, and those that are in their session.\<close>

definition registered :: "(nat \<Rightarrow> stage) \<Rightarrow> nat set" where
  "registered g = {i. g i \<noteq> Unknown \<and> g i \<noteq> Handshake}"

definition in_session :: "(nat \<Rightarrow> stage) \<Rightarrow> nat set" where
  "in_session g = {i. g i = Session \<or> g i = Closing}"

definition server_ok :: "'w host \<Rightarrow> 'w node env \<Rightarrow> nat \<Rightarrow> nat \<Rightarrow> 'w server \<Rightarrow> bool" where
  "server_ok H E T limit s \<longleftrightarrow>
     running H E T limit (\<not> gone (phase s)) (registered (stages s)) (in_session (stages s)) (rest s) s \<and>
     (\<forall>i > accepted s. stages s i = Unknown) \<and> (gone (phase s) \<longrightarrow> nothing_left s)"

text \<open>When a step can happen. The worker's step assumes that the random identifiers have not run out;
  messages and time stay within \<open>T\<close>, up to which the clock can be read.\<close>

fun possible :: "nat \<Rightarrow> server_event \<Rightarrow> 'w server \<Rightarrow> bool" where
  "possible T Work s = (\<not> gone (phase s) \<and> (closed (incoming s) \<or> uuid_count (the_bridge s) < UUIDS))"
| "possible T Accept s = accepting s"
| "possible T (Refuse i) s = (stages s i = Handshake)"
| "possible T (Register i) s = (stages s i = Handshake)"
| "possible T (Arrive i v) s = (stages s i = Session \<and> timely T (timeout (the_bridge s)) v)"
| "possible T (Transmit i ev) s = (stages s i = Session \<and> receiving ev)"
| "possible T (End i) s = (stages s i = Session)"
| "possible T (Leave i) s = (stages s i = Closing)"
| "possible T Stop s = accepting s"
| "possible T (Elapse t) s = (clock (the_bridge s) + t \<le> T)"

lemma server_okI:
  assumes "running H E T limit (\<not> gone p) K S (p, n, g, a) t" "registered g = K" "in_session g \<subseteq> S"
    "\<And>i. n < i \<Longrightarrow> g i = Unknown" "gone p \<longrightarrow> nothing_left t"
  shows "server_ok H E T limit t"
proof -
  have r: "phase t = p" "accepted t = n" "stages t = g" "rest t = (p, n, g, a)" using assms(1) by (auto simp: running_def rest_def)
  show ?thesis unfolding server_ok_def r using running_mono [OF assms(1), of K "in_session g"] assms(2-) by auto
qed

lemma register_rule:
  assumes W: "ros_bridge W H E" and s: "running H E T limit c K S (p, n, g, a) s" and cap: "0 < cap" "0 < bytes"
    and i: "i \<notin> K" "i \<notin> S"
  shows "\<exists>t. register W cap bytes i s = (Ok (), t) \<and> running H E T limit c (insert i K) (insert i S) (p, n, g(i := Session), a) t \<and>
    (nothing_left s \<longrightarrow> nothing_left t)"
proof -
  obtain q where c: "channel_with_limits cap bytes = Ok q" using cap by (simp add: channel_with_limits_def)
  note q = c channel_ok [OF c]
  let ?s = "s\<lparr>the_bridge := put_queue i q (the_bridge s)\<rparr>"
  have o: "(i, i) \<notin> set (outputs (the_bridge s))" and x: "i \<notin> in_transit (incoming s)"
    using s i by (auto simp: running_def tasks_ok_def carries_def in_transit_def)
  have "tasks_ok T limit K S (incoming s) (put_queue i q (the_bridge s))"
    using s q(2) i by (auto simp: running_def tasks_ok_def put_queue_def)
  then have r: "running H E T limit c K S (p, n, g, a) ?s"
    using s consistent_drained [OF W _ q(2)] by (simp add: running_def rest_def)
  have n: "nothing_left s \<longrightarrow> nothing_left ?s" by (simp add: nothing_left_def put_queue_def)
  let ?x = "tryA (try_send W (Connect i i)) ?s"
  have "aside H E T limit c (insert i K) (insert i S) (p, n, g, a) ?s (try_send W (Connect i i) ?s)"
    by (rule send_connect [OF W running_mono [OF r]]) (use o in \<open>auto simp: put_queue_def\<close>)
  from aside_try [where m = "try_send W (Connect i i)", OF this] obtain u t where u: "?x = (Ok u, t)" "running H E T limit c (insert i K) (insert i S) (p, n, g, a) t"
    "nothing_left ?s \<longrightarrow> nothing_left t" by blast
  have "register W cap bytes i s = bindA (tryA (try_send W (Connect i i))) (\<lambda>_. set_stage i Session) ?s"
    by (simp add: register_def q(1) bindA_def on_bridge_def modA_def)
  also have "\<dots> = (Ok (), t\<lparr>stages := (stages t)(i := Session)\<rparr>)"
    using u(1) by (simp add: bindA_def set_stage_def modA_def)
  finally show ?thesis using u(2,3) n by (auto simp: running_def rest_def nothing_left_def)
qed

lemma leave_rule:
  assumes W: "ros_bridge W H E" and s: "running H E T limit c K S (p, n, g, a) s"
  shows "\<exists>t. leave W i s = (Ok (), t) \<and> running H E T limit c K S (p, n, g(i := Over), a) t \<and> (nothing_left s \<longrightarrow> nothing_left t)"
proof -
  obtain u t where t: "tryA (try_send W (Disconnect i)) s = (Ok u, t)" "running H E T limit c K S (p, n, g, a) t"
    "nothing_left s \<longrightarrow> nothing_left t" using aside_try [where m = "try_send W (Disconnect i)", OF send_disconnect [OF W s]] by blast
  obtain v w where w: "tryA (try_send W (Disconnect i)) t = (Ok v, w)" "running H E T limit c K S (p, n, g, a) w"
    "nothing_left t \<longrightarrow> nothing_left w" using aside_try [where m = "try_send W (Disconnect i)", OF send_disconnect [OF W t(2)]] by blast
  have "leave W i s = set_stage i Over w" using t(1) w(1) by (simp add: leave_def bindA_def del: try_send.simps)
  with stage_rule [OF w(2), of i Over] t(3) w(3) show ?thesis by auto
qed

lemma end_rule:
  assumes W: "ros_bridge W H E" and s: "running H E T limit c K S (p, n, g, a) s"
  shows "\<exists>t. end_session i s = (Ok (), t) \<and> running H E T limit c K S (p, n, g(i := Closing), a) t \<and> (nothing_left s \<longrightarrow> nothing_left t)"
proof -
  let ?m = "on_bridge (modA (\<lambda>b. put_queue i (drop_receiver (queues b i)) b))"
  have "?m s = transmit (e_storage E) DropReceiver i s" by (simp add: transmit_def)
  then have "aside H E T limit c K S (p, n, g, a) s (?m s)"
    using transmit_rule [OF W s, of DropReceiver "e_storage E" i] by simp
  moreover have "fst (?m s) = Ok ()" by (simp add: on_bridge_def modA_def)
  ultimately obtain t where t: "?m s = (Ok (), t)" "running H E T limit c K S (p, n, g, a) t" "nothing_left s \<longrightarrow> nothing_left t"
    unfolding aside_def by (cases "?m s") auto
  have "end_session i s = set_stage i Closing t" using t(1) by (simp add: end_session_def bindA_def)
  with stage_rule [OF t(2), of i Closing] t(3) show ?thesis by auto
qed

lemma elapse_rule:
  assumes W: "ros_bridge W H E" and s: "running H E T limit c K S z s" and t: "clock (the_bridge s) + t \<le> T" "instant_ok (T + limit)"
  shows "aside H E T limit c K S z s (on_bridge (modA (\<lambda>s. s\<lparr>clock := clock s + t\<rparr>)) s)"
proof -
  let ?b = "the_bridge s"
  have l: "timeout ?b = limit" using s by (simp add: running_def tasks_ok_def)
  have "instant_ok (clock ?b + t + timeout ?b)" using t by (auto simp: l elim: instant_ok_mono)
  then have "consistent H E ?b \<Longrightarrow> consistent H E (?b\<lparr>clock := clock ?b + t\<rparr>)"
    unfolding consistent_def using bridge_env.inv_elapse [OF ros_bridge.env [OF W]] by blast
  moreover have "tasks_ok T limit K S (incoming s) (?b\<lparr>clock := clock ?b + t\<rparr>)" using s t by (simp add: running_def tasks_ok_def)
  ultimately show ?thesis
    using s by (simp add: aside_def on_bridge_def modA_def running_def rest_def nothing_left_def)
qed

text \<open>Any step keeps the invariant and does not panic.\<close>

lemma server_step:
  assumes W: "ros_bridge W H E" and l: "0 < write_queue l" "0 < write_bytes l" "instant_ok (T + limit)"
    and s: "server_ok H E T limit s" and ev: "possible T ev s"
  shows "fst (server_act W E l ev s) \<noteq> Panic \<and> server_ok H E T limit (snd (server_act W E l ev s))"
proof -
  obtain p n g a where z: "rest s = (p, n, g, a)" and parts: "phase s = p" "accepted s = n" "stages s = g" "accepting s = a"
    by (simp add: rest_def)
  have r: "running H E T limit (\<not> gone p) (registered g) (in_session g) (p, n, g, a) s"
    and u: "\<And>i. n < i \<Longrightarrow> g i = Unknown" and gone: "gone p \<longrightarrow> nothing_left s"
    using s by (simp_all add: server_ok_def parts z)
  have limit: "timeout (the_bridge s) = limit" using r by (simp add: running_def tasks_ok_def)
  have still: "fst x \<noteq> Panic \<and> server_ok H E T limit (snd x)"
    if "aside H E T limit (\<not> gone p) (registered g) (in_session g) (p, n, g, a) s x" for x :: "'b outcome \<times> 'a server"
    using that gone u by (auto simp: aside_def intro: server_okI)
  have staged: "fst x \<noteq> Panic \<and> server_ok H E T limit (snd x)"
    if x: "\<exists>t. x = (Ok (), t) \<and> running H E T limit (\<not> gone p) K S (p, n, g(i := y), a) t \<and> (nothing_left s \<longrightarrow> nothing_left t)"
      and g: "registered (g(i := y)) = K" "in_session (g(i := y)) \<subseteq> S" "g i \<noteq> Unknown" for x i y K S
  proof -
    obtain t where t: "x = (Ok (), t)" "running H E T limit (\<not> gone p) K S (p, n, g(i := y), a) t" "nothing_left s \<longrightarrow> nothing_left t"
      using x by blast
    have "server_ok H E T limit t"
      by (rule server_okI [OF t(2) g(1,2)]) (use u g(3) gone t(3) in auto)
    with t(1) show ?thesis by simp
  qed
  show ?thesis
  proof (cases ev)
    case Work
    with ev have "\<not> gone p" "closed (incoming s) \<or> uuid_count (the_bridge s) < UUIDS" by (simp_all add: parts)
    with worker_turn_rule [OF W _ this(2,1)] r obtain t p' where "worker_turn W E s = (Ok (), t)"
      "running H E T limit (\<not> gone p') (registered g) (in_session g) (p', n, g, a) t" "gone p' \<longrightarrow> nothing_left t"
      by fastforce
    with Work u show ?thesis by (auto intro: server_okI)
  next
    case Accept
    let ?i = "n + 1" and ?s = "s\<lparr>accepted := n + 1\<rparr>"
    have g: "g ?i = Unknown" using u by simp
    have run: "accept s = set_stage ?i Handshake ?s" by (simp add: accept_def bindA_def modA_def getA_def parts)
    have "running H E T limit (\<not> gone p) (registered g) (in_session g) (p, ?i, g, a) ?s"
      using r by (simp add: running_def rest_def)
    from stage_rule [OF this, of ?i Handshake] obtain t where t: "set_stage ?i Handshake ?s = (Ok (), t)"
      "running H E T limit (\<not> gone p) (registered g) (in_session g) (p, ?i, g(?i := Handshake), a) t"
      "nothing_left ?s \<longrightarrow> nothing_left t" by blast
    have "registered (g(?i := Handshake)) = registered g" "in_session (g(?i := Handshake)) \<subseteq> in_session g"
      using g by (auto simp: registered_def in_session_def)
    then have "server_ok H E T limit t"
      by (rule server_okI [OF t(2)]) (use u gone t(3) in \<open>auto simp: nothing_left_def\<close>)
    with t(1) show ?thesis by (simp add: Accept run)
  next
    case (Refuse i)
    with ev have g: "g i = Handshake" by (simp add: parts)
    have "registered (g(i := Over)) = insert i (registered g)" "in_session (g(i := Over)) \<subseteq> in_session g"
      using g by (auto simp: registered_def in_session_def)
    from staged [OF stage_rule [OF running_mono [OF r subset_insertI order_refl]] this] g show ?thesis by (simp add: Refuse)
  next
    case (Register i)
    with ev have g: "g i = Handshake" by (simp add: parts)
    have i: "i \<notin> registered g" "i \<notin> in_session g" "registered (g(i := Session)) = insert i (registered g)"
      "in_session (g(i := Session)) \<subseteq> insert i (in_session g)"
      using g by (auto simp: registered_def in_session_def)
    from staged [OF register_rule [OF W r l(1,2) i(1,2)] i(3,4)] g show ?thesis by (simp add: Register)
  next
    case (Arrive i v)
    with ev have "timely T limit v" by (simp add: limit)
    from still [OF send_message [OF W r this]] show ?thesis by (simp add: Arrive del: try_send.simps)
  next
    case (Transmit i e)
    with ev have "receiving e" by simp
    from still [OF transmit_rule [OF W r this]] show ?thesis by (simp add: Transmit)
  next
    case (End i)
    with ev have g: "g i = Session" by (simp add: parts)
    have "registered (g(i := Closing)) = registered g" "in_session (g(i := Closing)) \<subseteq> in_session g"
      using g by (auto simp: registered_def in_session_def)
    from staged [OF end_rule [OF W r] this] g show ?thesis by (simp add: End)
  next
    case (Leave i)
    with ev have g: "g i = Closing" by (simp add: parts)
    have "registered (g(i := Over)) = registered g" "in_session (g(i := Over)) \<subseteq> in_session g"
      using g by (auto simp: registered_def in_session_def)
    from staged [OF leave_rule [OF W r] this] g show ?thesis by (simp add: Leave)
  next
    case Stop
    let ?s = "s\<lparr>accepting := False\<rparr>"
    have "running H E T limit (\<not> gone p) (registered g) (in_session g) (p, n, g, False) ?s"
      using r by (simp add: running_def rest_def)
    from send_shutdown [OF W this] have x: "aside H E T limit (\<not> gone p) (registered g) (in_session g) (p, n, g, False) ?s (try_send W Shutdown ?s)" .
    have "nothing_left ?s = nothing_left s" by (simp add: nothing_left_def)
    with x have "server_ok H E T limit (snd (try_send W Shutdown ?s))"
      unfolding aside_def by (intro server_okI [of H E T limit p "registered g" "in_session g" n g False]) (use u gone in auto)
    with x show ?thesis by (simp add: Stop aside_def bindA_def modA_def del: try_send.simps)
  next
    case (Elapse t)
    with ev have "clock (the_bridge s) + t \<le> T" by simp
    from still [OF elapse_rule [OF W r this l(3)]] show ?thesis by (simp add: Elapse)
  qed
qed

end
