(* ===== verification/Server_Properties.thy ===== *)
theory Server_Properties
  imports Server_Tasks
begin

text \<open>
The reachable states of the server, and what holds in all of them.
\<close>

section \<open>Reachable states\<close>

text \<open>Before a connection opens it, an address holds a closed queue.\<close>

definition no_queue :: queue where
  "no_queue = \<lparr>o_topics = [], o_control = [], topic_bytes = 0, control_bytes = 0, capacity = 1, byte_limit = 1,
     sender_closed = True, receiver_closed = True, close_reason = None, dropped = 0, last_warning = None\<rparr>"

text \<open>The server when its worker is ready: the bridge on a backend, with the access rules of the
  arguments and an empty command queue.\<close>

definition server_new :: "'w node \<Rightarrow> access \<Rightarrow> nat \<Rightarrow> nat \<Rightarrow> 'w server outcome" where
  "server_new b a limit cap = bindO (in_channel cap) (\<lambda>q.
     Ok \<lparr>the_bridge = (bridge_new b limit (\<lambda>_. no_queue))\<lparr>acc := a\<rparr>, incoming = q, phase = Waits, accepted = 0,
       stages = (\<lambda>_. Unknown), accepting = True\<rparr>)"

inductive server_run :: "'w world \<Rightarrow> 'w node env \<Rightarrow> limits \<Rightarrow> nat \<Rightarrow> 'w server \<Rightarrow> 'w server \<Rightarrow> bool"
  for W E l T where
  start: "server_run W E l T s s"
| step: "server_run W E l T s t \<Longrightarrow> possible T ev t \<Longrightarrow> server_run W E l T s (snd (server_act W E l ev t))"

inductive_cases server_runE: "server_run W E l T s t"

lemma server_new_ok:
  assumes W: "ros_bridge W H E" and b: "node_valid H b" "node_live b = {}" and T: "instant_ok (T + limit)"
    and s: "server_new b a limit cap = Ok s"
  shows "server_ok H E T limit s"
proof -
  let ?b = "(bridge_new b limit (\<lambda>_. no_queue))\<lparr>acc := a\<rparr>"
  have "instant_ok limit" using T by (rule instant_ok_mono) simp
  from consistent_new [OF W b this, of "\<lambda>_. no_queue"] have "consistent H E ?b"
    by (simp add: consistent_def bridge_inv_def tables_ok_def owned_def)
  moreover have "s = \<lparr>the_bridge = ?b, incoming = \<lparr>clients = [], ready = [], in_capacity = cap, closed = False\<rparr>, phase = Waits,
      accepted = 0, stages = (\<lambda>_. Unknown), accepting = True\<rparr>"
    using s by (auto simp: server_new_def in_channel_def split: if_splits)
  moreover have "queue_ok no_queue" by (simp add: queue_ok_def no_queue_def is_closed_def)
  ultimately show ?thesis
    by (simp add: server_ok_def running_def rest_def tasks_ok_def carries_def sched_ok_def in_transit_def registered_def
        in_session_def gone_def bridge_new_def)
qed

lemma server_run_ok:
  assumes "ros_bridge W H E" "0 < write_queue l" "0 < write_bytes l" "instant_ok (T + limit)"
    and "server_run W E l T s t" "server_ok H E T limit s"
  shows "server_ok H E T limit t"
  using assms(5,6) by induction (use server_step [OF assms(1-4)] in auto)

section \<open>Stopping\<close>

lemma iterate: "(f ^^ Suc n) s = (f ^^ n) (f s)"
  by (simp only: funpow_swap1 funpow.simps o_def)

text \<open>Once the command queue is closed the worker only goes towards its end.\<close>

fun distance :: "phase \<Rightarrow> nat" where
  "distance Waits = 2"
| "distance (Receives k) = (if k < 64 then 1 else 4)"
| "distance Ticks = 3"
| "distance (Gone _) = 0"

lemma on_bridge_incoming: "on_bridge m s = (r, t) \<Longrightarrow> incoming t = incoming s"
  by (auto simp: on_bridge_def split: prod.splits)

lemma go_on_closed:
  assumes "go_on W p s = (Ok (), t)" "closed (incoming s)"
  shows "phase t = p \<and> closed (incoming t)"
proof -
  have "closed (incoming u)" if "worker_end W s = (Ok (), u)" for u
    using that by (auto simp: worker_end_def bindA_def on_incoming_def in_drop_receiver_def drop_outputs_def modA_def
        split: prod.splits outcome.splits dest!: on_bridge_incoming)
  with assms show ?thesis
    by (auto simp: go_on_def bindA_def modA_def retA_def split: phase.splits prod.splits outcome.splits)
qed

lemma try_bridge_incoming: "tryA (on_bridge m) s = (r, t) \<Longrightarrow> incoming t = incoming s"
  by (auto simp: tryA_def split: prod.splits outcome.splits dest: on_bridge_incoming)

lemma receive_closed:
  assumes "worker_receive W E k s = (Ok p, t)" "closed (incoming s)"
  shows "closed (incoming t) \<and> (if k < 64 then p = Gone None else p = Ticks)"
proof (cases "k < 64")
  case True
  have "incoming u = incoming s" if "wake_worker W s = (r, u)" for r u
    using that unfolding wake_worker_def by (rule on_bridge_incoming)
  moreover have "closed (incoming t) \<and> p = Gone None"
    if "bindA (on_incoming in_try_recv) (\<lambda>(c, qs). bindA (drop_outputs qs) (\<lambda>_. case c of None \<Rightarrow> retA Ticks | Some c \<Rightarrow> obey E j c)) u = (Ok p, t)"
      "incoming u = incoming s" for u j
    using that assms(2)
    by (auto simp: bindA_def on_incoming_def in_try_recv_def drop_outputs_def modA_def retA_def
        split: prod.splits outcome.splits dest!: on_bridge_incoming)
  moreover obtain u where "incoming u = incoming s" "bindA (on_incoming in_try_recv) (\<lambda>(c, qs). bindA (drop_outputs qs)
      (\<lambda>_. case c of None \<Rightarrow> retA Ticks | Some c \<Rightarrow> obey E k c)) u = (Ok p, t)"
  proof (cases "k = 63")
    case k: True
    let ?rest = "bindA (on_incoming in_try_recv) (\<lambda>(c, qs). bindA (drop_outputs qs)
      (\<lambda>_. case c of None \<Rightarrow> retA Ticks | Some c \<Rightarrow> obey E k c))"
    have "bindA (wake_worker W) (\<lambda>_. ?rest) s = (Ok p, t)" using assms(1) unfolding k worker_receive_def by simp
    then obtain u where "wake_worker W s = (Ok (), u)" "?rest u = (Ok p, t)" unfolding bindA_Ok [of "wake_worker W"] by auto
    with calculation that show thesis by blast
  next
    case False
    with assms(1) True that [of s] show thesis by (simp add: worker_receive_def)
  qed
  ultimately show ?thesis using True by auto
next
  case False
  with assms show ?thesis by (auto simp: worker_receive_def retA_def)
qed

lemma step_closing:
  assumes "worker_turn W E s = (Ok (), t)" "closed (incoming s)" "\<not> gone (phase s)"
  shows "closed (incoming t) \<and> distance (phase t) < distance (phase s)"
proof (cases "phase s")
  case Waits
  then obtain r u where u: "tryA (worker_wait W) s = (Ok r, u)" "go_on W (case r of Inl e \<Rightarrow> Gone (Some e) | Inr _ \<Rightarrow> Receives 0) u = (Ok (), t)"
    using assms(1) by (auto simp: worker_turn_def bindA_Ok getA_def)
  have "worker_wait W s = on_bridge (onB (onN (ros_wait W (wait_time s)))) s"
    by (simp add: worker_wait_def bindA_def getA_def)
  with u(1) have "incoming u = incoming s"
    by (auto simp: tryA_def split: prod.splits outcome.splits dest: on_bridge_incoming)
  with go_on_closed [OF u(2)] assms(2) Waits show ?thesis by (auto split: sum.splits)
next
  case (Receives k)
  then obtain p u where u: "worker_receive W E k s = (Ok p, u)" "go_on W p u = (Ok (), t)"
    using assms(1) by (auto simp: worker_turn_def bindA_Ok getA_def)
  from receive_closed [OF u(1) assms(2)] go_on_closed [OF u(2)] Receives show ?thesis by (auto split: if_splits)
next
  case Ticks
  then obtain r u where u: "tryA (on_bridge (tick E)) s = (Ok r, u)" "go_on W (case r of Inl e \<Rightarrow> Gone (Some e) | Inr _ \<Rightarrow> Waits) u = (Ok (), t)"
    using assms(1) by (auto simp: worker_turn_def bindA_Ok getA_def)
  with go_on_closed [OF u(2)] try_bridge_incoming [OF u(1)] assms(2) Ticks show ?thesis by (auto split: sum.splits)
qed (use assms(3) in \<open>simp add: gone_def\<close>)

lemma worker_closing:
  assumes W: "ros_bridge W H E" and s: "server_ok H E T limit s" "closed (incoming s)" "\<not> gone (phase s)"
  shows "\<exists>t. worker_turn W E s = (Ok (), t) \<and> server_ok H E T limit t \<and> closed (incoming t) \<and>
    distance (phase t) < distance (phase s) \<and> stages t = stages s"
proof -
  obtain p n g a where z: "rest s = (p, n, g, a)" and parts: "phase s = p" "accepted s = n" "stages s = g" "accepting s = a"
    by (simp add: rest_def)
  have r: "running H E T limit True (registered g) (in_session g) (p, n, g, a) s" and u: "\<And>i. n < i \<Longrightarrow> g i = Unknown"
    using s(1,3) by (simp_all add: server_ok_def parts z)
  from worker_turn_rule [OF W r] s(2,3) obtain t p' where t: "worker_turn W E s = (Ok (), t)"
    "running H E T limit (\<not> gone p') (registered g) (in_session g) (p', n, g, a) t" "gone p' \<longrightarrow> nothing_left t"
    by (auto simp: parts)
  have "server_ok H E T limit t" by (rule server_okI [OF t(2)]) (use u t(3) in auto)
  moreover have "stages t = stages s" using t(2) by (simp add: running_def rest_def parts)
  ultimately show ?thesis using t(1) step_closing [OF t(1) s(2,3)] by blast
qed

lemma worker_stops:
  assumes W: "ros_bridge W H E" and s: "server_ok H E T limit s" "closed (incoming s)"
  shows "\<exists>n \<le> distance (phase s). let t = ((\<lambda>s. snd (worker_turn W E s)) ^^ n) s in
    server_ok H E T limit t \<and> gone (phase t) \<and> stages t = stages s"
  using s
proof (induction "distance (phase s)" arbitrary: s rule: less_induct)
  case less
  show ?case
  proof (cases "gone (phase s)")
    case True
    with less.prems show ?thesis by (intro exI [of _ 0]) simp
  next
    case False
    obtain t where t: "worker_turn W E s = (Ok (), t)" "server_ok H E T limit t" "closed (incoming t)"
      "distance (phase t) < distance (phase s)" "stages t = stages s"
      using worker_closing [OF W less.prems False] by blast
    obtain n where "n \<le> distance (phase t)" "let u = ((\<lambda>s. snd (worker_turn W E s)) ^^ n) t in
      server_ok H E T limit u \<and> gone (phase u) \<and> stages u = stages t" using less.hyps [OF t(4,2,3)] by blast
    with t show ?thesis by (intro exI [of _ "Suc n"]) (simp add: iterate Let_def del: funpow.simps)
  qed
qed

lemma gone_closed:
  assumes "server_ok H E T limit s" "gone (phase s)"
  shows "nothing_left s" "stages s i = Session \<or> stages s i = Closing \<Longrightarrow> sender_closed (queues (the_bridge s) i)"
proof -
  show n: "nothing_left s" using assms by (simp add: server_ok_def)
  assume "stages s i = Session \<or> stages s i = Closing"
  then have i: "i \<in> in_session (stages s)" by (simp add: in_session_def)
  have r: "running H E T limit False (registered (stages s)) (in_session (stages s)) (rest s) s"
    using assms by (simp add: server_ok_def)
  have "in_transit (incoming s) = {}"
    using running_carries [OF r] n by (auto simp: carries_def sched_ok_def nothing_left_def in_transit_def)
  with r i n show "sender_closed (queues (the_bridge s) i)"
    unfolding running_def tasks_ok_def nothing_left_def by auto
qed

section \<open>Properties\<close>

definition loop_limits :: limits where
  "loop_limits = \<lparr>write_queue = 2, write_bytes = 9\<rparr>"

definition loop_server :: "loop server" where
  "loop_server = \<lparr>the_bridge = (bridge_new loop_node (secs 5) (\<lambda>_. no_queue))\<lparr>acc := access_default\<rparr>,
     incoming = \<lparr>clients = [], ready = [], in_capacity = 1, closed = False\<rparr>, phase = Waits, accepted = 0,
     stages = (\<lambda>_. Unknown), accepting = True\<rparr>"

lemma loop_server_new: "server_new loop_node access_default (secs 5) 1 = Ok loop_server"
  by (simp add: server_new_def in_channel_def loop_server_def)

lemma loop_range: "instant_ok (secs 10 + secs 5)"
  by (simp add: instant_ok_def secs_def NANOS_def)

definition loop_opened :: "loop server" where
  "loop_opened = snd (server_act loop_world loop_env loop_limits (Register 1)
     (snd (server_act loop_world loop_env loop_limits Accept loop_server)))"

lemma loop_opened_run: "server_run loop_world loop_env loop_limits (secs 10) loop_server loop_opened"
proof -
  have "possible (secs 10) Accept loop_server" by (simp add: loop_server_def)
  from server_run.step [OF server_run.start this]
  have a: "server_run loop_world loop_env loop_limits (secs 10) loop_server (snd (server_act loop_world loop_env loop_limits Accept loop_server))" .
  have "possible (secs 10) (Register 1) (snd (server_act loop_world loop_env loop_limits Accept loop_server))"
    by (simp add: accept_def set_stage_def action_defs loop_server_def)
  from server_run.step [OF a this] show ?thesis unfolding loop_opened_def .
qed

lemma loop_opened_stage: "stages loop_opened 1 = Session" "phase loop_opened = Waits" "accepting loop_opened"
  unfolding loop_opened_def loop_limits_def loop_server_def
  by (simp_all add: accept_def set_stage_def register_def channel_with_limits_def on_bridge_def on_incoming_def tryA_def
      bindA_def modA_def getA_def retA_def liftA_def in_connect_def schedule_def put_client_def has_def wake_worker_def onB_def onN_def
      wake_trigger_def ignored_def put_queue_def bridge_new_def loop_node_def loop_ros_def ros_initial_def loop_world_def loop_rcl_def loop_ok_def
      del: has_keys)

text \<open>
  C37. However the worker, the tasks of the connections, the clock and the shutdown of the server are
  interleaved, no step panics, as long as the deadlines that clients ask for in their service calls are
  within the range of the clock (\<open>timely\<close>, part of \<open>possible\<close> for an arriving message), which the source
  does not check. In every state that is reached the command queues are consistent, the
  bridge is as long as its worker runs, and a connection in its session has its output either on its
  way to the bridge or in the bridge, or it has been closed.
\<close>

theorem server_sound:
  assumes "ros_bridge W H E" "node_valid H b" "node_live b = {}" "0 < write_queue l" "0 < write_bytes l"
    and "instant_ok (T + limit)" "server_new b a limit cap = Ok s" "server_run W E l T s t"
  shows "(\<forall>ev. possible T ev t \<longrightarrow> fst (server_act W E l ev t) \<noteq> Panic) \<and> sched_ok (incoming t) \<and>
    (gone (phase t) \<or> consistent H E (the_bridge t)) \<and>
    (\<forall>i. stages t i = Session \<longrightarrow> (i, i) \<in> set (outputs (the_bridge t)) \<or> i \<in> in_transit (incoming t) \<or>
       sender_closed (queues (the_bridge t) i))"
proof -
  have t: "server_ok H E T limit t"
    by (rule server_run_ok [OF assms(1,4,5,6,8) server_new_ok [OF assms(1-3,6,7)]])
  then have "fst (server_act W E l ev t) \<noteq> Panic" if "possible T ev t" for ev
    using server_step [OF assms(1,4-6)] that by blast
  with t show ?thesis
    by (auto simp: server_ok_def running_def tasks_ok_def carries_def in_session_def)
qed

theorem server_sound_witness:
  "stages loop_opened 1 = Session \<and> fst (server_act loop_world loop_env loop_limits Work loop_opened) \<noteq> Panic"
proof -
  have "possible (secs 10) Work loop_opened"
    by (simp add: loop_opened_stage gone_def) (simp add: loop_opened_def loop_limits_def loop_server_def accept_def
      set_stage_def register_def channel_with_limits_def on_bridge_def on_incoming_def tryA_def
      bindA_def modA_def getA_def retA_def liftA_def in_connect_def schedule_def put_client_def has_def wake_worker_def onB_def onN_def
      wake_trigger_def ignored_def put_queue_def bridge_new_def loop_node_def loop_ros_def ros_initial_def loop_world_def loop_rcl_def loop_ok_def
      UUIDS_def del: has_keys)
  moreover have "0 < write_queue loop_limits" "0 < write_bytes loop_limits" by (simp_all add: loop_limits_def)
  ultimately show ?thesis
    using server_sound [OF loop.ros_bridge_axioms loop_start(1,2) _ _ loop_range loop_server_new loop_opened_run]
      loop_opened_stage(1) by blast
qed

text \<open>
  C38. Stopping the server ends its worker, in a run where clients asked for deadlines within the range
  of the clock: whatever the worker is doing and whatever is still queued, it is gone after at most four of its steps. Then no entity is left in ROS, the bridge holds no output,
  and the queue of every connection in its session is closed, so that its task ends too.
\<close>

theorem server_stops:
  assumes "ros_bridge W H E" "node_valid H b" "node_live b = {}" "0 < write_queue l" "0 < write_bytes l"
    and "instant_ok (T + limit)" "server_new b a limit cap = Ok s" "server_run W E l T s t" "possible T Stop t"
  shows "\<exists>n \<le> 4. let u = ((\<lambda>s. snd (worker_turn W E s)) ^^ n) (snd (server_act W E l Stop t)) in
    gone (phase u) \<and> nothing_left u \<and> (\<forall>i. stages t i = Session \<longrightarrow> stages u i = Session \<and> sender_closed (queues (the_bridge u) i))"
proof -
  let ?v = "snd (server_act W E l Stop t)"
  have t: "server_ok H E T limit t"
    by (rule server_run_ok [OF assms(1,4,5,6,8) server_new_ok [OF assms(1-3,6,7)]])
  have v: "server_ok H E T limit ?v" using server_step [OF assms(1,4-6) t assms(9)] by simp
  have c: "closed (incoming ?v) \<and> stages ?v = stages t"
  proof -
    have b: "incoming (snd (on_bridge m r)) = incoming r \<and> stages (snd (on_bridge m r)) = stages r"
      for m :: "('a node bridge, 'b) action" and r
      by (simp add: on_bridge_def split: prod.split)
    have d: "drop_outputs qs r = (Ok (), r\<lparr>the_bridge := fold close_output qs (the_bridge r)\<rparr>)" for qs and r :: "'a server"
      by (simp add: drop_outputs_def on_bridge_def modA_def)
    show ?thesis
      by (simp add: bindA_def modA_def on_incoming_def in_shutdown_def d wake_worker_def b)
  qed
  obtain n where n: "n \<le> distance (phase ?v)" and u: "let u = ((\<lambda>s. snd (worker_turn W E s)) ^^ n) ?v in
      server_ok H E T limit u \<and> gone (phase u) \<and> stages u = stages ?v"
    using worker_stops [OF assms(1) v conjunct1 [OF c]] by blast
  have "distance (phase ?v) \<le> 4" by (cases "phase ?v") auto
  with n have "n \<le> 4" by simp
  moreover have "let u = ((\<lambda>s. snd (worker_turn W E s)) ^^ n) ?v in gone (phase u) \<and> nothing_left u \<and>
      (\<forall>i. stages t i = Session \<longrightarrow> stages u i = Session \<and> sender_closed (queues (the_bridge u) i))"
    using u gone_closed [of H E T limit "((\<lambda>s. snd (worker_turn W E s)) ^^ n) ?v"] c unfolding Let_def by metis
  ultimately show ?thesis by blast
qed

theorem server_stops_witness:
  "\<exists>n \<le> 4. let u = ((\<lambda>s. snd (worker_turn loop_world loop_env s)) ^^ n)
      (snd (server_act loop_world loop_env loop_limits Stop loop_opened)) in
    gone (phase u) \<and> nothing_left u \<and> sender_closed (queues (the_bridge u) 1)"
proof -
  have "possible (secs 10) Stop loop_opened" by (simp add: loop_opened_stage)
  moreover have "0 < write_queue loop_limits" "0 < write_bytes loop_limits" by (simp_all add: loop_limits_def)
  ultimately show ?thesis
    using server_stops [OF loop.ros_bridge_axioms loop_start(1,2) _ _ loop_range loop_server_new loop_opened_run]
      loop_opened_stage(1) unfolding Let_def by blast
qed

end
