(* ===== verification/Files.thy ===== *)
theory Files
  imports Values "HOL-Library.List_Lexorder" "HOL-Library.Product_Lexorder" "HOL-Library.Char_ord"
begin

text \<open>
Paths and files, as far as the program uses \<^verbatim>\<open>std::path\<close> and \<^verbatim>\<open>std::fs\<close>: a disk of names and inodes
  on which every call may fail.
\<close>

section \<open>Paths\<close>

text \<open>A path is absolute or not and has components; the last one may be a file name, which splits at
  its last dot, a leading one apart.\<close>

datatype path = Path (is_absolute: bool) (components: "string list")

text \<open>Paths are ordered by their components.\<close>

instantiation path :: linorder
begin

definition less_eq_path :: "path \<Rightarrow> path \<Rightarrow> bool" where
  "p \<le> q \<longleftrightarrow> (is_absolute p, components p) \<le> (is_absolute q, components q)"

definition less_path :: "path \<Rightarrow> path \<Rightarrow> bool" where
  "p < q \<longleftrightarrow> (is_absolute p, components p) < (is_absolute q, components q)"

instance
  by standard (auto simp: less_eq_path_def less_path_def less_le_not_le intro: path.expand simp del: prod.inject)

end

definition path_join :: "path \<Rightarrow> path \<Rightarrow> path" where
  "path_join p q = (if is_absolute q then q else Path (is_absolute p) (components p @ components q))"

definition path_child :: "path \<Rightarrow> string \<Rightarrow> path" where
  "path_child p n = Path (is_absolute p) (components p @ [n])"

definition path_parent :: "path \<Rightarrow> path option" where
  "path_parent p = (if components p = [] then None else Some (Path (is_absolute p) (butlast (components p))))"

definition file_name :: "path \<Rightarrow> string option" where
  "file_name p = (if components p = [] \<or> last (components p) = ''..'' then None else Some (last (components p)))"

fun rsplit_dot :: "string \<Rightarrow> (string \<times> string) option" where
  "rsplit_dot [] = None"
| "rsplit_dot (c # s) = (case rsplit_dot s of
     Some (a, b) \<Rightarrow> Some (c # a, b)
   | None \<Rightarrow> if c = CHR ''.'' then Some ([], s) else None)"

definition name_parts :: "string \<Rightarrow> string \<times> string option" where
  "name_parts n = (case rsplit_dot n of
     None \<Rightarrow> (n, None)
   | Some (a, b) \<Rightarrow> if a = [] then (n, None) else (a, Some b))"

definition extension :: "path \<Rightarrow> string option" where
  "extension p = Option.bind (file_name p) (\<lambda>n. snd (name_parts n))"

definition file_stem :: "path \<Rightarrow> string option" where
  "file_stem p = map_option (\<lambda>n. fst (name_parts n)) (file_name p)"

definition with_extension :: "path \<Rightarrow> string \<Rightarrow> path" where
  "with_extension p e = (case file_stem p of
     None \<Rightarrow> p
   | Some s \<Rightarrow> Path (is_absolute p) (butlast (components p) @ [s @ ''.'' @ e]))"

section \<open>The disk\<close>

datatype io = Missing | Exists | Failed string

text \<open>A name leads to an inode; any call may fail, as \<open>d_faults\<close> says of the \<open>n\<close>-th one, and a write may
  take less than it is given.\<close>

record inode =
  i_bytes :: "byte list"
  i_modified :: nat

record disk =
  d_names :: "(path \<times> nat) list"
  d_inodes :: "nat \<Rightarrow> inode"
  d_next :: nat
  d_folders :: "path list"
  d_clock :: nat
  d_faults :: "nat \<Rightarrow> io option"
  d_takes :: "nat \<Rightarrow> nat"
  d_calls :: nat

type_synonym 'a io_action = "disk \<Rightarrow> (io + 'a) \<times> disk"

definition io_ret :: "'a \<Rightarrow> 'a io_action" where
  "io_ret x d = (Inr x, d)"

definition io_fail :: "io \<Rightarrow> 'a io_action" where
  "io_fail e d = (Inl e, d)"

definition io_bind :: "'a io_action \<Rightarrow> ('a \<Rightarrow> 'b io_action) \<Rightarrow> 'b io_action" where
  "io_bind m f d = (case m d of (Inl e, d') \<Rightarrow> (Inl e, d') | (Inr x, d') \<Rightarrow> f x d')"

definition io_try :: "'a io_action \<Rightarrow> (io + 'a) io_action" where
  "io_try m d = (case m d of (r, d') \<Rightarrow> (Inr r, d'))"

definition io_call :: "'a io_action \<Rightarrow> 'a io_action" where
  "io_call m d = (let d' = d\<lparr>d_calls := Suc (d_calls d)\<rparr> in
     case d_faults d (d_calls d) of Some e \<Rightarrow> (Inl e, d') | None \<Rightarrow> m d')"

definition fs_create_dir_all :: "path \<Rightarrow> unit io_action" where
  "fs_create_dir_all p = io_call (\<lambda>d.
     if has (d_names d) p then (Inl Exists, d) else (Inr (), d\<lparr>d_folders := List.insert p (d_folders d)\<rparr>))"

definition fs_create_new :: "path \<Rightarrow> nat io_action" where
  "fs_create_new p = io_call (\<lambda>d.
     if has (d_names d) p \<or> p \<in> set (d_folders d) then (Inl Exists, d)
     else (Inr (d_next d), d\<lparr>d_names := (p, d_next d) # d_names d, d_next := d_next d + 1,
       d_inodes := (d_inodes d)(d_next d := \<lparr>i_bytes = [], i_modified = d_clock d\<rparr>)\<rparr>))"

text \<open>\<^verbatim>\<open>Path::exists\<close> is false when the file cannot be looked at.\<close>

definition fs_exists :: "path \<Rightarrow> disk \<Rightarrow> bool \<times> disk" where
  "fs_exists p d = (case io_call (\<lambda>d. (Inr (has (d_names d) p \<or> p \<in> set (d_folders d)), d)) d of
     (Inr b, d') \<Rightarrow> (b, d') | (Inl e, d') \<Rightarrow> (False, d'))"

definition fs_remove :: "path \<Rightarrow> unit io_action" where
  "fs_remove p = io_call (\<lambda>d.
     if has (d_names d) p then (Inr (), d\<lparr>d_names := AList.delete p (d_names d)\<rparr>) else (Inl Missing, d))"

definition fs_hard_link :: "path \<Rightarrow> path \<Rightarrow> unit io_action" where
  "fs_hard_link p q = io_call (\<lambda>d. case map_of (d_names d) p of
     None \<Rightarrow> (Inl Missing, d)
   | Some i \<Rightarrow> if has (d_names d) q \<or> q \<in> set (d_folders d) then (Inl Exists, d)
       else (Inr (), d\<lparr>d_names := (q, i) # d_names d\<rparr>))"

text \<open>The files of a folder.\<close>

definition fs_read_dir :: "path \<Rightarrow> path list io_action" where
  "fs_read_dir p = io_call (\<lambda>d.
     if p \<in> set (d_folders d) then (Inr (filter (\<lambda>q. path_parent q = Some p) (keys (d_names d) @ d_folders d)), d)
     else (Inl Missing, d))"

definition fs_is_file :: "path \<Rightarrow> bool io_action" where
  "fs_is_file p = io_call (\<lambda>d. (Inr (has (d_names d) p), d))"

definition fs_modified :: "path \<Rightarrow> nat io_action" where
  "fs_modified p = io_call (\<lambda>d. case map_of (d_names d) p of
     None \<Rightarrow> (Inl Missing, d) | Some i \<Rightarrow> (Inr (i_modified (d_inodes d i)), d))"

text \<open>Through an open file: \<^verbatim>\<open>flush\<close> and \<^verbatim>\<open>write\<close>.\<close>

definition file_flush :: "unit io_action" where
  "file_flush = io_call (io_ret ())"

definition file_write :: "nat \<Rightarrow> byte list \<Rightarrow> nat io_action" where
  "file_write i bs = io_call (\<lambda>d.
     let n = min (length bs) (d_takes d (d_calls d)); f = d_inodes d i
     in (Inr n, d\<lparr>d_inodes := (d_inodes d)(i := \<lparr>i_bytes = i_bytes f @ take n bs, i_modified = d_clock d\<rparr>)\<rparr>))"

definition utf8_bytes :: "byte list \<Rightarrow> bool" where
  "utf8_bytes bs = utf8 (map (\<lambda>b. char_of (unat b)) bs)"

definition fs_read_to_string :: "path \<Rightarrow> byte list io_action" where
  "fs_read_to_string p = io_call (\<lambda>d. case map_of (d_names d) p of
     None \<Rightarrow> (Inl (if p \<in> set (d_folders d) then Failed ''Is a directory'' else Missing), d)
   | Some i \<Rightarrow> if utf8_bytes (i_bytes (d_inodes d i)) then (Inr (i_bytes (d_inodes d i)), d)
       else (Inl (Failed ''stream did not contain valid UTF-8''), d))"

text \<open>\<^verbatim>\<open>std::fs::write\<close>: an open that empties the file, and writes until everything is taken.\<close>

definition fs_truncate :: "path \<Rightarrow> nat io_action" where
  "fs_truncate p = io_call (\<lambda>d.
     if p \<in> set (d_folders d) then (Inl (Failed ''Is a directory''), d)
     else case map_of (d_names d) p of
       Some i \<Rightarrow> (Inr i, d\<lparr>d_inodes := (d_inodes d)(i := \<lparr>i_bytes = [], i_modified = d_clock d\<rparr>)\<rparr>)
     | None \<Rightarrow> (Inr (d_next d), d\<lparr>d_names := (p, d_next d) # d_names d, d_next := d_next d + 1,
         d_inodes := (d_inodes d)(d_next d := \<lparr>i_bytes = [], i_modified = d_clock d\<rparr>)\<rparr>))"

function file_write_all :: "nat \<Rightarrow> byte list \<Rightarrow> unit io_action" where
  "file_write_all i bs d =
     (if bs = [] then (Inr (), d)
      else case file_write i bs d of
        (Inl e, d') \<Rightarrow> (Inl e, d')
      | (Inr n, d') \<Rightarrow> if n = 0 then (Inl (Failed ''failed to write whole buffer''), d') else file_write_all i (drop n bs) d')"
  by pat_completeness auto
termination
  by (relation "measure (\<lambda>(i, bs, d). length bs)") auto

declare file_write_all.simps [simp del]

definition fs_write :: "path \<Rightarrow> byte list \<Rightarrow> unit io_action" where
  "fs_write p bs = io_bind (fs_truncate p) (\<lambda>i. file_write_all i bs)"

end
