(* ===== verification/Log_File.thy ===== *)
theory Log_File
  imports Files
begin

text \<open>
\<^verbatim>\<open>src/logging/file.rs\<close>: the log file of the background writer, its rotation by the clock and the
  archives it keeps. Texts of times come from \<^verbatim>\<open>chrono\<close> and are a parameter.
\<close>

section \<open>State\<close>

datatype rotation = TwentyMinutes | Daily | Hourly | Never

datatype timezone = LocalTime | Utc

text \<open>What is used of \<^verbatim>\<open>chrono\<close>: the text of a time in a format, and its minute.\<close>

record 'time chrono =
  strftime :: "'time \<Rightarrow> string \<Rightarrow> string"
  time_minute :: "'time \<Rightarrow> nat"

record log_file =
  lf_file :: nat
  lf_path :: path
  lf_directory :: path
  lf_rotation :: rotation
  lf_timezone :: timezone
  lf_period :: string
  lf_max_files :: nat
  lf_closed :: bool

text \<open>The clock in both time zones.\<close>

definition log_now :: "timezone \<Rightarrow> 'time \<times> 'time \<Rightarrow> 'time" where
  "log_now z t = (case z of LocalTime \<Rightarrow> fst t | Utc \<Rightarrow> snd t)"

definition rotation_period :: "'time chrono \<Rightarrow> rotation \<Rightarrow> 'time \<Rightarrow> string" where
  "rotation_period C r t = (case r of
     TwentyMinutes \<Rightarrow> strftime C t ''%Y%m%d%H%z'' @ ''-'' @ dec (time_minute C t div 20)
   | Daily \<Rightarrow> strftime C t ''%Y%m%d''
   | Hourly \<Rightarrow> strftime C t ''%Y%m%d%H%z''
   | Never \<Rightarrow> [])"

section \<open>The active file\<close>

definition log_stem :: "string \<Rightarrow> nat \<Rightarrow> string" where
  "log_stem timestamp index = (if index = 0 then timestamp else timestamp @ ''-'' @ dec index)"

definition log_path :: "path \<Rightarrow> string \<Rightarrow> nat \<Rightarrow> path" where
  "log_path dir timestamp index = path_child dir (log_stem timestamp index @ ''.logging'')"

text \<open>The search for a free name, from \<open>index\<close> on; the fuel is the number of names to try.\<close>

fun log_create :: "nat \<Rightarrow> path \<Rightarrow> string \<Rightarrow> nat \<Rightarrow> (nat \<times> path) option io_action" where
  "log_create 0 dir timestamp index = io_ret None"
| "log_create (Suc fuel) dir timestamp index =
     (let p = log_path dir timestamp index in
      io_bind (io_try (fs_create_new p)) (\<lambda>r. case r of
        Inr file \<Rightarrow> (\<lambda>d. case fs_exists (with_extension p ''log'') d of
            (True, d') \<Rightarrow> io_bind (fs_remove p) (\<lambda>_. log_create fuel dir timestamp (index + 1)) d'
          | (False, d') \<Rightarrow> (Inr (Some (file, p)), d'))
      | Inl Exists \<Rightarrow> log_create fuel dir timestamp (index + 1)
      | Inl e \<Rightarrow> io_fail e))"

text \<open>A name can be taken only by a file that exists, so one more than there are is enough.\<close>

definition log_open :: "'time chrono \<Rightarrow> path \<Rightarrow> 'time \<Rightarrow> (nat \<times> path) io_action" where
  "log_open C dir t d = (case log_create (Suc (length (d_names d) + length (d_folders d))) dir (strftime C t ''%Y%m%d%H%M'') 0 d of
     (Inl e, d') \<Rightarrow> (Inl e, d')
   | (Inr (Some x), d') \<Rightarrow> (Inr x, d')
   | (Inr None, d') \<Rightarrow> (Inl (Failed ''unreachable''), d'))"

section \<open>Archives\<close>

definition ascii_digits :: "string \<Rightarrow> bool" where
  "ascii_digits s = list_all (\<lambda>c. CHR ''0'' \<le> c \<and> c \<le> CHR ''9'') s"

definition is_archive :: "path \<Rightarrow> bool" where
  "is_archive p = (extension p = Some ''log'' \<and> (case file_stem p of
     None \<Rightarrow> False
   | Some stem \<Rightarrow> (case split_once ''-'' stem of
       None \<Rightarrow> length stem = 12 \<and> ascii_digits stem
     | Some (stamp, index) \<Rightarrow> length stamp = 12 \<and> ascii_digits stamp \<and> index \<noteq> [] \<and> ascii_digits index)))"

definition log_archive :: "log_file \<Rightarrow> unit io_action" where
  "log_archive l =
     io_bind file_flush (\<lambda>_.
     io_bind (fs_hard_link (lf_path l) (with_extension (lf_path l) ''log'')) (\<lambda>_.
     fs_remove (lf_path l)))"

primrec log_archives :: "path list \<Rightarrow> (nat \<times> path) list io_action" where
  "log_archives [] = io_ret []"
| "log_archives (p # ps) =
     io_bind (fs_is_file p) (\<lambda>file.
     if file \<and> is_archive p
     then io_bind (fs_modified p) (\<lambda>t. io_bind (log_archives ps) (\<lambda>more. io_ret ((t, p) # more)))
     else log_archives ps)"

primrec remove_each :: "path list \<Rightarrow> unit io_action" where
  "remove_each [] = io_ret ()"
| "remove_each (p # ps) = io_bind (fs_remove p) (\<lambda>_. remove_each ps)"

text \<open>The oldest archives go, by modification time and then by path.\<close>

definition log_prune :: "log_file \<Rightarrow> unit io_action" where
  "log_prune l =
     io_bind (fs_read_dir (lf_directory l)) (\<lambda>ps.
     io_bind (log_archives ps) (\<lambda>files.
     remove_each (map snd (take (length files - lf_max_files l) (sort files)))))"

section \<open>The writer\<close>

definition log_at :: "'time chrono \<Rightarrow> path \<Rightarrow> rotation \<Rightarrow> timezone \<Rightarrow> nat \<Rightarrow> 'time \<Rightarrow> log_file io_action" where
  "log_at C dir r z n t =
     io_bind (fs_create_dir_all dir) (\<lambda>_.
     io_bind (log_open C dir t) (\<lambda>(file, p).
     let l = \<lparr>lf_file = file, lf_path = p, lf_directory = dir, lf_rotation = r, lf_timezone = z,
       lf_period = rotation_period C r t, lf_max_files = n, lf_closed = False\<rparr>
     in io_bind (log_prune l) (\<lambda>_. io_ret l)))"

definition log_new :: "'time chrono \<Rightarrow> path \<Rightarrow> rotation \<Rightarrow> timezone \<Rightarrow> nat \<Rightarrow> 'time \<times> 'time \<Rightarrow> log_file io_action" where
  "log_new C dir r z n now = io_bind (log_at C dir r z n (log_now z now)) (\<lambda>l. io_ret (l\<lparr>lf_closed := True\<rparr>))"

text \<open>The operations of an open log return the log as it is afterwards, also with an error.\<close>

definition log_rotate :: "'time chrono \<Rightarrow> 'time \<Rightarrow> log_file \<Rightarrow> disk \<Rightarrow> (io + unit) \<times> log_file \<times> disk" where
  "log_rotate C t l d =
     (let period = rotation_period C (lf_rotation l) t in
      if period = lf_period l then (Inr (), l, d)
      else case log_open C (lf_directory l) t d of
        (Inl e, d1) \<Rightarrow> (Inl e, l, d1)
      | (Inr (file, p), d1) \<Rightarrow> (case log_archive l d1 of
          (Inl e, d2) \<Rightarrow> (Inl e, l, snd (fs_remove p d2))
        | (Inr _, d2) \<Rightarrow>
            (let l1 = l\<lparr>lf_file := file, lf_path := p, lf_period := period\<rparr>;
                 (r, d3) = log_prune l1 d2
             in (r, l1, d3))))"

definition log_write :: "'time chrono \<Rightarrow> 'time \<times> 'time \<Rightarrow> byte list \<Rightarrow> log_file \<Rightarrow> disk \<Rightarrow> (io + nat) \<times> log_file \<times> disk" where
  "log_write C now bs l d = (case log_rotate C (log_now (lf_timezone l) now) l d of
     (Inl e, l1, d1) \<Rightarrow> (Inl e, l1, d1)
   | (Inr _, l1, d1) \<Rightarrow> (case file_write (lf_file l1) bs d1 of (r, d2) \<Rightarrow> (r, l1, d2)))"

definition log_flush :: "unit io_action" where
  "log_flush = file_flush"

text \<open>Dropping the log: the disk, whether the failure is reported, and whether the guard is told.\<close>

definition log_drop :: "log_file \<Rightarrow> disk \<Rightarrow> (io option \<times> bool) \<times> disk" where
  "log_drop l d = (case io_bind (log_archive l) (\<lambda>_. log_prune l) d of
     (r, d1) \<Rightarrow> ((case r of Inl e \<Rightarrow> Some e | Inr _ \<Rightarrow> None, lf_closed l), d1))"

end
