(* ===== verification/Log_Safety.thy ===== *)
theory Log_Safety
  imports Log_File
begin

text \<open>
The log file over a disk whose calls may fail: what pruning removes, that opening a new file finds a
  free name, and that no failure on the way loses what is on the disk.
\<close>

section \<open>Calls\<close>

lemma io_bind_Inr: "io_bind m f d = (Inr y, d') \<longleftrightarrow> (\<exists>x e. m d = (Inr x, e) \<and> f x e = (Inr y, d'))"
  by (auto simp: io_bind_def split: prod.splits sum.splits)

lemma io_call_Inr: "io_call m d = (Inr y, d') \<longleftrightarrow> d_faults d (d_calls d) = None \<and> m (d\<lparr>d_calls := Suc (d_calls d)\<rparr>) = (Inr y, d')"
  by (auto simp: io_call_def Let_def split: option.splits)

text \<open>The files, without the count of calls.\<close>

definition core :: "disk \<Rightarrow> (path \<times> nat) list \<times> (nat \<Rightarrow> inode) \<times> nat \<times> path list" where
  "core d = (d_names d, d_inodes d, d_next d, d_folders d)"

lemma core_calls [simp]: "core (d\<lparr>d_calls := n\<rparr>) = core d"
  by (simp add: core_def)

lemma core_eqD: "core d = core e \<Longrightarrow> d_names d = d_names e \<and> d_inodes d = d_inodes e \<and> d_next d = d_next e \<and> d_folders d = d_folders e"
  by (simp add: core_def)

section \<open>Pruning\<close>

definition age :: "disk \<Rightarrow> path \<Rightarrow> nat" where
  "age d p = i_modified (d_inodes d (the (map_of (d_names d) p)))"

lemma log_archives_run:
  "log_archives ps d = (Inr fs, d') \<Longrightarrow> core d' = core d \<and>
   fs = map (\<lambda>p. (age d p, p)) (filter (\<lambda>p. has (d_names d) p \<and> is_archive p) ps)"
proof (induction ps arbitrary: d fs)
  case Nil
  then show ?case by (simp add: io_ret_def)
next
  case (Cons p ps)
  let ?e = "d\<lparr>d_calls := Suc (d_calls d)\<rparr>"
  have same: "age e = age d" "has (d_names e) p = has (d_names d) p" if "core e = core d" for e p
    using that by (auto simp: core_def age_def fun_eq_iff)
  from Cons.prems have run: "(if has (d_names d) p \<and> is_archive p
     then io_bind (fs_modified p) (\<lambda>t. io_bind (log_archives ps) (\<lambda>more. io_ret ((t, p) # more))) else log_archives ps) ?e = (Inr fs, d')"
    by (auto simp: io_bind_Inr fs_is_file_def io_call_Inr)
  show ?case
  proof (cases "has (d_names d) p \<and> is_archive p")
    case False
    with run have "log_archives ps ?e = (Inr fs, d')" by (simp split: if_splits)
    from Cons.IH [OF this] same [of ?e] False show ?thesis by (simp del: has_keys)
  next
    case True
    with run obtain t e more where m: "fs_modified p ?e = (Inr t, e)" "log_archives ps e = (Inr more, d')" "fs = (t, p) # more"
      by (auto simp: io_bind_Inr io_ret_def)
    then have "core e = core d" "t = age d p"
      using True by (auto simp: fs_modified_def io_call_Inr age_def has_def core_def simp del: has_keys split: option.splits)
    with Cons.IH [OF m(2)] same [of e] m(3) True show ?thesis by (simp del: has_keys)
  qed
qed

lemma remove_each_run:
  "remove_each ps d = (Inr (), d') \<Longrightarrow> d_names d' = filter (\<lambda>(p, _). p \<notin> set ps) (d_names d) \<and> d_inodes d' = d_inodes d \<and>
   d_next d' = d_next d \<and> d_folders d' = d_folders d"
proof (induction ps arbitrary: d)
  case Nil
  then show ?case by (simp add: io_ret_def split_def)
next
  case (Cons p ps)
  then obtain e where e: "fs_remove p d = (Inr (), e)" "remove_each ps e = (Inr (), d')" by (auto simp: io_bind_Inr)
  then have "d_names e = AList.delete p (d_names d)" "d_inodes e = d_inodes d" "d_next e = d_next d" "d_folders e = d_folders d"
    by (auto simp: fs_remove_def io_call_Inr split: if_splits)
  with Cons.IH [OF e(2)] show ?case by (auto simp: remove_filter split_def intro: filter_cong)
qed

definition archives :: "path \<Rightarrow> disk \<Rightarrow> path set" where
  "archives dir d = {p \<in> set (keys (d_names d)). path_parent p = Some dir \<and> is_archive p}"

lemma sorted_split:
  assumes "sorted xs" "distinct xs" "x \<in> set (take k xs)" "y \<in> set (drop k xs)"
  shows "x < y"
proof -
  have "x \<le> y" using assms(1,3,4) by (metis append_take_drop_id sorted_append)
  moreover have "x \<noteq> y" using assms(2,3,4) by (metis append_take_drop_id disjoint_iff distinct_append)
  ultimately show ?thesis by simp
qed

text \<open>The first of the archives that a pruning found, sorted: they are the oldest.\<close>

lemma oldest:
  assumes d: "distinct (keys (d_names d))" "set (keys (d_names d)) \<inter> set (d_folders d) = {}"
    and ps: "ps = filter (\<lambda>q. path_parent q = Some dir) (keys (d_names d) @ d_folders d)"
    and fs: "fs = map (\<lambda>p. (age d p, p)) (filter (\<lambda>p. has (d_names d) p \<and> is_archive p) ps)"
    and R: "R = set (map snd (take k (sort fs)))" "k \<le> length fs"
  shows "R \<subseteq> archives dir d \<and> card R = k \<and> length fs = card (archives dir d) \<and>
    (\<forall>p \<in> R. \<forall>q \<in> archives dir d - R. (age d p, p) < (age d q, q))"
proof -
  let ?A = "archives dir d"
  have "filter (\<lambda>p. has (d_names d) p \<and> is_archive p) ps =
      filter (\<lambda>p. is_archive p \<and> path_parent p = Some dir) (keys (d_names d))"
  proof -
    let ?P = "\<lambda>p. path_parent p = Some dir \<and> has (d_names d) p \<and> is_archive p"
    have "filter ?P (d_folders d) = []" using d(2) by (auto simp: filter_empty_conv)
    moreover have "filter ?P (keys (d_names d)) = filter (\<lambda>p. is_archive p \<and> path_parent p = Some dir) (keys (d_names d))"
      by (rule filter_cong) auto
    ultimately show ?thesis by (simp add: ps del: has_keys)
  qed
  then have fs': "fs = map (\<lambda>p. (age d p, p)) (filter (\<lambda>p. is_archive p \<and> path_parent p = Some dir) (keys (d_names d)))"
    using fs by simp
  have set_fs: "set fs = (\<lambda>p. (age d p, p)) ` ?A" by (auto simp: fs' archives_def)
  have dist: "distinct fs" "distinct (sort fs)" using d(1) by (simp_all add: fs' distinct_map inj_on_def)
  have snd_dist: "distinct (map snd (sort fs))"
    using dist set_fs by (auto simp: distinct_map inj_on_def)
  have len: "length fs = card ?A"
  proof -
    have "card ?A = card ((\<lambda>p. (age d p, p)) ` ?A)" by (simp add: card_image inj_on_def)
    also have "\<dots> = card (set fs)" using set_fs by simp
    finally show ?thesis using distinct_card [OF dist(1)] by simp
  qed
  have "R \<subseteq> ?A"
  proof
    fix p assume "p \<in> R"
    then have "p \<in> snd ` set (sort fs)" using set_take_subset [of k "sort fs"] by (auto simp: R)
    then show "p \<in> ?A" using set_fs by auto
  qed
  moreover have "card R = k"
  proof -
    have "distinct (map snd (take k (sort fs)))" using snd_dist by (metis distinct_take take_map)
    then have "card R = length (map snd (take k (sort fs)))" by (simp only: distinct_card R)
    then show ?thesis using R(2) by simp
  qed
  moreover have "(age d p, p) < (age d q, q)" if p: "p \<in> R" and q: "q \<in> ?A - R" for p q
  proof (rule sorted_split [of "sort fs" _ k])
    obtain a where "(a, p) \<in> set (take k (sort fs))" using p by (auto simp: R)
    moreover then have "(a, p) \<in> set fs" using set_take_subset [of k "sort fs"] by auto
    ultimately show "(age d p, p) \<in> set (take k (sort fs))" using set_fs by auto
    have "(age d q, q) \<in> set (sort fs)" using q set_fs by auto
    moreover have "(age d q, q) \<notin> set (take k (sort fs))" using q by (force simp: R)
    ultimately show "(age d q, q) \<in> set (drop k (sort fs))" by (metis Un_iff append_take_drop_id set_append)
  qed (use dist in simp_all)
  ultimately show ?thesis using len by blast
qed

lemma prune_run:
  assumes d: "distinct (keys (d_names d))" "set (keys (d_names d)) \<inter> set (d_folders d) = {}" and run: "log_prune l d = (Inr (), d')"
  shows "d_inodes d' = d_inodes d \<and> d_next d' = d_next d \<and> d_folders d' = d_folders d \<and>
    (\<exists>R \<subseteq> archives (lf_directory l) d. d_names d' = filter (\<lambda>(p, _). p \<notin> R) (d_names d) \<and>
      card R = card (archives (lf_directory l) d) - lf_max_files l \<and>
      (\<forall>p \<in> R. \<forall>q \<in> archives (lf_directory l) d - R. (age d p, p) < (age d q, q)))"
proof -
  let ?dir = "lf_directory l"
  obtain ps e fs f where r: "fs_read_dir ?dir d = (Inr ps, e)" "log_archives ps e = (Inr fs, f)"
    "remove_each (map snd (take (length fs - lf_max_files l) (sort fs))) f = (Inr (), d')"
    using run by (auto simp: log_prune_def io_bind_Inr)
  from r(1) have ps: "core e = core d" "ps = filter (\<lambda>q. path_parent q = Some ?dir) (keys (d_names d) @ d_folders d)"
    by (auto simp: fs_read_dir_def io_call_Inr core_def split: if_splits)
  from log_archives_run [OF r(2)] have fs: "core f = core d"
    "fs = map (\<lambda>p. (age d p, p)) (filter (\<lambda>p. has (d_names d) p \<and> is_archive p) ps)"
    using ps(1) by (auto simp: core_def age_def)
  define R where "R = set (map snd (take (length fs - lf_max_files l) (sort fs)))"
  note o = oldest [OF d ps(2) fs(2) R_def diff_le_self]
  have "d_names d' = filter (\<lambda>(p, _). p \<notin> R) (d_names d) \<and> d_inodes d' = d_inodes d \<and> d_next d' = d_next d \<and> d_folders d' = d_folders d"
    using remove_each_run [OF r(3)] core_eqD [OF fs(1)] by (simp add: R_def)
  with o show ?thesis by (intro conjI exI [of _ R]) simp_all
qed

section \<open>What the operations do, also when they fail\<close>

lemma io_call_cases:
  assumes "io_call m d = (r, d')"
  obtains e where "r = Inl e" "d' = d\<lparr>d_calls := Suc (d_calls d)\<rparr>" | "m (d\<lparr>d_calls := Suc (d_calls d)\<rparr>) = (r, d')"
  using assms by (auto simp: io_call_def Let_def split: option.splits)

lemma io_bind_cases:
  assumes "io_bind m f d = (r, d')"
  obtains e where "r = Inl e" "m d = (Inl e, d')" | x e where "m d = (Inr x, e)" "f x e = (r, d')"
  using assms by (auto simp: io_bind_def split: prod.splits sum.splits)

lemma log_archives_core: "log_archives ps d = (r, d') \<Longrightarrow> core d' = core d"
proof (induction ps arbitrary: d r)
  case (Cons p ps)
  have one: "core e = core d" if "fs_is_file p d = (x, e) \<or> fs_modified p d = (y, e)" for d e x y
    using that by (auto simp: fs_is_file_def fs_modified_def elim!: io_call_cases split: option.splits)
  from Cons.prems show ?case
    by (auto simp: io_ret_def elim!: io_bind_cases split: if_splits dest!: one [OF disjI1] one [OF disjI2] Cons.IH)
qed (simp add: io_ret_def)

text \<open>The disk without some of its names.\<close>

definition without :: "path set \<Rightarrow> disk \<Rightarrow> disk \<Rightarrow> bool" where
  "without R d d' \<longleftrightarrow> d_names d' = filter (\<lambda>(p, _). p \<notin> R) (d_names d) \<and> d_inodes d' = d_inodes d \<and>
     d_next d' = d_next d \<and> d_folders d' = d_folders d"

lemma without_core: "core d' = core d \<Longrightarrow> without {} d d'"
  by (auto simp: without_def core_def split_def)

lemma remove_each_any: "remove_each ps d = (r, d') \<Longrightarrow> \<exists>j \<le> length ps. without (set (take j ps)) d d'"
proof (induction ps arbitrary: d r)
  case Nil
  then show ?case using without_core [of d' d] by (auto simp: io_ret_def)
next
  case (Cons p ps)
  from Cons.prems show ?case unfolding remove_each.simps
  proof (rule io_bind_cases)
    fix e assume "fs_remove p d = (Inl e, d')"
    then have "core d' = core d" by (auto simp: fs_remove_def elim!: io_call_cases split: if_splits)
    then show ?thesis using without_core by (intro exI [of _ 0]) simp
  next
    fix u e assume e: "fs_remove p d = (Inr u, e)" "remove_each ps e = (r, d')"
    then have d: "d_names e = AList.delete p (d_names d)" "d_inodes e = d_inodes d" "d_next e = d_next d" "d_folders e = d_folders d"
      by (auto simp: fs_remove_def io_call_Inr split: if_splits)
    obtain j where j: "j \<le> length ps" "without (set (take j ps)) e d'" using Cons.IH [OF e(2)] by blast
    then have "without (set (take (Suc j) (p # ps))) d d'" using d by (auto simp: without_def remove_filter split_def intro: filter_cong)
    with j(1) show ?thesis by (intro exI [of _ "Suc j"]) simp
  qed
qed

text \<open>Pruning, also when it fails midway: what it removed is older than all that is left, and it
  removed nothing when there were not more than are to be kept.\<close>

lemma prune_any:
  assumes d: "distinct (keys (d_names d))" "set (keys (d_names d)) \<inter> set (d_folders d) = {}" and run: "log_prune l d = (r, d')"
  shows "\<exists>R \<subseteq> archives (lf_directory l) d. without R d d' \<and>
    (R \<noteq> {} \<longrightarrow> lf_max_files l \<le> card (archives (lf_directory l) d - R)) \<and>
    (\<forall>p \<in> R. \<forall>q \<in> archives (lf_directory l) d - R. (age d p, p) < (age d q, q))"
  using run unfolding log_prune_def
proof (rule io_bind_cases)
  fix e assume "fs_read_dir (lf_directory l) d = (Inl e, d')"
  then have "core d' = core d" by (auto simp: fs_read_dir_def elim!: io_call_cases split: if_splits)
  from without_core [OF this] show ?thesis by (intro exI [of _ "{}"]) simp
next
  let ?A = "archives (lf_directory l) d"
  fix ps e assume ps: "fs_read_dir (lf_directory l) d = (Inr ps, e)"
    and run: "io_bind (log_archives ps) (\<lambda>fs. remove_each (map snd (take (length fs - lf_max_files l) (sort fs)))) e = (r, d')"
  have e: "core e = core d" "ps = filter (\<lambda>q. path_parent q = Some (lf_directory l)) (keys (d_names d) @ d_folders d)"
    using ps by (auto simp: fs_read_dir_def io_call_Inr core_def split: if_splits)
  from run show ?thesis
  proof (rule io_bind_cases)
    fix x assume x: "log_archives ps e = (Inl x, d')"
    have "core d' = core d" using log_archives_core [OF x] e(1) by simp
    from without_core [OF this] show ?thesis by (intro exI [of _ "{}"]) simp
  next
    fix fs f assume fs: "log_archives ps e = (Inr fs, f)" and rem: "remove_each (map snd (take (length fs - lf_max_files l) (sort fs))) f = (r, d')"
    let ?k = "length fs - lf_max_files l"
    obtain j where j: "without (set (take j (map snd (take ?k (sort fs))))) f d'" using remove_each_any [OF rem] by blast
    define R where "R = set (map snd (take (min j ?k) (sort fs)))"
    have R: "without R f d'" using j by (simp add: R_def take_map)
    have f: "core f = core d" "fs = map (\<lambda>p. (age d p, p)) (filter (\<lambda>p. has (d_names d) p \<and> is_archive p) ps)"
      using log_archives_run [OF fs] e(1) by (auto simp: core_def age_def)
    have k: "min j ?k \<le> length fs" by simp
    note o = oldest [OF d e(2) f(2) R_def k]
    have "without R d d'" using R f(1) by (auto simp: without_def core_def)
    moreover have "lf_max_files l \<le> card (?A - R)" if "R \<noteq> {}"
    proof -
      have "finite R" by (simp add: R_def)
      then have "card (?A - R) = length fs - min j ?k" using o by (simp add: card_Diff_subset)
      moreover have "0 < ?k" using that by (cases "?k = 0") (simp_all add: R_def)
      ultimately show ?thesis by auto
    qed
    ultimately show ?thesis using o by (intro exI [of _ R]) blast
  qed
qed

text \<open>A new name, and nothing else, or a new file left behind by a removal that failed.\<close>

definition grown :: "disk \<Rightarrow> disk \<Rightarrow> bool" where
  "grown d d' \<longleftrightarrow> d_folders d' = d_folders d \<and> d_next d \<le> d_next d' \<and>
     (\<forall>i < d_next d. d_inodes d' i = d_inodes d i) \<and>
     (d_names d' = d_names d \<or> (\<exists>p i. d_names d' = (p, i) # d_names d \<and> p \<notin> set (keys (d_names d)) \<and>
        p \<notin> set (d_folders d) \<and> d_next d \<le> i \<and> i < d_next d' \<and> \<not> is_archive p))"

lemma rsplit_dot_none: "CHR ''.'' \<notin> set s \<Longrightarrow> rsplit_dot s = None"
  by (induction s) auto

lemma rsplit_dot_last: "CHR ''.'' \<notin> set e \<Longrightarrow> rsplit_dot (s @ CHR ''.'' # e) = Some (s, e)"
  by (induction s) (simp_all add: rsplit_dot_none)

lemma name_parts_dot: "CHR ''.'' \<notin> set e \<Longrightarrow> name_parts (s @ CHR ''.'' # e) = (if s = [] then (CHR ''.'' # e, None) else (s, Some e))"
  by (simp add: name_parts_def rsplit_dot_last)

lemma extension_child:
  assumes "CHR ''.'' \<notin> set e" "e \<noteq> []"
  shows "extension (path_child dir (s @ CHR ''.'' # e)) = (if s = [] then None else Some e)"
proof -
  have "s @ CHR ''.'' # e \<noteq> ''..''" using assms by (cases s; cases "tl s") auto
  then show ?thesis by (simp add: extension_def file_name_def path_child_def name_parts_dot [OF assms(1)])
qed

lemma logging_name: "\<not> is_archive (log_path dir ts i)"
proof -
  have "log_path dir ts i = path_child dir (log_stem ts i @ CHR ''.'' # ''logging'')" by (simp add: log_path_def)
  then have "extension (log_path dir ts i) = (if log_stem ts i = [] then None else Some ''logging'')"
    using extension_child [of "''logging''" dir "log_stem ts i"] by simp
  then show ?thesis by (simp add: is_archive_def)
qed

lemma grown_core: "core d' = core d \<Longrightarrow> grown d d'"
  by (simp add: grown_def core_def)

lemma grown_trans: "grown d e \<Longrightarrow> d_names e = d_names d \<Longrightarrow> grown e d' \<Longrightarrow> grown d d'"
  unfolding grown_def by (elim conjE disjE exE) (auto intro: order_trans less_le_trans)

definition created :: "path \<Rightarrow> string \<Rightarrow> disk \<Rightarrow> nat \<Rightarrow> path \<Rightarrow> disk \<Rightarrow> bool" where
  "created dir ts d i p d' \<longleftrightarrow> d_names d' = (p, i) # d_names d \<and> p \<notin> set (keys (d_names d)) \<and> p \<notin> set (d_folders d) \<and>
     i_bytes (d_inodes d' i) = [] \<and> d_next d \<le> i \<and> i < d_next d' \<and> (\<exists>k. p = log_path dir ts k)"

lemma created_trans: "d_names e = d_names d \<Longrightarrow> d_folders e = d_folders d \<Longrightarrow> d_next d \<le> d_next e \<Longrightarrow> created dir ts e i p d' \<Longrightarrow> created dir ts d i p d'"
  by (auto simp: created_def)

lemma create_new_cases:
  assumes "fs_create_new p d = (r, e)"
  obtains (fails) x where "r = Inl x" "core e = core d"
  | (made) i where "r = Inr i" "i = d_next d" "d_names e = (p, i) # d_names d" "d_next e = i + 1" "d_folders e = d_folders d"
      "d_inodes e = (d_inodes d)(i := \<lparr>i_bytes = [], i_modified = d_clock d\<rparr>)" "p \<notin> set (keys (d_names d))" "p \<notin> set (d_folders d)"
  using assms unfolding fs_create_new_def by (elim io_call_cases) (auto split: if_splits)

lemma exists_core: "fs_exists p d = (b, e) \<Longrightarrow> core e = core d"
  by (auto simp: fs_exists_def io_call_def Let_def split: option.splits)

lemma log_create_run:
  "log_create fuel dir ts k d = (r, d') \<Longrightarrow> grown d d' \<and>
   (case r of Inl _ \<Rightarrow> True | Inr None \<Rightarrow> d_names d' = d_names d | Inr (Some (i, p)) \<Rightarrow> created dir ts d i p d')"
proof (induction fuel arbitrary: k d r)
  case 0
  then show ?case by (auto simp: io_ret_def grown_core)
next
  case (Suc fuel)
  let ?p = "log_path dir ts k"
  have again: ?case if "log_create fuel dir ts (k + 1) e = (r, d')" "grown d e" "d_names e = d_names d" for e
  proof -
    have "d_folders e = d_folders d" "d_next d \<le> d_next e" using that(2) by (simp_all add: grown_def)
    with Suc.IH [OF that(1)] grown_trans [OF that(2,3)] that(3) created_trans [of e d dir ts] show ?thesis
      by (auto split: sum.splits option.splits)
  qed
  obtain x e where e: "fs_create_new ?p d = (x, e)" by fastforce
  from e show ?case
  proof (cases rule: create_new_cases)
    case (fails y)
    with Suc.prems e have "(if y = Exists then log_create fuel dir ts (k + 1) else io_fail y) e = (r, d')"
      by (cases y) (auto simp: Let_def io_bind_def io_try_def)
    with fails(2) again [of e] show ?thesis
      by (auto simp: io_fail_def grown_core core_def split: if_splits)
  next
    case (made i)
    obtain b f where f: "fs_exists (with_extension ?p ''log'') e = (b, f)" by fastforce
    note fe = core_eqD [OF exists_core [OF f]]
    have run: "(if b then io_bind (fs_remove ?p) (\<lambda>_. log_create fuel dir ts (k + 1)) f else (Inr (Some (i, ?p)), f)) = (r, d')"
      using Suc.prems e made(1) f by (auto simp: Let_def io_bind_def io_try_def split: if_splits)
    have left: "grown d f" using made fe logging_name by (auto simp: grown_def)
    show ?thesis
    proof (cases b)
      case False
      with run have "r = Inr (Some (i, ?p))" "d' = f" by auto
      with made fe left show ?thesis by (auto simp: created_def)
    next
      case True
      with run have "io_bind (fs_remove ?p) (\<lambda>_. log_create fuel dir ts (k + 1)) f = (r, d')" by simp
      then show ?thesis
      proof (rule io_bind_cases)
        fix y assume y: "r = Inl y" "fs_remove ?p f = (Inl y, d')"
        then have "core d' = core f" by (auto simp: fs_remove_def elim!: io_call_cases split: if_splits)
        with left y(1) show ?thesis by (auto simp: grown_def core_def)
      next
        fix u g assume g: "fs_remove ?p f = (Inr u, g)" "log_create fuel dir ts (k + 1) g = (r, d')"
        then have names: "d_names g = AList.delete ?p (d_names f)" "d_inodes g = d_inodes f" "d_next g = d_next f" "d_folders g = d_folders f"
          by (auto simp: fs_remove_def io_call_Inr split: if_splits)
        have "d_names g = d_names d" using names(1) fe made(3,7) by (simp add: delete_idem)
        moreover from this have "grown d g" using names fe made by (auto simp: grown_def)
        ultimately show ?thesis using again [OF g(2)] by blast
      qed
    qed
  qed
qed

text \<open>The search finds a name.\<close>

lemma log_stem_nonempty: "ts \<noteq> [] \<Longrightarrow> log_stem ts k \<noteq> []"
  by (simp add: log_stem_def)

lemma log_stem_inj: "log_stem ts j = log_stem ts k \<longleftrightarrow> j = k"
  by (auto simp: log_stem_def)

lemma archive_name:
  assumes "ts \<noteq> []"
  shows "with_extension (log_path dir ts k) ''log'' = path_child dir (log_stem ts k @ ''.log'')"
proof -
  let ?n = "log_stem ts k @ CHR ''.'' # ''logging''"
  have "file_name (path_child dir ?n) = Some ?n"
  proof -
    have "?n \<noteq> ''..''" by (cases "log_stem ts k"; cases "tl (log_stem ts k)") auto
    then show ?thesis by (simp add: file_name_def path_child_def)
  qed
  moreover have "log_path dir ts k = path_child dir ?n" by (simp add: log_path_def)
  ultimately show ?thesis
    using name_parts_dot [of "''logging''" "log_stem ts k"] log_stem_nonempty [OF assms, of k]
    by (simp add: with_extension_def file_stem_def) (simp add: path_child_def)
qed

lemma names_apart: "a @ ''.logging'' \<noteq> b @ ''.log''" for a b :: string
proof
  assume "a @ ''.logging'' = b @ ''.log''"
  then have "last (a @ ''.logging'') = last (b @ ''.log'')" "last (butlast (butlast (butlast (a @ ''.logging'')))) = last (butlast (butlast (butlast (b @ ''.log''))))" by simp_all
  then show False by (simp add: butlast_append)
qed

lemma archive_apart: "ts \<noteq> [] \<Longrightarrow> with_extension (log_path dir ts k) ''log'' \<noteq> log_path dir ts j"
  using names_apart [of "log_stem ts j" "log_stem ts k"] by (simp add: archive_name) (simp add: log_path_def path_child_def)

definition occupied :: "disk \<Rightarrow> path set" where
  "occupied d = set (keys (d_names d)) \<union> set (d_folders d)"

lemma log_create_taken:
  assumes "ts \<noteq> []" "log_create fuel dir ts k d = (Inr None, d')" "\<And>n. d_faults d n \<noteq> Some Exists" "j < fuel"
  shows "log_path dir ts (k + j) \<in> occupied d \<or> with_extension (log_path dir ts (k + j)) ''log'' \<in> occupied d"
  using assms
proof (induction fuel arbitrary: k d j)
  case (Suc fuel)
  let ?p = "log_path dir ts k"
  obtain x e where e: "fs_create_new ?p d = (x, e)" by fastforce
  have faults: "d_faults e = d_faults d"
    using e by (auto simp: fs_create_new_def elim!: io_call_cases split: if_splits)
  have go: ?case if "log_create fuel dir ts (k + 1) g = (Inr None, d')" "occupied g = occupied d" "d_faults g = d_faults d"
    "?p \<in> occupied d \<or> with_extension ?p ''log'' \<in> occupied d" for g
  proof (cases j)
    case 0
    then show ?thesis using that(4) by simp
  next
    case (Suc n)
    then show ?thesis using Suc.IH [OF assms(1) that(1), of n] Suc.prems(3,4) that(2,3) by simp
  qed
  from e show ?case
  proof (cases rule: create_new_cases)
    case (fails y)
    with Suc.prems(2) e have y: "y = Exists" "log_create fuel dir ts (k + 1) e = (Inr None, d')"
      by (cases y; simp add: Let_def io_bind_def io_try_def io_fail_def)+
    have "?p \<in> occupied d"
      using e fails(1) y(1) Suc.prems(3) by (auto simp: fs_create_new_def io_call_def Let_def occupied_def split: option.splits if_splits)
    moreover have "occupied e = occupied d" using fails(2) by (simp add: occupied_def core_def)
    ultimately show ?thesis using go [OF y(2)] faults by blast
  next
    case (made i)
    obtain b f where f: "fs_exists (with_extension ?p ''log'') e = (b, f)" by fastforce
    note fe = core_eqD [OF exists_core [OF f]]
    have run: "(if b then io_bind (fs_remove ?p) (\<lambda>_. log_create fuel dir ts (k + 1)) f else (Inr (Some (i, ?p)), f)) = (Inr None, d')"
      using Suc.prems(2) e made(1) f by (cases b) (auto simp: Let_def io_bind_def io_try_def)
    then have b: "b" and rest: "io_bind (fs_remove ?p) (\<lambda>_. log_create fuel dir ts (k + 1)) f = (Inr None, d')"
      by (auto split: if_splits bool.splits)
    have "with_extension ?p ''log'' \<in> insert ?p (occupied d)"
      using f b made(3,5) by (auto simp: fs_exists_def io_call_def Let_def occupied_def split: option.splits)
    then have occ: "?p \<in> occupied d \<or> with_extension ?p ''log'' \<in> occupied d" using archive_apart [OF assms(1), of dir k k] by simp
    obtain u g where g: "fs_remove ?p f = (Inr u, g)" "log_create fuel dir ts (k + 1) g = (Inr None, d')" using rest by (auto simp: io_bind_Inr)
    then have names: "d_names g = AList.delete ?p (d_names f)" "d_folders g = d_folders f" "d_faults g = d_faults f"
      by (auto simp: fs_remove_def io_call_Inr split: if_splits)
    have "occupied g = occupied d" using names fe made(3,5,7) by (simp add: occupied_def)
    moreover have "d_faults f = d_faults e" using f by (auto simp: fs_exists_def io_call_def Let_def split: option.splits)
    ultimately show ?thesis using go [OF g(2)] names(3) faults occ by simp
  qed
qed simp

lemma log_create_ends:
  assumes "ts \<noteq> []" "length (d_names d) + length (d_folders d) < fuel" "\<And>n. d_faults d n \<noteq> Some Exists"
  shows "fst (log_create fuel dir ts k d) \<noteq> Inr None"
proof
  assume none: "fst (log_create fuel dir ts k d) = Inr None"
  obtain d' where run: "log_create fuel dir ts k d = (Inr None, d')" using none by (cases "log_create fuel dir ts k d") auto
  define f where "f j = (if log_path dir ts (k + j) \<in> occupied d then log_path dir ts (k + j)
    else path_child dir (log_stem ts (k + j) @ ''.log''))" for j
  have names: "log_path dir ts i = path_child dir (log_stem ts i @ ''.logging'')"
    "with_extension (log_path dir ts i) ''log'' = path_child dir (log_stem ts i @ ''.log'')" for i
    using archive_name [OF assms(1)] by (simp_all add: log_path_def)
  have stem: "a @ ''.logging'' = b @ ''.logging'' \<longleftrightarrow> a = b" "a @ ''.log'' = b @ ''.log'' \<longleftrightarrow> a = b" for a b :: string by simp_all
  have "inj_on f {..<fuel}"
    by (rule inj_onI) (auto simp: f_def names(1) path_child_def stem names_apart names_apart [symmetric] log_stem_inj split: if_splits)
  moreover have "f ` {..<fuel} \<subseteq> occupied d"
  proof (rule image_subsetI)
    fix j assume "j \<in> {..<fuel}"
    then show "f j \<in> occupied d" using log_create_taken [OF assms(1) run assms(3), of j] by (auto simp: f_def names(2))
  qed
  ultimately have "fuel \<le> card (occupied d)"
    using card_mono [of "occupied d" "f ` {..<fuel}"] by (simp add: card_image occupied_def)
  also have "\<dots> \<le> card (set (keys (d_names d))) + card (set (d_folders d))" unfolding occupied_def by (rule card_Un_le)
  also have "\<dots> \<le> length (d_names d) + length (d_folders d)"
    using card_length [of "keys (d_names d)"] card_length [of "d_folders d"] by simp
  finally show False using assms(2) by simp
qed

section \<open>An open log\<close>

definition archive_path :: "log_file \<Rightarrow> path" where
  "archive_path l = with_extension (lf_path l) ''log''"

text \<open>The active file has its name, and no other but that of its archive when an archiving was cut short.\<close>

definition disk_ok :: "disk \<Rightarrow> bool" where
  "disk_ok d \<longleftrightarrow> distinct (keys (d_names d)) \<and> set (keys (d_names d)) \<inter> set (d_folders d) = {} \<and>
     (\<forall>(p, i) \<in> set (d_names d). i < d_next d)"

definition log_ok :: "log_file \<Rightarrow> disk \<Rightarrow> bool" where
  "log_ok l d \<longleftrightarrow> disk_ok d \<and> map_of (d_names d) (lf_path l) = Some (lf_file l) \<and>
     (\<forall>p. map_of (d_names d) p = Some (lf_file l) \<longrightarrow> p = lf_path l \<or> p = archive_path l) \<and>
     (\<exists>ts k. ts \<noteq> [] \<and> lf_path l = log_path (lf_directory l) ts k)"

lemma log_ok_path: "log_ok l d \<Longrightarrow> archive_path l \<noteq> lf_path l \<and> \<not> is_archive (lf_path l)"
  by (auto simp: log_ok_def archive_path_def archive_apart logging_name)

lemma names_bound: "disk_ok d \<Longrightarrow> map_of (d_names d) p = Some i \<Longrightarrow> i < d_next d"
  by (auto simp: disk_ok_def dest: map_of_SomeD)

text \<open>Files other than \<open>X\<close> stay as they are, unless pruning removes an archive.\<close>

definition spared :: "path \<Rightarrow> path set \<Rightarrow> disk \<Rightarrow> disk \<Rightarrow> bool" where
  "spared dir X d d' \<longleftrightarrow> d_next d \<le> d_next d' \<and> (\<forall>i < d_next d. d_inodes d' i = d_inodes d i) \<and>
     (\<forall>p i. p \<notin> X \<and> map_of (d_names d) p = Some i \<longrightarrow> map_of (d_names d') p = Some i \<or>
        map_of (d_names d') p = None \<and> is_archive p \<and> path_parent p = Some dir)"

lemma grown_ok: "disk_ok d \<Longrightarrow> grown d d' \<Longrightarrow> disk_ok d'"
  unfolding disk_ok_def grown_def by (elim conjE disjE exE) auto

lemma grown_log:
  assumes l: "log_ok l d" and g: "grown d d'"
  shows "log_ok l d' \<and> spared (lf_directory l) {} d d'"
proof -
  have d: "disk_ok d'" using grown_ok l g by (auto simp: log_ok_def)
  have i: "lf_file l < d_next d" using l names_bound [of d "lf_path l" "lf_file l"] by (simp add: log_ok_def)
  have n: "d_names d' = d_names d \<or> (\<exists>p j. d_names d' = (p, j) # d_names d \<and> p \<notin> set (keys (d_names d)) \<and> d_next d \<le> j)"
    using g unfolding grown_def by blast
  have same: "map_of (d_names d') p = Some j \<longleftrightarrow> map_of (d_names d) p = Some j" if "j < d_next d" for p j
    using n
  proof (elim disjE exE conjE)
    fix q k assume q: "d_names d' = (q, k) # d_names d" "q \<notin> set (keys (d_names d))" "d_next d \<le> k"
    then have "map_of (d_names d) q = None" by (simp add: map_of_eq_None_iff)
    with q that show ?thesis by simp
  qed simp
  have l': "log_ok l d'" using l d same [OF i] by (simp add: log_ok_def)
  have "map_of (d_names d') p = Some j" if "map_of (d_names d) p = Some j" for p j
    using same [of j p] names_bound [of d p j] that l by (simp add: log_ok_def)
  with l' g show ?thesis by (simp add: spared_def grown_def)
qed

lemma archive_run:
  assumes "log_archive l d = (r, d')" "archive_path l \<noteq> lf_path l" "map_of (d_names d) (lf_path l) = Some i"
  shows "d_inodes d' = d_inodes d \<and> d_next d' = d_next d \<and> d_folders d' = d_folders d \<and>
    (if r = Inr () then d_names d' = (archive_path l, i) # AList.delete (lf_path l) (d_names d) \<and> archive_path l \<notin> occupied d
     else d_names d' = d_names d \<or> d_names d' = (archive_path l, i) # d_names d \<and> archive_path l \<notin> occupied d)"
  using assms(1) unfolding log_archive_def
proof (rule io_bind_cases)
  fix e assume "r = Inl e" "file_flush d = (Inl e, d')"
  then have "core d' = core d" by (auto simp: file_flush_def io_ret_def elim!: io_call_cases)
  from core_eqD [OF this] \<open>r = Inl e\<close> show ?thesis by simp
next
  fix x e assume e: "file_flush d = (Inr x, e)"
    and run: "io_bind (fs_hard_link (lf_path l) (with_extension (lf_path l) ''log'')) (\<lambda>_. fs_remove (lf_path l)) e = (r, d')"
  have c: "core e = core d" using e by (auto simp: file_flush_def io_ret_def io_call_Inr)
  note ce = core_eqD [OF c]
  from run show ?thesis
  proof (rule io_bind_cases)
    fix y assume y: "r = Inl y" "fs_hard_link (lf_path l) (with_extension (lf_path l) ''log'') e = (Inl y, d')"
    then have "core d' = core e" by (auto simp: fs_hard_link_def elim!: io_call_cases split: option.splits if_splits)
    from core_eqD [OF this] ce y(1) show ?thesis by simp
  next
    fix u f assume u: "fs_hard_link (lf_path l) (with_extension (lf_path l) ''log'') e = (Inr u, f)" "fs_remove (lf_path l) f = (r, d')"
    then have f: "d_names f = (archive_path l, i) # d_names d" "d_inodes f = d_inodes d" "d_next f = d_next d" "d_folders f = d_folders d"
      "archive_path l \<notin> occupied d"
      using ce assms(3) by (auto simp: fs_hard_link_def io_call_Inr archive_path_def occupied_def split: option.splits if_splits)
    have has: "has (d_names f) (lf_path l)" using assms(3) map_of_eq_None_iff [of "d_names d" "lf_path l"] by (auto simp: f(1))
    from u(2) show ?thesis
      unfolding fs_remove_def
    proof (rule io_call_cases)
      fix y assume "r = Inl y" "d' = f\<lparr>d_calls := Suc (d_calls f)\<rparr>"
      then show ?thesis using f by simp
    next
      assume "(if has (d_names (f\<lparr>d_calls := Suc (d_calls f)\<rparr>)) (lf_path l)
         then (Inr (), f\<lparr>d_calls := Suc (d_calls f), d_names := AList.delete (lf_path l) (d_names (f\<lparr>d_calls := Suc (d_calls f)\<rparr>))\<rparr>)
         else (Inl Missing, f\<lparr>d_calls := Suc (d_calls f)\<rparr>)) = (r, d')"
      with has have "r = Inr ()" "d' = f\<lparr>d_calls := Suc (d_calls f), d_names := AList.delete (lf_path l) (d_names f)\<rparr>"
        by (simp_all del: has_keys)
      then show ?thesis using f assms(2) by simp
    qed
  qed
qed

lemma disk_ok_add:
  "disk_ok d \<Longrightarrow> q \<notin> occupied d \<Longrightarrow> i < d_next d \<Longrightarrow> d_names d' = (q, i) # d_names d \<Longrightarrow> d_folders d' = d_folders d \<Longrightarrow>
   d_next d' = d_next d \<Longrightarrow> disk_ok d'"
  by (auto simp: disk_ok_def occupied_def)

lemma disk_ok_without: "disk_ok d \<Longrightarrow> without R d d' \<Longrightarrow> disk_ok d'"
  unfolding disk_ok_def without_def by (auto simp: image_iff)

lemma map_of_without: "without R d d' \<Longrightarrow> map_of (d_names d') p = (if p \<in> R then None else map_of (d_names d) p)"
proof -
  have "map_of (filter (\<lambda>(p, _). p \<notin> R) xs) p = (if p \<in> R then None else map_of xs p)" for xs :: "(path \<times> nat) list"
    by (induction xs) auto
  then show "without R d d' \<Longrightarrow> map_of (d_names d') p = (if p \<in> R then None else map_of (d_names d) p)" by (simp add: without_def)
qed

lemma remove_any: "fs_remove p d = (r, d') \<Longrightarrow> \<exists>R \<subseteq> {p}. without R d d'"
proof -
  assume "fs_remove p d = (r, d')"
  then have "remove_each [p] d = (r, d')" by (cases r) (simp_all add: io_bind_def io_ret_def)
  from remove_each_any [OF this] obtain j where "without (set (take j [p])) d d'" by blast
  then show ?thesis by (cases j) auto
qed

lemma log_open_run:
  "log_open C dir t d = (r, d') \<Longrightarrow> grown d d' \<and>
   (case r of Inl _ \<Rightarrow> True | Inr (i, p) \<Rightarrow> created dir (strftime C t ''%Y%m%d%H%M'') d i p d')"
  by (auto simp: log_open_def simp del: log_create.simps split: prod.splits sum.splits option.splits dest!: log_create_run)

text \<open>More names of the active file, or of new ones, do not matter.\<close>

lemma log_ok_more:
  assumes l: "log_ok l d" and d': "disk_ok d'" "d_next d \<le> d_next d'" "\<And>i. i < d_next d \<Longrightarrow> d_inodes d' i = d_inodes d i"
    and old: "\<And>p i. map_of (d_names d) p = Some i \<Longrightarrow> map_of (d_names d') p = Some i"
    and new: "\<And>p i. map_of (d_names d') p = Some i \<Longrightarrow> i < d_next d \<Longrightarrow> map_of (d_names d) p = Some i \<or> p = archive_path l"
  shows "log_ok l d' \<and> spared (lf_directory l) X d d'"
proof -
  have i: "lf_file l < d_next d" using l names_bound [of d "lf_path l" "lf_file l"] by (simp add: log_ok_def)
  have "map_of (d_names d') (lf_path l) = Some (lf_file l)" using l old by (simp add: log_ok_def)
  moreover have "p = lf_path l \<or> p = archive_path l" if "map_of (d_names d') p = Some (lf_file l)" for p
    using new [OF that i] l by (auto simp: log_ok_def)
  ultimately show ?thesis using l d' old by (simp add: log_ok_def spared_def)
qed

text \<open>When a name was last changed, where the active file is the archive that it becomes.\<close>

definition changed :: "log_file \<Rightarrow> disk \<Rightarrow> path \<Rightarrow> nat" where
  "changed l d p = (if p = archive_path l then i_modified (d_inodes d (lf_file l)) else age d p)"

text \<open>From an old state to a new one, with the archive of the old active file where it was rotated
  away: an archive may be gone only when enough are left, all newer than it.\<close>

definition pruned :: "log_file \<Rightarrow> bool \<Rightarrow> disk \<Rightarrow> disk \<Rightarrow> bool" where
  "pruned l rotated d d' \<longleftrightarrow>
     (\<forall>p. (p \<in> archives (lf_directory l) d \<or> rotated \<and> p = archive_path l) \<and> map_of (d_names d') p = None \<longrightarrow>
       lf_max_files l \<le> card (archives (lf_directory l) d') \<and>
       (\<forall>q \<in> archives (lf_directory l) d'. (changed l d p, p) < (changed l d q, q)))"

lemma pruned_none:
  assumes "\<And>p i. map_of (d_names d) p = Some i \<Longrightarrow> map_of (d_names d') p = Some i"
  shows "pruned l False d d'"
proof -
  have "map_of (d_names d') p \<noteq> None" if "p \<in> set (keys (d_names d))" for p
    using assms that map_of_eq_None_iff [of "d_names d" p] by (cases "map_of (d_names d) p") auto
  then show ?thesis by (auto simp: pruned_def archives_def simp del: not_None_eq)
qed

lemma grown_names: "grown d d' \<Longrightarrow> map_of (d_names d) p = Some i \<Longrightarrow> map_of (d_names d') p = Some i"
  by (force simp: grown_def dest: map_of_SomeD)

lemma rotate_keeps:
  assumes C: "\<And>t. strftime C t ''%Y%m%d%H%M'' \<noteq> []" and l: "log_ok l d" and run: "log_rotate C t l d = (r, l', d')"
  shows "log_ok l' d' \<and> spared (lf_directory l) {lf_path l} d d' \<and> lf_directory l' = lf_directory l \<and>
    pruned l (l' \<noteq> l) d d' \<and>
    (l' = l \<or> d_next d \<le> lf_file l' \<and> i_bytes (d_inodes d' (lf_file l')) = [] \<and>
      (map_of (d_names d') (archive_path l) = Some (lf_file l) \<or>
       map_of (d_names d') (archive_path l) = None \<and> is_archive (archive_path l)))"
proof (cases "rotation_period C (lf_rotation l) t = lf_period l")
  case True
  with run l pruned_none [of d d l] show ?thesis by (auto simp: log_rotate_def spared_def)
next
  case False
  let ?i = "lf_file l" and ?a = "archive_path l" and ?dir = "lf_directory l"
  have i: "?i < d_next d" using l names_bound [of d "lf_path l" ?i] by (simp add: log_ok_def)
  obtain x d1 where o: "log_open C ?dir t d = (x, d1)" by fastforce
  have g: "grown d d1" using log_open_run [OF o] by simp
  have ok1: "log_ok l d1" "spared ?dir {} d d1" using grown_log [OF l g] by simp_all
  show ?thesis
  proof (cases x)
    case (Inl e)
    with run False o have "l' = l" "d' = d1" by (auto simp: log_rotate_def Let_def)
    with ok1 pruned_none [of d d1 l] grown_names [OF g] show ?thesis by (auto simp: spared_def)
  next
    case (Inr fp)
    obtain j p where fp: "fp = (j, p)" by (cases fp)
    have c: "created ?dir (strftime C t ''%Y%m%d%H%M'') d j p d1" using log_open_run [OF o] Inr fp by simp
    then have d1: "d_names d1 = (p, j) # d_names d" "p \<notin> set (keys (d_names d))" "p \<notin> set (d_folders d)" "d_next d \<le> j" "j < d_next d1"
      "i_bytes (d_inodes d1 j) = []" by (simp_all add: created_def)
    have p: "p \<noteq> lf_path l" "map_of (d_names d) p = None" using d1(2) l map_of_eq_None_iff [of "d_names d" p] by (auto simp: log_ok_def)
    obtain y d2 where a: "log_archive l d1 = (y, d2)" by fastforce
    have look: "map_of (d_names d1) (lf_path l) = Some ?i" using ok1(1) by (simp add: log_ok_def)
    note ar = archive_run [OF a conjunct1 [OF log_ok_path [OF l]] look]
    have n1: "d_next d \<le> d_next d1" "\<And>k. k < d_next d \<Longrightarrow> d_inodes d1 k = d_inodes d k" "d_folders d1 = d_folders d"
      using g by (simp_all add: grown_def)
    have i1: "?i < d_next d1" using i n1(1) by simp
    show ?thesis
    proof (cases y)
      case (Inl e)
      have fin: "l' = l" "d' = snd (fs_remove p d2)" using run False o Inr fp a Inl by (auto simp: log_rotate_def Let_def)
      obtain R where R: "R \<subseteq> {p}" "without R d2 d'" using remove_any [of p d2] fin(2) by (metis prod.collapse)
      have d2: "d_names d2 = d_names d1 \<or> d_names d2 = (?a, ?i) # d_names d1 \<and> ?a \<notin> occupied d1"
        "d_inodes d2 = d_inodes d1" "d_next d2 = d_next d1" "d_folders d2 = d_folders d1" using ar Inl by auto
      have ok2: "disk_ok d2"
        using d2(1)
      proof
        assume "d_names d2 = d_names d1"
        with ok1(1) d2(3,4) show ?thesis by (simp add: log_ok_def disk_ok_def)
      next
        assume "d_names d2 = (?a, ?i) # d_names d1 \<and> ?a \<notin> occupied d1"
        with disk_ok_add [of d1 ?a ?i d2] ok1(1) i1 d2(3,4) show ?thesis by (simp add: log_ok_def)
      qed
      have r: "d_inodes d' = d_inodes d1" "d_next d' = d_next d1" using R(2) d2 by (simp_all add: without_def)
      have m: "map_of (d_names d') q = (if q \<in> R then None else map_of (d_names d2) q)" for q by (rule map_of_without [OF R(2)])
      have fresh: "?a \<notin> occupied d1 \<Longrightarrow> map_of (d_names d) ?a = None"
        using map_of_eq_None_iff [of "d_names d" ?a] d1(1) by (auto simp: occupied_def)
      have old: "map_of (d_names d') q = Some k" if "map_of (d_names d) q = Some k" for q k
        using that m [of q] R(1) p d2(1) d1(1) fresh by auto
      have "log_ok l d' \<and> spared ?dir {lf_path l} d d'"
      proof (rule log_ok_more [OF l disk_ok_without [OF ok2 R(2)] _ _ old])
        show "map_of (d_names d) q = Some k \<or> q = ?a" if "map_of (d_names d') q = Some k" "k < d_next d" for q k
          using that m [of q] d2(1) d1(1,4) by (auto split: if_splits)
      qed (use r n1 in simp_all)
      with fin(1) pruned_none [OF old] show ?thesis by simp
    next
      case ok: (Inr u)
      let ?l = "l\<lparr>lf_file := j, lf_path := p, lf_period := rotation_period C (lf_rotation l) t\<rparr>"
      obtain z d3 where pr: "log_prune ?l d2 = (z, d3)" by fastforce
      have fin: "l' = ?l" "d' = d3" using run False o Inr fp a ok pr by (auto simp: log_rotate_def Let_def)
      have d2: "d_names d2 = (?a, ?i) # AList.delete (lf_path l) (d_names d1)" "?a \<notin> occupied d1"
        "d_inodes d2 = d_inodes d1" "d_next d2 = d_next d1" "d_folders d2 = d_folders d1" using ar ok by auto
      have ap: "?a \<noteq> p" "?a \<noteq> lf_path l" using d2(2) d1(1) log_ok_path [OF l] by (auto simp: occupied_def)
      have ok2: "disk_ok d2"
      proof -
        have "disk_ok (d1\<lparr>d_names := AList.delete (lf_path l) (d_names d1)\<rparr>)" (is "disk_ok ?e")
          using disk_ok_without [of d1 "{lf_path l}" ?e] ok1(1) by (simp add: log_ok_def without_def remove_filter split_def)
        moreover have "?a \<notin> occupied ?e" using d2(2) by (auto simp: occupied_def)
        ultimately show ?thesis using disk_ok_add [of ?e ?a ?i d2] i1 d2 by simp
      qed
      obtain R where R: "R \<subseteq> archives ?dir d2" "without R d2 d3" "R \<noteq> {} \<Longrightarrow> lf_max_files l \<le> card (archives ?dir d2 - R)"
          "\<And>p q. p \<in> R \<Longrightarrow> q \<in> archives ?dir d2 - R \<Longrightarrow> (age d2 p, p) < (age d2 q, q)"
        using prune_any [OF _ _ pr] ok2 unfolding disk_ok_def by auto
      have RA: "path_parent q = Some ?dir \<and> is_archive q" if "q \<in> R" for q using R(1) that by (auto simp: archives_def)
      have fresh: "map_of (d_names d) ?a = None"
        using map_of_eq_None_iff [of "d_names d" ?a] d1(1) d2(2) by (auto simp: occupied_def)
      have m: "map_of (d_names d3) q = (if q \<in> R then None else if q = ?a then Some ?i else if q = lf_path l then None
          else if q = p then Some j else map_of (d_names d) q)" for q
        using map_of_without [OF R(2), of q] d2(1) d1(1) by simp
      have "\<not> is_archive p" using c by (auto simp: created_def logging_name)
      then have pR: "p \<notin> R" using RA by blast
      have r: "d_inodes d3 = d_inodes d1" "d_next d3 = d_next d1" using R(2) d2 by (simp_all add: without_def)
      have bound: "map_of (d_names d) q = Some k \<Longrightarrow> k < d_next d" for q k using l names_bound by (simp add: log_ok_def)
      have "log_ok ?l d3"
        unfolding log_ok_def
      proof (intro conjI allI impI)
        show "disk_ok d3" by (rule disk_ok_without [OF ok2 R(2)])
        show "map_of (d_names d3) (lf_path ?l) = Some (lf_file ?l)" using m [of p] pR ap p(1) by simp
        show "q = lf_path ?l \<or> q = archive_path ?l" if "map_of (d_names d3) q = Some (lf_file ?l)" for q
          using that m [of q] bound [of q j] d1(4) i by (auto split: if_splits)
        show "\<exists>ts k. ts \<noteq> [] \<and> lf_path ?l = log_path (lf_directory ?l) ts k" using c C by (auto simp: created_def)
      qed
      moreover have "spared ?dir {lf_path l} d d3"
        unfolding spared_def
      proof (intro conjI allI impI)
        fix q k assume q: "q \<notin> {lf_path l} \<and> map_of (d_names d) q = Some k"
        then have "q \<noteq> ?a" "q \<noteq> p" using fresh p(2) by auto
        with q m [of q] RA [of q] show "map_of (d_names d3) q = Some k \<or> map_of (d_names d3) q = None \<and> is_archive q \<and> path_parent q = Some ?dir"
          by auto
      qed (use r n1 in simp_all)
      moreover have "map_of (d_names d3) ?a = Some ?i \<or> map_of (d_names d3) ?a = None \<and> is_archive ?a"
        using m [of ?a] RA [of ?a] by auto
      moreover have "pruned l True d d3"
        unfolding pruned_def
      proof (intro allI impI)
        have np: "\<not> is_archive p" "\<not> is_archive (lf_path l)" using c log_ok_path [OF l] by (auto simp: created_def logging_name)
        have m2: "map_of (d_names d2) x = (if x = ?a then Some ?i else if x = lf_path l then None else if x = p then Some j else map_of (d_names d) x)" for x
          using d2(1) d1(1) by simp
        have A3: "archives ?dir d3 = archives ?dir d2 - R" using R(2) by (auto simp: archives_def without_def)
        have age: "age d2 x = changed l d x" if x: "x \<in> archives ?dir d2" for x
        proof (cases "x = ?a")
          case True
          then show ?thesis using m2 [of x] d2(3) n1(2) [OF i] by (simp add: age_def changed_def)
        next
          case False
          have "x \<noteq> p" "x \<noteq> lf_path l" using x np by (auto simp: archives_def)
          with False m2 [of x] have e: "map_of (d_names d2) x = map_of (d_names d) x" by simp
          have "map_of (d_names d2) x \<noteq> None" using x map_of_eq_None_iff [of "d_names d2" x] by (auto simp: archives_def simp del: not_None_eq)
          then obtain k where k: "map_of (d_names d) x = Some k" using e by auto
          with e False d2(3) n1(2) [OF bound [OF k]] show ?thesis by (simp add: age_def changed_def)
        qed
        fix q assume q: "(q \<in> archives ?dir d \<or> True \<and> q = ?a) \<and> map_of (d_names d3) q = None"
        have "q \<in> R"
        proof (cases "q = ?a")
          case True
          with q m [of q] show ?thesis by (auto split: if_splits)
        next
          case False
          with q have A: "q \<in> archives ?dir d" by simp
          then have "q \<noteq> p" "q \<noteq> lf_path l" using np by (auto simp: archives_def)
          moreover have "map_of (d_names d) q \<noteq> None" using A map_of_eq_None_iff [of "d_names d" q] by (auto simp: archives_def simp del: not_None_eq)
          ultimately show ?thesis using q m [of q] False by (auto split: if_splits)
        qed
        moreover have "R \<subseteq> archives ?dir d2" by (rule R(1))
        ultimately show "lf_max_files l \<le> card (archives ?dir d3) \<and> (\<forall>x \<in> archives ?dir d3. (changed l d q, q) < (changed l d x, x))"
          using R(3,4) age unfolding A3 by fastforce
      qed
      moreover have "?l \<noteq> l"
      proof
        assume "?l = l"
        then have "lf_file ?l = lf_file l" by (rule arg_cong)
        with d1(4) i show False by simp
      qed
      ultimately show ?thesis using fin d1(4,6) r by auto
    qed
  qed
qed

text \<open>An archiving that linked the archive but could not remove the active name blocks every later one.\<close>

lemma archive_blocked:
  assumes "archive_path l \<in> occupied d"
  shows "\<not> (\<exists>u d'. log_archive l d = (Inr u, d'))"
proof -
  have "has (d_names d) (archive_path l) \<or> archive_path l \<in> set (d_folders d)" using assms by (auto simp: occupied_def)
  then show ?thesis
    by (auto simp: log_archive_def io_bind_Inr file_flush_def io_ret_def io_call_Inr fs_hard_link_def archive_path_def
        split: option.splits if_splits simp del: has_keys)
qed

section \<open>Properties\<close>

text \<open>
  C39. Writing to the log loses nothing that is on the disk but what pruning removes, whatever call
  fails on the way: every other file keeps its contents, and its name unless it is an archive of the
  directory. What was written before is still there, in the active file or, after a rotation, in its
  archive, and what the call took follows in the active file. An archive, also the one just rotated,
  vanishes only when at least as many as are to be kept remain, all of them newer than it by
  modification time and path.
\<close>

theorem log_write_safe:
  assumes "\<And>t. strftime C t ''%Y%m%d%H%M'' \<noteq> []" "log_ok l d" "log_write C now bs l d = (r, l', d')"
  shows "log_ok l' d' \<and>
    (\<forall>p i. map_of (d_names d) p = Some i \<and> p \<noteq> lf_path l \<and> i \<noteq> lf_file l \<longrightarrow> d_inodes d' i = d_inodes d i \<and>
      (map_of (d_names d') p = Some i \<or> map_of (d_names d') p = None \<and> is_archive p \<and> path_parent p = Some (lf_directory l))) \<and>
    (let before = i_bytes (d_inodes d (lf_file l)); taken = (case r of Inr n \<Rightarrow> take n bs | Inl _ \<Rightarrow> []) in
      l' = l \<and> i_bytes (d_inodes d' (lf_file l)) = before @ taken \<or>
      lf_file l' \<noteq> lf_file l \<and> i_bytes (d_inodes d' (lf_file l')) = taken \<and> i_bytes (d_inodes d' (lf_file l)) = before \<and>
      (map_of (d_names d') (archive_path l) = Some (lf_file l) \<or> map_of (d_names d') (archive_path l) = None \<and> is_archive (archive_path l))) \<and>
    (\<forall>p. (p \<in> archives (lf_directory l) d \<or> l' \<noteq> l \<and> p = archive_path l) \<and> map_of (d_names d') p = None \<longrightarrow>
      lf_max_files l \<le> card (archives (lf_directory l) d') \<and>
      (\<forall>q \<in> archives (lf_directory l) d'. (changed l d p, p) < (changed l d q, q)))"
proof -
  obtain x l1 d1 where ro: "log_rotate C (log_now (lf_timezone l) now) l d = (x, l1, d1)" by (metis prod_cases3)
  note k = rotate_keeps [OF assms(1,2) ro]
  have i: "i < d_next d" if "map_of (d_names d) p = Some i" for p i using assms(2) names_bound that by (simp add: log_ok_def)
  have w: "l' = l1 \<and> d_names d' = d_names d1 \<and> d_next d' = d_next d1 \<and> d_folders d' = d_folders d1 \<and>
      (\<forall>i. i \<noteq> lf_file l1 \<longrightarrow> d_inodes d' i = d_inodes d1 i) \<and>
      i_bytes (d_inodes d' (lf_file l1)) = i_bytes (d_inodes d1 (lf_file l1)) @ (case r of Inr n \<Rightarrow> take n bs | Inl _ \<Rightarrow> [])"
    using assms(3) ro unfolding log_write_def
    by (auto simp: file_write_def Let_def split: sum.splits prod.splits elim!: io_call_cases)
  have "log_ok l1 d1" using k by simp
  then have "log_ok l' d'" using w by (simp add: log_ok_def disk_ok_def)
  moreover have "d_inodes d' j = d_inodes d j \<and> (map_of (d_names d') p = Some j \<or>
      map_of (d_names d') p = None \<and> is_archive p \<and> path_parent p = Some (lf_directory l))"
    if p: "map_of (d_names d) p = Some j" "p \<noteq> lf_path l" "j \<noteq> lf_file l" for p j
  proof -
    have "j \<noteq> lf_file l1" using k i [OF p(1)] p(3) by auto
    then have "d_inodes d' j = d_inodes d j" using w k i [OF p(1)] by (simp add: spared_def)
    then show ?thesis using k w p by (simp add: spared_def)
  qed
  moreover have "i_bytes (d_inodes d1 (lf_file l)) = i_bytes (d_inodes d (lf_file l))"
    using k i [of "lf_path l" "lf_file l"] assms(2) by (simp add: spared_def log_ok_def)
  moreover have "lf_file l < d_next d" using i [of "lf_path l" "lf_file l"] assms(2) by (simp add: log_ok_def)
  moreover have "archives (lf_directory l) d' = archives (lf_directory l) d1" using w by (simp add: archives_def)
  then have "\<forall>p. (p \<in> archives (lf_directory l) d \<or> l' \<noteq> l \<and> p = archive_path l) \<and> map_of (d_names d') p = None \<longrightarrow>
      lf_max_files l \<le> card (archives (lf_directory l) d') \<and>
      (\<forall>q \<in> archives (lf_directory l) d'. (changed l d p, p) < (changed l d q, q))"
    using k w by (simp add: pruned_def)
  ultimately show ?thesis using k w unfolding Let_def by auto
qed

definition sample_chrono :: "nat chrono" where
  "sample_chrono = \<lparr>strftime = (\<lambda>t f. if f = ''%Y%m%d%H%M'' then ''202601010000'' else dec t), time_minute = (\<lambda>t. t mod 60)\<rparr>"

definition sample_log :: log_file where
  "sample_log = \<lparr>lf_file = 0, lf_path = log_path (Path True [''log'']) ''202512312359'' 0, lf_directory = Path True [''log''],
     lf_rotation = Daily, lf_timezone = Utc, lf_period = dec 0, lf_max_files = 1, lf_closed = True\<rparr>"

definition sample_disk :: disk where
  "sample_disk = \<lparr>d_names = [(lf_path sample_log, 0), (Path True [''log'', ''202512310000.log''], 1), (Path True [''log'', ''202512300000.log''], 2)],
     d_inodes = (\<lambda>i. \<lparr>i_bytes = [word_of_nat i], i_modified = 10 - i\<rparr>), d_next = 3, d_folders = [Path True [''log'']], d_clock = 10,
     d_faults = (\<lambda>_. None), d_takes = (\<lambda>_. 100), d_calls = 0\<rparr>"

lemma sample_disk_ok: "disk_ok sample_disk" "log_ok sample_log sample_disk"
proof -
  show "disk_ok sample_disk" by code_simp
  then have "lf_path sample_log = log_path (lf_directory sample_log) ''202512312359'' 0" "d_names sample_disk =
      [(lf_path sample_log, 0), (Path True [''log'', ''202512310000.log''], 1), (Path True [''log'', ''202512300000.log''], 2)]"
    "lf_file sample_log = 0"
    by (simp_all add: sample_log_def sample_disk_def)
  with \<open>disk_ok sample_disk\<close> show "log_ok sample_log sample_disk"
    unfolding log_ok_def by (auto split: if_splits)
qed

theorem log_write_safe_witness:
  "case log_write sample_chrono (1, 1) [7] sample_log sample_disk of (r, l', d') \<Rightarrow>
     log_ok l' d' \<and> d_inodes d' 1 = d_inodes sample_disk 1"
proof -
  obtain r l' d' where run: "log_write sample_chrono (1, 1) [7] sample_log sample_disk = (r, l', d')" by (metis prod_cases3)
  have "map_of (d_names sample_disk) (Path True [''log'', ''202512310000.log'']) = Some 1"
    "Path True [''log'', ''202512310000.log''] \<noteq> lf_path sample_log" "1 \<noteq> lf_file sample_log"
    by code_simp+
  with log_write_safe [OF _ sample_disk_ok(2) run] show ?thesis unfolding run by (simp add: sample_chrono_def)
qed

text \<open>
  C40. A successful pruning leaves the newest archives of the directory, as many as are to be kept,
  and touches no other file.
\<close>

theorem prune_keeps_newest:
  assumes "disk_ok d" "log_prune l d = (Inr (), d')"
  shows "card (archives (lf_directory l) d') = min (card (archives (lf_directory l) d)) (lf_max_files l) \<and>
    (\<forall>p. p \<notin> archives (lf_directory l) d \<longrightarrow> map_of (d_names d') p = map_of (d_names d) p) \<and>
    (\<forall>p q. p \<in> archives (lf_directory l) d - archives (lf_directory l) d' \<and> q \<in> archives (lf_directory l) d' \<longrightarrow>
      (age d p, p) < (age d q, q)) \<and> d_inodes d' = d_inodes d"
proof -
  let ?A = "archives (lf_directory l)"
  obtain R where R: "R \<subseteq> ?A d" "d_names d' = filter (\<lambda>(p, _). p \<notin> R) (d_names d)" "card R = card (?A d) - lf_max_files l"
    "\<And>p q. p \<in> R \<Longrightarrow> q \<in> ?A d - R \<Longrightarrow> (age d p, p) < (age d q, q)" "d_inodes d' = d_inodes d" "d_next d' = d_next d" "d_folders d' = d_folders d"
    using prune_run [OF _ _ assms(2)] assms(1) unfolding disk_ok_def by blast
  have rest: "?A d' = ?A d - R" by (auto simp: archives_def R(2))
  have "finite (?A d)" by (rule finite_subset [of _ "set (keys (d_names d))"]) (auto simp: archives_def)
  then have "card (?A d') = card (?A d) - card R" using R(1) by (simp add: rest card_Diff_subset finite_subset)
  moreover have "without R d d'" using R by (simp add: without_def)
  ultimately show ?thesis using R rest map_of_without [of R d d'] by auto
qed

theorem prune_keeps_newest_witness:
  "\<exists>d'. log_prune sample_log sample_disk = (Inr (), d') \<and> card (archives (Path True [''log'']) d') = 1"
proof -
  have "fst (log_prune sample_log sample_disk) = Inr ()" by code_simp
  then obtain d' where run: "log_prune sample_log sample_disk = (Inr (), d')" by (cases "log_prune sample_log sample_disk") auto
  have "lf_directory sample_log = Path True [''log'']" "lf_max_files sample_log = 1" by (simp_all add: sample_log_def)
  moreover have "archives (Path True [''log'']) sample_disk = {Path True [''log'', ''202512310000.log''], Path True [''log'', ''202512300000.log'']}"
  proof -
    have "filter (\<lambda>p. path_parent p = Some (Path True [''log'']) \<and> is_archive p) (keys (d_names sample_disk)) =
        [Path True [''log'', ''202512310000.log''], Path True [''log'', ''202512300000.log'']]" by code_simp
    moreover have "archives dir d = set (filter (\<lambda>p. path_parent p = Some dir \<and> is_archive p) (keys (d_names d)))" for dir d
      by (auto simp: archives_def)
    ultimately show ?thesis by (simp only: list.set)
  qed
  ultimately show ?thesis using prune_keeps_newest [OF sample_disk_ok(1) run] run by simp
qed

end
