(* ===== verification/Config.thy ===== *)
theory Config
  imports Log_File Access
begin

text \<open>
\<^verbatim>\<open>src/config.rs\<close> and the arguments of \<^verbatim>\<open>src/main.rs\<close>: the default configuration file and its refresh,
  the settings of a file under those of the command line, their checks, and the ROS arguments made of
  them. Reading TOML, printing JSON and floats, IP addresses and the environment are parameters.
\<close>

section \<open>Settings\<close>

record 'ip args =
  a_config :: "path option"
  a_log_directory :: "path option"
  a_log_level :: "string option"
  a_log_timezone :: "timezone option"
  a_log_ansi :: "bool option"
  a_url_path :: string
  a_incoming_queue_size :: nat
  a_write_queue_size :: nat
  a_write_queue_bytes :: nat
  a_encoding_workers :: nat
  a_fragment_timeout :: f64
  a_websocket_ping_interval :: f64
  a_websocket_ping_timeout :: f64
  a_bind :: "'ip \<times> nat"
  a_node_name :: string
  a_namespace :: string
  a_use_sim_time :: bool
  a_no_rosapi :: bool
  a_service_timeout :: f64
  a_max_message_size :: nat
  a_ros_args :: "string list"

record log_settings =
  l_level :: string
  l_directory :: "path option"
  l_rotation :: string
  l_max_files :: nat
  l_console :: bool
  l_timezone :: timezone
  l_ansi :: bool

definition log_default :: log_settings where
  "log_default = \<lparr>l_level = ''info'', l_directory = None, l_rotation = ''20min'', l_max_files = 7, l_console = True,
     l_timezone = LocalTime, l_ansi = True\<rparr>"

record config =
  c_address :: "string option"
  c_port :: "nat option"
  c_node_name :: "string option"
  c_namespace :: "string option"
  c_use_sim_time :: "bool option"
  c_no_rosapi :: "bool option"
  c_default_call_service_timeout :: "f64 option"
  c_max_message_size :: "nat option"
  c_url_path :: "string option"
  c_incoming_queue_size :: "nat option"
  c_write_queue_size :: "nat option"
  c_write_queue_bytes :: "nat option"
  c_encoding_workers :: "nat option"
  c_fragment_timeout :: "f64 option"
  c_websocket_ping_interval :: "f64 option"
  c_websocket_ping_timeout :: "f64 option"
  c_topics_glob :: "string list option"
  c_topics_pub_glob :: "string list option"
  c_topics_sub_glob :: "string list option"
  c_services_glob :: "string list option"
  c_params_glob :: "string list option"
  c_params_timeout :: "f64 option"
  c_log :: log_settings

text \<open>The default values that \<^verbatim>\<open>clap\<close> gives; 30 as a binary64.\<close>

definition THIRTY :: f64 where
  "THIRTY = 0x403E000000000000"

definition args_default :: "'ip \<Rightarrow> 'ip args" where
  "args_default any = \<lparr>a_config = None, a_log_directory = None, a_log_level = None, a_log_timezone = None, a_log_ansi = None,
     a_url_path = ''/'', a_incoming_queue_size = 256, a_write_queue_size = 64, a_write_queue_bytes = 67108864,
     a_encoding_workers = 2, a_fragment_timeout = THIRTY, a_websocket_ping_interval = THIRTY,
     a_websocket_ping_timeout = THIRTY, a_bind = (any, 9090), a_node_name = ''rosbridge_websocket'', a_namespace = ''/'',
     a_use_sim_time = False, a_no_rosapi = False, a_service_timeout = THIRTY, a_max_message_size = 16777216, a_ros_args = []\<rparr>"

text \<open>What the program is started in, and the libraries it reads settings with. \<open>x_explicit\<close> says of an
  argument whether its \<^verbatim>\<open>value_source\<close> is the command line.\<close>

record 'ip startup =
  x_explicit :: "string \<Rightarrow> bool"
  x_home :: "path option"
  x_rust_log :: "string option"
  x_version :: "byte list"
  x_default :: "byte list"
  x_toml :: "byte list \<Rightarrow> error + config"
  x_ip :: "string \<Rightarrow> 'ip option"
  x_globs :: globs
  x_json :: "string list \<Rightarrow> string"
  x_float :: "f64 \<Rightarrow> string"

section \<open>The default file\<close>

definition fsA :: "('e \<Rightarrow> error) \<Rightarrow> (disk \<Rightarrow> ('e + 'a) \<times> disk) \<Rightarrow> (disk, 'a) action" where
  "fsA f m d = (case m d of (Inl e, d') \<Rightarrow> (Err (f e), d') | (Inr x, d') \<Rightarrow> (Ok x, d'))"

definition io_text :: "io \<Rightarrow> error" where
  "io_text e = (case e of Missing \<Rightarrow> ''No such file or directory'' | Exists \<Rightarrow> ''File exists'' | Failed s \<Rightarrow> s)"

definition ensure_default_config :: "'ip startup \<Rightarrow> path \<Rightarrow> (disk, unit) action" where
  "ensure_default_config X p =
     bindA (liftA (context_of (path_parent p) ''config path has no parent'')) (\<lambda>directory.
     let marker = path_child directory ''.config-version'' in
     bindA (\<lambda>d. case fs_read_to_string marker d of
         (Inr bytes, d') \<Rightarrow> (Ok (Some bytes), d')
       | (Inl Missing, d') \<Rightarrow> (Ok None, d')
       | (Inl _, d') \<Rightarrow> (Err ''read default config version'', d')) (\<lambda>previous.
     bindA (if previous = Some (x_version X) then (\<lambda>d. case fs_exists p d of (b, d') \<Rightarrow> (Ok b, d')) else retA False) (\<lambda>fresh.
     if fresh then retA ()
     else
       bindA (fsA io_text (fs_create_dir_all directory)) (\<lambda>_.
       bindA (fsA (\<lambda>_. ''refresh default config'') (fs_write p (x_default X))) (\<lambda>_.
       fsA (\<lambda>_. ''write default config version'') (fs_write marker (x_version X)))))))"

definition default_config :: "path \<Rightarrow> path" where
  "default_config home = path_join home (Path False [''.rosbridge_server_rs'', ''rosbridge.toml''])"

definition config_file :: "'ip startup \<Rightarrow> 'ip args \<Rightarrow> (disk, path) action" where
  "config_file X a = (case a_config a of
     Some p \<Rightarrow> retA p
   | None \<Rightarrow>
       bindA (liftA (context_of (x_home X) ''HOME is unset; provide --config'')) (\<lambda>home.
       bindA (ensure_default_config X (default_config home)) (\<lambda>_. retA (default_config home))))"

definition read_config :: "'ip startup \<Rightarrow> path \<Rightarrow> (disk, config) action" where
  "read_config X p =
     bindA (fsA (\<lambda>_. ''read config'') (fs_read_to_string p)) (\<lambda>bytes.
     liftA (case x_toml X bytes of Inl e \<Rightarrow> Err ''parse config'' | Inr c \<Rightarrow> Ok c))"

section \<open>Precedence\<close>

text \<open>\<^verbatim>\<open>apply!\<close>\<close>

definition apply_setting :: "'ip startup \<Rightarrow> string \<Rightarrow> 'a option \<Rightarrow> 'a \<Rightarrow> 'a" where
  "apply_setting X field file old = (if x_explicit X field then old else case file of Some v \<Rightarrow> v | None \<Rightarrow> old)"

definition bind_address :: "'ip startup \<Rightarrow> config \<Rightarrow> 'ip \<times> nat \<Rightarrow> ('ip \<times> nat) outcome" where
  "bind_address X c b =
     (if x_explicit X ''bind'' then Ok b
      else
        bindO (case c_address c of
            None \<Rightarrow> Ok (fst b)
          | Some address \<Rightarrow> context_of (x_ip X (if address = [] then ''0.0.0.0'' else address)) ''address must be an IP address'') (\<lambda>ip.
        Ok (ip, case c_port c of None \<Rightarrow> snd b | Some port \<Rightarrow> port)))"

text \<open>\<^verbatim>\<open>value > 0.0\<close>, and \<^verbatim>\<open>value.is_finite() && value > 0.0\<close>.\<close>

definition f64_positive :: "f64 \<Rightarrow> bool" where
  "f64_positive w \<longleftrightarrow> \<not> f64_sign w \<and> \<not> f64_zero w \<and> \<not> f64_nan w"

definition finite_positive :: "f64 \<Rightarrow> bool" where
  "finite_positive w \<longleftrightarrow> f64_finite w \<and> f64_positive w"

definition url_path_ok :: "string \<Rightarrow> bool" where
  "url_path_ok s \<longleftrightarrow> s \<noteq> [] \<and> hd s = CHR ''/'' \<and> CHR ''?'' \<notin> set s \<and> CHR ''#'' \<notin> set s"

definition apply_first :: "'ip startup \<Rightarrow> config \<Rightarrow> 'ip args \<Rightarrow> 'ip args" where
  "apply_first X c a = a\<lparr>
     a_node_name := apply_setting X ''node_name'' (c_node_name c) (a_node_name a),
     a_namespace := apply_setting X ''namespace'' (c_namespace c) (a_namespace a),
     a_use_sim_time := apply_setting X ''use_sim_time'' (c_use_sim_time c) (a_use_sim_time a),
     a_no_rosapi := apply_setting X ''no_rosapi'' (c_no_rosapi c) (a_no_rosapi a),
     a_service_timeout := apply_setting X ''service_timeout'' (c_default_call_service_timeout c) (a_service_timeout a),
     a_max_message_size := apply_setting X ''max_message_size'' (c_max_message_size c) (a_max_message_size a),
     a_url_path := apply_setting X ''url_path'' (c_url_path c) (a_url_path a),
     a_incoming_queue_size := apply_setting X ''incoming_queue_size'' (c_incoming_queue_size c) (a_incoming_queue_size a),
     a_write_queue_size := apply_setting X ''write_queue_size'' (c_write_queue_size c) (a_write_queue_size a),
     a_write_queue_bytes := apply_setting X ''write_queue_bytes'' (c_write_queue_bytes c) (a_write_queue_bytes a),
     a_encoding_workers := apply_setting X ''encoding_workers'' (c_encoding_workers c) (a_encoding_workers a)\<rparr>"

definition apply_timing :: "'ip startup \<Rightarrow> config \<Rightarrow> 'ip args \<Rightarrow> 'ip args" where
  "apply_timing X c a = a\<lparr>
     a_fragment_timeout := apply_setting X ''fragment_timeout'' (c_fragment_timeout c) (a_fragment_timeout a),
     a_websocket_ping_interval := apply_setting X ''websocket_ping_interval'' (c_websocket_ping_interval c) (a_websocket_ping_interval a),
     a_websocket_ping_timeout := apply_setting X ''websocket_ping_timeout'' (c_websocket_ping_timeout c) (a_websocket_ping_timeout a)\<rparr>"

definition settle :: "'ip startup \<Rightarrow> config \<Rightarrow> 'ip args \<Rightarrow> 'ip args outcome" where
  "settle X c a0 =
     bindO (bind_address X c (a_bind a0)) (\<lambda>b.
     let a = apply_first X c (a0\<lparr>a_bind := b\<rparr>) in
     bindO (ensure (0 < a_encoding_workers a \<and> a_encoding_workers a \<le> 256) ''encoding_workers must be between 1 and 256'') (\<lambda>_.
     bindO (ensure (0 < a_write_queue_bytes a) ''write_queue_bytes must be positive'') (\<lambda>_.
     let a = apply_timing X c a in
     bindO (ensure (is_ok (try_from_secs_f64 (a_websocket_ping_interval a)))
       ''websocket_ping_interval must be finite, nonnegative and representable'') (\<lambda>_.
     bindO (ensure (case try_from_secs_f64 (a_websocket_ping_timeout a) of Ok t \<Rightarrow> t \<noteq> 0 | _ \<Rightarrow> False)
       ''websocket_ping_timeout must be finite, positive and representable'') (\<lambda>_.
     bindO (ensure (0 < a_incoming_queue_size a \<and> 0 < a_write_queue_size a) ''queue sizes must be positive'') (\<lambda>_.
     bindO (ensure (0 < a_max_message_size a) ''max_message_size must be positive'') (\<lambda>_.
     bindO (ensure (url_path_ok (a_url_path a)) ''url_path must be an absolute URL path'') (\<lambda>_.
     bindO (ensure (finite_positive (a_fragment_timeout a)) ''fragment_timeout must be finite and positive'') (\<lambda>_.
     bindO (ensure (finite_positive (a_service_timeout a)) ''default_call_service_timeout must be finite and positive'') (\<lambda>_.
     Ok a))))))))))"

section \<open>ROS arguments\<close>

fun glob_parameter :: "'ip startup \<Rightarrow> string \<times> string list option \<Rightarrow> string list outcome" where
  "glob_parameter X (name, None) = Ok []"
| "glob_parameter X (name, Some patterns) =
     bindO (mapO (compile (x_globs X)) patterns) (\<lambda>_. Ok [''-p'', name @ '':='' @ x_json X patterns])"

definition timeout_parameter :: "'ip startup \<Rightarrow> f64 option \<Rightarrow> string list outcome" where
  "timeout_parameter X timeout = (case timeout of
     None \<Rightarrow> Ok []
   | Some t \<Rightarrow> bindO (ensure (finite_positive t) ''params_timeout must be finite and positive'') (\<lambda>_.
       Ok [''-p'', ''params_timeout:='' @ x_float X t]))"

definition file_parameters :: "'ip startup \<Rightarrow> config \<Rightarrow> string list outcome" where
  "file_parameters X c =
     bindO (mapO (glob_parameter X)
       [(''topics_glob'', c_topics_glob c), (''topics_pub_glob'', c_topics_pub_glob c), (''topics_sub_glob'', c_topics_sub_glob c),
        (''services_glob'', c_services_glob c), (''params_glob'', c_params_glob c)]) (\<lambda>ps.
     bindO (timeout_parameter X (c_params_timeout c)) (\<lambda>t. Ok (concat ps @ t)))"

definition with_parameters :: "string list \<Rightarrow> string list \<Rightarrow> string list" where
  "with_parameters extra args =
     (if extra = [] then args else ''--ros-args'' # extra @ filter (\<lambda>a. a \<noteq> ''--ros-args'') args)"

section \<open>Log settings\<close>

definition or_file :: "'a option \<Rightarrow> 'a \<Rightarrow> 'a" where
  "or_file explicit file = (case explicit of Some v \<Rightarrow> v | None \<Rightarrow> file)"

definition expand_home :: "'ip startup \<Rightarrow> path \<Rightarrow> path outcome" where
  "expand_home X p =
     (case components p of
        c # cs \<Rightarrow> if \<not> is_absolute p \<and> c = ''~''
          then bindO (context_of (x_home X) ''HOME is unset; use an absolute log directory'') (\<lambda>home. Ok (path_join home (Path False cs)))
          else Ok p
      | [] \<Rightarrow> Ok p)"

definition settle_log :: "'ip startup \<Rightarrow> 'ip args \<Rightarrow> log_settings \<Rightarrow> log_settings outcome" where
  "settle_log X a file =
     (let l = file\<lparr>l_level := or_file (a_log_level a) (or_file (x_rust_log X) (l_level file)),
        l_directory := (case a_log_directory a of Some p \<Rightarrow> Some p | None \<Rightarrow> l_directory file),
        l_timezone := or_file (a_log_timezone a) (l_timezone file), l_ansi := or_file (a_log_ansi a) (l_ansi file)\<rparr> in
      case l_directory l of
        None \<Rightarrow> Ok l
      | Some p \<Rightarrow> bindO (expand_home X p) (\<lambda>q. Ok (l\<lparr>l_directory := Some q\<rparr>)))"

definition load_settings :: "'ip startup \<Rightarrow> config \<Rightarrow> 'ip args \<Rightarrow> ('ip args \<times> log_settings) outcome" where
  "load_settings X c a0 =
     bindO (settle X c a0) (\<lambda>a.
     bindO (file_parameters X c) (\<lambda>extra.
     let a = a\<lparr>a_ros_args := with_parameters extra (a_ros_args a)\<rparr> in
     bindO (settle_log X a (c_log c)) (\<lambda>l. Ok (a, l))))"

definition load :: "'ip startup \<Rightarrow> 'ip args \<Rightarrow> (disk, 'ip args \<times> log_settings) action" where
  "load X a =
     bindA (config_file X a) (\<lambda>p.
     bindA (read_config X p) (\<lambda>c.
     liftA (load_settings X c (a\<lparr>a_config := Some p\<rparr>))))"

end
