(* ===== verification/Config_Safety.thy ===== *)
theory Config_Safety
  imports Config Incoming Encoding
begin

text \<open>
What the settings of the configuration file come to: which allowlists are in force, and that the server can
  be started with them.
\<close>

section \<open>Settings among the ROS arguments\<close>

lemma windows2_Cons: "windows2 (x # xs) = (case xs of [] \<Rightarrow> [] | y # _ \<Rightarrow> (x, y) # windows2 xs)"
  by (cases xs) (auto simp: windows2_def)

abbreviation flag :: "string \<Rightarrow> bool" where
  "flag a \<equiv> a = ''-p'' \<or> a = ''--param''"

lemma settings_Cons: "settings name (a # args) = (case args of [] \<Rightarrow> [] | b # _ \<Rightarrow>
    (if flag a then (case split_once '':='' b of Some (k, v) \<Rightarrow> if rsplit_next CHR '':'' k = name then [v] else [] | None \<Rightarrow> []) else [])) @
    settings name args"
proof (cases args)
  case Nil
  then show ?thesis by (simp add: settings_def windows2_def List.map_filter_def)
next
  case (Cons b r)
  show ?thesis
    unfolding settings_def windows2_Cons [of a] Cons
    by (auto simp: List.map_filter_def split: option.splits)
qed

lemma settings_other: "\<not> flag a \<Longrightarrow> settings name (a # args) = settings name args"
  by (simp add: settings_Cons split: list.split)

lemma split_once_assign: "CHR '':'' \<notin> set k \<Longrightarrow> split_once '':='' (k @ '':='' @ v) = Some (k, v)"
proof (induction k)
  case Nil
  show ?case by (simp add: split_once.simps)
next
  case (Cons c k)
  then show ?case by (subst split_once.simps) auto
qed

lemma split_char_absent: "c \<notin> set s \<Longrightarrow> split_char c s = [s]"
  by (induction s) auto

lemma flag_plain: "flag a \<Longrightarrow> CHR '':'' \<notin> set a"
  by auto

lemma settings_pair:
  assumes "CHR '':'' \<notin> set k"
  shows "settings name (''-p'' # (k @ '':='' @ v) # args) = (if k = name then [v] else []) @ settings name args"
proof -
  have "CHR '':'' \<in> set (k @ '':='' @ v)" by simp
  then have "\<not> flag (k @ '':='' @ v)" using flag_plain by blast
  then have "settings name ((k @ '':='' @ v) # args) = settings name args" by (rule settings_other)
  then show ?thesis
    using split_once_assign [OF assms, of v] assms
    by (simp add: settings_Cons [of _ "''-p''"] rsplit_next_def split_char_absent)
qed

text \<open>Dropping the marks that open a group of ROS arguments changes no setting, if none stands where a
  value is expected.\<close>

definition marks_apart :: "string list \<Rightarrow> bool" where
  "marks_apart args \<longleftrightarrow> list_all (\<lambda>(a, b). flag a \<longrightarrow> b \<noteq> ''--ros-args'') (windows2 args)"

lemma settings_unmarked:
  "marks_apart args \<Longrightarrow> settings name (filter (\<lambda>a. a \<noteq> ''--ros-args'') args) = settings name args"
proof (induction args)
  case (Cons a args)
  then have ih: "settings name (filter (\<lambda>a. a \<noteq> ''--ros-args'') args) = settings name args"
    by (auto simp: marks_apart_def windows2_Cons split: list.splits)
  show ?case
  proof (cases args)
    case Nil
    then show ?thesis by (simp add: settings_Cons)
  next
    case (Cons b r)
    show ?thesis
    proof (cases "a = ''--ros-args''")
      case True
      then show ?thesis using ih settings_other [of a name args] by simp
    next
      case a: False
      show ?thesis
      proof (cases "flag a")
        case True
        then have "b \<noteq> ''--ros-args''" using Cons.prems Cons by (auto simp: marks_apart_def windows2_Cons)
        with ih a Cons show ?thesis by (simp add: settings_Cons [of name a])
      next
        case False
        then show ?thesis using ih a by (simp add: settings_other)
      qed
    qed
  qed
qed simp

definition assignments :: "(string \<times> string) list \<Rightarrow> string list" where
  "assignments kvs = concat (map (\<lambda>(k, v). [''-p'', k @ '':='' @ v]) kvs)"

lemma settings_assignments:
  "list_all (\<lambda>(k, v). CHR '':'' \<notin> set k) kvs \<Longrightarrow>
    settings name (assignments kvs @ args) = map snd (filter (\<lambda>(k, v). k = name) kvs) @ settings name args"
proof (induction kvs)
  case (Cons kv kvs)
  then show ?case
    by (cases kv) (simp add: assignments_def settings_pair [simplified])
qed (simp add: assignments_def)

text \<open>What the file sets, under the names of the ROS parameters.\<close>

definition file_globs :: "config \<Rightarrow> (string \<times> string list option) list" where
  "file_globs c = [(''topics_glob'', c_topics_glob c), (''topics_pub_glob'', c_topics_pub_glob c), (''topics_sub_glob'', c_topics_sub_glob c),
     (''services_glob'', c_services_glob c), (''params_glob'', c_params_glob c)]"

definition file_settings :: "'ip startup \<Rightarrow> config \<Rightarrow> (string \<times> string) list" where
  "file_settings X c =
     concat (map (\<lambda>(name, ps). case ps of None \<Rightarrow> [] | Some ps \<Rightarrow> [(name, x_json X ps)]) (file_globs c)) @
     (case c_params_timeout c of None \<Rightarrow> [] | Some t \<Rightarrow> [(''params_timeout'', x_float X t)])"

lemma file_globs_wf: "distinct (keys (file_globs c))" "list_all (\<lambda>(k, _). CHR '':'' \<notin> set k) (file_globs c)"
  "''params_timeout'' \<notin> set (keys (file_globs c))"
  by (simp_all add: file_globs_def)

lemma values_of_name:
  assumes "distinct (keys gs)" "(name, file) \<in> set gs"
  shows "map snd (filter (\<lambda>(k, v). k = name) (concat (map (\<lambda>(n, ps). case ps of None \<Rightarrow> [] | Some ps \<Rightarrow> [(n, f ps)]) gs))) =
    (case file of None \<Rightarrow> [] | Some ps \<Rightarrow> [f ps])"
proof -
  have absent: "n \<notin> set (keys hs) \<Longrightarrow>
      filter (\<lambda>(k, v). k = n) (concat (map (\<lambda>(n, ps). case ps of None \<Rightarrow> [] | Some ps \<Rightarrow> [(n, f ps)]) hs)) = []" for n hs
    by (induction hs) (auto split: option.splits)
  show ?thesis
    using assms
  proof (induction gs)
    case (Cons g gs)
    obtain n ps where g: "g = (n, ps)" by fastforce
    show ?case
    proof (cases "g = (name, file)")
      case True
      then show ?thesis using Cons.prems by (simp add: absent split: option.split)
    next
      case False
      then have "(name, file) \<in> set gs" "n \<noteq> name" using Cons.prems g by force+
      then show ?thesis using Cons g by (simp split: option.split)
    qed
  qed simp
qed

lemma glob_parameter_run:
  "mapO (glob_parameter X) globs = Ok ps \<Longrightarrow>
    concat ps = assignments (concat (map (\<lambda>(name, ps). case ps of None \<Rightarrow> [] | Some ps \<Rightarrow> [(name, x_json X ps)]) globs)) \<and>
    (\<forall>name patterns. (name, Some patterns) \<in> set globs \<longrightarrow> mapO (compile (x_globs X)) patterns = Ok patterns)"
proof (induction globs arbitrary: ps)
  case Nil
  then show ?case by (simp add: assignments_def)
next
  case (Cons g globs)
  obtain name pat where g: "g = (name, pat)" by fastforce
  from Cons.prems obtain q qs where q: "glob_parameter X g = Ok q" "mapO (glob_parameter X) globs = Ok qs" "ps = q # qs"
    by (auto simp: bindO_eq_Ok)
  note ih = Cons.IH [OF q(2)]
  have same: "mapO (compile (x_globs X)) patterns = Ok ys \<Longrightarrow> ys = patterns" for patterns ys
    by (auto simp: mapO_Ok compile_Ok list_all2_conv_all_nth intro: nth_equalityI)
  show ?case
  proof (cases pat)
    case None
    then show ?thesis using ih q g by (simp add: assignments_def)
  next
    case (Some patterns)
    then obtain ys where "mapO (compile (x_globs X)) patterns = Ok ys" "q = [''-p'', name @ '':='' @ x_json X patterns]"
      using q(1) g by (auto simp: bindO_eq_Ok)
    then show ?thesis using ih q(3) g Some same by (auto simp: assignments_def)
  qed
qed

lemma file_parameters_run:
  assumes "file_parameters X c = Ok extra"
  shows "extra = assignments (file_settings X c)" "(name, Some patterns) \<in> set (file_globs c) \<Longrightarrow> mapO (compile (x_globs X)) patterns = Ok patterns"
proof -
  obtain ps t where r: "mapO (glob_parameter X) (file_globs c) = Ok ps" "timeout_parameter X (c_params_timeout c) = Ok t" "extra = concat ps @ t"
    using assms by (auto simp: file_parameters_def file_globs_def bindO_eq_Ok)
  have "t = assignments (case c_params_timeout c of None \<Rightarrow> [] | Some t \<Rightarrow> [(''params_timeout'', x_float X t)])"
    using r(2) by (auto simp: timeout_parameter_def bindO_eq_Ok assignments_def split: option.splits)
  then show "extra = assignments (file_settings X c)"
    using glob_parameter_run [OF r(1)] r(3) by (simp add: assignments_def file_settings_def)
  show "(name, Some patterns) \<in> set (file_globs c) \<Longrightarrow> mapO (compile (x_globs X)) patterns = Ok patterns"
    using glob_parameter_run [OF r(1)] by blast
qed

lemma settings_loaded:
  assumes "file_parameters X c = Ok extra" "marks_apart args"
  shows "settings name (with_parameters extra args) = map snd (filter (\<lambda>(k, v). k = name) (file_settings X c)) @ settings name args"
proof -
  have e: "extra = assignments (file_settings X c)" by (rule file_parameters_run [OF assms(1)])
  have k: "list_all (\<lambda>(k, v). CHR '':'' \<notin> set k) (file_settings X c)"
    by (auto simp: file_settings_def file_globs_def split: option.split)
  show ?thesis
  proof (cases "extra = []")
    case True
    with e have "file_settings X c = []" by (cases "file_settings X c") (auto simp: assignments_def)
    with True show ?thesis by (simp add: with_parameters_def)
  next
    case False
    then show ?thesis
      by (simp add: with_parameters_def settings_other e settings_assignments [OF k] settings_unmarked [OF assms(2)])
  qed
qed

lemma load_settings_args:
  assumes "load_settings X c a = Ok (b, l)"
  obtains extra where "file_parameters X c = Ok extra" "a_ros_args b = with_parameters extra (a_ros_args a)"
proof -
  obtain a' extra where r: "settle X c a = Ok a'" "file_parameters X c = Ok extra" "a_ros_args b = with_parameters extra (a_ros_args a')"
    using assms by (auto simp: load_settings_def Let_def bindO_eq_Ok)
  have "a_ros_args a' = a_ros_args a"
    using r(1) by (auto simp: settle_def Let_def bindO_eq_Ok apply_first_def apply_timing_def)
  with r that show thesis by simp
qed

section \<open>The rules in force\<close>

text \<open>A pattern list given as a ROS parameter on the command line is the one that counts, otherwise the list
  of the configuration file counts, and without either there is none. TOML must read back the array of
  strings that is printed as JSON.\<close>

lemma file_allowlists:
  assumes "load_settings X c a = Ok (b, l)" "marks_apart (a_ros_args a)" "(name, listed) \<in> set (file_globs c)"
    and "\<And>ps. listed = Some ps \<Longrightarrow> toml (''patterns = '' @ x_json X ps) = Some [(''patterns'', TArr (map TStr ps))]"
  shows "parse_glob (x_globs X) toml (a_ros_args b) name =
    (if settings name (a_ros_args a) = [] then Ok listed else parse_glob (x_globs X) toml (a_ros_args a) name)"
proof -
  obtain extra where e: "file_parameters X c = Ok extra" "a_ros_args b = with_parameters extra (a_ros_args a)"
    by (rule load_settings_args [OF assms(1)])
  have timeout: "name \<noteq> ''params_timeout''" using file_globs_wf(3) [of c] assms(3) by (metis fst_conv image_eqI set_map)
  have "map snd (filter (\<lambda>(k, v). k = name) (file_settings X c)) = (case listed of None \<Rightarrow> [] | Some ps \<Rightarrow> [x_json X ps])"
    using values_of_name [OF file_globs_wf(1) assms(3), of "x_json X"] timeout
    by (simp add: file_settings_def split: option.split)
  with settings_loaded [OF e(1) assms(2), of name] have s: "settings name (a_ros_args b) =
      (case listed of None \<Rightarrow> [] | Some ps \<Rightarrow> [x_json X ps]) @ settings name (a_ros_args a)"
    by (simp add: e(2))
  have last: "parse_glob G toml xs name = parse_glob G toml ys name" if "last_setting name xs = last_setting name ys" for G xs ys
    using that by (simp add: parse_glob_def)
  show ?thesis
  proof (cases "settings name (a_ros_args a)")
    case Nil
    show ?thesis
    proof (cases listed)
      case None
      then show ?thesis using s Nil by (simp add: parse_glob_None)
    next
      case (Some ps)
      have strings: "mapO (\<lambda>v. context_of (toml_str v) e) (map TStr ps) = Ok ps" for e by (induction ps) simp_all
      have "last_setting name (a_ros_args b) = Some (x_json X ps)" using s Nil Some by (simp add: last_setting_def)
      then have "parse_glob (x_globs X) toml (a_ros_args b) name =
          bindO (toml_patterns [(''patterns'', TArr (map TStr ps))]) (\<lambda>ps. bindO (mapO (compile (x_globs X)) ps) (\<lambda>ps. Ok (Some ps)))"
        unfolding parse_glob_def by (simp only: assms(4) [OF Some] option.case)
      also have "toml_patterns [(''patterns'', TArr (map TStr ps))] = Ok ps" using strings by (simp add: toml_patterns_def)
      also have "bindO (Ok ps) (\<lambda>ps. bindO (mapO (compile (x_globs X)) ps) (\<lambda>ps. Ok (Some ps))) = Ok (Some ps)"
        using file_parameters_run(2) [OF e(1)] assms(3) Some by simp
      finally show ?thesis using Nil Some by simp
    qed
  next
    case (Cons v vs)
    then have "last_setting name (a_ros_args b) = last_setting name (a_ros_args a)"
      using s by (cases listed) (auto simp: last_setting_def)
    from last [OF this] Cons show ?thesis by simp
  qed
qed

section \<open>Settings that the server can start with\<close>

text \<open>A flag of the command line keeps its value, whatever the file says.\<close>

lemma settle_explicit:
  assumes "settle X c a = Ok b"
  shows "(x_explicit X ''bind'' \<longrightarrow> a_bind b = a_bind a) \<and> (x_explicit X ''url_path'' \<longrightarrow> a_url_path b = a_url_path a) \<and>
    (x_explicit X ''max_message_size'' \<longrightarrow> a_max_message_size b = a_max_message_size a) \<and>
    (x_explicit X ''no_rosapi'' \<longrightarrow> a_no_rosapi b = a_no_rosapi a) \<and>
    (x_explicit X ''fragment_timeout'' \<longrightarrow> a_fragment_timeout b = a_fragment_timeout a)"
  using assms
  by (auto simp: settle_def Let_def bindO_eq_Ok apply_first_def apply_timing_def apply_setting_def bind_address_def)

text \<open>The queues and the encoding pool are created without a panic, and the heartbeat has a positive limit.\<close>

lemma settle_starts:
  assumes "settle X c a = Ok b"
  shows "pool_new (a_encoding_workers b) = Ok (a_encoding_workers b)" "in_channel (a_incoming_queue_size b) \<noteq> Panic"
    "0 < a_write_queue_size b" "0 < a_write_queue_bytes b" "0 < a_max_message_size b" "url_path_ok (a_url_path b)"
    "\<exists>t. try_from_secs_f64 (a_websocket_ping_timeout b) = Ok t \<and> 0 < t"
  using assms
  by (auto simp: settle_def Let_def bindO_eq_Ok pool_new_def in_channel_def apply_first_def apply_timing_def split: outcome.splits)

end
