(* ===== verification/Rosapi_Properties.thy ===== *)
theory Rosapi_Properties
  imports System
begin

text \<open>
  What the rosapi services promise: the backend with them keeps its contract, they start without
  a trace for its clients, parameter requests are counted, and the parameter allowlist holds.
\<close>

section \<open>The contract\<close>

text \<open>What the services are given when they start.\<close>

definition fixed :: "'w served \<Rightarrow> (nat \<times> string) list \<times> access \<times> nat" where
  "fixed s = (operations (sv_api s), api_config (sv_api s), api_timeout (sv_api s))"

lemma same_fixed:
  "same fixed (onR m)" "same fixed (getApi f)" "same fixed (cached g)"
  "(\<And>a. operations (h a) = operations a \<and> api_config (h a) = api_config a \<and> api_timeout (h a) = api_timeout a) \<Longrightarrow> same fixed (modApi h)"
proof -
  show "same fixed (onR m)" using same_onR [of m] by (simp add: same_def fixed_def)
  show "same fixed (getApi f)" by (simp add: getApi_def same_basic)
  show "same fixed (cached g)" by (simp add: same_def fixed_def cached_def split: prod.split)
  show "(\<And>a. operations (h a) = operations a \<and> api_config (h a) = api_config a \<and> api_timeout (h a) = api_timeout a) \<Longrightarrow> same fixed (modApi h)"
    unfolding modApi_def by (rule same_mod) (simp add: fixed_def)
qed

lemmas fixed_rules = same_rules same_fixed

lemma same_mapA: "(\<And>x. same f (g x)) \<Longrightarrow> same f (mapA g xs)"
  by (induction xs) auto

lemma fixed_put: "same fixed (put_pending k p)" "same fixed (put_group i g)"
  unfolding put_pending_def put_group_def by (intro same_fixed; simp)+

lemma fixed_group: "same fixed (the_group i)"
  unfolding the_group_def by (auto intro!: fixed_rules split: option.split)

lemma fixed_finish: "same fixed (finish_request W H i val err)"
  unfolding finish_request_def by (auto intro!: fixed_rules)

lemma fixed_call: "same fixed (start_call W i op c)"
  unfolding start_call_def call_node_def by (auto intro!: fixed_rules fixed_put fixed_group split: prod.split sum.split)

lemma fixed_calls: "same fixed (parameter_calls W H op args)"
  unfolding parameter_calls_def Let_def by (auto intro!: fixed_rules split: prod.split)

lemma fixed_request: "same fixed (parameter_request W H srv i op args)"
  unfolding parameter_request_def
  by (auto intro!: fixed_rules fixed_put fixed_group fixed_calls fixed_call fixed_finish split: sum.split)

lemma fixed_response: "same fixed (parameter_response W H p answer)"
  unfolding parameter_response_def Let_def
  by (auto intro!: fixed_rules fixed_put fixed_group fixed_finish split: sum.split option.split prod.split)

lemma fixed_nodes: "same fixed (nodes_with W H op query ns)"
  by (induction ns) (auto intro!: fixed_rules)

lemma same_if: "same f m \<Longrightarrow> same f n \<Longrightarrow> same f (if b then m else n)"
  by simp

lemma fixed_replies:
  "same fixed (topics_reply W H op args)" "same fixed (services_reply W H op args)" "same fixed (node_details_reply W H args)"
  "same fixed (providers_reply W H op args)" "same fixed (action_servers_reply W H)" "same fixed (action_type_reply W args)"
  unfolding topics_reply_def services_reply_def node_details_reply_def providers_reply_def action_servers_reply_def
    action_type_reply_def Let_def case_prod_unfold
  by (intro fixed_rules same_mapA same_if fixed_nodes)+

lemma fixed_details: "same fixed (details_reply W H kind suf args)"
  unfolding details_reply_def by (auto intro!: fixed_rules split: outcome.split)

lemma fixed_cases:
  "same fixed m \<Longrightarrow> same fixed (case d of None \<Rightarrow> m | Some (kind, suf) \<Rightarrow> details_reply W H kind suf args)"
  "same fixed (bindA (getA f) (\<lambda>(sec, nanosec). retA (g sec nanosec)))"
  by (auto intro: fixed_details fixed_rules split: option.split prod.split)

lemma fixed_reply: "same fixed (api_reply_value W H op args)"
  unfolding api_reply_value_def by (intro same_if fixed_replies fixed_cases fixed_rules)

lemma fixed_one: "same fixed (process_one W H ev)"
  unfolding process_one_def api_reply_def
  by (auto intro!: fixed_rules fixed_request fixed_response fixed_reply split: event.split option.split sum.split)

lemma fixed_process: "same fixed (process W H evs)"
proof -
  have "same fixed (process_events W H evs)"
    by (induction evs) (auto intro!: fixed_rules fixed_one)
  then show ?thesis unfolding process_def by (auto intro!: fixed_rules fixed_finish)
qed

text \<open>The services are never gone, and go on offering the same operations under the same settings.\<close>

lemma poll_fixed:
  assumes "node_poll W H s = (r, t)" "node_api s = Some a"
  shows "\<exists>b. node_api t = Some b \<and> operations b = operations a \<and> api_config b = api_config a \<and> api_timeout b = api_timeout a"
proof -
  have "same fixed (bindA (onR (ros_poll W)) (process W H))" by (intro fixed_rules fixed_process)
  then have "fixed (snd (bindA (onR (ros_poll W)) (process W H) \<lparr>sv_ros = node_ros s, sv_api = a\<rparr>)) = fixed \<lparr>sv_ros = node_ros s, sv_api = a\<rparr>"
    by (simp add: same_def)
  moreover have "node_poll W H s = (case bindA (onR (ros_poll W)) (process W H) \<lparr>sv_ros = node_ros s, sv_api = a\<rparr> of
     (res, t) \<Rightarrow> (res, s\<lparr>node_ros := sv_ros t, node_api := Some (sv_api t)\<rparr>))"
    using assms(2) by (auto simp: node_poll_def bindA_def onN_def onR_def node_process_def split: prod.splits outcome.splits)
  ultimately show ?thesis using assms(1) by (auto simp: fixed_def split: prod.splits)
qed

lemma valid_held: "node_valid H s \<Longrightarrow> node_api s = Some a \<Longrightarrow> held a \<subseteq> ros_live (node_ros s)"
  by (auto simp: node_valid_def serves_def holding_def)

context host_contract
begin

lemma node_contract: "backend_contract (node_backend W H) (node_valid H) node_live"
  by unfold_locales

end

text \<open>
  C7. The backend with its rosapi services refines the contract of the \<^verbatim>\<open>Backend\<close> trait: whatever
  RCL and the nodes do, no operation panics, a creation hands out a new entity, and only
  \<^verbatim>\<open>destroy\<close> takes one back. The entities that the services hold stay alive: the service of each
  operation and the client of each pending call exist in ROS before and after every operation,
  polling keeps the services with the same operations, and no operation of a client of the
  backend touches them. As the source checks the timeout of the parameter requests only for its
  sign, \<open>node_valid\<close> assumes that the deadlines it gives are instants the clock can represent.
\<close>

theorem node_keeps_contract:
  assumes "host_contract W H"
  shows "backend_contract (node_backend W H) (node_valid H) node_live \<and>
    (\<forall>s a. node_valid H s \<and> node_api s = Some a \<longrightarrow> held a \<subseteq> ros_live (node_ros s) \<and> held a \<inter> node_live s = {}) \<and>
    (\<forall>s a r t. node_api s = Some a \<and> node_poll W H s = (r, t) \<longrightarrow>
      (\<exists>b. node_api t = Some b \<and> operations b = operations a \<and> api_config b = api_config a \<and> api_timeout b = api_timeout a)) \<and>
    (\<forall>s e. node_api (snd (be_destroy (node_backend W H) e s)) = node_api s)"
proof (intro conjI allI impI)
  show "backend_contract (node_backend W H) (node_valid H) node_live"
    by (rule host_contract.node_contract [OF assms])
qed (auto simp: poll_fixed node_live_def node_backend_def onN_def dest: valid_held split: prod.split)

lemma offers_types: "list_all2 (offers W r) ops todo \<Longrightarrow> vals ops = map fst todo"
  by (induction rule: list_all2_induct) (auto simp: offers_def)

text \<open>
  C34. Starting the rosapi services: when it succeeds, each of the 29 is offered by a live entity of
  its own, which is the service that was created as \<^verbatim>\<open>/rosapi/\<close> and its name with its type of
  \<^verbatim>\<open>rosapi_msgs\<close>, and for the clients of the backend nothing has changed. The given timeout of
  parameter requests must be one that the clock can represent.
\<close>

theorem rosapi_starts:
  assumes "host_contract W H" "node_valid H s" "node_api s = None"
    and "params_timeout H args = Ok d" "\<And>w. instant_ok (h_instant H w + d)"
    and "enable_rosapi W H args s = (Ok (), t)"
  shows "node_valid H t \<and> node_live t = node_live s \<and>
    (\<exists>a. node_api t = Some a \<and> length (operations a) = 29 \<and> list_all2 (offers W (node_ros t)) (operations a) SERVICES \<and>
      distinct (keys (operations a)) \<and> set (keys (operations a)) \<subseteq> ros_live (node_ros t) - node_live t)"
proof -
  have "node_holds H (node_live s) s" using assms(2) by (simp add: node_holds_def)
  then have "node_holds H (node_live s) t \<and> (\<exists>a. node_api t = Some a \<and> list_all2 (offers W (node_ros t)) (operations a) SERVICES)"
    using assms(3-) by (rule host_contract.started [OF assms(1)])
  then obtain a where t: "node_valid H t" "node_live t = node_live s" and a: "node_api t = Some a"
    "list_all2 (offers W (node_ros t)) (operations a) SERVICES" by (auto simp: node_holds_def)
  have "length (operations a) = 29" using list_all2_lengthD [OF a(2)] by (simp add: SERVICES_def)
  moreover have "distinct (keys (operations a))" "held a \<subseteq> ros_live (node_ros t)"
    using t(1) a(1) by (simp_all add: node_valid_def serves_def holding_def own_def)
  moreover have "set (keys (operations a)) \<subseteq> held a" "held a \<inter> node_live t = {}" using a(1) by (auto simp: held_def node_live_def)
  ultimately show ?thesis using t a by blast
qed

lemma loop_installed:
  "list_all (\<lambda>(n, t). ''rosapi_msgs/srv/'' @ t @ ''_Request'' \<in> set loop_names \<and> ''rosapi_msgs/srv/'' @ t @ ''_Response'' \<in> set loop_names) SERVICES"
  by (auto simp: loop_names_def list_all_iff)

lemma service_letters:
  "set (concat (map (\<lambda>(n, t). n @ t) SERVICES)) \<subseteq> set ''abcdefghijklmnopqrstuvwxyzABCDEFGHIJKLMNOPQRSTUVWXYZ_''"
  by (simp add: SERVICES_def)

lemma letters: "list_all (\<lambda>c. ident_char c \<and> c \<noteq> CHR 0x00) ''abcdefghijklmnopqrstuvwxyzABCDEFGHIJKLMNOPQRSTUVWXYZ_''"
  by (simp add: ident_char_def is_alnum_def is_digit_def code_of_def)

lemma ident_service: "(n, t) \<in> set SERVICES \<Longrightarrow> list_all ident_char t \<and> list_all (\<lambda>c. c \<noteq> CHR 0x00) n"
  using service_letters letters by (auto simp: list_all_iff)

lemma ident_suffixes: "ident ''rosapi_msgs'' \<and> ident ''srv'' \<and> list_all ident_char ''_Request'' \<and> list_all ident_char ''_Response''"
  by (simp add: ident_def ident_char_def is_alnum_def is_digit_def code_of_def)

lemma valid_service_name:
  assumes "list_all ident_char t" "list_all ident_char u" "u \<noteq> []"
  shows "valid_type_name (''rosapi_msgs/srv/'' @ t @ u)"
proof -
  have i: "list_all ident [''rosapi_msgs'', ''srv'', t @ u]" using assms ident_suffixes by (simp add: ident_def)
  have "split_char CHR ''/'' (join [CHR ''/''] [''rosapi_msgs'', ''srv'', t @ u]) = [''rosapi_msgs'', ''srv'', t @ u]"
    by (rule split_char_join) (use i in \<open>auto simp: ident_def dest: ident_no_slash\<close>)
  moreover have "join [CHR ''/''] [''rosapi_msgs'', ''srv'', t @ u] = ''rosapi_msgs/srv/'' @ t @ u" by simp
  ultimately show ?thesis using i by (simp add: valid_type_name_def)
qed

lemma loop_service:
  assumes "(n, t) \<in> set SERVICES"
  shows "\<exists>r'. ros_service loop_world (''/rosapi/'' @ n) (''rosapi_msgs/srv/'' @ t) r = (Ok (ros_next r + 1), r')"
proof -
  have valid: "valid_type_name (''rosapi_msgs/srv/'' @ t @ ''_Request'')" "valid_type_name (''rosapi_msgs/srv/'' @ t @ ''_Response'')"
    using ident_service [OF assms] ident_suffixes by (simp_all add: valid_service_name del: append_Cons)
  have there: "''rosapi_msgs/srv/'' @ t @ ''_Request'' \<in> set loop_names" "''rosapi_msgs/srv/'' @ t @ ''_Response'' \<in> set loop_names"
    using loop_installed assms by (auto simp: list_all_iff simp del: append_Cons)
  have load: "load_service loop_world (''rosapi_msgs/srv/'' @ t) = Ok (loop_string, loop_string)"
    using valid there unfolding load_service_def load_message_def append_assoc
    by (simp add: loop_world_def loop_types_def del: append_Cons)
  have "c_string (''/rosapi/'' @ n) = Ok ()"
    using ident_service [OF assms] by (auto simp: c_string_def list_all_iff)
  moreover have "rcl_service_init (w_rcl loop_world) a b = loop_make" for a b by (simp add: loop_world_def loop_rcl_def)
  ultimately show ?thesis
    unfolding ros_service_def load bindA_simps prod.case
    by (simp add: bindA_def checked_def check_def loop_make_def ros_insert_def Let_def split: prod.splits)
qed

lemma loop_opens: "set todo \<subseteq> set SERVICES \<Longrightarrow> \<exists>ops' r'. open_services loop_world todo ops r = (Ok ops', r')"
proof (induction todo arbitrary: ops r)
  case (Cons x todo)
  obtain n t where x: "x = (n, t)" by (cases x)
  with Cons.prems have "(n, t) \<in> set SERVICES" by simp
  then obtain r' where r': "ros_service loop_world (''/rosapi/'' @ n) (''rosapi_msgs/srv/'' @ t) r = (Ok (ros_next r + 1), r')"
    using loop_service by blast
  have "set todo \<subseteq> set SERVICES" using Cons.prems by simp
  from Cons.IH [OF this] show ?case unfolding x open_services.simps bindA_def r' by simp
qed (simp add: retA_def)

lemma no_settings: "last_setting n [] = None"
  by (simp add: last_setting_def settings_def windows2_def List.map_filter_def)

lemma default_seconds: "try_from_secs_f64 default_timeout = Ok (secs 5)"
  by (simp add: default_timeout_def secs_def try_from_secs_f64_def Let_def f64_negative_def f64_sign_def f64_zero_def
      f64_exp_def f64_mant_def f64_nan_def NANOS_def round_half_even_def)

lemma loop_timeout: "params_timeout loop_host [] = Ok (secs 5)"
  by (simp add: params_timeout_def no_settings default_seconds) (simp add: secs_def NANOS_def)

lemma loop_enables: "\<exists>t. enable_rosapi loop_world loop_host [] loop_node = (Ok (), t)"
proof -
  have config: "\<exists>c. from_ros_args (h_globs loop_host) (h_toml loop_host) [] = Ok c"
    by (simp add: from_ros_args_def parse_glob_def no_settings)
  obtain ops r' where "open_services loop_world SERVICES [] (node_ros loop_node) = (Ok ops, r')"
    using loop_opens by blast
  then show ?thesis
    using config by (auto simp: enable_rosapi_def api_new_def loop_timeout bindA_def liftA_def onN_def modA_def retA_def)
qed

lemma loop_started:
  assumes "enable_rosapi loop_world loop_host [] loop_node = (Ok (), t)"
  shows "node_valid loop_host t \<and> (\<exists>a. node_api t = Some a)"
proof -
  have "node_holds loop_host {} loop_node" "node_api loop_node = None"
    by (simp_all add: loop_node_def loop_ros_def node_holds_def node_valid_def node_live_def ros_initial_def ros_valid_def ros_live_def)
  moreover have "instant_ok (h_instant loop_host w + secs 5)" for w
    by (simp add: loop_host_def instant_ok_def secs_def NANOS_def)
  ultimately show ?thesis using loop_node.started [OF _ _ loop_timeout _ assms] by (auto simp: node_holds_def)
qed

theorem node_keeps_contract_witness:
  "\<exists>s a r t. enable_rosapi loop_world loop_host [] loop_node = (Ok (), s) \<and> node_api s = Some a \<and>
     held a \<subseteq> ros_live (node_ros s) \<and> node_poll loop_world loop_host s = (r, t) \<and>
     (\<exists>b. node_api t = Some b \<and> operations b = operations a)"
proof -
  obtain s where s: "enable_rosapi loop_world loop_host [] loop_node = (Ok (), s)" using loop_enables by blast
  with loop_started obtain a where a: "node_valid loop_host s" "node_api s = Some a" by fastforce
  obtain r t where t: "node_poll loop_world loop_host s = (r, t)" by (cases "node_poll loop_world loop_host s")
  from node_keeps_contract [OF loop_node.host_contract_axioms] a t
  have "held a \<subseteq> ros_live (node_ros s)" "\<exists>b. node_api t = Some b \<and> operations b = operations a" by blast+
  with s a t show ?thesis by blast
qed

theorem rosapi_starts_witness:
  "\<exists>t a. enable_rosapi loop_world loop_host [] loop_node = (Ok (), t) \<and> node_live t = {} \<and> node_api t = Some a \<and> length (operations a) = 29"
proof -
  obtain t where t: "enable_rosapi loop_world loop_host [] loop_node = (Ok (), t)" using loop_enables by blast
  have v: "node_valid loop_host loop_node" "node_api loop_node = None" "node_live loop_node = {}"
    by (simp_all add: loop_node_def loop_ros_def node_valid_def node_live_def ros_initial_def ros_valid_def ros_live_def)
  have "instant_ok (h_instant loop_host w + secs 5)" for w
    by (simp add: loop_host_def instant_ok_def secs_def NANOS_def)
  from rosapi_starts [OF loop_node.host_contract_axioms v(1,2) loop_timeout this t] t v(3) show ?thesis by auto
qed

section \<open>Parameters\<close>

text \<open>
  C33. The bookkeeping of parameter requests: whatever arrived while polling, in the state after it
  every request counts exactly its pending calls, and every pending call belongs to a request.
  So the last answer finishes its request, and none is awaited for a request that is gone.
\<close>

theorem requests_counted:
  assumes "host_contract W H" "node_valid H s" "node_poll W H s = (r, t)" "node_api t = Some a"
  shows "(\<forall>i g. map_of (api_groups a) i = Some g \<longrightarrow>
      pg_remaining g = length (filter (\<lambda>(k, p). pc_group p = i) (api_pending a))) \<and>
    (\<forall>k p. map_of (api_pending a) k = Some p \<longrightarrow> pc_group p \<in> set (keys (api_groups a)))"
proof -
  have "triple (node_holds H L) (node_poll W H) (\<lambda>_. node_holds H L) (node_holds H L)" for L
    by (rule triple_post [OF host_contract.node_poll_triple [OF assms(1)]]) auto
  from triple_snd [OF this, of "node_live s" s] have "node_holds H (node_live s) t"
    using assms(2,3) by (simp add: node_holds_def)
  then obtain q where "serves H q (node_live s) {..q} {} {} {} \<lparr>sv_ros = node_ros t, sv_api = a\<rparr>"
    using node_serves [OF assms(4)] by blast
  then have a: "api_ok H {..q} {} {} a" by (simp add: serves_def)
  have "waiting i a = length (filter (\<lambda>(k, p). pc_group p = i) (api_pending a))" for i
  proof -
    have "count (mset (map (\<lambda>x. pc_group (snd x)) ps)) i = length (filter (\<lambda>(k, p). pc_group p = i) ps)"
      for ps :: "((nat \<times> int) \<times> pending_call) list"
      by (induction ps) auto
    then show ?thesis unfolding waiting_def .
  qed
  with waits [OF a] have "\<forall>i g. map_of (api_groups a) i = Some g \<longrightarrow>
      pg_remaining g = length (filter (\<lambda>(k, p). pc_group p = i) (api_pending a))" by simp
  moreover have "pc_group p \<in> set (keys (api_groups a))" if "map_of (api_pending a) k = Some p" for k p
    using entries_lookup [OF conjunct1 [OF a [unfolded api_ok_def]] that] by (force simp: call_ok_def dest: map_of_SomeD)
  ultimately show ?thesis by blast
qed

theorem requests_counted_witness:
  "\<exists>s a r t b. enable_rosapi loop_world loop_host [] loop_node = (Ok (), s) \<and> node_poll loop_world loop_host s = (r, t) \<and>
     node_api t = Some b \<and> (\<forall>k p. map_of (api_pending b) k = Some p \<longrightarrow> pc_group p \<in> set (keys (api_groups b)))"
proof -
  obtain s where s: "enable_rosapi loop_world loop_host [] loop_node = (Ok (), s)" using loop_enables by blast
  with loop_started obtain a where a: "node_valid loop_host s" "node_api s = Some a" by fastforce
  obtain r t where t: "node_poll loop_world loop_host s = (r, t)" by (cases "node_poll loop_world loop_host s")
  then obtain b where "node_api t = Some b"
    using loop_node.node_poll_served [OF a(2)] by (auto split: prod.splits)
  with requests_counted [OF loop_node.host_contract_axioms a(1) t] s t show ?thesis by blast
qed

text \<open>
  C35. Reading, writing, testing and deleting a parameter: a request is refused before any call unless it
  names a node and a parameter that the allowlist allows; then there is exactly one call, to that
  node's own parameter service, about that parameter and no other. For \<^verbatim>\<open>delete_param\<close> this is the
  first step, the question whether it exists; the deletion that may follow is made by
  \<open>parameter_response\<close> from the same arguments. \<^verbatim>\<open>get_param_names\<close> names no parameter and is exempt: it
  asks every node and filters the answers.
\<close>

theorem parameter_allowlist:
  assumes "parameter_calls W H op args s = (Ok cs, t)" "op \<noteq> ''get_param_names''"
  shows "\<exists>n name. split_once '':'' (text_of args ''name'') = Some (n, name) \<and>
    matches (h_globs H) (params (api_config (sv_api s))) name \<and>
    (let nd = CHR ''/'' # trim_start_slash n in
     if op = ''get_param'' \<or> op = ''has_param'' \<or> op = ''delete_param''
     then cs = [(nd, nd @ ''/get_parameters'', ''GetParameters'', JObj [(''names'', jstrs [name])])]
     else \<exists>v pv. json_parse (h_codec H) (text_of args ''value'') = Ok v \<and> parameter_value v = Ok pv \<and>
       cs = [(nd, nd @ ''/set_parameters'', ''SetParameters'',
         JObj [(''parameters'', JArr [JObj [(''name'', JStr name), (''value'', pv)]])])])"
proof -
  have api: "sv_api u = sv_api s" if "onR m s = (x, u)" for m x and u
    using that by (auto simp: onR_result)
  define reading where "reading \<longleftrightarrow> op = ''get_param'' \<or> op = ''has_param'' \<or> op = ''delete_param''"
  note run = assms(1) [unfolded parameter_calls_def Let_def reading_def [symmetric] if_not_P [OF assms(2)]]
  show ?thesis
    unfolding reading_def [symmetric] Let_def using run
    by (auto simp: bindA_Ok liftA_def getApi_def getA_def retA_def api split: if_splits)
qed

definition sample_api :: api where
  "sample_api = \<lparr>operations = [], api_definitions = no_definitions, api_pending = [], api_groups = [],
     api_config = access_default\<lparr>params := Some [''speed'']\<rparr>, api_timeout = secs 5\<rparr>"

definition asking_world :: "loop world" where
  "asking_world = loop_world\<lparr>w_rcl := loop_rcl\<lparr>rcl_service_names_and_types := loop_ok [(''/robot/get_parameters'', [])]\<rparr>\<rparr>"

theorem parameter_allowlist_witness:
  "\<exists>n name. split_once '':'' ''robot:speed'' = Some (n, name) \<and> matches (h_globs loop_host) (Some [''speed'']) name"
proof -
  let ?args = "JObj [(''name'', JStr ''robot:speed'')]"
  have "\<exists>c t. parameter_calls asking_world loop_host ''get_param'' ?args \<lparr>sv_ros = loop_ros, sv_api = sample_api\<rparr> = (Ok [c], t)"
    by (simp add: parameter_calls_def ros_graph_def asking_world_def loop_world_def loop_rcl_def loop_ok_def bindA_def onR_def checked_def
        check_def retA_def liftA_def getApi_def getA_def text_of_def jix_def jget_def split_once.simps sample_api_def
        access_default_def matches_def loop_host_def trim_start_slash_def btree_def Let_def)
  then obtain c t where "parameter_calls asking_world loop_host ''get_param'' ?args \<lparr>sv_ros = loop_ros, sv_api = sample_api\<rparr> = (Ok [c], t)"
    by blast
  from parameter_allowlist [OF this] show ?thesis by (auto simp: sample_api_def text_of_def jix_def jget_def)
qed

text \<open>
  C36. A parameter value survives being put into \<^verbatim>\<open>rcl_interfaces/msg/ParameterValue\<close> and read back:
  what \<^verbatim>\<open>set_param\<close> writes is what \<^verbatim>\<open>get_param\<close> reports, for every JSON value that has a
  parameter type.
\<close>

theorem parameter_roundtrip:
  assumes "parameter_value v = Ok p"
  shows "parameter_json p = v"
  using assms
  by (auto simp: parameter_value_def parameter_json_def typed_value_def jix_def jget_def jnat_def split: json.splits if_splits)

theorem parameter_roundtrip_witness:
  "parameter_json (JObj [(''type'', jnat 7), (''integer_array_value'', JArr [jint 1, jint (- 2)])]) = JArr [jint 1, jint (- 2)]"
  by (rule parameter_roundtrip) (simp add: parameter_value_def typed_value_def jint_def)

end
