(* ===== verification/Delivery.thy ===== *)
theory Delivery
  imports Dispatch
begin

text \<open>
The delivery of topic messages to one subscriber, \<^verbatim>\<open>offer\<close> of \<^verbatim>\<open>src/bridge/topics.rs\<close> and \<^verbatim>\<open>due\<close>
  of \<^verbatim>\<open>src/bridge/mod.rs\<close>, over time.
\<close>

section \<open>One subscriber\<close>

text \<open>What happens to a client of a subscription while its registrations stay the same: a ROS
  message arrives (\<open>offer\<close>), or a tick looks for a delivery that is due (\<open>due\<close>). The deliveries
  carry the time they were made.\<close>

datatype client_event = Arrive nat ros_message | Flush nat

fun event_time :: "client_event \<Rightarrow> nat" where
  "event_time (Arrive t m) = t"
| "event_time (Flush t) = t"

fun arrivals :: "client_event list \<Rightarrow> ros_message list" where
  "arrivals [] = []"
| "arrivals (Arrive t m # es) = m # arrivals es"
| "arrivals (Flush t # es) = arrivals es"

fun client_step :: "client_event \<Rightarrow> client_sub \<Rightarrow> client_sub \<times> (nat \<times> ros_message) list" where
  "client_step (Arrive t m) c = (fst (offer t m c), if snd (offer t m c) = None then [] else [(t, m)])"
| "client_step (Flush t) c =
     (fst (due t c), case snd (due t c) of None \<Rightarrow> [] | Some (m, _) \<Rightarrow> [(t, m)])"

fun client_run :: "client_event list \<Rightarrow> client_sub \<Rightarrow> client_sub \<times> (nat \<times> ros_message) list" where
  "client_run [] c = (c, [])"
| "client_run (e # es) c =
     (case client_step e c of (d, out) \<Rightarrow> case client_run es d of (f, out2) \<Rightarrow> (f, out @ out2))"

text \<open>Deliveries keep the distance of the throttle, also from the last one before.\<close>

definition spaced :: "nat \<Rightarrow> nat option \<Rightarrow> nat list \<Rightarrow> bool" where
  "spaced k from_t ts \<longleftrightarrow> sorted_wrt (\<lambda>t u. t + k \<le> u) (case from_t of None \<Rightarrow> ts | Some t \<Rightarrow> t # ts)"

lemma registrations_kept [simp]:
  "registrations (fst (offer t m c)) = registrations c" "registrations (fst (due t c)) = registrations c"
  by (auto simp: offer_def due_def Let_def split: list.split option.split)

lemma options_kept [simp]:
  "client_options (fst (offer t m c)) = client_options c" "client_options (fst (due t c)) = client_options c"
  by (simp_all add: client_options_def)

lemma step_options: "client_options (fst (client_step e c)) = client_options c"
  by (cases e) simp_all

lemma sorted_wrt_step: "sorted_wrt (\<lambda>t u. t + k \<le> u) (t # u # ts) \<longleftrightarrow> t + k \<le> u \<and> sorted_wrt (\<lambda>t u. t + k \<le> (u::nat)) (u # ts)"
  by (auto intro: order_trans)

lemma spaced_later: "spaced k (Some t) ts \<Longrightarrow> spaced k None ts"
  by (simp add: spaced_def)

lemma step_deliveries:
  assumes "client_step e c = (d, out)" "case sub_last c of None \<Rightarrow> True | Some t \<Rightarrow> t \<le> event_time e"
  shows "out = [] \<and> sub_last d = sub_last c \<or>
    (\<exists>m. out = [(event_time e, m)] \<and> sub_last d = Some (event_time e) \<and>
      (case sub_last c of None \<Rightarrow> True | Some t \<Rightarrow> t + opt_throttle (client_options c) \<le> event_time e))"
  using assms
  by (cases e) (auto simp: offer_def due_def Let_def since_def split: option.splits list.splits if_splits)

lemma run_spaced:
  "client_run es c = (d, out) \<Longrightarrow> sorted (map event_time es) \<Longrightarrow>
   (\<And>t e. sub_last c = Some t \<Longrightarrow> e \<in> set es \<Longrightarrow> t \<le> event_time e) \<Longrightarrow>
   spaced (opt_throttle (client_options c)) (sub_last c) (map fst out)"
proof (induction es arbitrary: c out)
  case Nil
  then show ?case by (auto simp: spaced_def split: option.split)
next
  case (Cons e es)
  obtain c1 o1 where s: "client_step e c = (c1, o1)" by (cases "client_step e c")
  obtain o2 where r: "client_run es c1 = (d, o2)" "out = o1 @ o2"
    using Cons.prems(1) s by (auto split: prod.splits)
  have opt: "client_options c1 = client_options c" using step_options [of e c] s by simp
  have now: "case sub_last c of None \<Rightarrow> True | Some t \<Rightarrow> t \<le> event_time e"
    using Cons.prems(3) by (auto split: option.split)
  have later: "event_time e \<le> event_time e'" if "e' \<in> set es" for e'
    using Cons.prems(2) that by simp
  have last: "sub_last c1 = Some t \<Longrightarrow> e' \<in> set es \<Longrightarrow> t \<le> event_time e'" for t e'
    using step_deliveries [OF s now] Cons.prems(3) later by (auto split: option.splits)
  have IH: "spaced (opt_throttle (client_options c)) (sub_last c1) (map fst o2)"
    using Cons.IH [OF r(1)] Cons.prems(2) last opt by simp
  show ?case
    using step_deliveries [OF s now] IH r(2)
    by (auto simp: spaced_def sorted_wrt_step simp del: sorted_wrt.simps(2) split: option.splits)
qed

lemma step_bounded:
  "client_step e c = (d, out) \<Longrightarrow> length (pending c) \<le> opt_queue (client_options c) \<Longrightarrow>
   length (pending d) \<le> opt_queue (client_options c)"
  by (cases e) (auto simp: offer_def due_def Let_def queue_pending_def split: list.splits option.splits if_splits)

lemma run_bounded:
  "client_run es c = (d, out) \<Longrightarrow> length (pending c) \<le> opt_queue (client_options c) \<Longrightarrow>
   length (pending d) \<le> opt_queue (client_options c)"
proof (induction es arbitrary: c out)
  case (Cons e es)
  obtain c1 o1 where s: "client_step e c = (c1, o1)" by (cases "client_step e c")
  obtain o2 where r: "client_run es c1 = (d, o2)"
    using Cons.prems(1) s by (auto split: prod.splits)
  show ?case
    using Cons.IH [OF r] step_bounded [OF s Cons.prems(2)] step_options [of e c] s by simp
qed simp

lemma subseq_dropped:
  assumes "subseq xs (drop k ps @ ys)"
  shows "subseq xs (ps @ ys)"
proof -
  have "subseq xs (take k ps @ drop k ps @ ys)" using assms by (rule list_emb_append2)
  then show ?thesis by (metis append.assoc append_take_drop_id)
qed

lemma subseq_insert: "subseq xs (ps @ ys) \<Longrightarrow> subseq xs (ps @ y # ys)"
  by (erule subseq_order.order_trans) (rule list_emb_append_mono, auto)

lemma step_order:
  assumes "client_step e c = (d, out)" "subseq ms (pending d @ rest)"
  shows "subseq (map snd out @ ms) (pending c @ arrivals [e] @ rest)"
proof (cases e)
  case (Arrive t m)
  then show ?thesis
    using assms by (auto simp: offer_def Let_def queue_pending_def intro: subseq_insert subseq_dropped split: if_splits)
next
  case (Flush t)
  then show ?thesis
    using assms by (auto simp: due_def Let_def split: if_splits list.splits)
qed

lemma arrivals_Cons: "arrivals (e # es) = arrivals [e] @ arrivals es"
  by (cases e) simp_all

lemma run_order: "client_run es c = (d, out) \<Longrightarrow> subseq (map snd out) (pending c @ arrivals es)"
proof (induction es arbitrary: c out)
  case (Cons e es)
  obtain c1 o1 where s: "client_step e c = (c1, o1)" by (cases "client_step e c")
  obtain o2 where r: "client_run es c1 = (d, o2)" "out = o1 @ o2"
    using Cons.prems(1) s by (auto split: prod.splits)
  show ?case
    using step_order [OF s Cons.IH [OF r(1)]] r(2) by (subst arrivals_Cons) simp
qed simp

section \<open>Properties\<close>

text \<open>
  C8. Throttling: between two deliveries of a topic to a client at least the throttle of its
  registrations passes, also since the last delivery before, the messages come in the order
  they arrived, none twice, and no more than the queue length of them ever wait.
\<close>

theorem delivery_throttled:
  assumes "client_run es c = (d, out)" "sorted (map event_time es)"
    and "\<And>t e. sub_last c = Some t \<Longrightarrow> e \<in> set es \<Longrightarrow> t \<le> event_time e"
    and "length (pending c) \<le> opt_queue (client_options c)"
  shows "spaced (opt_throttle (client_options c)) (sub_last c) (map fst out) \<and>
    subseq (map snd out) (pending c @ arrivals es) \<and>
    length (pending d) \<le> opt_queue (client_options c)"
  using run_spaced [OF assms(1-3)] run_order [OF assms(1)] run_bounded [OF assms(1,4)] by blast

definition sample_options :: options where
  "sample_options = \<lparr>opt_compression = CompNone, opt_fragment = None, opt_throttle = 10, opt_queue = 1\<rparr>"

definition sample_client :: "nat option \<Rightarrow> ros_message list \<Rightarrow> client_sub" where
  "sample_client l ms = \<lparr>registrations = [(None, sample_options)], sub_last = l, pending = ms\<rparr>"

lemma sample_options: "client_options (sample_client l ms) = sample_options"
  by (simp add: client_options_def sample_client_def least_def sample_options_def)

definition sample_message :: "nat \<Rightarrow> ros_message" where
  "sample_message n = \<lparr>m_json = jnat n, m_cbor = CNull, m_raw = [], m_stamp = (0, 0)\<rparr>"

lemma sample_offer:
  "offer t m (sample_client l ms) =
     (if ms = [] \<and> (case l of None \<Rightarrow> True | Some u \<Rightarrow> 10 \<le> t - u) then (sample_client (Some t) ms, Some sample_options)
      else (sample_client l (drop (length ms) ms @ [m]), None))"
proof -
  have o: "opt_throttle sample_options = 10" "opt_queue sample_options = 1" by (simp_all add: sample_options_def)
  show ?thesis
    unfolding offer_def Let_def sample_options o since_def queue_pending_def
    by (auto simp: sample_client_def split: option.splits)
qed

theorem delivery_throttled_witness:
  "\<exists>d. client_run [Arrive 1 (sample_message 1), Arrive 2 (sample_message 2), Arrive 3 (sample_message 3), Flush 12]
      (sample_client None []) = (d, [(1, sample_message 1), (12, sample_message 3)]) \<and>
    spaced 10 None [1, 12]"
proof -
  let ?es = "[Arrive 1 (sample_message 1), Arrive 2 (sample_message 2), Arrive 3 (sample_message 3), Flush 12]"
  have "snd (due 12 (sample_client (Some 1) [sample_message 3])) = Some (sample_message 3, sample_options)"
    unfolding due_def Let_def sample_options by (simp add: sample_client_def sample_options_def since_def)
  then have "\<exists>d. client_run ?es (sample_client None []) = (d, [(1, sample_message 1), (12, sample_message 3)])"
    by (simp add: sample_offer)
  then obtain d where d: "client_run ?es (sample_client None []) = (d, [(1, sample_message 1), (12, sample_message 3)])" ..
  have "spaced (opt_throttle (client_options (sample_client None []))) (sub_last (sample_client None [])) (map fst [(1, sample_message 1), (12, sample_message 3)])"
    by (rule conjunct1 [OF delivery_throttled [OF d]]) (auto simp: sample_client_def)
  then have "spaced 10 None [1, 12]"
    unfolding sample_options by (simp add: sample_client_def sample_options_def)
  with d show ?thesis by blast
qed

end
