(* ===== verification/Cancel.thy ===== *)
theory Cancel
  imports System
begin

text \<open>
  Which goals of an action server a request of \<^verbatim>\<open>action_msgs/srv/CancelGoal\<close> selects
  (\<^verbatim>\<open>src/bridge/actions.rs\<close>, \<open>cancel_each\<close>), against the policy of that interface stated
  on its own.
\<close>

section \<open>Which goals a cancel request names\<close>

text \<open>The policy of \<^verbatim>\<open>action_msgs/srv/CancelGoal\<close>: an identifier and a time, each of which may be
  absent (zero). Without both, all goals; otherwise the goal of that identifier and the goals
  accepted at or before that time.\<close>

definition cancel_policy :: "string option \<Rightarrow> (int \<times> nat) option \<Rightarrow> string \<Rightarrow> int \<times> nat \<Rightarrow> bool" where
  "cancel_policy i time key accepted \<longleftrightarrow>
     (case (i, time) of
        (None, None) \<Rightarrow> True
      | (Some k, None) \<Rightarrow> key = k
      | (None, Some t) \<Rightarrow> stamp_le accepted t
      | (Some k, Some t) \<Rightarrow> key = k \<or> stamp_le accepted t)"

text \<open>What the loop does: the named goals that are still active get status 3 and are listed.\<close>

definition exactly :: "'b env \<Rightarrow> string \<Rightarrow> server_goal \<Rightarrow> bool" where
  "exactly E requested g \<longleftrightarrow> uuid_key E (sg_uuid g) = Ok requested"

definition cancel_named :: "'b env \<Rightarrow> string \<Rightarrow> int \<times> nat \<Rightarrow> server_goal \<Rightarrow> bool" where
  "cancel_named E requested stamp g \<longleftrightarrow> is_ok (uuid_key E (sg_uuid g)) \<and>
     cancels (exactly E requested g) (requested = zero_uuid) stamp g"

definition cancel_entry :: "server_goal \<Rightarrow> json" where
  "cancel_entry g = JObj [(''goal_id'', sg_uuid g), (''stamp'', sg_stamp g)]"

definition cancelled :: "server_goal \<Rightarrow> server_goal" where
  "cancelled g = g\<lparr>sg_status := 3\<rparr>"

lemma cancel_one_Ok:
  assumes "cancel_one E requested stamp key g r s = (Ok r', t)"
  shows "is_ok (uuid_key E (sg_uuid g))"
    and "cn_cancelling r' = cn_cancelling r @ (if cancel_named E requested stamp g then [cancel_entry g] else [])"
    and "cn_notify r' = cn_notify r @ (if cancel_named E requested stamp g then [sg_id g] else [])"
    and "(cn_known r', cn_terminal r') = (if exactly E requested g then (True, sg_result g \<noteq> None) else (cn_known r, cn_terminal r))"
    and "t = s\<lparr>server_goals := (if cancel_named E requested stamp g
      then AList.update key (cancelled g) (server_goals s) else server_goals s)\<rparr>"
  using assms
  by (auto simp: cancel_one_def cancel_named_def exactly_def cancelled_def cancel_entry_def bindA_def liftA_def errA_def modA_def
      retA_def put_server_goal_def Let_def split: outcome.splits if_splits)

lemma cancel_each_Ok:
  "cancel_each E requested stamp gs r s = (Ok r', t) \<Longrightarrow>
     list_all (\<lambda>(k, g). is_ok (uuid_key E (sg_uuid g))) gs \<and>
     cn_cancelling r' = cn_cancelling r @ map cancel_entry (filter (cancel_named E requested stamp) (vals gs)) \<and>
     cn_notify r' = cn_notify r @ map sg_id (filter (cancel_named E requested stamp) (vals gs)) \<and>
     t = s\<lparr>server_goals := foldl (\<lambda>m (k, g). if cancel_named E requested stamp g
       then AList.update k (cancelled g) m else m) (server_goals s) gs\<rparr>"
proof (induction gs arbitrary: r s)
  case Nil
  then show ?case by (simp add: retA_def)
next
  case (Cons x gs)
  obtain k g where x: "x = (k, g)" by (cases x)
  obtain r1 s1 where one: "cancel_one E requested stamp k g r s = (Ok r1, s1)"
    and each: "cancel_each E requested stamp gs r1 s1 = (Ok r', t)"
    using Cons.prems by (auto simp: x bindA_Ok)
  show ?case
    using cancel_one_Ok [OF one] Cons.IH [OF each] by (simp add: x)
qed

text \<open>When the loop took no goal, every goal of the requested identifier has its result.\<close>

lemma cancel_each_known:
  "cancel_each E requested stamp gs r s = (Ok r', t) \<Longrightarrow> \<forall>g \<in> set (vals gs). \<not> cancel_named E requested stamp g \<Longrightarrow>
     (cn_known r', cn_terminal r') = (if \<exists>g \<in> set (vals gs). exactly E requested g then (True, True) else (cn_known r, cn_terminal r))"
proof (induction gs arbitrary: r s)
  case Nil
  then show ?case by (simp add: retA_def)
next
  case (Cons x gs)
  obtain k g where x: "x = (k, g)" by (cases x)
  obtain r1 s1 where one: "cancel_one E requested stamp k g r s = (Ok r1, s1)"
    and each: "cancel_each E requested stamp gs r1 s1 = (Ok r', t)"
    using Cons.prems by (auto simp: x bindA_Ok)
  have "sg_result g \<noteq> None" if "exactly E requested g"
    using Cons.prems(2) that by (auto simp: x cancel_named_def cancels_def exactly_def)
  then show ?case
    using cancel_one_Ok(4) [OF one] Cons.IH [OF each] Cons.prems(2) by (auto simp: x)
qed

lemma alist_eqI:
  assumes "keys xs = keys ys" "distinct (keys ys)" "\<And>k. map_of xs k = map_of ys k"
  shows "xs = ys"
proof (rule nth_equalityI)
  show l: "length xs = length ys" using arg_cong [OF assms(1), of length] by simp
  fix i assume i: "i < length xs"
  have d: "distinct (keys xs)" using assms(1,2) by simp
  have f: "fst (xs ! i) = fst (ys ! i)" using arg_cong [OF assms(1), of "\<lambda>ks. ks ! i"] i l by simp
  have "map_of xs (fst (xs ! i)) = Some (snd (xs ! i))" using d i by (intro map_of_is_SomeI) simp_all
  moreover have "map_of ys (fst (ys ! i)) = Some (snd (ys ! i))" using assms(2) i l by (intro map_of_is_SomeI) simp_all
  ultimately have "snd (xs ! i) = snd (ys ! i)" using assms(3) f by simp
  with f show "xs ! i = ys ! i" by (simp add: prod_eq_iff)
qed

lemma map_of_named:
  "distinct (keys gs) \<Longrightarrow> \<forall>(k, g) \<in> set gs. map_of m k = Some g \<Longrightarrow>
   map_of (foldl (\<lambda>m (k, g). if N g then AList.update k (f g) m else m) m gs) k =
     (case map_of gs k of Some g \<Rightarrow> Some (if N g then f g else g) | None \<Rightarrow> map_of m k)"
proof (induction gs arbitrary: m)
  case (Cons x gs)
  obtain j g where x: "x = (j, g)" by (cases x)
  let ?m = "if N g then AList.update j (f g) m else m"
  have "\<forall>(k, h) \<in> set gs. map_of ?m k = Some h"
  proof (rule ballI)
    fix y assume y: "y \<in> set gs"
    then have "fst y \<noteq> j" "map_of m (fst y) = Some (snd y)"
      using Cons.prems by (auto simp: x)
    then show "case y of (k, h) \<Rightarrow> map_of ?m k = Some h" by (cases y) simp
  qed
  with Cons.IH [of ?m] Cons.prems show ?case
    by (auto simp: x map_of_eq_None_iff [symmetric] split: option.splits)
qed simp

lemma keys_named:
  "fst ` set gs \<subseteq> set (keys m) \<Longrightarrow> keys (foldl (\<lambda>m (k, g). if N g then AList.update k (f g) m else m) m gs) = keys m"
proof (induction gs arbitrary: m)
  case (Cons x gs)
  obtain j g where x: "x = (j, g)" by (cases x)
  have "keys (AList.update j (f g) m) = keys m" if "j \<in> fst ` set m" for m
    using that by (induction m) auto
  then have "keys (AList.update j (f g) m) = keys m" using Cons.prems by (simp add: x)
  then show ?case using Cons.IH [of "AList.update j (f g) m"] Cons.IH [of m] Cons.prems by (simp add: x)
qed simp

lemma foldl_named:
  assumes "distinct (keys m)"
  shows "foldl (\<lambda>m (k, g). if N g then AList.update k (f g) m else m) m (filter (\<lambda>(_, g). P g) m) =
    map (\<lambda>(k, g). (k, if P g \<and> N g then f g else g)) m"
proof (rule alist_eqI)
  let ?gs = "filter (\<lambda>(_, g). P g) m" and ?new = "map (\<lambda>(k, g). (k, if P g \<and> N g then f g else g)) m"
  have keys: "keys ?new = keys m" by (induction m) auto
  show "keys (foldl (\<lambda>m (k, g). if N g then AList.update k (f g) m else m) m ?gs) = keys ?new"
    unfolding keys by (rule keys_named) auto
  show "distinct (keys ?new)" unfolding keys by (rule assms)
  fix k
  have gs: "distinct (keys ?gs)" "\<forall>(k, g) \<in> set ?gs. map_of m k = Some g"
    using assms by (auto intro: map_of_is_SomeI)
  have look: "map_of ?gs k = (case map_of m k of None \<Rightarrow> None | Some g \<Rightarrow> if P g then Some g else None)"
    using map_of_filter_keys [OF assms] by (simp split: option.split)
  have "map_of ?new k = map_option (\<lambda>g. if P g \<and> N g then f g else g) (map_of m k)" by (induction m) auto
  then show "map_of (foldl (\<lambda>m (k, g). if N g then AList.update k (f g) m else m) m ?gs) k = map_of ?new k"
    unfolding map_of_named [OF gs] look by (auto split: option.splits)
qed

section \<open>Properties\<close>

text \<open>The goals that a request of an action's cancel service takes: those without a result that the
  policy names, and of a request without an identifier also a goal whose own identifier is zero.\<close>

definition takes :: "'b env \<Rightarrow> string \<Rightarrow> string \<Rightarrow> int \<times> nat \<Rightarrow> server_goal \<Rightarrow> bool" where
  "takes E action requested stamp g \<longleftrightarrow> sg_action g = action \<and> sg_result g = None \<and>
     (case uuid_key E (sg_uuid g) of
        Ok u \<Rightarrow> cancel_policy (if requested = zero_uuid then None else Some requested)
            (if stamp = (0, 0) then None else Some stamp) u (stamp_of (sg_stamp g))
          \<or> requested = zero_uuid \<and> u = zero_uuid
      | _ \<Rightarrow> False)"

lemma takes_named: "takes E action requested stamp g \<longleftrightarrow> sg_action g = action \<and> cancel_named E requested stamp g"
  by (auto simp: takes_def cancel_named_def cancels_def exactly_def cancel_policy_def split: outcome.split)

text \<open>The answer to it: the goals taken, and 0 when there are any or no identifier was given, 3 when
  the goal of the identifier has its result, 2 when there is none.\<close>

definition cancel_answer :: "'b env \<Rightarrow> string \<Rightarrow> string \<Rightarrow> int \<times> nat \<Rightarrow> server_goal list \<Rightarrow> json" where
  "cancel_answer E action requested stamp gs =
     (let taken = filter (takes E action requested stamp) gs in
      JObj [(''return_code'', jnat (if taken \<noteq> [] \<or> requested = zero_uuid then 0
          else if list_ex (\<lambda>g. sg_action g = action \<and> exactly E requested g) gs then 3 else 2)),
        (''goals_canceling'', JArr (map cancel_entry taken))])"

text \<open>
  C9. A cancel request follows the policy of \<^verbatim>\<open>action_msgs/srv/CancelGoal\<close>: of the action's goals
  without a result, those selected by identifier or time get the status cancelling and are listed
  in the answer, the owner of the action gets one \<^verbatim>\<open>cancel_action_goal\<close> message for each of them,
  in their order, then the new status is published; every other goal is as before. The code
  differs from the policy in one case: a request without an identifier, whatever its time, also
  takes a goal whose own identifier is zero.
\<close>

theorem cancel_request_policy:
  assumes "request_cancel E action a entity request args s = (Ok (), t)" "distinct (keys (server_goals s))"
  shows "\<exists>requested stamp b. uuid_key E (jix (jix args ''goal_info'') ''goal_id'') = Ok requested \<and>
    stamp = stamp_of (jix (jix args ''goal_info'') ''stamp'') \<and>
    be_respond (e_backend E) entity request (cancel_answer E action requested stamp (vals (server_goals s))) (backend s) = (Ok (), b) \<and>
    bindA (forA (map sg_id (filter (takes E action requested stamp) (vals (server_goals s)))) (\<lambda>i.
        send E (srv_owner a) (JObj [(''op'', JStr ''cancel_action_goal''), (''action'', JStr action)]) (Some i) options_default None))
      (\<lambda>_. publish_status E action)
      (s\<lparr>server_goals := map (\<lambda>(k, g). (k, if takes E action requested stamp g then g\<lparr>sg_status := 3\<rparr> else g)) (server_goals s),
        backend := b\<rparr>) = (Ok (), t)"
proof -
  let ?gs = "filter (\<lambda>(_, g). sg_action g = action) (server_goals s)"
  obtain requested where u: "uuid_key E (jix (jix args ''goal_info'') ''goal_id'') = Ok requested"
    using assms(1) by (auto simp: request_cancel_def bindA_Ok liftA_def)
  define stamp where "stamp = stamp_of (jix (jix args ''goal_info'') ''stamp'')"
  note run = assms(1) [unfolded request_cancel_def u bindA_simps Let_def stamp_def [symmetric]]
  let ?say = "\<lambda>is. bindA (forA is (\<lambda>i.
        send E (srv_owner a) (JObj [(''op'', JStr ''cancel_action_goal''), (''action'', JStr action)]) (Some i) options_default None))
      (\<lambda>_. publish_status E action)"
  let ?answer = "\<lambda>r. be_respond (e_backend E) entity request (JObj [(''return_code'', jnat (cancel_code (requested = zero_uuid) r)),
       (''goals_canceling'', JArr (cn_cancelling r))])"
  have start: "bindA (getA f) g s = g (f s) s" for f and g :: "_ \<Rightarrow> ('a bridge, unit) action" by (simp add: bindA_def getA_def)
  have "bindA (cancel_each E requested stamp ?gs no_cancellation) (\<lambda>r. bindA (onB (?answer r)) (\<lambda>_. ?say (cn_notify r))) s = (Ok (), t)"
    using run unfolding start .
  from iffD1 [OF bindA_Ok this] obtain r s1 where each: "cancel_each E requested stamp ?gs no_cancellation s = (Ok r, s1)"
    and more: "bindA (onB (?answer r)) (\<lambda>_. ?say (cn_notify r)) s1 = (Ok (), t)" by blast
  from iffD1 [OF bindA_Ok more] obtain u s2 where "onB (?answer r) s1 = (Ok u, s2)" and said: "?say (cn_notify r) s2 = (Ok (), t)" by blast
  then obtain b where answer: "?answer r (backend s1) = (Ok (), b)" and "s2 = s1\<lparr>backend := b\<rparr>"
    by (auto simp: onB_def split: prod.splits)
  with said have rest: "?say (cn_notify r) (s1\<lparr>backend := b\<rparr>) = (Ok (), t)" by simp
  note e = cancel_each_Ok [OF each]
  have vals: "filter (cancel_named E requested stamp) (vals ?gs) = filter (takes E action requested stamp) (vals (server_goals s))"
  proof -
    have "filter (cancel_named E requested stamp) (vals (filter (\<lambda>(_, g). sg_action g = action) gs)) =
        filter (takes E action requested stamp) (vals gs)" for gs :: "(string \<times> server_goal) list"
      by (induction gs) (auto simp: takes_named)
    then show ?thesis .
  qed
  have goals: "s1 = s\<lparr>server_goals := map (\<lambda>(k, g). (k, if takes E action requested stamp g then g\<lparr>sg_status := 3\<rparr> else g)) (server_goals s)\<rparr>"
    using e foldl_named [OF assms(2), of "cancel_named E requested stamp" cancelled "\<lambda>g. sg_action g = action"]
    unfolding takes_named cancelled_def by simp
  have "cancel_code (requested = zero_uuid) r = (if filter (takes E action requested stamp) (vals (server_goals s)) \<noteq> [] \<or> requested = zero_uuid then 0
      else if list_ex (\<lambda>g. sg_action g = action \<and> exactly E requested g) (vals (server_goals s)) then 3 else 2)"
  proof (cases "filter (takes E action requested stamp) (vals (server_goals s)) = []")
    case True
    then have "\<forall>g \<in> set (vals ?gs). \<not> cancel_named E requested stamp g"
      unfolding vals [symmetric] filter_empty_conv .
    from cancel_each_known [OF each this] show ?thesis
      using True e by (auto simp: cancel_code_def vals no_cancellation_def list_ex_iff split: if_splits)
  next
    case False
    then show ?thesis using e by (simp add: cancel_code_def vals)
  qed
  then have "JObj [(''return_code'', jnat (cancel_code (requested = zero_uuid) r)), (''goals_canceling'', JArr (cn_cancelling r))] =
      cancel_answer E action requested stamp (vals (server_goals s))"
    using e by (simp add: cancel_answer_def vals no_cancellation_def Let_def)
  with answer rest goals e u show ?thesis
    unfolding stamp_def [symmetric] by (simp add: vals no_cancellation_def)
qed

lemma cancel_each_total:
  "list_all (\<lambda>(k, g). is_ok (uuid_key E (sg_uuid g))) gs \<Longrightarrow> \<exists>r' t. cancel_each E requested stamp gs r s = (Ok r', t)"
proof (induction gs arbitrary: r s)
  case (Cons x gs)
  obtain k g where x: "x = (k, g)" by (cases x)
  with Cons.prems obtain u where "uuid_key E (sg_uuid g) = Ok u" by (auto simp: is_ok_iff)
  then have "\<exists>r1 s1. cancel_one E requested stamp k g r s = (Ok r1, s1)"
    by (cases "cancels (u = requested) (requested = zero_uuid) stamp g")
      (simp_all add: cancel_one_def bindA_def liftA_def modA_def retA_def Let_def)
  with Cons show ?case by (auto simp: x bindA_def)
qed (simp add: retA_def)

definition sample_server_goal :: "string \<Rightarrow> nat \<Rightarrow> nat \<Rightarrow> server_goal" where
  "sample_server_goal i b time = \<lparr>sg_owner = 1, sg_action = ''/a'', sg_id = i,
     sg_uuid = JObj [(''uuid'', JArr (map (\<lambda>b. jnat (unat b)) (le_bytes 16 b)))], sg_status = 2,
     sg_stamp = JObj [(''sec'', jnat time), (''nanosec'', jnat 0)], sg_result = None, sg_requests = [],
     sg_completed = None\<rparr>"

definition sample_key :: "nat \<Rightarrow> string" where
  "sample_key b = hex (le_bytes 16 b)"

lemma sample_uuid: "uuid_key E (sg_uuid (sample_server_goal i b time)) = Ok (sample_key b)"
  unfolding sample_server_goal_def server_goal.simps sample_key_def
  by (rule uuid_key_fresh) (simp only: le_bytes_def length_map length_upt)

definition sample_goals :: "(string \<times> server_goal) list" where
  "sample_goals = [(''/a:1'', sample_server_goal ''g1'' 1 5), (''/a:2'', sample_server_goal ''g2'' 2 9)]"

definition sample_server :: action_server where
  "sample_server = \<lparr>srv_owner = 1, srv_advertised = ''pkg/A'', srv_typ = ''pkg/action/A'', srv_send = 1, srv_cancel = 3,
     srv_result = 2, srv_feedback = 4, srv_status = 5\<rparr>"

definition serving :: "loop node bridge" where
  "serving = (bridge_new \<lparr>node_ros = ros_initial (0, []) False, node_api = None\<rparr> 0 (\<lambda>_. sample_queue))
     \<lparr>server_goals := sample_goals, action_servers := [(''/a'', sample_server)]\<rparr>"

text \<open>An environment whose backend takes every answer and every message.\<close>

definition agreeing_env :: "loop node env" where
  "agreeing_env = loop_env\<lparr>e_backend := (e_backend loop_env)
     \<lparr>be_respond := (\<lambda>_ _ _ s. (Ok (), s)), be_publish := (\<lambda>_ _ s. (Ok (), s))\<rparr>\<rparr>"

definition cancel_before :: "nat \<Rightarrow> json" where
  "cancel_before time = JObj [(''goal_info'', JObj [(''goal_id'', JObj [(''uuid'', JArr (map (\<lambda>b. jnat (unat b)) (le_bytes 16 0)))]),
     (''stamp'', JObj [(''sec'', jnat time), (''nanosec'', jnat 0)])])]"

lemma zero_uuid_hex: "zero_uuid = hex (le_bytes 16 0)"
proof -
  have "le_bytes 16 0 = replicate 16 0" by (simp add: le_bytes_def map_replicate_const)
  moreover have "hex (replicate n 0) = replicate (2 * n) CHR ''0''" for n
    by (induction n) (simp_all add: hex_def hex_digit_def)
  ultimately show ?thesis by (simp add: zero_uuid_def)
qed

lemma sample_not_zero: "0 < n \<Longrightarrow> n < 256 ^ 16 \<Longrightarrow> sample_key n \<noteq> zero_uuid"
  unfolding sample_key_def
proof
  assume n: "0 < n" "n < 256 ^ 16" and "hex (le_bytes 16 n) = zero_uuid"
  then have "hex (le_bytes 16 n) = hex (le_bytes 16 0)" by (simp only: zero_uuid_hex)
  then have "le_bytes 16 n = le_bytes 16 0" by (rule hex_inj [rotated]) (simp add: le_bytes_def)
  with n show False using le_bytes_inj [of n 16 0] by simp
qed

lemma sample_fields [simp]:
  "sg_action (sample_server_goal i b time) = ''/a''" "sg_result (sample_server_goal i b time) = None"
  "sg_id (sample_server_goal i b time) = i"
  "time < 10 \<Longrightarrow> stamp_of (sg_stamp (sample_server_goal i b time)) = (int time, 0)"
  by (simp_all add: sample_server_goal_def stamp_of_def jnat_def)

lemma cancel_before_fields:
  "uuid_key E (jix (jix (cancel_before time) ''goal_info'') ''goal_id'') = Ok zero_uuid"
  "stamp_of (jix (jix (cancel_before 7) ''goal_info'') ''stamp'') = (7, 0)"
proof -
  have "uuid_key E (JObj [(''uuid'', JArr (map (\<lambda>b. jnat (unat b)) (le_bytes 16 0)))]) = Ok (hex (le_bytes 16 0))"
    by (rule uuid_key_fresh) (simp only: le_bytes_def length_map length_upt)
  then show "uuid_key E (jix (jix (cancel_before time) ''goal_info'') ''goal_id'') = Ok zero_uuid"
    by (simp add: cancel_before_def jix_def jget_def zero_uuid_hex)
  show "stamp_of (jix (jix (cancel_before 7) ''goal_info'') ''stamp'') = (7, 0)"
    by (simp add: cancel_before_def jix_def jget_def stamp_of_def jnat_def)
qed

lemma say_total: "\<exists>t. forA is (\<lambda>i. send E owner (JObj m) (Some i) options_default None) s = (Ok (), t) \<and> action_servers t = action_servers s"
proof (induction "is" arbitrary: s)
  case (Cons i "is")
  have "\<exists>t. send E owner (JObj m) (Some i) options_default None s = (Ok (), t) \<and> action_servers t = action_servers s"
    by (auto simp: send_def bindA_def liftA_def getA_def retA_def modA_def unique_def deliver_def put_queue_def mark_failed_def
        Let_def split: option.splits prod.splits sum.splits)
  then obtain t where "send E owner (JObj m) (Some i) options_default None s = (Ok (), t)" "action_servers t = action_servers s" by blast
  with Cons [of t] show ?case by (auto simp: bindA_def)
qed (simp add: retA_def)

lemma agreeing: "be_respond (e_backend agreeing_env) e i v = (\<lambda>s. (Ok (), s))" "be_publish (e_backend agreeing_env) e v = (\<lambda>s. (Ok (), s))"
  by (simp_all add: agreeing_env_def)

lemma serving_cancels: "\<exists>t. request_cancel agreeing_env ''/a'' sample_server 3 1 (cancel_before 7) serving = (Ok (), t)"
proof -
  have goals: "server_goals serving = sample_goals" and servers: "action_servers serving = [(''/a'', sample_server)]"
    by (simp_all add: serving_def)
  have total: "list_all (\<lambda>(k, g). is_ok (uuid_key agreeing_env (sg_uuid g))) sample_goals"
    by (simp only: sample_goals_def list.pred_inject prod.case sample_uuid is_ok.simps simp_thms)
  have f: "filter (\<lambda>(_, g). sg_action g = ''/a'') sample_goals = sample_goals" by (simp add: sample_goals_def)
  obtain r t where each: "cancel_each agreeing_env zero_uuid (7, 0) sample_goals no_cancellation serving = (Ok r, t)"
    using cancel_each_total [OF total] by blast
  then have "action_servers t = action_servers serving" using cancel_each_Ok [OF each] by simp
  moreover obtain u where "forA (cn_notify r) (\<lambda>i. send agreeing_env (srv_owner sample_server)
      (JObj [(''op'', JStr ''cancel_action_goal''), (''action'', JStr ''/a'')]) (Some i) options_default None) t = (Ok (), u)"
    "action_servers u = action_servers t" using say_total by blast
  ultimately show ?thesis
    unfolding request_cancel_def cancel_before_fields bindA_simps Let_def
    by (simp add: bindA_def getA_def goals f each onB_def agreeing publish_status_def server_of_def servers)
qed

theorem cancel_request_policy_witness:
  "\<exists>t b. request_cancel agreeing_env ''/a'' sample_server 3 1 (cancel_before 7) serving = (Ok (), t) \<and>
     be_respond (e_backend agreeing_env) 3 1 (cancel_answer agreeing_env ''/a'' zero_uuid (7, 0) (vals sample_goals)) (backend serving) = (Ok (), b) \<and>
     map sg_id (filter (takes agreeing_env ''/a'' zero_uuid (7, 0)) (vals sample_goals)) = [''g1'']"
proof -
  have goals: "server_goals serving = sample_goals" by (simp add: serving_def)
  obtain t where t: "request_cancel agreeing_env ''/a'' sample_server 3 1 (cancel_before 7) serving = (Ok (), t)"
    using serving_cancels by blast
  have "distinct (keys (server_goals serving))" by (simp add: goals sample_goals_def)
  from cancel_request_policy [OF t this, unfolded goals cancel_before_fields]
  obtain b where b: "be_respond (e_backend agreeing_env) 3 1 (cancel_answer agreeing_env ''/a'' zero_uuid (7, 0) (vals sample_goals))
      (backend serving) = (Ok (), b)" by auto
  have "sample_key 1 \<noteq> zero_uuid" "sample_key 2 \<noteq> zero_uuid"
    by (rule sample_not_zero; simp)+
  then have "map sg_id (filter (takes agreeing_env ''/a'' zero_uuid (7, 0)) (vals sample_goals)) = [''g1'']"
    by (simp add: sample_goals_def takes_def sample_uuid cancel_policy_def stamp_le_def)
  with t b show ?thesis by metis
qed

end
