(* ===== verification/Message_Forms.thy ===== *)
theory Message_Forms
  imports Message_Roundtrip
begin

text \<open>
  The JSON and the CBOR form of a message (\<^verbatim>\<open>src/ros/message.rs\<close>, \<open>read_object\<close>) and the decoding
  of CBOR in \<^verbatim>\<open>src/wire.rs\<close>: both forms are the same message, except for sequences of octets.
\<close>

section \<open>Elements of typed arrays\<close>

lemma le_bytes_length [simp]: "length (le_bytes k n) = k"
  by (simp add: le_bytes_def)

lemma chunks_concat:
  "0 < k \<Longrightarrow> list_all (\<lambda>x. length (f x) = k) xs \<Longrightarrow> chunks_exact k (concat (map f xs)) = map f xs"
  by (induction xs) (simp_all add: chunks_exact.simps [of k "[]"] chunks_exact.simps [of k "f _ @ _"])

lemma concat_length: "list_all (\<lambda>x. length (f x) = k) xs \<Longrightarrow> length (concat (map f xs)) = length xs * k"
  by (induction xs) simp_all

lemma unpack_concat:
  assumes "0 < k" "list_all (\<lambda>x. length (f x) = k \<and> g (f x) = h x) xs"
  shows "unpack k g (concat (map f xs)) = Ok (JArr (map h xs))"
proof -
  have l: "list_all (\<lambda>x. length (f x) = k) xs" using assms(2) by (simp add: list_all_iff)
  then show ?thesis
    using chunks_concat [OF assms(1) l] concat_length [OF l] assms(2)
    by (simp add: unpack_def list_all_iff)
qed

lemma int_bytes_signed:
  assumes "0 < k" "- (2 ^ (8 * k - 1)) \<le> i" "i < 2 ^ (8 * k - 1)"
  shows "le_int (int_bytes k i) = i"
proof -
  obtain w where w: "8 * k = Suc w" using assms(1) by (cases "8 * k") auto
  have b: "- (2 ^ w) \<le> i" "i < 2 ^ w" using assms w by simp_all
  have p: "256 ^ k = (2 :: nat) ^ (8 * k)" by (simp add: power_mult)
  let ?n = "nat (i mod 2 ^ Suc w)"
  have lt: "?n < 2 ^ Suc w" by (simp add: nat_less_iff)
  then have n: "le_nat (int_bytes k i) = ?n" by (simp add: int_bytes_def le_nat_bytes p w)
  show ?thesis
  proof (cases "0 \<le> i")
    case True
    then have "i mod 2 ^ Suc w = i" using b by (simp add: mod_pos_pos_trivial)
    then show ?thesis using True b n w by (simp add: le_int_def int_bytes_def nat_less_iff)
  next
    case False
    have "i mod 2 ^ Suc w = (i + 2 ^ Suc w) mod 2 ^ Suc w" by simp
    also have "\<dots> = i + 2 ^ Suc w" using False b by (intro mod_pos_pos_trivial) auto
    finally have "int ?n = i + 2 ^ Suc w" using b by simp
    moreover have "\<not> ?n < 2 ^ w"
    proof
      assume "?n < 2 ^ w"
      then have "int ?n < 2 ^ w" by (metis of_nat_less_iff of_nat_numeral of_nat_power)
      with calculation b show False by simp
    qed
    moreover have "0 \<le> i + 2 ^ Suc w" using b zero_le_power [of "2 :: int" w] unfolding power_Suc by linarith
    ultimately show ?thesis using n w by (simp add: le_int_def int_bytes_def)
  qed
qed

lemma int_bytes_unsigned: "0 \<le> i \<Longrightarrow> i < 2 ^ (8 * k) \<Longrightarrow> int (le_nat (int_bytes k i)) = i"
proof -
  assume i: "0 \<le> i" "i < 2 ^ (8 * k)"
  have p: "256 ^ k = (2 :: nat) ^ (8 * k)" by (simp add: power_mult)
  have "nat i < 2 ^ (8 * k)" using i by (simp add: nat_less_iff)
  then show ?thesis using i by (simp add: int_bytes_def le_nat_bytes p)
qed

lemma f32_infinite: "\<not> f32_finite w \<Longrightarrow> \<not> f64_finite (f64_of_f32 w)"
proof -
  define n where "n = unat w"
  assume "\<not> f32_finite w"
  then have e: "n div 2 ^ 23 mod 256 = 255" by (simp add: f32_finite_def n_def)
  have n: "n < 2 ^ 32" unfolding n_def using unsigned_less [of w] by simp
  have "f64_of_f32 w = word_of_nat (n div 2 ^ 31 * 2 ^ 63 + 2047 * 2 ^ 52 + n mod 2 ^ 23 * 2 ^ 29)"
    unfolding f64_of_f32_def Let_def n_def [symmetric] e by simp
  moreover have "n div 2 ^ 31 < 2" using n by simp
  ultimately have "f64_exp (f64_of_f32 w) = 2047"
    using f64_fields(3) [of "n div 2 ^ 31" 2047 "n mod 2 ^ 23 * 2 ^ 29"] by simp
  then show ?thesis by (simp add: f64_finite_def)
qed

lemma le_f32_bytes: "le_f32 (le_bytes 4 (unat w)) = jfloat (f64_of_f32 w)"
proof -
  have "unat w < 256 ^ 4" using unsigned_less [of w] by simp
  then have "le_nat (le_bytes 4 (unat w)) = unat w" by (simp add: le_nat_bytes)
  then show ?thesis
    using f32_widened [of w] f32_infinite [of w] by (auto simp: le_f32_def jfloat_def f32_finite_def)
qed

lemma le_f64_bytes: "le_f64 (le_bytes 8 (unat w)) = jfloat w"
proof -
  have "unat w < 256 ^ 8" using unsigned_less [of w] by simp
  then show ?thesis by (simp add: le_f64_def le_nat_bytes)
qed

text \<open>The number that a slot holds.\<close>

definition number_json :: "slot \<Rightarrow> json" where
  "number_json s = (case s of SInt i \<Rightarrow> jint i | SF32 w \<Rightarrow> jfloat (f64_of_f32 w) | SF64 w \<Rightarrow> jfloat w | _ \<Rightarrow> JNull)"

lemma int_element:
  assumes "basic_ok f (SInt i)" "f_type f \<in> {9, 10, 11, 12, 13, 14, 15}"
  shows "f_type f = 9 \<Longrightarrow> le_int (int_bytes 1 i) = i" "f_type f = 11 \<Longrightarrow> le_int (int_bytes 2 i) = i"
    "f_type f = 13 \<Longrightarrow> le_int (int_bytes 4 i) = i" "f_type f = 15 \<Longrightarrow> le_int (int_bytes 8 i) = i"
    "f_type f = 10 \<Longrightarrow> jnat (le_nat (int_bytes 2 i)) = jint i" "f_type f = 12 \<Longrightarrow> jnat (le_nat (int_bytes 4 i)) = jint i"
    "f_type f = 14 \<Longrightarrow> jnat (le_nat (int_bytes 8 i)) = jint i"
proof -
  have n: "0 \<le> i \<Longrightarrow> i < 2 ^ (8 * k) \<Longrightarrow> jnat (le_nat (int_bytes k i)) = jint i" for k
    using int_bytes_unsigned [of i k] by (auto simp: jnat_def jint_def)
  show "f_type f = 9 \<Longrightarrow> le_int (int_bytes 1 i) = i" "f_type f = 11 \<Longrightarrow> le_int (int_bytes 2 i) = i"
    "f_type f = 13 \<Longrightarrow> le_int (int_bytes 4 i) = i" "f_type f = 15 \<Longrightarrow> le_int (int_bytes 8 i) = i"
    using assms(1) by (auto simp: basic_ok_def intro!: int_bytes_signed)
  show "f_type f = 10 \<Longrightarrow> jnat (le_nat (int_bytes 2 i)) = jint i" "f_type f = 12 \<Longrightarrow> jnat (le_nat (int_bytes 4 i)) = jint i"
    "f_type f = 14 \<Longrightarrow> jnat (le_nat (int_bytes 8 i)) = jint i"
    using assms(1) by (auto simp: basic_ok_def intro!: n)
qed

lemma int_bytes_length [simp]: "length (int_bytes k i) = k"
  by (simp add: int_bytes_def)

lemma typed_slot:
  assumes "basic_ok f s" "f_type f \<in> {1, 2, 9, 10, 11, 12, 13, 14, 15}"
  shows "f_type f = 1 \<and> (\<exists>w. s = SF32 w) \<or> f_type f = 2 \<and> (\<exists>w. s = SF64 w) \<or>
    f_type f \<in> {9, 10, 11, 12, 13, 14, 15} \<and> (\<exists>i. s = SInt i)"
  using assms by (cases s) (auto simp: basic_ok_def Let_def)

text \<open>The width and the decoder of an element, by tag.\<close>

definition tag_width :: "nat \<Rightarrow> nat" where
  "tag_width tag = (if tag = 72 then 1 else if tag = 69 \<or> tag = 77 then 2 else if tag = 70 \<or> tag = 78 \<or> tag = 85 then 4 else 8)"

definition tag_number :: "nat \<Rightarrow> byte list \<Rightarrow> json" where
  "tag_number tag b = (if tag = 85 then le_f32 b else if tag = 86 then le_f64 b
     else if tag < 72 then jnat (le_nat b) else jint (le_int b))"

lemma element_number:
  assumes "basic_ok f s" "array_tag (f_type f) = Some tag" "f_type f \<noteq> 7"
  shows "length (element_bytes (f_type f) s) = tag_width tag \<and> tag_number tag (element_bytes (f_type f) s) = number_json s"
proof -
  have t: "f_type f \<in> {1, 2, 9, 10, 11, 12, 13, 14, 15}"
    using assms(2,3) by (auto simp: array_tag_def split: if_splits)
  from typed_slot [OF assms(1) t] show ?thesis
  proof (elim disjE conjE exE)
    fix i assume s: "s = SInt i" and ty: "f_type f \<in> {9, 10, 11, 12, 13, 14, 15}"
    note i = int_element [OF assms(1) [unfolded s] ty]
    from ty show ?thesis
      by (elim insertE emptyE)
        (use assms(2) i in \<open>simp_all add: s array_tag_def element_bytes_def number_json_def tag_width_def tag_number_def\<close>)
  qed (use assms(2) in \<open>auto simp: array_tag_def element_bytes_def number_json_def tag_width_def tag_number_def le_f32_bytes le_f64_bytes\<close>)
qed

lemma typed_array_bytes:
  assumes "list_all (basic_ok f) ss" "array_tag (f_type f) = Some tag" "f_type f \<noteq> 7"
  shows "typed_array K tag (CBytes (concat (map (element_bytes (f_type f)) ss))) = Ok (JArr (map number_json ss))"
proof -
  have "tag \<in> {69, 70, 71, 72, 77, 78, 79, 85, 86}"
    using assms(2) by (auto simp: array_tag_def split: if_splits)
  then have "typed_array K tag (CBytes b) = unpack (tag_width tag) (tag_number tag) b" for b
    by (elim insertE emptyE) (simp_all add: typed_array_def tag_width_def tag_number_def [abs_def])
  moreover have "list_all (\<lambda>s. length (element_bytes (f_type f) s) = tag_width tag \<and>
      tag_number tag (element_bytes (f_type f) s) = number_json s) ss"
    using assms(1) element_number [OF _ assms(2,3)] by (simp add: list_all_iff)
  moreover have "0 < tag_width tag" by (simp add: tag_width_def)
  ultimately show ?thesis using unpack_concat [of "tag_width tag" "element_bytes (f_type f)" "tag_number tag" number_json ss] by simp
qed

lemma read_numbers:
  "list_all (basic_ok f) ss \<Longrightarrow> array_tag (f_type f) = Some tag \<Longrightarrow> read_elements T f ss = Ok es \<Longrightarrow> map fst es = map number_json ss"
proof (induction ss arbitrary: es)
  case (Cons s ss)
  have "f_type f \<in> {1, 2, 7, 9, 10, 11, 12, 13, 14, 15}"
    using Cons.prems(2) by (auto simp: array_tag_def split: if_splits)
  then have "read_scalar T f s = Ok (j, c) \<Longrightarrow> j = number_json s" for j c
    using Cons.prems(1) by (auto simp: read_basic_def basic_ok_def number_json_def Let_def split: slot.splits)
  then show ?case using Cons by (auto simp: bindO_eq_Ok simp del: read_scalar.simps)
qed simp

section \<open>The two forms of a message\<close>

text \<open>No array of octets of variable length: its binary form has the tag of signed bytes.\<close>

primrec octet_free_member :: "member \<Rightarrow> bool" and octet_free :: "members \<Rightarrow> bool" where
  "octet_free_member (Member n t b nest arr sz upper d) \<longleftrightarrow>
     \<not> (t = 7 \<and> arr \<and> (sz = 0 \<or> upper)) \<and> (case map_option octet_free nest of None \<Rightarrow> True | Some p \<Rightarrow> p)"
| "octet_free (Members ns n fs ini) \<longleftrightarrow> list_all id (map octet_free_member fs)"

lemma octet_free_fields: "octet_free m \<Longrightarrow> list_all octet_free_member (m_fields m)"
  by (cases m) (simp add: list_all_iff)

lemma octet_free_cases:
  "octet_free_member f \<Longrightarrow> f_nested f = Some m \<Longrightarrow> octet_free m"
  "octet_free_member f \<Longrightarrow> f_type f = 7 \<Longrightarrow> f_array f \<Longrightarrow> \<not> (f_size f = 0 \<or> f_upper f)"
  by (cases f; auto)+

lemma mapO_mapped: "(\<And>x. x \<in> set xs \<Longrightarrow> f (g x) = Ok (h x)) \<Longrightarrow> mapO f (map g xs) = Ok (map h xs)"
  by (induction xs) auto

lemma array_json:
  assumes "read_elements T f ss = Ok es" "list_all (typed_scalar f) ss" "octet_free_member f" "f_array f"
    and "base64 K = ts_base64 T" "\<And>j c. (j, c) \<in> set es \<Longrightarrow> json_value K c = Ok j"
  shows "json_value K (snd (array_forms T f ss es)) = Ok (fst (array_forms T f ss es))"
proof -
  have each: "json_value K (CArr (map snd es)) = Ok (JArr (map fst es))"
  proof -
    have "mapO (json_value K) (map snd es) = Ok (map fst es)"
      using assms(6) by (intro mapO_mapped) (auto intro: assms(6))
    then show ?thesis by simp
  qed
  have tagged: "json_value K (CTag tag (CBytes (concat (map (element_bytes (f_type f)) ss)))) = Ok (JArr (map fst es))"
    if tag: "array_tag (f_type f) = Some tag" and v: "f_size f = 0 \<or> f_upper f" for tag
  proof -
    have "f_type f \<noteq> 7" using octet_free_cases(2) [OF assms(3) _ assms(4)] v by blast
    moreover have "list_all (basic_ok f) ss"
      using assms(2) tag by (auto simp: array_tag_def list_all_iff split: if_splits)
    ultimately show ?thesis
      using typed_array_bytes [OF _ tag] read_numbers [OF _ tag assms(1)] by simp
  qed
  show ?thesis
    using each tagged by (auto simp: array_forms_def Let_def assms(5) split: option.split)
qed

lemma basic_forms:
  assumes "read_basic f s = Ok (j, c)" "basic_ok f s"
  shows "json_value K c = Ok j"
proof (cases s)
  case (SInt i)
  have "- (2 ^ 63) \<le> i \<and> i < 2 ^ 64"
    using assms(2) SInt unfolding basic_ok_def Let_def SInt slot.case by (elim disjE conjE) simp_all
  then have "json_value K (cbor_value (jint i)) = Ok (jint i)"
    by (intro json_cbor_value) (auto simp: jint_def nat_less_iff)
  then show ?thesis using assms SInt read_int [of f i] by auto
qed (use assms in \<open>auto simp: basic_ok_def read_basic_def split: if_splits option.splits\<close>)

lemma json_forms:
  "read_object T m data = Ok (j, c) \<Longrightarrow> base64 K = ts_base64 T \<Longrightarrow> octet_free m \<Longrightarrow> typed_object m data \<Longrightarrow> json_value K c = Ok j"
  "read_fields T fs ss = Ok es \<Longrightarrow> base64 K = ts_base64 T \<Longrightarrow> list_all octet_free_member fs \<Longrightarrow> typed_fields fs ss \<Longrightarrow>
     (k, j, c) \<in> set es \<Longrightarrow> json_value K c = Ok j"
  "read_field T f s = Ok (j, c) \<Longrightarrow> base64 K = ts_base64 T \<Longrightarrow> octet_free_member f \<Longrightarrow> typed_field f s \<Longrightarrow> json_value K c = Ok j"
  "read_elements T f ss = Ok es' \<Longrightarrow> base64 K = ts_base64 T \<Longrightarrow> octet_free_member f \<Longrightarrow> list_all (typed_scalar f) ss \<Longrightarrow>
     (j, c) \<in> set es' \<Longrightarrow> json_value K c = Ok j"
  "read_scalar T f s = Ok (j, c) \<Longrightarrow> base64 K = ts_base64 T \<Longrightarrow> octet_free_member f \<Longrightarrow> typed_scalar f s \<Longrightarrow> json_value K c = Ok j"
proof (induction T m data and T fs ss and T f s and T f ss and T f s
    arbitrary: j c and es k j c and j c and es' j c and j c
    rule: read_object_read_fields_read_field_read_elements_read_scalar.induct)
  case (1 T m data)
  obtain es where es: "read_fields T (m_fields m) data = Ok es"
    and jc: "j = JObj (foldl (\<lambda>t (k, j, c). AList.update k j t) [] es)" "c = CMap (map (\<lambda>(k, j, c). (CText k, c)) es)"
    using 1(2) by (auto simp: bindO_eq_Ok)
  have "json_value K c = Ok j" if "(k, j, c) \<in> set es" for k j c
    using 1(1) [OF es 1(3) octet_free_fields [OF 1(4)] _ that] 1(5) by simp
  then have "mapO (\<lambda>(k, v). case k of CText s \<Rightarrow> bindO (json_value K v) (\<lambda>j. Ok (s, j))
      | _ \<Rightarrow> Err ''CBOR object keys must be strings'') (map (\<lambda>(k, j, c). (CText k, c)) es) = Ok (map (\<lambda>(k, j, c). (k, j)) es)"
    by (intro mapO_mapped) (auto split: prod.split)
  moreover have "object_of (map (\<lambda>(k, j, c). (k, j)) es) = foldl (\<lambda>t (k, j, c). AList.update k j t) [] es"
    by (simp add: object_of_def foldl_map split_def)
  ultimately show ?case by (simp add: jc)
next
  case (2 T f fs s ss)
  obtain j1 c1 es1 where r: "read_field T f s = Ok (j1, c1)" "read_fields T fs ss = Ok es1" "es = (f_name f, j1, c1) # es1"
    using 2(3) by (auto simp: bindO_eq_Ok simp del: read_field.simps)
  have fs: "octet_free_member f" "list_all octet_free_member fs" "typed_field f s" "typed_fields fs ss"
    using 2(5,6) by (simp_all del: typed_field.simps)
  from 2(7) r(3) consider "j = j1" "c = c1" | "(k, j, c) \<in> set es1" by auto
  then show ?case
    using 2(1) [OF r(1) 2(4) fs(1,3)] 2(2) [OF r(1,2) 2(4) fs(2,4)] by cases simp_all
next
  case (5 T f s)
  show ?case
  proof (cases "f_array f")
    case True
    obtain ss where ss: "s = SArr ss" "list_all (typed_scalar f) ss"
      using 5(6) True by (auto simp del: typed_scalar.simps split: slot.splits)
    have "bindO (read_elements T f ss) (\<lambda>es. Ok (array_forms T f ss es)) = Ok (j, c)"
      using 5(3) True ss(1) by (simp add: array_of_def del: read_elements.simps)
    then obtain es where es: "read_elements T f ss = Ok es" and "array_forms T f ss es = (j, c)"
      by (cases "read_elements T f ss") simp_all
    then have jc: "j = fst (array_forms T f ss es)" "c = snd (array_forms T f ss es)" by simp_all
    have "json_value K c = Ok j" if "(j, c) \<in> set es" for j c
      by (rule 5(1) [OF True _ es 5(4,5) ss(2) that]) (simp add: ss(1) array_of_def)
    then show ?thesis
      unfolding jc by (rule array_json [OF es ss(2) 5(5) True 5(4)])
  next
    case False
    have r: "read_scalar T f s = Ok (j, c)" "typed_scalar f s"
      using 5(3,6) False by (simp_all del: typed_scalar.simps read_scalar.simps)
    show ?thesis by (rule 5(2) [OF False r(1) 5(4,5) r(2)])
  qed
next
  case (7 T f s ss)
  obtain j1 c1 es where r: "read_scalar T f s = Ok (j1, c1)" "read_elements T f ss = Ok es" "es' = (j1, c1) # es"
    using 7(3) by (auto simp: bindO_eq_Ok simp del: read_scalar.simps)
  have fs: "typed_scalar f s" "list_all (typed_scalar f) ss"
    using 7(6) by (simp_all del: typed_scalar.simps)
  from 7(7) r(3) consider "j = j1" "c = c1" | "(j, c) \<in> set es" by auto
  then show ?case
    using 7(1) [OF r(1) 7(4,5) fs(1)] 7(2) [OF r(1,2) 7(4,5) fs(2)] by cases simp_all
next
  case (8 T f s)
  show ?case
  proof (cases "f_type f = 18")
    case True
    obtain m data where m: "f_nested f = Some m" "s = SObj data" "typed_object m data"
      using typed_message [OF 8(5) True] by blast
    then show ?thesis
      using 8(1) [OF True _ m(1,2) _ 8(3) octet_free_cases(1) [OF 8(4) m(1)] m(3)] 8(2) True by (simp del: typed_object.simps read_object.simps)
  next
    case False
    then show ?thesis using 8(2,5) basic_forms [of f s j c] by simp
  qed
qed (auto simp del: typed_scalar.simps)

section \<open>Properties\<close>

text \<open>
  C12. Both kinds of clients see the same message, when no field is an array of octets of variable
  length: decoding the CBOR form of a well-typed message, with its typed arrays, byte strings and binary
  floats, gives exactly its JSON form, infinite and undefined numbers included. Such an array of octets is
  tagged as signed bytes and differs (\<open>octet_forms_differ\<close>).
\<close>

theorem message_forms_agree:
  assumes "typed_object m data" "octet_free m" "base64 K = ts_base64 T"
    and "values_of T m data = Ok (j, c)"
  shows "json_value K c = Ok j"
  using json_forms(1) [of T m data j c K] assms by (simp add: values_of_def del: typed_object.simps read_object.simps)

definition sample_codec :: codec where
  "sample_codec = \<lparr>json_print = (\<lambda>_. []), json_parse = (\<lambda>_. Ok JNull), cbor_write = (\<lambda>_. Ok []),
     cbor_read = (\<lambda>_. Ok CNull), base64 = ts_base64 sample_types, png_encode = (\<lambda>_ _ _. Ok [])\<rparr>"

definition sample_series :: "nat \<Rightarrow> members" where
  "sample_series t = Members ''sample__msg'' ''Series'' [Member ''data'' t 0 None True 0 False (SInt 0)] [SArr []]"

lemma sample_read:
  "t = 11 \<or> t = 7 \<Longrightarrow> values_of sample_types (sample_series t) [SArr [SInt i]] =
     Ok (JObj [(''data'', JArr [jint i])],
       CMap [(CText ''data'', CTag (if t = 7 then 72 else 77) (CBytes (int_bytes (if t = 7 then 1 else 2) i)))])"
  by (auto simp: values_of_def sample_series_def array_of_def read_basic_def array_forms_def array_tag_def element_bytes_def)

theorem message_forms_agree_witness:
  "\<exists>j c. values_of sample_types (sample_series 11) [SArr [SInt (- 2)]] = Ok (j, c) \<and> json_value sample_codec c = Ok j"
proof -
  have "typed_object (sample_series 11) [SArr [SInt (- 2)]]" "octet_free (sample_series 11)"
    by (simp_all add: sample_series_def basic_ok_def length_ok_def)
  moreover have "base64 sample_codec = ts_base64 sample_types" by (simp add: sample_codec_def)
  moreover obtain j c where r: "values_of sample_types (sample_series 11) [SArr [SInt (- 2)]] = Ok (j, c)"
    using sample_read [of 11] by simp
  ultimately have "json_value sample_codec c = Ok j" by (rule message_forms_agree)
  with r show ?thesis by blast
qed

text \<open>With octets the two forms differ: the value 200 comes out of the typed array as -56.\<close>

lemma octet_forms_differ:
  "\<exists>j c. values_of sample_types (sample_series 7) [SArr [SInt 200]] = Ok (j, c) \<and>
     j = JObj [(''data'', JArr [jint 200])] \<and> json_value sample_codec c = Ok (JObj [(''data'', JArr [jint (- 56)])])"
proof -
  have b: "int_bytes 1 200 = [200]" by (simp add: int_bytes_def le_bytes_def)
  have "unpack 1 (\<lambda>b. jint (le_int b)) [200] = Ok (JArr [jint (- 56)])"
    using unpack_concat [of 1 "\<lambda>x. [x]" "\<lambda>b. jint (le_int b)" "\<lambda>_. jint (- 56)" "[200]"] by (simp add: le_int_def)
  then show ?thesis by (simp add: sample_read b typed_array_def object_of_def del: One_nat_def)
qed

end
