(* ===== verification/Spec2Isabelle.thy ===== *)
theory Spec2Isabelle
  imports Deadline Server_Properties Log_Safety Config_Safety Rosapi_Properties Incoming Encoding Delivery Cancel Message_Forms
begin

text \<open>
  A verification development for \<^verbatim>\<open>rosbridge_server_rs\<close>, a server that lets WebSocket clients
  use ROS 2: publish and subscribe, call and offer services, send and serve action goals.

  \<^bold>\<open>The program.\<close> WebSocket tasks decode client messages (\<^verbatim>\<open>src/wire.rs\<close>) and put operations
  into per-connection queues (\<^verbatim>\<open>src/incoming.rs\<close>). One worker thread owns the bridge
  (\<^verbatim>\<open>src/bridge/\<close>): it executes operations, polls the ROS backend (\<^verbatim>\<open>src/ros/\<close>, behind the
  trait of \<^verbatim>\<open>src/backend.rs\<close>) and sends replies through per-connection queues
  (\<^verbatim>\<open>src/outgoing.rs\<close>), which encoding jobs (\<^verbatim>\<open>src/encoding.rs\<close>) turn into frames.

  \<^bold>\<open>Theories.\<close>
  \<^item> \<open>Prelude\<close>, \<open>Text_Lib\<close>, \<open>Values\<close>: results (\<open>outcome\<close> has a value \<open>Panic\<close>), actions on a state,
    tables, strings as byte lists, JSON, CBOR, binary64, durations and instants. The locale
    \<open>machine\<close> is the shape of a component that is reached by operations only.
  \<^item> \<open>Access\<close>: allowlists, \<^verbatim>\<open>src/access.rs\<close>.
  \<^item> \<open>Wire\<close>, \<open>Encoding\<close>: encoding, compression, fragments and their reassembly.
  \<^item> \<open>Outgoing\<close>, \<open>Incoming\<close>: the queues on both sides of the worker.
  \<^item> \<open>Backend\<close>: QoS, type names and the trait \<^verbatim>\<open>Backend\<close> as a record of actions with its contract
    \<open>backend_contract\<close>: what each operation does to the set of live entities.
  \<^item> \<open>Bridge\<close>, \<open>Topics\<close>, \<open>Services\<close>, \<open>Actions\<close>, \<open>Dispatch\<close>: the bridge, one definition per method.
  \<^item> \<open>Ownership\<close> and the theories \<open>Topic_Safety\<close>, \<open>Service_Safety\<close>, \<open>Goal_Safety\<close>,
    \<open>Server_Safety\<close>, \<open>Dispatch_Safety\<close>, \<open>Lifecycle_Safety\<close>: the ownership invariant of the bridge
    and its proof for every operation, inside the locale \<open>bridge_env\<close> (a backend that keeps the
    contract, and distinct random identifiers).
  \<^item> \<open>Message\<close>: filling and reading ROS messages, \<^verbatim>\<open>src/ros/message.rs\<close>, over typed slots.
    \<open>Exact\<close>, \<open>Message_Roundtrip\<close>, \<open>Message_Forms\<close>: nothing is lost between a message and its
    JSON and CBOR forms.
  \<^item> \<open>Native\<close>, \<open>Ros\<close>: the backend of \<^verbatim>\<open>src/ros/mod.rs\<close> and \<^verbatim>\<open>src/ros/wait.rs\<close> over a record of RCL
    calls, and the proof (\<open>sublocale\<close> of \<open>native_contract\<close>) that it keeps \<open>backend_contract\<close>.
  \<^item> \<open>Graph\<close>, \<open>Definitions\<close>, \<open>Rosapi\<close>: the built-in rosapi services, \<^verbatim>\<open>src/ros/api.rs\<close>,
    \<^verbatim>\<open>parameters.rs\<close>, \<^verbatim>\<open>graph.rs\<close> and \<^verbatim>\<open>definitions.rs\<close>, with the file system and the node graph in
    the record \<open>host\<close>; \<open>Definitions_Complete\<close>: their loops end and visit every type.
    \<open>Rosapi_State\<close>, \<open>Rosapi_Safety\<close>, \<open>Node\<close>: the invariant of the services, its proof for every
    operation inside the locale \<open>host_contract\<close>, and the proof (\<open>sublocale\<close>) that the backend with
    the services still keeps \<open>backend_contract\<close>. \<open>Rosapi_Properties\<close>: what follows.
  \<^item> \<open>Delivery\<close>: what a throttled subscriber receives over time; \<open>Cancel\<close>: which goals a cancel
    request takes, and what it does with them.
  \<^item> \<open>System\<close>: the bridge on that backend as a machine of worker events, and a loopback world
    that interprets every locale. \<open>Deadline\<close>: an operation panics only for a deadline that the clock
    cannot represent.
  \<^item> \<open>Server\<close>: the loop of the worker and the lifecycle of a connection, \<^verbatim>\<open>src/server.rs\<close> with the
    worker's side of \<^verbatim>\<open>src/incoming.rs\<close>, as one state on which the worker, the tasks of the connections,
    the clock and the shutdown take turns. \<open>Waiting\<close>, \<open>Frame\<close>, \<open>Server_Tasks\<close>: its invariant, what the
    queues carry, what an operation leaves alone, and the proof for every step.
    \<open>Server_Properties\<close>: no step panics, and a stopped server ends.
  \<^item> \<open>Files\<close>: paths, and a disk on which every call may fail. \<open>Log_File\<close>: the rotating log file,
    \<^verbatim>\<open>src/logging/file.rs\<close>. \<open>Log_Safety\<close>: what writing and pruning leave on the disk, whatever fails.
  \<^item> \<open>Config\<close>: the arguments and the configuration file, \<^verbatim>\<open>src/config.rs\<close>. \<open>Config_Safety\<close>: which
    allowlists are in force, and that the queues and the pool of the server are created without a panic.

  \<^bold>\<open>Correspondence.\<close> A Rust struct is a record, an enum a datatype, a \<^verbatim>\<open>HashMap\<close> an association
  list with distinct keys whose order stands for the unspecified order of iteration. A method
  that mutates its receiver is an action on the record, \<^verbatim>\<open>?\<close> is \<open>bindA\<close>, an ignored result is
  \<open>tryA\<close>; an unwrap, an index or an addition to an \<^verbatim>\<open>Instant\<close> that may fail is \<open>Panic\<close>. The clock
  is a field, since every operation reads it. Counters of 64 bits that only grow are natural
  numbers. Type errors on the memory of messages are \<open>Panic\<close> as well, and are proved absent.

  \<^bold>\<open>Results.\<close> The properties C1 to C6 are about the bridge, C7 and C33 to C36 about the ROS backend with
  its rosapi services, C8 and C9 about what clients of topics and actions see, C10 to C12 about messages,
  C13 and C15 to C22 about the queues, C14 and C23 to C28 about the encoding, C29 and C30 about the
  allowlists, C31 and C32 about message definitions, C37 and C38 about the server, C39 and C40 about the
  log files.

  \<^bold>\<open>Bounds.\<close> Every loop of the modelled code is structural or has a measure, except the search of
  \<open>log_create\<close> for a free file name. That one has fuel, one more than there are names on the disk; as
  only an existing file takes a name, \<open>log_open\<close> never runs out of it (proved in \<open>Log_Safety\<close>).
  The hypotheses of the theorems about the bridge are that an instant lies within the range of
  the machine's clock (\<open>instant_ok\<close>) and that fewer than 2^122 goals were sent (\<open>UUIDS\<close>). The source
  adds the timeout of a service call to the clock without a check and panics beyond its range: C2 says
  so, the runs of C1, C37 and C38 ask for deadlines within it, and \<open>node_valid\<close> does so for the timeout
  of parameter requests.

  \<^bold>\<open>Simplifications.\<close> The width of a PNG is the integer square root, which the float computation of the
  source gives for texts below 2^50 bytes. The memory of a message is a tree of slots in place of
  offsets, and fields of type \<^verbatim>\<open>long double\<close>, which the source does not support, are not well-formed.
  An encoding that panics closes its connection, as in \<^verbatim>\<open>recv\<close>, also in \<open>try_recv\<close>.

  \<^bold>\<open>Not modelled.\<close> The sockets and the asynchronous tasks that move frames between them and the queues,
  the heartbeat, the parsing of the command line and the formatting of log lines. RCL, RMW, the generated
  type support, glob patterns, the text formats of JSON, CBOR and TOML, PNG and base64 are parameters; what
  is relied on is stated as an assumption of a locale or of a theorem.
\<close>

section \<open>The bridge as a whole\<close>

text \<open>A table mentions the connection.\<close>

definition belongs :: "nat \<Rightarrow> 'b bridge \<Rightarrow> bool" where
  "belongs owner s \<longleftrightarrow> has (outputs s) owner \<or>
     (\<exists>p \<in> set (vals (publishers s)). has (pub_owners p) owner) \<or>
     (\<exists>x \<in> set (vals (subscriptions s)). has (sub_clients x) owner) \<or>
     (\<exists>x \<in> set (vals (svcs s)). svc_owner x = owner) \<or>
     (\<exists>c \<in> set (vals (calls s)). call_owner c = owner) \<or>
     (\<exists>a \<in> set (vals (action_servers s)). srv_owner a = owner) \<or>
     (\<exists>g \<in> set (vals (goals s)). goal_owner g = owner) \<or>
     (\<exists>g \<in> set (vals (server_goals s)). sg_owner g = owner)"

lemma entries_vals: "entries P t \<Longrightarrow> v \<in> set (vals t) \<Longrightarrow> \<exists>k. P k v"
  by (fastforce simp: entries_def)

lemma absent_owner:
  assumes "consistent H E s" "owner \<notin> set (keys (outputs s))"
  shows "\<not> belongs owner s"
proof -
  have absent: "\<not> present (\<lambda>_. {}) k (outputs s) owner" for k using assms(2) by (simp add: present_def)
  have t: "tables_ok E (\<lambda>_. {}) {} {} s" using assms(1) by (simp add: consistent_def bridge_inv_def)
  have "\<not> has (pub_owners p) owner" if "p \<in> set (vals (publishers s))" for p
    using t absent entries_vals [OF _ that] by (fastforce simp: tables_ok_def publisher_ok_def)
  moreover have "\<not> has (sub_clients x) owner" if "x \<in> set (vals (subscriptions s))" for x
    using t absent entries_vals [OF _ that] by (fastforce simp: tables_ok_def subscription_ok_def)
  moreover have "svc_owner x \<noteq> owner" if "x \<in> set (vals (svcs s))" for x
    using t absent entries_vals [OF _ that] by (fastforce simp: tables_ok_def)
  moreover have "call_owner c \<noteq> owner" if "c \<in> set (vals (calls s))" for c
    using t absent entries_vals [OF _ that] by (fastforce simp: tables_ok_def)
  moreover have srv: "srv_owner a \<noteq> owner" if "a \<in> set (vals (action_servers s))" for a
    using t absent entries_vals [OF _ that] by (fastforce simp: tables_ok_def)
  moreover have "goal_owner g \<noteq> owner" if "g \<in> set (vals (goals s))" for g
    using t absent entries_vals [OF _ that] by (fastforce simp: tables_ok_def goal_ok_def)
  moreover have "sg_owner g \<noteq> owner" if g: "g \<in> set (vals (server_goals s))" for g
  proof -
    obtain a where "map_of (action_servers s) (sg_action g) = Some a" "srv_owner a = sg_owner g"
      using t entries_vals [OF _ g] by (fastforce simp: tables_ok_def server_goal_ok_def)
    then have "a \<in> set (vals (action_servers s))" by (force dest: map_of_SomeD)
    then show ?thesis using srv [of a] \<open>srv_owner a = sg_owner g\<close> by simp
  qed
  ultimately show ?thesis using assms(2) by (auto simp: belongs_def)
qed

definition loop_bridge :: "loop node bridge" where
  "loop_bridge = bridge_new loop_node (secs 5) (\<lambda>_. sample_queue)"

lemma loop_consistent: "consistent loop_host loop_env loop_bridge"
  unfolding loop_bridge_def
  by (rule consistent_new [OF loop.ros_bridge_axioms loop_start])

text \<open>
  C1. The ownership invariant of the bridge: after any sequence of connections, operations,
  ticks, disconnects and reads of the send queues, every entity that is alive in the ROS backend
  is held by exactly one entry of the tables of the bridge, and every entry belongs to a
  connected client.
\<close>

theorem worker_owns_entities:
  assumes "ros_bridge W H E" "node_valid H b" "node_live b = {}" "instant_ok t"
    and "worker_admissible E evs (bridge_new b t qs)"
    and "worker_run E evs (bridge_new b t qs) = s"
  shows "owned s = mset_set (node_live (backend s)) \<and> tables_ok E (\<lambda>_. {}) {} {} s"
  using bridge_env.worker_run_inv [OF ros_bridge.env [OF assms(1)]
      bridge_env.new_inv [OF ros_bridge.env [OF assms(1)] assms(2-4)] assms(5)] assms(6)
  by (simp add: bridge_inv_def)

theorem worker_owns_entities_witness:
  "\<exists>s. worker_run loop_env [Connected 1 0, Elapsed 7, Ticked, Disconnected 1] loop_bridge = s \<and>
     owned s = mset_set (node_live (backend s))"
proof -
  have "worker_admissible loop_env [Connected 1 0, Elapsed 7, Ticked, Disconnected 1] loop_bridge"
    by (simp add: worker_allowed_def worker_step_def loop_bridge_def bridge_new_def connect_def instant_ok_def
        secs_def NANOS_def sample_queue_ok)
  then show ?thesis
    using worker_owns_entities [OF loop.ros_bridge_axioms loop_start] unfolding loop_bridge_def by blast
qed

text \<open>
  C2. An operation of a client never returns an error to the worker and leaves the bridge consistent,
  whatever its JSON value and whether or not it is denied or malformed. It panics only if it is a service
  call that asks for a deadline beyond the range of the machine's clock, which the source does not check.
  Goal identifiers must not be used up.
\<close>

theorem command_never_fails:
  assumes "ros_bridge W H E" "consistent H E s" "uuid_count s < UUIDS"
  shows "(\<exists>t. command E owner v s = (Ok (), t) \<and> consistent H E t) \<or>
    fst (command E owner v s) = Panic \<and> required v ''op'' = Ok ''call_service'' \<and>
    (\<exists>n. call_timeout v (timeout s) = Ok n \<and> \<not> instant_ok (clock s + n))"
proof (cases "in_range v s")
  case True
  then show ?thesis using triple_succeeds [OF ros_commands(1) [OF assms(1)], of s v owner] assms(2) by auto
next
  case False
  then have "required v ''op'' = Ok ''call_service''" "\<exists>n. call_timeout v (timeout s) = Ok n \<and> \<not> instant_ok (clock s + n)"
    using assms(3) by (auto simp: in_range_def)
  with bridge_env.call_command [OF ros_bridge.env [OF assms(1)] this(1) assms(2) [unfolded consistent_def], of owner] show ?thesis
    by (auto simp: consistent_def)
qed

theorem command_never_fails_witness:
  "\<exists>t. command loop_env 1 (JObj [(''op'', JStr ''publish''), (''topic'', JArr [])]) loop_bridge = (Ok (), t) \<and>
     consistent loop_host loop_env t"
proof -
  have "uuid_count loop_bridge < UUIDS" by (simp add: loop_bridge_def bridge_new_def UUIDS_def)
  from command_never_fails [OF loop.ros_bridge_axioms loop_consistent this,
      of 1 "JObj [(''op'', JStr ''publish''), (''topic'', JArr [])]"]
  show ?thesis by (simp add: required_def)
qed







text \<open>
  C5. A tick never panics and keeps the bridge consistent; it returns an error only when
  polling the backend does.
\<close>

theorem tick_fails_only_polling:
  assumes "ros_bridge W H E" "consistent H E s"
  shows "consistent H E (snd (tick E s)) \<and>
    (case fst (tick E s) of Ok _ \<Rightarrow> True | Err e \<Rightarrow> fst (node_poll W H (backend s)) = Err e | Panic \<Rightarrow> False)"
proof -
  obtain r t where r: "tick E s = (r, t)" by (cases rule: prod.exhaust)
  have b: "be_poll (e_backend E) = node_poll W H"
    using assms(1) by (simp add: ros_bridge.backend_is node_backend_def)
  have "consistent H E t" using triple_snd [OF ros_commands(2) [OF assms(1)] assms(2)] r by simp
  moreover have "fst (node_poll W H (backend s)) = Err e" if "r = Err e" for e
    using bridge_env.tick_error [OF ros_bridge.env [OF assms(1)], of s e t] assms(2) r that b
    by (auto simp: consistent_def onB_def split: prod.splits)
  moreover have "r \<noteq> Panic" using triple_no_panic [OF ros_commands(2) [OF assms(1)] assms(2)] r by simp
  ultimately show ?thesis using r by (auto split: outcome.split)
qed

theorem tick_fails_only_polling_witness:
  "consistent loop_host loop_env (snd (tick loop_env loop_bridge))"
  using tick_fails_only_polling [OF loop.ros_bridge_axioms loop_consistent] by blast

text \<open>
  C4. After a disconnect no table mentions the connection: nothing it published, subscribed
  to, served, called or waited for is left, and the disconnect itself never fails.
\<close>

theorem disconnect_forgets:
  assumes "ros_bridge W H E" "consistent H E s"
  shows "\<exists>t. disconnect E owner s = (Ok (), t) \<and> consistent H E t \<and> \<not> belongs owner t"
proof -
  obtain t where t: "disconnect E owner s = (Ok (), t)" "consistent H E t" "set (keys (outputs t)) \<subseteq> UNIV - {owner}"
    using triple_succeeds [OF ros_commands(3) [OF assms(1)], of s owner UNIV] assms(2) by auto
  then show ?thesis using absent_owner [of H E t owner] by auto
qed

theorem disconnect_forgets_witness:
  "\<exists>t. disconnect loop_env 1 loop_bridge = (Ok (), t) \<and> \<not> belongs 1 t"
  using disconnect_forgets [OF loop.ros_bridge_axioms loop_consistent] by blast

text \<open>
  C3. Shutting down gives everything back: it never fails, and afterwards no entity created
  for a client is alive in the ROS backend and every table is empty.
\<close>

theorem shutdown_releases:
  assumes "ros_bridge W H E" "consistent H E s"
  shows "\<exists>t. shutdown E s = (Ok (), t) \<and> node_live (backend t) = {} \<and> outputs t = [] \<and> publishers t = [] \<and>
    subscriptions t = [] \<and> svcs t = [] \<and> calls t = [] \<and> goals t = [] \<and> action_servers t = [] \<and>
    external t = [] \<and> action_calls t = [] \<and> server_goals t = []"
proof -
  obtain t where t: "shutdown E s = (Ok (), t)" "consistent H E t" "outputs t = []"
    using triple_succeeds [OF ros_commands(4) [OF assms(1)] assms(2)] by auto
  then show ?thesis
    using bridge_env.nothing_owned [OF ros_bridge.env [OF assms(1)], of t] by (simp add: consistent_def)
qed

theorem shutdown_releases_witness:
  "\<exists>t. shutdown loop_env (connect 1 0 loop_bridge) = (Ok (), t) \<and> node_live (backend t) = {} \<and> outputs t = []"
proof -
  have "consistent loop_host loop_env (connect 1 0 loop_bridge)"
    using bridge_env.connect_inv [OF loop.env loop_consistent [unfolded consistent_def], of 0 1]
    by (simp add: consistent_def loop_bridge_def bridge_new_def sample_queue_ok)
  from shutdown_releases [OF loop.ros_bridge_axioms this] show ?thesis by blast
qed

end
